(* ===== verification/Prelude.thy ===== *)
theory Prelude
  imports Main "HOL-Library.Word" "HOL-Library.Multiset"
begin

text \<open>
  Shared vocabulary of the development: the result types that stand for Go's
  \<open>(value, error)\<close> returns, 64-bit arithmetic, instants and durations, the
  \<open>sort.Slice\<close> contract, and the list and map lemmas the components use.

  A Go \<open>int\<close>, \<open>int64\<close> or \<open>time.Duration\<close> is an \<open>int\<close> whose arithmetic is wrapped
  with \<open>i64\<close> wherever the code can overflow; a \<open>time.Time\<close> is the number of
  nanoseconds since the epoch (UTC), unbounded.
\<close>

named_theorems go_defs \<open>unfolding rules of the Go standard-library vocabulary\<close>
named_theorems store_simps \<open>what a store returns after one of its operations\<close>
named_theorems inv_intros \<open>operations that keep a component's invariant\<close>
named_theorems frame_simps \<open>fields that an operation leaves alone\<close>

section \<open>Machine integers, instants, durations\<close>

type_synonym time = int
type_synonym duration = int

definition i64 :: "int \<Rightarrow> int" where
  "i64 n = sint (word_of_int n :: 64 word)"

lemma i64_def': "i64 n = signed_take_bit 63 n"
  by (simp add: i64_def sint_sbintrunc')

lemma i64_id: "- (2 ^ 63) \<le> n \<Longrightarrow> n < 2 ^ 63 \<Longrightarrow> i64 n = n"
  by (simp add: i64_def' signed_take_bit_int_eq_self)

lemma i64_lower: "- (2 ^ 63) \<le> i64 n"
  using signed_take_bit_int_greater_eq_minus_exp [of 63 n] by (simp add: i64_def')

lemma i64_upper: "i64 n < 2 ^ 63"
  using signed_take_bit_int_less_exp [of 63 n] by (simp add: i64_def')

abbreviation Millisecond :: duration where "Millisecond \<equiv> 1000000"
abbreviation Second :: duration where "Second \<equiv> 1000000000"
abbreviation Minute :: duration where "Minute \<equiv> 60000000000"
abbreviation Hour :: duration where "Hour \<equiv> 3600000000000"

text \<open>\<open>t.Sub(u)\<close> saturates at the ends of the duration range.\<close>

definition time_sub :: "time \<Rightarrow> time \<Rightarrow> duration" where
  "time_sub t u = max (- (2 ^ 63)) (min (2 ^ 63 - 1) (t - u))"

lemma time_sub_less: "d \<le> 2 ^ 63 - 1 \<Longrightarrow> - (2 ^ 63) < d \<Longrightarrow> time_sub t u < d \<longleftrightarrow> t - u < d"
  by (auto simp: time_sub_def)

text \<open>\<open>t.UTC().Truncate(time.Millisecond)\<close>.\<close>

definition truncate_ms :: "time \<Rightarrow> time" where
  "truncate_ms t = t - t mod Millisecond"

lemma truncate_ms_le: "truncate_ms t \<le> t"
  by (simp add: truncate_ms_def)

lemma truncate_ms_gt: "t - Millisecond < truncate_ms t"
  by (simp add: truncate_ms_def)

lemma truncate_ms_mono: "t \<le> u \<Longrightarrow> truncate_ms t \<le> truncate_ms u"
  by (simp add: truncate_ms_def minus_mod_eq_mult_div zdiv_mono1)

section \<open>sort.Slice\<close>

text \<open>
  \<open>sort.Slice\<close> is not stable: of the lists with the right elements in a non-descending
  order it returns an unspecified one. A model that sorts takes the routine as the
  argument \<open>srt\<close>; \<open>sort_slice_spec\<close> is what the documentation of the package promises.
\<close>

type_synonym 'a sorter = "('a \<Rightarrow> 'a \<Rightarrow> bool) \<Rightarrow> 'a list \<Rightarrow> 'a list"

definition sort_slice_spec :: "'a sorter \<Rightarrow> bool" where
  "sort_slice_spec srt \<longleftrightarrow>
     (\<forall>lt xs. mset (srt lt xs) = mset xs \<and>
       (asymp lt \<and> transp (\<lambda>a b. \<not> lt b a) \<longrightarrow>
         sorted_wrt (\<lambda>a b. \<not> lt b a) (srt lt xs)))"

lemma sort_slice_mset: "sort_slice_spec srt \<Longrightarrow> mset (srt lt xs) = mset xs"
  by (simp add: sort_slice_spec_def)

lemma sort_slice_set: "sort_slice_spec srt \<Longrightarrow> set (srt lt xs) = set xs"
  by (metis sort_slice_mset set_mset_mset)

lemma sort_slice_length: "sort_slice_spec srt \<Longrightarrow> length (srt lt xs) = length xs"
  by (metis sort_slice_mset size_mset)

lemma sort_slice_sorted:
  "sort_slice_spec srt \<Longrightarrow> asymp lt \<Longrightarrow> transp (\<lambda>a b. \<not> lt b a) \<Longrightarrow>
   sorted_wrt (\<lambda>a b. \<not> lt b a) (srt lt xs)"
  by (simp add: sort_slice_spec_def)

text \<open>An insertion sort satisfies the contract; the witnesses use it.\<close>

fun insert_by :: "('a \<Rightarrow> 'a \<Rightarrow> bool) \<Rightarrow> 'a \<Rightarrow> 'a list \<Rightarrow> 'a list" where
  "insert_by lt x [] = [x]"
| "insert_by lt x (y # ys) = (if lt y x then y # insert_by lt x ys else x # y # ys)"

definition insertion_sort :: "'a sorter" where
  "insertion_sort lt xs = foldr (insert_by lt) xs []"

lemma mset_insert_by [simp]: "mset (insert_by lt x ys) = add_mset x (mset ys)"
  by (induction ys) auto

lemma set_insert_by [simp]: "set (insert_by lt x ys) = insert x (set ys)"
  by (induction ys) auto

lemma sorted_insert_by:
  assumes "asymp lt" and "transp (\<lambda>a b. \<not> lt b a)"
    and "sorted_wrt (\<lambda>a b. \<not> lt b a) ys"
  shows "sorted_wrt (\<lambda>a b. \<not> lt b a) (insert_by lt x ys)"
  using assms(3)
proof (induction ys)
  case Nil
  then show ?case by simp
next
  case (Cons y ys)
  show ?case
  proof (cases "lt y x")
    case True
    with assms(1) have "\<not> lt x y" by (auto dest: asympD)
    with True Cons show ?thesis by auto
  next
    case False
    with Cons.prems assms(2) show ?thesis by (auto dest: transpD)
  qed
qed

lemma insertion_sort_spec: "sort_slice_spec insertion_sort"
  unfolding sort_slice_spec_def insertion_sort_def
proof (intro allI conjI impI)
  fix lt :: "'a \<Rightarrow> 'a \<Rightarrow> bool" and xs :: "'a list"
  show "mset (foldr (insert_by lt) xs []) = mset xs"
    by (induction xs) auto
  assume "asymp lt \<and> transp (\<lambda>a b. \<not> lt b a)"
  then show "sorted_wrt (\<lambda>a b. \<not> lt b a) (foldr (insert_by lt) xs [])"
    by (induction xs) (auto intro: sorted_insert_by)
qed

section \<open>Iteration over Go maps\<close>

text \<open>
  Ranging over a Go map visits its keys in an order the runtime picks. A model that
  ranges over a map takes the order as an argument: a list that holds each key once.
\<close>

definition ranges_over :: "'k list \<Rightarrow> ('k \<rightharpoonup> 'v) \<Rightarrow> bool" where
  "ranges_over ks m \<longleftrightarrow> distinct ks \<and> set ks = dom m"

lemma ranges_over_dom: "ranges_over ks m \<Longrightarrow> k \<in> set ks \<longleftrightarrow> m k \<noteq> None"
  by (auto simp: ranges_over_def)

lemma ranges_over_distinct: "ranges_over ks m \<Longrightarrow> distinct ks"
  by (simp add: ranges_over_def)

definition map_values :: "'k list \<Rightarrow> ('k \<rightharpoonup> 'v) \<Rightarrow> 'v list" where
  "map_values ks m = List.map_filter m ks"

lemma set_map_values: "ranges_over ks m \<Longrightarrow> set (map_values ks m) = ran m"
  by (force simp: map_values_def List.map_filter_def ranges_over_def ran_def)

lemma map_values_simps [simp]:
  "map_values [] m = []"
  "map_values (k # ks) m = (case m k of None \<Rightarrow> map_values ks m | Some v \<Rightarrow> v # map_values ks m)"
  by (simp_all add: map_values_def List.map_filter_def split: option.split)

section \<open>Lists\<close>

lemma sorted_wrt_unique:
  assumes "antisymp_on (set xs) P" and "sorted_wrt P xs" and "sorted_wrt P ys"
    and "mset xs = mset ys" and "reflp_on (set xs) P"
  shows "xs = ys"
  using assms
proof (induction xs arbitrary: ys)
  case Nil
  then show ?case by simp
next
  case (Cons x xs)
  then obtain y ys' where ys: "ys = y # ys'" by (cases ys) auto
  have sets: "set (x # xs) = set ys" using Cons.prems(4) by (metis set_mset_mset)
  have "P y x \<or> y = x" using Cons.prems(3) sets ys by auto
  moreover have "P x y \<or> y = x"
  proof -
    have "y \<in> set (x # xs)" using sets ys by simp
    then show ?thesis using Cons.prems(2) by auto
  qed
  ultimately have "x = y"
    using Cons.prems(1) sets ys by (auto simp: antisymp_on_def)
  moreover have "xs = ys'"
  proof (rule Cons.IH)
    show "antisymp_on (set xs) P" using Cons.prems(1) by (auto simp: antisymp_on_def)
    show "sorted_wrt P xs" using Cons.prems(2) by simp
    show "sorted_wrt P ys'" using Cons.prems(3) ys by simp
    show "mset xs = mset ys'" using Cons.prems(4) ys \<open>x = y\<close> by simp
    show "reflp_on (set xs) P" using Cons.prems(5) by (auto simp: reflp_on_def)
  qed
  ultimately show ?case using ys by simp
qed

text \<open>\<open>takeWhile\<close>-style scans: the last \<open>n\<close> elements of a list, in their order.\<close>

definition last_n :: "nat \<Rightarrow> 'a list \<Rightarrow> 'a list" where
  "last_n n xs = drop (length xs - n) xs"

lemma last_n_rev: "last_n n xs = rev (take n (rev xs))"
  by (simp add: last_n_def take_rev)

text \<open>\<open>if limit > 0 && len(result) > limit { result = result[:limit] }\<close>\<close>

definition cut_limit :: "int \<Rightarrow> 'a list \<Rightarrow> 'a list" where
  "cut_limit limit xs = (if 0 < limit \<and> limit < int (length xs) then take (nat limit) xs else xs)"

lemma cut_limit_take: "0 < limit \<Longrightarrow> cut_limit limit xs = take (nat limit) xs"
  by (auto simp: cut_limit_def)

lemma length_last_n [simp]: "length (last_n n xs) = min n (length xs)"
  by (simp add: last_n_def)

end
