(* ===== verification/GoText.thy ===== *)
theory GoText
  imports Prelude "HOL-Library.Sublist" "HOL-Library.Char_ord" "HOL-Library.List_Lexorder"
begin

text \<open>
  Go strings. A Go \<open>string\<close> is a byte sequence, and so is Isabelle's \<open>string\<close> (a \<open>char\<close>
  is one byte): \<open>len(s)\<close> is \<open>length s\<close>, \<open>s[:n]\<close> is \<open>take n s\<close>, \<open>s + t\<close> is \<open>s @ t\<close> and
  \<open><\<close> is the bytewise lexicographic order. Ranging over a string and \<open>[]rune(s)\<close> decode
  UTF-8 with Go's rules: an invalid byte is one step of width 1 that yields U+FFFD.
  Runes are natural numbers. The functions of the packages \<open>strings\<close> and
  \<open>unicode/utf8\<close> that the program uses are defined here, the Unicode case table of
  \<open>strings.ToLower\<close> apart, which is the argument \<open>lower\<close>.
\<close>

section \<open>UTF-8\<close>

type_synonym rune = nat

definition byte_of :: "char \<Rightarrow> nat" where
  "byte_of c = of_char c"

definition byte :: "nat \<Rightarrow> char" where
  "byte n = char_of n"

lemma byte_of_byte: "n < 256 \<Longrightarrow> byte_of (byte n) = n"
  by (simp add: byte_of_def byte_def)

lemma byte_of_less: "byte_of c < 256"
  by (simp add: byte_of_def)

abbreviation RuneError :: rune where "RuneError \<equiv> 65533"

definition cont :: "char \<Rightarrow> bool" where
  "cont c \<longleftrightarrow> 128 \<le> byte_of c \<and> byte_of c \<le> 191"

definition low6 :: "char \<Rightarrow> nat" where
  "low6 c = byte_of c - 128"

text \<open>
  \<open>utf8.DecodeRuneInString\<close>: the rune and the number of bytes it takes. The second byte's
  range depends on the first (no overlong forms, no surrogates, nothing beyond U+10FFFF).
\<close>

definition second_ok :: "nat \<Rightarrow> char \<Rightarrow> bool" where
  "second_ok b0 c = (let b1 = byte_of c in
     (if b0 = 224 then 160 \<le> b1 else if b0 = 240 then 144 \<le> b1 else 128 \<le> b1) \<and>
     (if b0 = 237 then b1 \<le> 159 else if b0 = 244 then b1 \<le> 143 else b1 \<le> 191))"

fun decode_rune :: "string \<Rightarrow> rune \<times> nat" where
  "decode_rune [] = (RuneError, 0)"
| "decode_rune (c # cs) = (let b0 = byte_of c in
     if b0 < 128 then (b0, 1)
     else if 194 \<le> b0 \<and> b0 \<le> 223 then
       (case cs of c1 # _ \<Rightarrow> if cont c1 then ((b0 - 192) * 64 + low6 c1, 2) else (RuneError, 1)
        | _ \<Rightarrow> (RuneError, 1))
     else if 224 \<le> b0 \<and> b0 \<le> 239 then
       (case cs of c1 # c2 # _ \<Rightarrow>
          if second_ok b0 c1 \<and> cont c2
          then ((b0 - 224) * 4096 + low6 c1 * 64 + low6 c2, 3) else (RuneError, 1)
        | _ \<Rightarrow> (RuneError, 1))
     else if 240 \<le> b0 \<and> b0 \<le> 244 then
       (case cs of c1 # c2 # c3 # _ \<Rightarrow>
          if second_ok b0 c1 \<and> cont c2 \<and> cont c3
          then ((b0 - 240) * 262144 + low6 c1 * 4096 + low6 c2 * 64 + low6 c3, 4)
          else (RuneError, 1)
        | _ \<Rightarrow> (RuneError, 1))
     else (RuneError, 1))"

lemma decode_rune_width: "cs \<noteq> [] \<Longrightarrow> 1 \<le> snd (decode_rune cs) \<and> snd (decode_rune cs) \<le> length cs"
  by (cases cs) (auto simp: Let_def split: list.split)

text \<open>A string cut into its runes, each with the bytes it was read from.\<close>

function segments :: "string \<Rightarrow> (rune \<times> string) list" where
  "segments s = (if s = [] then [] else
     let (r, n) = decode_rune s in (r, take n s) # segments (drop n s))"
  by pat_completeness auto
termination
proof (relation "measure length", goal_cases)
  case 1
  show ?case by simp
next
  case (2 s x r n)
  with decode_rune_width [of s] show ?case by (cases "decode_rune s") auto
qed

declare segments.simps [simp del]

lemma segments_Nil [simp]: "segments [] = []"
  by (simp add: segments.simps)

lemma segments_step:
  "s \<noteq> [] \<Longrightarrow> decode_rune s = (r, n) \<Longrightarrow> segments s = (r, take n s) # segments (drop n s)"
  by (subst segments.simps) simp

lemma segments_eq_Nil [simp]: "segments s = [] \<longleftrightarrow> s = []"
  by (subst segments.simps) (auto split: prod.split)

lemma concat_segments: "concat (map snd (segments s)) = s"
proof (induction s rule: segments.induct)
  case (1 s)
  show ?case
  proof (cases "s = []")
    case False
    obtain r n where d: "decode_rune s = (r, n)" by (cases "decode_rune s")
    from "1.IH" [OF False d [symmetric] refl] show ?thesis
      by (simp add: segments_step [OF False d])
  qed simp
qed

definition runes :: "string \<Rightarrow> rune list" where
  "runes s = map fst (segments s)"

lemma runes_Nil [simp]: "runes [] = []"
  by (simp add: runes_def)

lemma runes_eq_Nil [simp]: "runes s = [] \<longleftrightarrow> s = []"
  by (simp add: runes_def)

text \<open>\<open>utf8.AppendRune\<close>: what cannot be encoded is written as U+FFFD.\<close>

definition valid_rune :: "rune \<Rightarrow> bool" where
  "valid_rune r \<longleftrightarrow> r < 55296 \<or> (57344 \<le> r \<and> r < 1114112)"

definition encode_valid :: "rune \<Rightarrow> string" where
  "encode_valid r =
     (if r < 128 then [byte r]
      else if r < 2048 then [byte (192 + r div 64), byte (128 + r mod 64)]
      else if r < 65536 then
        [byte (224 + r div 4096), byte (128 + r div 64 mod 64), byte (128 + r mod 64)]
      else
        [byte (240 + r div 262144), byte (128 + r div 4096 mod 64),
         byte (128 + r div 64 mod 64), byte (128 + r mod 64)])"

definition encode_rune :: "rune \<Rightarrow> string" where
  "encode_rune r = encode_valid (if valid_rune r then r else RuneError)"

definition utf8 :: "rune list \<Rightarrow> string" where
  "utf8 rs = concat (map encode_rune rs)"

lemma utf8_simps [simp]: "utf8 [] = []" "utf8 (r # rs) = encode_rune r @ utf8 rs"
  by (simp_all add: utf8_def)

lemma cont_byte: "x < 64 \<Longrightarrow> cont (byte (128 + x))"
  by (simp add: cont_def byte_of_byte)

lemma low6_byte: "x < 64 \<Longrightarrow> low6 (byte (128 + x)) = x"
  by (simp add: low6_def byte_of_byte)

lemma second_ok_byte:
  "x < 64 \<Longrightarrow> second_ok b0 (byte (128 + x)) \<longleftrightarrow>
     (b0 = 224 \<longrightarrow> 32 \<le> x) \<and> (b0 = 240 \<longrightarrow> 16 \<le> x) \<and>
     (b0 = 237 \<longrightarrow> x < 32) \<and> (b0 = 244 \<longrightarrow> x < 16)"
  using byte_of_byte [of "128 + x"] by (auto simp: second_ok_def Let_def)

lemma decode_two:
  assumes "194 \<le> b0" and "b0 \<le> 223" and "x < 64"
  shows "decode_rune (byte b0 # byte (128 + x) # s) = ((b0 - 192) * 64 + x, 2)"
  using assms byte_of_byte [of b0] cont_byte low6_byte by (simp add: Let_def)

lemma decode_three:
  assumes "224 \<le> b0" and "b0 \<le> 239" and "x < 64" and "y < 64"
    and "b0 = 224 \<Longrightarrow> 32 \<le> x" and "b0 = 237 \<Longrightarrow> x < 32"
  shows "decode_rune (byte b0 # byte (128 + x) # byte (128 + y) # s) =
    ((b0 - 224) * 4096 + x * 64 + y, 3)"
  using assms byte_of_byte [of b0] cont_byte low6_byte second_ok_byte [of x b0]
  by (simp add: Let_def)

lemma decode_four:
  assumes "240 \<le> b0" and "b0 \<le> 244" and "x < 64" and "y < 64" and "z < 64"
    and "b0 = 240 \<Longrightarrow> 16 \<le> x" and "b0 = 244 \<Longrightarrow> x < 16"
  shows "decode_rune (byte b0 # byte (128 + x) # byte (128 + y) # byte (128 + z) # s) =
    ((b0 - 240) * 262144 + x * 4096 + y * 64 + z, 4)"
  using assms byte_of_byte [of b0] cont_byte low6_byte second_ok_byte [of x b0]
  by (simp add: Let_def)

declare decode_rune.simps(2) [simp del]

lemma base64_digits:
  fixes r :: nat
  shows "r = 64 * (r div 64) + r mod 64" and "r mod 64 < 64"
    and "r div 64 = 64 * (r div 4096) + r div 64 mod 64" and "r div 64 mod 64 < 64"
    and "r div 4096 = 64 * (r div 262144) + r div 4096 mod 64" and "r div 4096 mod 64 < 64"
proof -
  have "r div 4096 = r div 64 div 64" and "r div 262144 = r div 4096 div 64"
    by (simp_all flip: div_mult2_eq)
  then show "r div 64 = 64 * (r div 4096) + r div 64 mod 64"
    and "r div 4096 = 64 * (r div 262144) + r div 4096 mod 64" by simp_all
qed simp_all

lemma decode_encode_2:
  assumes "128 \<le> r" and "r < 2048"
  shows "decode_rune (encode_valid r @ s) = (r, length (encode_valid r))"
proof -
  note d = base64_digits [of r]
  have lo: "194 \<le> 192 + r div 64" and hi: "192 + r div 64 \<le> 223"
    using d(1,2) assms by linarith+
  have "decode_rune (encode_valid r @ s) = ((192 + r div 64 - 192) * 64 + r mod 64, 2)"
    using decode_two [OF lo hi d(2), of s] assms by (simp add: encode_valid_def)
  then show ?thesis using assms by (simp add: encode_valid_def)
qed

lemma decode_encode_3:
  assumes "2048 \<le> r" and "r < 65536" and "valid_rune r"
  shows "decode_rune (encode_valid r @ s) = (r, length (encode_valid r))"
proof -
  let ?q = "r div 4096" and ?x = "r div 64 mod 64" and ?y = "r mod 64"
  note d = base64_digits [of r]
  have lo: "224 \<le> 224 + ?q" by simp
  have hi: "224 + ?q \<le> 239" and low: "224 + ?q = 224 \<Longrightarrow> 32 \<le> ?x"
    and sur: "224 + ?q = 237 \<Longrightarrow> ?x < 32"
    using d(1-4) assms unfolding valid_rune_def by linarith+
  have "decode_rune (encode_valid r @ s) = ((224 + ?q - 224) * 4096 + ?x * 64 + ?y, 3)"
    using decode_three [OF lo hi d(4) d(2) low sur, of s] assms by (simp add: encode_valid_def)
  moreover have "(224 + ?q - 224) * 4096 + ?x * 64 + ?y = r" using d(1,3) by linarith
  ultimately show ?thesis using assms by (simp add: encode_valid_def)
qed

lemma decode_encode_4:
  assumes "65536 \<le> r" and "valid_rune r"
  shows "decode_rune (encode_valid r @ s) = (r, length (encode_valid r))"
proof -
  let ?q = "r div 262144" and ?x = "r div 4096 mod 64" and ?y = "r div 64 mod 64"
    and ?z = "r mod 64"
  note d = base64_digits [of r]
  have up: "r < 1114112" using assms unfolding valid_rune_def by linarith
  have lo: "240 \<le> 240 + ?q" by simp
  have hi: "240 + ?q \<le> 244" and low: "240 + ?q = 240 \<Longrightarrow> 16 \<le> ?x"
    and top: "240 + ?q = 244 \<Longrightarrow> ?x < 16"
    using d assms(1) up by linarith+
  have "decode_rune (encode_valid r @ s) =
      ((240 + ?q - 240) * 262144 + ?x * 4096 + ?y * 64 + ?z, 4)"
    using decode_four [OF lo hi d(6) d(4) d(2) low top, of s] assms
    by (simp add: encode_valid_def)
  moreover have "(240 + ?q - 240) * 262144 + ?x * 4096 + ?y * 64 + ?z = r"
    using d(1,3,5) by linarith
  ultimately show ?thesis using assms by (simp add: encode_valid_def)
qed

lemma decode_encode_valid:
  "valid_rune r \<Longrightarrow> decode_rune (encode_valid r @ s) = (r, length (encode_valid r))"
proof (cases "r < 128")
  case True
  with byte_of_byte [of r] have "byte_of (byte r) = r" by simp
  with True show ?thesis by (simp add: encode_valid_def decode_rune.simps Let_def)
next
  case False
  assume "valid_rune r"
  with False decode_encode_2 [of r s] decode_encode_3 [of r s] decode_encode_4 [of r s]
  show ?thesis by (meson not_less)
qed

lemma encode_valid_nonempty [simp]: "encode_valid r \<noteq> []"
  by (simp add: encode_valid_def)

lemma encode_rune_nonempty [simp]: "encode_rune r \<noteq> []"
  by (simp add: encode_rune_def)

lemma segments_encode:
  assumes "valid_rune r"
  shows "segments (encode_rune r @ s) = (r, encode_rune r) # segments s"
  using segments_step [of "encode_valid r @ s" r "length (encode_valid r)"]
    decode_encode_valid [OF assms, of s] assms
  by (simp add: encode_rune_def)

lemma runes_encode: "valid_rune r \<Longrightarrow> runes (encode_rune r @ s) = r # runes s"
  by (simp add: runes_def segments_encode)

lemma runes_utf8: "(\<And>r. r \<in> set rs \<Longrightarrow> valid_rune r) \<Longrightarrow> runes (utf8 rs) = rs"
  by (induction rs) (auto simp: runes_encode)

lemma low6_less: "cont c \<Longrightarrow> low6 c < 64"
  by (auto simp: cont_def low6_def)

lemma low6_second:
  "second_ok b0 c \<Longrightarrow> low6 c < 64 \<and> (b0 = 224 \<longrightarrow> 32 \<le> low6 c) \<and> (b0 = 240 \<longrightarrow> 16 \<le> low6 c) \<and>
     (b0 = 237 \<longrightarrow> low6 c < 32) \<and> (b0 = 244 \<longrightarrow> low6 c < 16)"
  by (auto simp: second_ok_def low6_def Let_def split: if_splits)

lemma three_valid:
  assumes "224 \<le> b0" and "b0 \<le> (239::nat)" and "second_ok b0 c1" and "cont c2"
  shows "valid_rune ((b0 - 224) * 4096 + low6 c1 * 64 + low6 c2)"
proof -
  define k x y where "k = b0 - 224" and "x = low6 c1" and "y = low6 c2"
  have k: "k \<le> 15" using assms(1,2) by (auto simp: k_def)
  have f: "x < 64" "y < 64" "k = 13 \<Longrightarrow> x < 32"
    using low6_second [OF assms(3)] low6_less [OF assms(4)] assms(1)
    by (auto simp: x_def y_def k_def)
  consider "k \<le> 12" | "k = 13" | "14 \<le> k" by linarith
  then have "k * 4096 + x * 64 + y < 55296 \<or>
      57344 \<le> k * 4096 + x * 64 + y \<and> k * 4096 + x * 64 + y < 1114112"
    by cases (use f k in linarith)+
  then show ?thesis by (simp add: valid_rune_def k_def x_def y_def)
qed

lemma four_valid:
  assumes "240 \<le> b0" and "b0 \<le> (244::nat)" and "second_ok b0 c1" and "cont c2" and "cont c3"
  shows "valid_rune ((b0 - 240) * 262144 + low6 c1 * 4096 + low6 c2 * 64 + low6 c3)"
proof -
  define k x y z where "k = b0 - 240" and "x = low6 c1" and "y = low6 c2" and "z = low6 c3"
  have k: "k \<le> 4" using assms(1,2) by (auto simp: k_def)
  have f: "x < 64" "y < 64" "z < 64" "k = 0 \<Longrightarrow> 16 \<le> x" "k = 4 \<Longrightarrow> x < 16"
    using low6_second [OF assms(3)] low6_less [OF assms(4)] low6_less [OF assms(5)] assms(1)
    by (auto simp: x_def y_def z_def k_def)
  consider "k = 0" | "1 \<le> k" "k \<le> 3" | "k = 4" using k by linarith
  then have "57344 \<le> k * 262144 + x * 4096 + y * 64 + z \<and>
      k * 262144 + x * 4096 + y * 64 + z < 1114112"
    by cases (use f k in linarith)+
  then show ?thesis by (simp add: valid_rune_def k_def x_def y_def z_def)
qed

lemma decode_rune_valid: "valid_rune (fst (decode_rune s))"
proof (cases s)
  case (Cons c cs)
  have err: "valid_rune RuneError" by (simp add: valid_rune_def)
  have two: "b0 \<le> 223 \<Longrightarrow> cont c1 \<Longrightarrow> valid_rune ((b0 - 192) * 64 + low6 c1)"
    for b0 :: nat and c1
    using low6_less [of c1] by (auto simp: valid_rune_def)
  show ?thesis unfolding Cons decode_rune.simps Let_def
    using err two three_valid four_valid by (auto split: list.split simp: valid_rune_def [of "byte_of c"])
qed (simp add: valid_rune_def)

lemma segments_valid: "x \<in> set (segments s) \<Longrightarrow> valid_rune (fst x)"
proof (induction s rule: segments.induct)
  case (1 s)
  show ?case
  proof (cases "s = []")
    case False
    obtain r n where d: "decode_rune s = (r, n)" by (cases "decode_rune s")
    from "1.prems" consider "x = (r, take n s)" | "x \<in> set (segments (drop n s))"
      by (auto simp: segments_step [OF False d])
    then show ?thesis
      using "1.IH" [OF False d [symmetric] refl] decode_rune_valid [of s] d by cases auto
  qed (use "1.prems" in simp)
qed

lemma runes_valid: "r \<in> set (runes s) \<Longrightarrow> valid_rune r"
  by (auto simp: runes_def dest: segments_valid)

section \<open>The package strings\<close>

text \<open>\<open>unicode.IsSpace\<close>, all of it: Latin-1 and the White_Space property above it.\<close>

definition is_space :: "rune \<Rightarrow> bool" where
  "is_space r \<longleftrightarrow> (9 \<le> r \<and> r \<le> 13) \<or> r = 32 \<or> r = 133 \<or> r = 160 \<or> r = 5760 \<or>
     (8192 \<le> r \<and> r \<le> 8202) \<or> r = 8232 \<or> r = 8233 \<or> r = 8239 \<or> r = 8287 \<or> r = 12288"

text \<open>
  \<open>strings.TrimSpace\<close>. A space rune starts at a byte that is no continuation byte, so the
  decoding from the right that Go uses for the right end cuts the same runes.
\<close>

definition trim_segs :: "(rune \<times> string) list \<Rightarrow> (rune \<times> string) list" where
  "trim_segs xs = rev (dropWhile (is_space \<circ> fst) (rev (dropWhile (is_space \<circ> fst) xs)))"

definition TrimSpace :: "string \<Rightarrow> string" where
  "TrimSpace s = concat (map snd (trim_segs (segments s)))"

text \<open>\<open>strings.Map\<close>: \<open>None\<close> stands for a negative result, which drops the rune.\<close>

definition MapRunes :: "(rune \<Rightarrow> rune option) \<Rightarrow> string \<Rightarrow> string" where
  "MapRunes f s = utf8 (List.map_filter f (runes s))"

text \<open>\<open>strings.ToLower\<close>, with the case table of the package \<open>unicode\<close> as an argument.\<close>

definition lower_ascii :: "rune \<Rightarrow> rune" where
  "lower_ascii r = (if 65 \<le> r \<and> r \<le> 90 then r + 32 else r)"

definition is_ascii :: "string \<Rightarrow> bool" where
  "is_ascii s = list_all (\<lambda>c. byte_of c < 128) s"

definition ToLower :: "(rune \<Rightarrow> rune) \<Rightarrow> string \<Rightarrow> string" where
  "ToLower lower s =
     (if is_ascii s then map (byte \<circ> lower_ascii \<circ> byte_of) s
      else MapRunes (Some \<circ> lower) s)"

definition HasPrefix :: "string \<Rightarrow> string \<Rightarrow> bool" where
  "HasPrefix s p \<longleftrightarrow> prefix p s"

fun Contains :: "string \<Rightarrow> string \<Rightarrow> bool" where
  "Contains [] t \<longleftrightarrow> t = []"
| "Contains (c # cs) t \<longleftrightarrow> prefix t (c # cs) \<or> Contains cs t"

lemma Contains_sublist: "Contains s t \<longleftrightarrow> sublist t s"
  by (induction s) (auto simp: sublist_Cons_right)

text \<open>\<open>strings.Cut\<close>: around the first occurrence, \<open>None\<close> when there is none.\<close>

fun Cut :: "string \<Rightarrow> string \<Rightarrow> (string \<times> string) option" where
  "Cut s sep = (if prefix sep s then Some ([], drop (length sep) s) else
     case s of [] \<Rightarrow> None
     | c # cs \<Rightarrow> map_option (\<lambda>(a, b). (c # a, b)) (Cut cs sep))"

declare Cut.simps [simp del]

lemma Cut_Some: "Cut s sep = Some (a, b) \<Longrightarrow> s = a @ sep @ b"
proof (induction s arbitrary: a b)
  case Nil
  then show ?case by (auto simp: Cut.simps prefix_def split: if_splits)
next
  case (Cons c cs)
  then show ?case
    by (subst (asm) Cut.simps) (auto simp: prefix_def split: if_splits)
qed

lemma Cut_prefix: "prefix sep s \<Longrightarrow> Cut s sep = Some ([], drop (length sep) s)"
  by (simp add: Cut.simps)

section \<open>Facts about trimming\<close>

lemma trim_segs_cases:
  obtains ls rs where "xs = ls @ trim_segs xs @ rs"
    and "\<forall>x \<in> set ls. is_space (fst x)" and "\<forall>x \<in> set rs. is_space (fst x)"
proof
  let ?P = "is_space \<circ> fst"
  let ?ys = "dropWhile ?P xs"
  show "xs = takeWhile ?P xs @ trim_segs xs @ rev (takeWhile ?P (rev ?ys))"
    by (metis rev_append rev_rev_ident takeWhile_dropWhile_id trim_segs_def)
  show "\<forall>x \<in> set (takeWhile ?P xs). is_space (fst x)" by (auto dest: set_takeWhileD)
  show "\<forall>x \<in> set (rev (takeWhile ?P (rev ?ys))). is_space (fst x)"
    by (auto dest: set_takeWhileD)
qed

lemma TrimSpace_empty_iff: "TrimSpace s = [] \<longleftrightarrow> (\<forall>r \<in> set (runes s). is_space r)"
proof
  obtain ls rs where x: "segments s = ls @ trim_segs (segments s) @ rs"
    and sp: "\<forall>x \<in> set ls. is_space (fst x)" "\<forall>x \<in> set rs. is_space (fst x)"
    by (rule trim_segs_cases)
  assume "TrimSpace s = []"
  then have emp: "\<forall>x \<in> set (trim_segs (segments s)). snd x = []"
    by (simp add: TrimSpace_def)
  have ne: "\<forall>x \<in> set (segments t). snd x \<noteq> []" for t
  proof (induction t rule: segments.induct)
    case (1 t)
    show ?case
    proof (cases "t = []")
      case False
      obtain r n where d: "decode_rune t = (r, n)" by (cases "decode_rune t")
      have "1 \<le> n" using decode_rune_width [OF False] d by simp
      then show ?thesis using "1.IH" [OF False d [symmetric] refl] False
        by (simp add: segments_step [OF False d])
    qed simp
  qed
  have "set (trim_segs (segments s)) \<subseteq> set (segments s)"
    by (subst (2) x) auto
  with emp ne [of s] have "trim_segs (segments s) = []"
    by (cases "trim_segs (segments s)") auto
  with x have "segments s = ls @ rs" by simp
  with sp show "\<forall>r \<in> set (runes s). is_space r" by (auto simp: runes_def)
next
  assume a: "\<forall>r \<in> set (runes s). is_space r"
  then have d: "dropWhile (is_space \<circ> fst) (segments s) = []"
    by (simp add: dropWhile_eq_Nil_conv runes_def)
  show "TrimSpace s = []" unfolding TrimSpace_def trim_segs_def d by simp
qed

lemma TrimSpace_sublist: "sublist (TrimSpace s) s"
proof -
  obtain ls rs where x: "segments s = ls @ trim_segs (segments s) @ rs"
    by (rule trim_segs_cases)
  have "s = concat (map snd (segments s))" by (simp add: concat_segments)
  also have "\<dots> = concat (map snd ls) @ TrimSpace s @ concat (map snd rs)"
    by (subst x) (simp add: TrimSpace_def)
  finally show ?thesis by (metis sublist_appendI)
qed

lemma length_TrimSpace: "length (TrimSpace s) \<le> length s"
  by (rule sublist_length_le [OF TrimSpace_sublist])

text \<open>On strings of ASCII bytes the rune functions are byte functions.\<close>

lemma decode_ascii: "byte_of c < 128 \<Longrightarrow> decode_rune (c # cs) = (byte_of c, 1)"
  by (simp add: decode_rune.simps)

lemma segments_ascii: "is_ascii s \<Longrightarrow> segments s = map (\<lambda>c. (byte_of c, [c])) s"
proof (induction s)
  case (Cons c cs)
  then have "byte_of c < 128" and "is_ascii cs" by (simp_all add: is_ascii_def)
  with Cons.IH segments_step [OF _ decode_ascii [of c cs]] show ?case by simp
qed simp

lemma runes_ascii: "is_ascii s \<Longrightarrow> runes s = map byte_of s"
  by (simp add: runes_def segments_ascii)

lemma byte_of_inj: "byte_of c = byte_of d \<longleftrightarrow> c = d"
  by (simp add: byte_of_def)

end
