(* ===== verification/Entities.thy ===== *)
theory Entities
  imports GoText
begin

text \<open>
  The package \<open>model\<close>: the sentinel errors shared by stores, services and handlers, the
  entities (\<open>User\<close>, \<open>Actor\<close>, \<open>Room\<close>, \<open>Danmaku\<close>, \<open>Report\<close>, \<open>Mute\<close>, \<open>AuditLog\<close>) and the
  WebSocket messages. Status, role and action values are Go strings in the source, not
  enumerations, and stay strings here: handlers pass them on from requests unchecked.
  A \<open>*time.Time\<close> that may be nil is a \<open>time option\<close>.
\<close>

section \<open>Errors\<close>

text \<open>
  One constructor per sentinel error variable. \<open>ErrNew\<close> is an error made in place by
  \<open>errors.New\<close> or by \<open>fmt.Errorf\<close> without \<open>%w\<close>; \<open>Errorf pre e post\<close> is \<open>fmt.Errorf\<close> with one
  \<open>%w\<close>, the text before it and the text after it.
\<close>

datatype go_error =
    ErrReportNotFound | ErrDanmakuNotFound | ErrDuplicateReport | ErrForbiddenTransition
  | ErrInsufficientRole | ErrCannotBanAdmin | ErrCannotChangeOwnRole | ErrLastAdmin
  | ErrCannotBanSelf | ErrTargetUserNotFound | ErrInvalidRole | ErrReportClosed
  | ErrBannedUserReport | ErrDanmakuRoomMismatch
  | StoreErrRoomNotFound | StoreErrRoomStatusConflict | StoreErrDuplicateUsername
  | ErrRoomNotFound | ErrRoomForbidden | ErrRoomInvalidTransition | ErrRoomAlreadyEnded
  | ErrRoomBanned
  | ErrUsernameTaken | ErrInvalidUsername | ErrWeakPassword | ErrInvalidCreds | ErrInvalidToken
  | ErrPersistenceQueueFull | ErrPersistenceFailed | ErrRoomNotLive | ErrContentBlocked
  | ErrMuted | ErrUserBanned
  | ErrNew string
  | Errorf string go_error string

fun error_text :: "go_error \<Rightarrow> string" where
  "error_text ErrReportNotFound = ''report not found''"
| "error_text ErrDanmakuNotFound = ''danmaku not found''"
| "error_text ErrDuplicateReport = ''duplicate report''"
| "error_text ErrForbiddenTransition = ''forbidden status transition''"
| "error_text ErrInsufficientRole = ''insufficient permissions''"
| "error_text ErrCannotBanAdmin = ''cannot ban an admin user''"
| "error_text ErrCannotChangeOwnRole = ''cannot change your own role''"
| "error_text ErrLastAdmin = ''cannot demote the last admin''"
| "error_text ErrCannotBanSelf = ''cannot ban yourself''"
| "error_text ErrTargetUserNotFound = ''target user not found''"
| "error_text ErrInvalidRole = ''invalid role''"
| "error_text ErrReportClosed = ''report already resolved or dismissed''"
| "error_text ErrBannedUserReport = ''banned users cannot report''"
| "error_text ErrDanmakuRoomMismatch = ''danmaku does not belong to this room''"
| "error_text StoreErrRoomNotFound = ''room not found''"
| "error_text StoreErrRoomStatusConflict = ''room status conflict''"
| "error_text StoreErrDuplicateUsername = ''username already exists''"
| "error_text ErrRoomNotFound = ''room not found''"
| "error_text ErrRoomForbidden = ''you are not the room owner''"
| "error_text ErrRoomInvalidTransition = ''room status transition is not allowed''"
| "error_text ErrRoomAlreadyEnded = ''room has already ended''"
| "error_text ErrRoomBanned = ''room is banned''"
| "error_text ErrUsernameTaken = ''username already taken''"
| "error_text ErrInvalidUsername = ''username must be 3-32 characters, letters and digits only''"
| "error_text ErrWeakPassword = ''password must be at least 6 characters''"
| "error_text ErrInvalidCreds = ''invalid username or password''"
| "error_text ErrInvalidToken = ''invalid or expired token''"
| "error_text ErrPersistenceQueueFull = ''persistence queue is full''"
| "error_text ErrPersistenceFailed = ''persistence failed''"
| "error_text ErrRoomNotLive = ''room is not live''"
| "error_text ErrContentBlocked = ''content blocked by moderation''"
| "error_text ErrMuted = ''user is muted in this room''"
| "error_text ErrUserBanned = ''user is banned''"
| "error_text (ErrNew msg) = msg"
| "error_text (Errorf pre e post) = pre @ error_text e @ post"

text \<open>\<open>errors.Is(err, target)\<close> for a sentinel \<open>target\<close>: compare, then unwrap.\<close>

fun errors_is :: "go_error \<Rightarrow> go_error \<Rightarrow> bool" where
  "errors_is (Errorf pre e post) target \<longleftrightarrow> errors_is e target"
| "errors_is (ErrNew msg) target \<longleftrightarrow> False"
| "errors_is e target \<longleftrightarrow> e = target"

fun root_cause :: "go_error \<Rightarrow> go_error" where
  "root_cause (Errorf pre e post) = root_cause e"
| "root_cause e = e"

fun is_sentinel :: "go_error \<Rightarrow> bool" where
  "is_sentinel (ErrNew msg) \<longleftrightarrow> False"
| "is_sentinel (Errorf pre e post) \<longleftrightarrow> False"
| "is_sentinel e \<longleftrightarrow> True"

lemma errors_is_root: "errors_is e t \<longleftrightarrow> root_cause e = t \<and> is_sentinel t"
  by (induction e) auto

lemma errors_is_unique: "errors_is e t \<Longrightarrow> errors_is e u \<Longrightarrow> t = u"
  by (simp add: errors_is_root)

section \<open>Users and rooms\<close>

text \<open>The zero \<open>time.Time\<close>, what a field that is never assigned holds: year 1, UTC.\<close>

definition zero_time :: time where
  "zero_time = - 62135596800 * Second"

abbreviation RoleUser :: string where "RoleUser \<equiv> ''user''"
abbreviation RoleModerator :: string where "RoleModerator \<equiv> ''moderator''"
abbreviation RoleAdmin :: string where "RoleAdmin \<equiv> ''admin''"

record user =
  u_id :: string
  u_username :: string
  u_password_hash :: string
  u_nickname :: string
  u_role :: string
  u_banned :: bool
  u_banned_at :: "time option"
  u_banned_reason :: string
  u_banned_by :: string
  u_created_at :: time
  u_updated_at :: time

record actor =
  a_user_id :: string
  a_username :: string
  a_nickname :: string
  a_role :: string
  a_authenticated :: bool

definition anonymous :: actor where
  "anonymous = \<lparr>a_user_id = '''', a_username = '''', a_nickname = '''', a_role = '''',
     a_authenticated = False\<rparr>"

definition ToActor :: "user \<Rightarrow> actor" where
  "ToActor u = \<lparr>a_user_id = u_id u, a_username = u_username u, a_nickname = u_nickname u,
     a_role = u_role u, a_authenticated = True\<rparr>"

abbreviation RoomStatusPending :: string where "RoomStatusPending \<equiv> ''pending''"
abbreviation RoomStatusLive :: string where "RoomStatusLive \<equiv> ''live''"
abbreviation RoomStatusEnded :: string where "RoomStatusEnded \<equiv> ''ended''"
abbreviation RoomStatusBanned :: string where "RoomStatusBanned \<equiv> ''banned''"

record room =
  r_id :: string
  r_title :: string
  r_owner_id :: string
  r_status :: string
  r_started_at :: "time option"
  r_ended_at :: "time option"
  r_created_at :: time
  r_updated_at :: time

section \<open>Danmaku and moderation records\<close>

abbreviation DanmakuStatusPending :: string where "DanmakuStatusPending \<equiv> ''pending''"
abbreviation DanmakuStatusApproved :: string where "DanmakuStatusApproved \<equiv> ''approved''"
abbreviation DanmakuStatusRejected :: string where "DanmakuStatusRejected \<equiv> ''rejected''"
abbreviation DanmakuStatusFlagged :: string where "DanmakuStatusFlagged \<equiv> ''flagged''"

record danmaku =
  d_id :: string
  d_content :: string
  d_color :: string
  d_type :: string
  d_font_size :: int
  d_room_id :: string
  d_timestamp :: time
  d_user_id :: string
  d_status :: string
  d_reviewed_by :: string
  d_reviewed_at :: "time option"
  d_review_reason :: string

abbreviation ReportStatusPending :: string where "ReportStatusPending \<equiv> ''pending''"
abbreviation ReportStatusResolved :: string where "ReportStatusResolved \<equiv> ''resolved''"
abbreviation ReportStatusDismissed :: string where "ReportStatusDismissed \<equiv> ''dismissed''"

record report =
  rp_id :: string
  rp_danmaku_id :: string
  rp_room_id :: string
  rp_reporter_user_id :: string
  rp_reason :: string
  rp_status :: string
  rp_created_at :: time
  rp_resolved_by :: string
  rp_resolved_at :: "time option"

record mute =
  m_id :: string
  m_user_id :: string
  m_room_id :: string
  m_created_by :: string
  m_created_at :: time
  m_expires_at :: time
  m_reason :: string

text \<open>\<open>Mute.IsActive\<close>, at the instant \<open>now\<close> that \<open>time.Now()\<close> returns.\<close>

definition IsActive :: "time \<Rightarrow> mute \<Rightarrow> bool" where
  "IsActive now m \<longleftrightarrow> now < m_expires_at m"

abbreviation AuditReviewDanmaku :: string where "AuditReviewDanmaku \<equiv> ''review_danmaku''"
abbreviation AuditBanUser :: string where "AuditBanUser \<equiv> ''ban_user''"
abbreviation AuditUnbanUser :: string where "AuditUnbanUser \<equiv> ''unban_user''"
abbreviation AuditMuteUser :: string where "AuditMuteUser \<equiv> ''mute_user''"
abbreviation AuditUnmuteUser :: string where "AuditUnmuteUser \<equiv> ''unmute_user''"
abbreviation AuditChangeRole :: string where "AuditChangeRole \<equiv> ''change_role''"
abbreviation AuditResolveReport :: string where "AuditResolveReport \<equiv> ''resolve_report''"

record audit_log =
  al_id :: string
  al_action :: string
  al_actor_user_id :: string
  al_target_user_id :: string
  al_target_danmaku_id :: string
  al_target_room_id :: string
  al_reason :: string
  al_created_at :: time

section \<open>WebSocket messages\<close>

text \<open>
  The server's messages as the values that \<open>json.Marshal\<close> is applied to: the envelope's
  type is the constructor, the payload its arguments.
\<close>

record history_payload =
  h_danmaku :: "danmaku list"
  h_room_id :: string
  h_has_more :: bool
  h_next_time :: string
  h_next_message_id :: string

record ack_payload =
  ack_request_id :: string
  ack_message_id :: string
  ack_ok :: bool
  ack_persistence :: string
  ack_error_code :: string
  ack_reason :: string

record error_payload =
  err_request_id :: string
  err_code :: string
  err_message :: string

datatype envelope =
    MsgBroadcast danmaku
  | MsgRetract string string
  | MsgAck ack_payload
  | MsgError error_payload
  | MsgHistory history_payload

fun msg_type :: "envelope \<Rightarrow> string" where
  "msg_type (MsgBroadcast d) = ''broadcast''"
| "msg_type (MsgRetract i r) = ''retract''"
| "msg_type (MsgAck a) = ''ack''"
| "msg_type (MsgError e) = ''error''"
| "msg_type (MsgHistory h) = ''history''"

record handle_result =
  hr_request_id :: string
  hr_message_id :: string
  hr_ok :: bool
  hr_error_code :: string
  hr_reason :: string
  hr_persistence :: string
  hr_data :: "danmaku option"

section \<open>Cursors: the order of a room's history\<close>

text \<open>
  The pair \<open>(created_at, id)\<close> by which history is ordered and resumed, as a type of its
  own with the lexicographic order of the SQL clause \<open>ORDER BY created_at, id\<close>.
\<close>

datatype cursor = Cursor (cur_time: time) (cur_id: string)

instantiation cursor :: linorder
begin

definition less_cursor :: "cursor \<Rightarrow> cursor \<Rightarrow> bool" where
  "c < d \<longleftrightarrow> cur_time c < cur_time d \<or> (cur_time c = cur_time d \<and> cur_id c < cur_id d)"

definition less_eq_cursor :: "cursor \<Rightarrow> cursor \<Rightarrow> bool" where
  "c \<le> d \<longleftrightarrow> c < d \<or> c = (d :: cursor)"

instance
proof
  fix c d e :: cursor
  show "c < d \<longleftrightarrow> c \<le> d \<and> \<not> d \<le> c" by (auto simp: less_cursor_def less_eq_cursor_def)
  show "c \<le> c" by (simp add: less_eq_cursor_def)
  show "c \<le> d \<Longrightarrow> d \<le> e \<Longrightarrow> c \<le> e" by (auto simp: less_cursor_def less_eq_cursor_def)
  show "c \<le> d \<Longrightarrow> d \<le> c \<Longrightarrow> c = d" by (auto simp: less_cursor_def less_eq_cursor_def)
  show "c \<le> d \<or> d \<le> c"
    unfolding less_cursor_def less_eq_cursor_def by (metis cursor.expand linorder_less_linear)
qed

end

definition danmaku_cursor :: "danmaku \<Rightarrow> cursor" where
  "danmaku_cursor d = Cursor (d_timestamp d) (d_id d)"

lemma danmaku_cursor_less:
  "danmaku_cursor d < danmaku_cursor e \<longleftrightarrow>
     d_timestamp d < d_timestamp e \<or> (d_timestamp d = d_timestamp e \<and> d_id d < d_id e)"
  by (simp add: danmaku_cursor_def less_cursor_def)

end
