(* ===== verification/Interfaces.thy ===== *)
theory Interfaces
  imports Entities
begin

text \<open>
  The interfaces of the package \<open>store\<close>. A Go interface value is a record of functions over
  the implementation's state: a method that writes returns the new state beside its result,
  a method that reads leaves the state alone; a method that can panic returns an option,
  \<open>None\<close> for the panic. \<open>error\<close> returns are \<open>go_error option\<close>, \<open>(value, error)\<close> returns are
  sums.

  One locale per interface states what the services rely on: what a lookup returns after a
  write, that a write keeps the implementation's invariant \<open>good\<close>, and that a write that
  returns an error has changed nothing. The last two hold of an implementation that can
  fail, so the services' lemmas hold over a store that fails at any call; the
  memory stores are proved to be instances.
\<close>

definition alter :: "'k \<Rightarrow> ('v \<Rightarrow> 'v) \<Rightarrow> ('k \<rightharpoonup> 'v) \<Rightarrow> ('k \<rightharpoonup> 'v)" where
  "alter k f m = (case m k of None \<Rightarrow> m | Some v \<Rightarrow> m(k \<mapsto> f v))"

lemma alter_apply: "alter k f m j = (if j = k then map_option f (m k) else m j)"
  by (simp add: alter_def split: option.split)

lemma alter_same [simp]: "alter k f m k = map_option f (m k)"
  by (simp add: alter_apply)

lemma alter_other [simp]: "j \<noteq> k \<Longrightarrow> alter k f m j = m j"
  by (simp add: alter_apply)

lemma dom_alter [simp]: "dom (alter k f m) = dom m"
  by (auto simp: alter_apply dom_def)

lemma alter_None: "m k = None \<Longrightarrow> alter k f m = m"
  by (simp add: alter_def)

section \<open>Users\<close>

record 'u user_ops =
  uo_Create :: "user \<Rightarrow> 'u \<Rightarrow> go_error option \<times> 'u"
  uo_FindByID :: "string \<Rightarrow> 'u \<Rightarrow> go_error + user option"
  uo_FindByUsername :: "string \<Rightarrow> 'u \<Rightarrow> go_error + user option"
  uo_UpdateRole :: "string \<Rightarrow> string \<Rightarrow> 'u \<Rightarrow> go_error option \<times> 'u"
  uo_BanUser :: "time \<Rightarrow> string \<Rightarrow> string \<Rightarrow> string \<Rightarrow> 'u \<Rightarrow> go_error option \<times> 'u"
  uo_UnbanUser :: "string \<Rightarrow> 'u \<Rightarrow> go_error option \<times> 'u"
  uo_ListBannedUsers :: "'u \<Rightarrow> go_error + user list"
  uo_HasAdminOtherThan :: "string \<Rightarrow> 'u \<Rightarrow> go_error + bool"

definition banned_user :: "time \<Rightarrow> string \<Rightarrow> string \<Rightarrow> user \<Rightarrow> user" where
  "banned_user now reason by u = u\<lparr>u_banned := True, u_banned_at := Some now,
     u_banned_reason := reason, u_banned_by := by\<rparr>"

definition unbanned_user :: "user \<Rightarrow> user" where
  "unbanned_user u = u\<lparr>u_banned := False, u_banned_at := None, u_banned_reason := '''',
     u_banned_by := ''''\<rparr>"

lemma banned_user_simps [simp]:
  "u_banned (banned_user now r b u)" "u_role (banned_user now r b u) = u_role u"
  "u_id (banned_user now r b u) = u_id u" "u_username (banned_user now r b u) = u_username u"
  "u_password_hash (banned_user now r b u) = u_password_hash u"
  "u_nickname (banned_user now r b u) = u_nickname u"
  by (simp_all add: banned_user_def)

lemma unbanned_user_simps [simp]:
  "\<not> u_banned (unbanned_user u)" "u_role (unbanned_user u) = u_role u"
  "u_id (unbanned_user u) = u_id u" "u_username (unbanned_user u) = u_username u"
  "u_password_hash (unbanned_user u) = u_password_hash u"
  "u_nickname (unbanned_user u) = u_nickname u"
  by (simp_all add: unbanned_user_def)

locale user_contract =
  fixes uo :: "'u user_ops" and good :: "'u \<Rightarrow> bool" and users :: "'u \<Rightarrow> string \<rightharpoonup> user"
  assumes find_by_id: "good s \<Longrightarrow> uo_FindByID uo i s = Inr r \<Longrightarrow> r = users s i"
    and find_by_name: "good s \<Longrightarrow> uo_FindByUsername uo n s = Inr r \<Longrightarrow>
      (case r of Some u \<Rightarrow> u_username u = n \<and> users s (u_id u) = Some u
       | None \<Rightarrow> \<forall>u \<in> ran (users s). u_username u \<noteq> n)"
    and key_is_id: "good s \<Longrightarrow> users s i = Some u \<Longrightarrow> u_id u = i"
    and create: "good s \<Longrightarrow> users s (u_id u) = None \<Longrightarrow> uo_Create uo u s = (e, s') \<Longrightarrow>
      good s' \<and> users s' = (if e = None then (users s)(u_id u \<mapsto> u) else users s)"
    and create_dup: "good s \<Longrightarrow> u' \<in> ran (users s) \<Longrightarrow> u_username u' = u_username u \<Longrightarrow>
      fst (uo_Create uo u s) \<noteq> None"
    and update_role: "good s \<Longrightarrow> uo_UpdateRole uo i role s = (e, s') \<Longrightarrow>
      good s' \<and> users s' = (if e = None then alter i (u_role_update (\<lambda>_. role)) (users s)
                             else users s)"
    and ban_user: "good s \<Longrightarrow> uo_BanUser uo now i reason by s = (e, s') \<Longrightarrow>
      good s' \<and> users s' = (if e = None then alter i (banned_user now reason by) (users s)
                             else users s)"
    and unban_user: "good s \<Longrightarrow> uo_UnbanUser uo i s = (e, s') \<Longrightarrow>
      good s' \<and> users s' = (if e = None then alter i unbanned_user (users s) else users s)"
    and has_admin: "good s \<Longrightarrow> uo_HasAdminOtherThan uo x s = Inr b \<Longrightarrow>
      b = (\<exists>u \<in> ran (users s). u_id u \<noteq> x \<and> u_role u = RoleAdmin)"

section \<open>Danmaku\<close>

record 'd store_ops =
  st_Add :: "danmaku \<Rightarrow> 'd \<Rightarrow> go_error option \<times> 'd"
  st_ListByRoom :: "string \<Rightarrow> int \<Rightarrow> 'd \<Rightarrow> danmaku list option"
  st_ListSince :: "string \<Rightarrow> time \<Rightarrow> string \<Rightarrow> int \<Rightarrow> 'd \<Rightarrow> go_error + danmaku list"
  st_Ping :: "'d \<Rightarrow> bool"

record 'd danmaku_ops =
  do_FindByID :: "string \<Rightarrow> 'd \<Rightarrow> go_error + danmaku option"
  do_UpdateStatus :: "string \<Rightarrow> string \<Rightarrow> string \<Rightarrow> string \<Rightarrow> time \<Rightarrow> 'd \<Rightarrow> (go_error + int) \<times> 'd"
  do_ListByStatus :: "string \<Rightarrow> string \<Rightarrow> int \<Rightarrow> 'd \<Rightarrow> go_error + danmaku list"

definition reviewed :: "string \<Rightarrow> string \<Rightarrow> string \<Rightarrow> time \<Rightarrow> danmaku \<Rightarrow> danmaku" where
  "reviewed status by reason at d = d\<lparr>d_status := status, d_reviewed_by := by,
     d_reviewed_at := Some at, d_review_reason := reason\<rparr>"

lemma reviewed_simps [simp]:
  "d_status (reviewed st b r a d) = st" "d_id (reviewed st b r a d) = d_id d"
  "d_room_id (reviewed st b r a d) = d_room_id d" "d_user_id (reviewed st b r a d) = d_user_id d"
  "d_content (reviewed st b r a d) = d_content d"
  "d_timestamp (reviewed st b r a d) = d_timestamp d"
  by (simp_all add: reviewed_def)

locale danmaku_contract =
  fixes dops :: "'d danmaku_ops" and good :: "'d \<Rightarrow> bool" and dms :: "'d \<Rightarrow> string \<rightharpoonup> danmaku"
  assumes find: "good s \<Longrightarrow> do_FindByID dops i s = Inr r \<Longrightarrow> r = dms s i"
    and key_is_id: "good s \<Longrightarrow> dms s i = Some d \<Longrightarrow> d_id d = i"
    and update: "good s \<Longrightarrow> do_UpdateStatus dops i st by reason at s = (res, s') \<Longrightarrow>
      good s' \<and> dms s' = (case res of Inr n \<Rightarrow> alter i (reviewed st by reason at) (dms s)
                          | Inl e \<Rightarrow> dms s)"
    and update_rows: "good s \<Longrightarrow> do_UpdateStatus dops i st by reason at s = (Inr n, s') \<Longrightarrow>
      n = 0 \<longleftrightarrow> dms s i = None"

section \<open>Rooms\<close>

record 'r room_ops =
  ro_Create :: "room \<Rightarrow> 'r \<Rightarrow> go_error option \<times> 'r"
  ro_FindByID :: "string \<Rightarrow> 'r \<Rightarrow> go_error + room option"
  ro_ListByStatus :: "string \<Rightarrow> int \<Rightarrow> 'r \<Rightarrow> (go_error + room list) option"
  ro_UpdateStatus :: "time \<Rightarrow> string \<Rightarrow> string \<Rightarrow> string \<Rightarrow> time \<Rightarrow> 'r \<Rightarrow> go_error option \<times> 'r"

definition room_moved :: "time \<Rightarrow> string \<Rightarrow> time \<Rightarrow> room \<Rightarrow> room" where
  "room_moved now to changed_at r =
     (let n = truncate_ms now;
          r1 = r\<lparr>r_status := to, r_updated_at := n\<rparr>;
          r2 = (if to = RoomStatusLive then r1\<lparr>r_started_at := Some n\<rparr> else r1)
      in if to = RoomStatusEnded then r2\<lparr>r_ended_at := Some (truncate_ms changed_at)\<rparr> else r2)"

lemma room_moved_simps [simp]:
  "r_status (room_moved now to c r) = to" "r_id (room_moved now to c r) = r_id r"
  "r_owner_id (room_moved now to c r) = r_owner_id r"
  "r_title (room_moved now to c r) = r_title r"
  "r_created_at (room_moved now to c r) = r_created_at r"
  by (simp_all add: room_moved_def Let_def)

text \<open>A room as the service creates it: not started, with a status, its instants whole milliseconds.\<close>

definition fresh_room :: "room \<Rightarrow> bool" where
  "fresh_room r \<longleftrightarrow> r_started_at r = None \<and> r_ended_at r = None \<and> r_status r \<noteq> '''' \<and>
     r_created_at r mod Millisecond = 0 \<and> r_updated_at r mod Millisecond = 0"

text \<open>The condition of the update is \<open>WHERE id = ? AND status = ?\<close>: compare and set.\<close>

locale room_contract =
  fixes rops :: "'r room_ops" and good :: "'r \<Rightarrow> bool" and rooms :: "'r \<Rightarrow> string \<rightharpoonup> room"
  assumes find: "good s \<Longrightarrow> ro_FindByID rops i s = Inr res \<Longrightarrow> res = rooms s i"
    and create: "good s \<Longrightarrow> fresh_room r \<Longrightarrow> ro_Create rops r s = (e, s') \<Longrightarrow>
      good s' \<and> rooms s' = (if e = None then (rooms s)(r_id r \<mapsto> r) else rooms s)"
    and update: "good s \<Longrightarrow> ro_UpdateStatus rops now i from to at s = (e, s') \<Longrightarrow>
      good s' \<and> rooms s' = (if e = None then alter i (room_moved now to at) (rooms s)
                             else rooms s)"
    and update_cas: "good s \<Longrightarrow> ro_UpdateStatus rops now i from to at s = (None, s') \<Longrightarrow>
      \<exists>r. rooms s i = Some r \<and> r_status r = from"

section \<open>Reports, audit log, mutes\<close>

record 'p report_ops =
  po_Create :: "report \<Rightarrow> 'p \<Rightarrow> go_error option \<times> 'p"
  po_FindByID :: "string \<Rightarrow> 'p \<Rightarrow> go_error + report option"
  po_FindByDanmakuAndReporter :: "string \<Rightarrow> string \<Rightarrow> 'p \<Rightarrow> go_error + report option"
  po_ListByStatus :: "string \<Rightarrow> int \<Rightarrow> 'p \<Rightarrow> go_error + report list"
  po_UpdateStatus :: "string \<Rightarrow> string \<Rightarrow> string \<Rightarrow> time \<Rightarrow> 'p \<Rightarrow> go_error option \<times> 'p"

definition closed_report :: "string \<Rightarrow> string \<Rightarrow> time \<Rightarrow> report \<Rightarrow> report" where
  "closed_report status by at r =
     r\<lparr>rp_status := status, rp_resolved_by := by, rp_resolved_at := Some at\<rparr>"

lemma closed_report_simps [simp]:
  "rp_status (closed_report st b a r) = st" "rp_id (closed_report st b a r) = rp_id r"
  "rp_danmaku_id (closed_report st b a r) = rp_danmaku_id r"
  "rp_reporter_user_id (closed_report st b a r) = rp_reporter_user_id r"
  "rp_room_id (closed_report st b a r) = rp_room_id r"
  by (simp_all add: closed_report_def)

locale report_contract =
  fixes pops :: "'p report_ops" and good :: "'p \<Rightarrow> bool" and reports :: "'p \<Rightarrow> string \<rightharpoonup> report"
  assumes find: "good s \<Longrightarrow> po_FindByID pops i s = Inr res \<Longrightarrow> res = reports s i"
    and find_pair: "good s \<Longrightarrow> po_FindByDanmakuAndReporter pops d u s = Inr res \<Longrightarrow>
      res = None \<longleftrightarrow> (\<forall>x \<in> ran (reports s). \<not> (rp_danmaku_id x = d \<and> rp_reporter_user_id x = u))"
    and create: "good s \<Longrightarrow> reports s (rp_id r) = None \<Longrightarrow> po_Create pops r s = (e, s') \<Longrightarrow>
      good s' \<and> reports s' = (if e = None then (reports s)(rp_id r \<mapsto> r) else reports s)"
    and update: "good s \<Longrightarrow> po_UpdateStatus pops i st by at s = (e, s') \<Longrightarrow>
      good s' \<and> reports s' = (if e = None then alter i (closed_report st by at) (reports s)
                               else reports s)"

record 'a audit_ops =
  ao_Add :: "audit_log \<Rightarrow> 'a \<Rightarrow> go_error option \<times> 'a"
  ao_List :: "int \<Rightarrow> int \<Rightarrow> 'a \<Rightarrow> (go_error + audit_log list) option"

locale audit_contract =
  fixes aops :: "'a audit_ops" and entries :: "'a \<Rightarrow> audit_log list"
  assumes add: "ao_Add aops x s = (e, s') \<Longrightarrow>
      entries s' = (if e = None then entries s @ [x] else entries s)"

record 'm mute_ops =
  mo_Create :: "mute \<Rightarrow> 'm \<Rightarrow> go_error option \<times> 'm"
  mo_FindActiveByUserAndRoom :: "time \<Rightarrow> string \<Rightarrow> string \<Rightarrow> 'm \<Rightarrow> go_error + mute option"
  mo_DeleteByUserAndRoom :: "string \<Rightarrow> string \<Rightarrow> 'm \<Rightarrow> go_error option \<times> 'm"
  mo_ListActiveByRoom :: "time \<Rightarrow> string \<Rightarrow> 'm \<Rightarrow> go_error + mute list"

text \<open>
  \<open>muted s u r\<close> is the mute that is in force for a user in a room, whatever its expiry. The
  identifiers \<open>ok\<close> accepts are those the contract covers.
\<close>

locale mute_contract =
  fixes mops :: "'m mute_ops" and ok :: "string \<Rightarrow> bool"
    and muted :: "'m \<Rightarrow> string \<times> string \<rightharpoonup> mute"
  assumes find_active: "ok u \<Longrightarrow> mo_FindActiveByUserAndRoom mops now u r s = Inr x \<Longrightarrow>
      x = (case muted s (u, r) of Some m \<Rightarrow> if IsActive now m then Some m else None
           | None \<Rightarrow> None)"
    and create: "ok (m_user_id m) \<Longrightarrow> ok u \<Longrightarrow> mo_Create mops m s = (e, s') \<Longrightarrow>
      muted s' (u, r) = (if e = None \<and> (u, r) = (m_user_id m, m_room_id m) then Some m
                         else muted s (u, r))"
    and delete: "ok v \<Longrightarrow> ok u \<Longrightarrow> mo_DeleteByUserAndRoom mops v q s = (e, s') \<Longrightarrow>
      muted s' (u, r) = (if e = None \<and> (u, r) = (v, q) then None else muted s (u, r))"

end
