(* ===== verification/DanmakuStore.thy ===== *)
theory DanmakuStore
  imports Interfaces
begin

text \<open>
  \<open>store/store.go\<close>: the in-memory danmaku store, which is both the \<open>Store\<close> of the danmaku
  service and the \<open>DanmakuModerationStore\<close> of the moderation service. Its state is the slice
  of danmaku in arrival order. A method that allocates with \<open>make(.., 0, limit)\<close> or slices with
  a computed bound returns \<open>None\<close> where Go panics.
\<close>

record memory_store =
  danmakus :: "danmaku list"

section \<open>Operations\<close>

definition New :: memory_store where
  "New = \<lparr>danmakus = []\<rparr>"

definition Add :: "danmaku \<Rightarrow> memory_store \<Rightarrow> go_error option \<times> memory_store" where
  "Add d s = (let d = (if d_status d = '''' then d\<lparr>d_status := DanmakuStatusApproved\<rparr> else d)
     in (None, s\<lparr>danmakus := danmakus s @ [d]\<rparr>))"

text \<open>The in-place reversal by swapping from both ends, shared by the list queries.\<close>

function swap_reverse :: "nat \<Rightarrow> nat \<Rightarrow> 'a list \<Rightarrow> 'a list" where
  "swap_reverse i j xs =
     (if i < j then swap_reverse (i + 1) (j - 1) (xs[i := xs ! j, j := xs ! i]) else xs)"
  by pat_completeness auto
termination
  by (relation "measure (\<lambda>(i, j, xs). j - i)") auto

declare swap_reverse.simps [simp del]

definition in_room :: "string \<Rightarrow> danmaku \<Rightarrow> bool" where
  "in_room rid d \<longleftrightarrow> d_room_id d = rid \<and> d_status d = DanmakuStatusApproved"

text \<open>The loop of \<open>ListByRoom\<close>, over the slice from its last element down.\<close>

fun list_by_room_loop :: "string \<Rightarrow> int \<Rightarrow> danmaku list \<Rightarrow> danmaku list \<Rightarrow> danmaku list" where
  "list_by_room_loop rid limit [] result = result"
| "list_by_room_loop rid limit (d # ds) result =
     (if int (length result) < limit
      then list_by_room_loop rid limit ds (if in_room rid d then result @ [d] else result)
      else result)"

definition ListByRoom :: "string \<Rightarrow> int \<Rightarrow> memory_store \<Rightarrow> danmaku list option" where
  "ListByRoom rid limit s =
     (if limit < 0 then None
      else let result = list_by_room_loop rid limit (rev (danmakus s)) []
           in Some (swap_reverse 0 (length result - 1) result))"

definition List_recent :: "int \<Rightarrow> memory_store \<Rightarrow> danmaku list option" where
  "List_recent limit s =
     (let start = int (length (danmakus s)) - limit;
          start = (if start < 0 then 0 else start)
      in if int (length (danmakus s)) < start then None
         else Some (drop (nat start) (danmakus s)))"

definition after_cursor :: "time \<Rightarrow> string \<Rightarrow> danmaku \<Rightarrow> bool" where
  "after_cursor since_time last_id d \<longleftrightarrow>
     since_time < d_timestamp d \<or> (d_timestamp d = since_time \<and> last_id < d_id d)"

definition by_cursor :: "danmaku \<Rightarrow> danmaku \<Rightarrow> bool" where
  "by_cursor d e \<longleftrightarrow>
     (if d_timestamp d = d_timestamp e then d_id d < d_id e else d_timestamp d < d_timestamp e)"

definition ListSince ::
  "danmaku sorter \<Rightarrow> string \<Rightarrow> time \<Rightarrow> string \<Rightarrow> int \<Rightarrow> memory_store \<Rightarrow> go_error + danmaku list"
where
  "ListSince srt rid since_time last_id limit s =
     (let result = filter (\<lambda>d. d_room_id d = rid \<and> d_status d = DanmakuStatusApproved \<and>
                              after_cursor since_time last_id d) (danmakus s)
      in Inr (cut_limit limit (srt by_cursor result)))"

definition Ping :: "memory_store \<Rightarrow> bool" where
  "Ping s = True"

definition FindByID :: "string \<Rightarrow> memory_store \<Rightarrow> go_error + danmaku option" where
  "FindByID i s = Inr (find (\<lambda>d. d_id d = i) (danmakus s))"

fun update_first :: "string \<Rightarrow> (danmaku \<Rightarrow> danmaku) \<Rightarrow> danmaku list \<Rightarrow> int \<times> danmaku list" where
  "update_first i f [] = (0, [])"
| "update_first i f (d # ds) =
     (if d_id d = i then (1, f d # ds)
      else let (n, ds') = update_first i f ds in (n, d # ds'))"

definition UpdateStatus ::
  "string \<Rightarrow> string \<Rightarrow> string \<Rightarrow> string \<Rightarrow> time \<Rightarrow> memory_store \<Rightarrow> (go_error + int) \<times> memory_store"
where
  "UpdateStatus i status reviewed_by reason reviewed_at s =
     (let (n, ds) = update_first i (reviewed status reviewed_by reason reviewed_at) (danmakus s)
      in (Inr n, s\<lparr>danmakus := ds\<rparr>))"

definition newest_first :: "danmaku \<Rightarrow> danmaku \<Rightarrow> bool" where
  "newest_first d e \<longleftrightarrow> d_timestamp e < d_timestamp d"

definition ListByStatus ::
  "danmaku sorter \<Rightarrow> string \<Rightarrow> string \<Rightarrow> int \<Rightarrow> memory_store \<Rightarrow> go_error + danmaku list"
where
  "ListByStatus srt rid status limit s =
     (let result = filter (\<lambda>d. d_status d = status \<and> (rid = '''' \<or> d_room_id d = rid)) (danmakus s)
      in Inr (cut_limit limit (srt newest_first result)))"

definition memory_store_ops :: "danmaku sorter \<Rightarrow> memory_store store_ops" where
  "memory_store_ops srt = \<lparr>st_Add = Add, st_ListByRoom = ListByRoom, st_ListSince = ListSince srt,
     st_Ping = Ping\<rparr>"

definition memory_danmaku_ops :: "danmaku sorter \<Rightarrow> memory_store danmaku_ops" where
  "memory_danmaku_ops srt = \<lparr>do_FindByID = FindByID, do_UpdateStatus = UpdateStatus,
     do_ListByStatus = ListByStatus srt\<rparr>"

section \<open>Queries\<close>

lemma length_swap_reverse [simp]: "length (swap_reverse i j xs) = length xs"
proof (induction i j xs rule: swap_reverse.induct)
  case (1 i j xs)
  then show ?case by (subst swap_reverse.simps) auto
qed

lemma nth_swap_reverse:
  "i + j = n - 1 \<Longrightarrow> j < n \<Longrightarrow> n = length xs \<Longrightarrow> k < n \<Longrightarrow>
   swap_reverse i j xs ! k = (if i \<le> k \<and> k \<le> j then xs ! (n - 1 - k) else xs ! k)"
proof (induction i j xs rule: swap_reverse.induct)
  case (1 i j xs)
  show ?case
  proof (cases "i < j")
    case True
    let ?ys = "xs[i := xs ! j, j := xs ! i]"
    have ih: "swap_reverse (i + 1) (j - 1) ?ys ! k =
        (if i + 1 \<le> k \<and> k \<le> j - 1 then ?ys ! (n - 1 - k) else ?ys ! k)"
      using "1.IH" [OF True] "1.prems" True by simp
    have step: "swap_reverse i j xs ! k = swap_reverse (i + 1) (j - 1) ?ys ! k"
      using True by (subst swap_reverse.simps) simp
    have ends: "n - 1 - i = j" "n - 1 - j = i" using "1.prems" True by auto
    have mid: "k \<noteq> i \<Longrightarrow> k \<noteq> j \<Longrightarrow> n - 1 - k \<noteq> i \<and> n - 1 - k \<noteq> j"
      using "1.prems" True by auto
    consider "k = i" | "k = j" | "k \<noteq> i" "k \<noteq> j" by blast
    then show ?thesis
    proof cases
      case 3
      then have "(i + 1 \<le> k \<and> k \<le> j - 1) = (i \<le> k \<and> k \<le> j)" by auto
      with step ih mid 3 show ?thesis by simp
    qed (use step ih ends "1.prems" True in \<open>auto simp: nth_list_update\<close>)
  next
    case False
    then have "swap_reverse i j xs = xs" by (subst swap_reverse.simps) simp
    moreover have "i \<le> k \<and> k \<le> j \<Longrightarrow> n - 1 - k = k" using False "1.prems" by auto
    ultimately show ?thesis by auto
  qed
qed

lemma swap_reverse_rev: "swap_reverse 0 (length xs - 1) xs = rev xs"
proof (cases "xs = []")
  case False
  then show ?thesis
    by (intro nth_equalityI) (auto simp: nth_swap_reverse [of _ _ "length xs"] rev_nth)
qed (simp add: swap_reverse.simps)

lemma list_by_room_loop_take:
  "int (length result) \<le> limit \<Longrightarrow>
   list_by_room_loop rid limit ds result =
     result @ take (nat limit - length result) (filter (in_room rid) ds)"
proof (induction ds arbitrary: result)
  case Nil
  then show ?case by simp
next
  case (Cons d ds)
  show ?case
  proof (cases "int (length result) < limit")
    case True
    then obtain k where k: "nat limit - length result = Suc k"
      by (metis Suc_diff_Suc nat_less_iff of_nat_0_le_iff zless_nat_conj zless_nat_eq_int_zless)
    then have k': "nat limit - Suc (length result) = k" by simp
    show ?thesis
    proof (cases "in_room rid d")
      case in_r: True
      have "list_by_room_loop rid limit ds (result @ [d]) =
          (result @ [d]) @ take k (filter (in_room rid) ds)"
        using Cons.IH [of "result @ [d]"] True k' by simp
      with True in_r k show ?thesis by simp
    next
      case False
      with True Cons.IH [of result] show ?thesis by simp
    qed
  qed (use Cons.prems in simp)
qed

lemma ListByRoom_eq:
  assumes "0 \<le> limit"
  shows "ListByRoom rid limit s = Some (last_n (nat limit) (filter (in_room rid) (danmakus s)))"
proof -
  have loop: "list_by_room_loop rid limit (rev (danmakus s)) [] =
      take (nat limit) (rev (filter (in_room rid) (danmakus s)))"
    using assms list_by_room_loop_take [of "[]" limit rid "rev (danmakus s)"]
    by (simp add: rev_filter)
  show ?thesis
    unfolding ListByRoom_def Let_def loop swap_reverse_rev last_n_rev using assms by simp
qed

lemma ListByRoom_panics: "limit < 0 \<longleftrightarrow> ListByRoom rid limit s = None"
  by (auto simp: ListByRoom_def Let_def)

lemma List_recent_eq:
  "List_recent limit s =
     (if limit < 0 then None else Some (last_n (nat limit) (danmakus s)))"
proof -
  have "nat (int (length xs) - limit) = length xs - nat limit" if "0 \<le> limit" for xs :: "danmaku list"
    using that by (simp add: nat_diff_distrib')
  then show ?thesis by (auto simp: List_recent_def last_n_def Let_def)
qed

section \<open>The history of a room\<close>

text \<open>
  What \<open>ListSince\<close> promises, without the sorting routine: the approved danmaku of the room
  after the cursor, in cursor order.
\<close>

definition history :: "memory_store \<Rightarrow> string \<Rightarrow> cursor \<Rightarrow> danmaku list" where
  "history s rid c =
     filter (\<lambda>d. c < danmaku_cursor d)
       (sort_key danmaku_cursor (filter (in_room rid) (danmakus s)))"

definition cursors_distinct :: "memory_store \<Rightarrow> bool" where
  "cursors_distinct s \<longleftrightarrow> distinct (map danmaku_cursor (danmakus s))"

lemma after_cursor_less: "after_cursor t i d \<longleftrightarrow> Cursor t i < danmaku_cursor d"
  by (auto simp: after_cursor_def danmaku_cursor_def less_cursor_def)

lemma by_cursor_less: "by_cursor d e \<longleftrightarrow> danmaku_cursor d < danmaku_cursor e"
  by (auto simp: by_cursor_def danmaku_cursor_def less_cursor_def)

lemma sorted_unique_cursor:
  assumes "distinct (map danmaku_cursor xs)" and "mset xs = mset ys"
    and "sorted_wrt (\<lambda>a b. danmaku_cursor a \<le> danmaku_cursor b) xs"
    and "sorted_wrt (\<lambda>a b. danmaku_cursor a \<le> danmaku_cursor b) ys"
  shows "xs = ys"
proof (rule sorted_wrt_unique [OF _ assms(3,4,2)])
  have "inj_on danmaku_cursor (set xs)" using assms(1) by (simp add: distinct_map)
  then show "antisymp_on (set xs) (\<lambda>a b. danmaku_cursor a \<le> danmaku_cursor b)"
    by (auto simp: antisymp_on_def dest: inj_onD)
  show "reflp_on (set xs) (\<lambda>a b. danmaku_cursor a \<le> danmaku_cursor b)"
    by (simp add: reflp_on_def)
qed

lemma sorted_wrt_sort_key: "sorted_wrt (\<lambda>a b. f a \<le> f b) (sort_key f xs)"
  using sorted_sort_key [of f xs] by (simp add: sorted_map)

lemma sort_slice_cursor:
  assumes "sort_slice_spec srt" and "distinct (map danmaku_cursor xs)"
  shows "srt by_cursor xs = sort_key danmaku_cursor xs"
proof (rule sorted_unique_cursor)
  have m: "mset (srt by_cursor xs) = mset xs" by (rule sort_slice_mset [OF assms(1)])
  then show "distinct (map danmaku_cursor (srt by_cursor xs))"
    using assms(2) by (metis mset_eq_imp_distinct_iff mset_map)
  show "mset (srt by_cursor xs) = mset (sort_key danmaku_cursor xs)" by (simp add: m)
  have "sorted_wrt (\<lambda>a b. \<not> by_cursor b a) (srt by_cursor xs)"
    by (rule sort_slice_sorted [OF assms(1)])
      (auto simp: by_cursor_less asymp_on_def transp_def)
  then show "sorted_wrt (\<lambda>a b. danmaku_cursor a \<le> danmaku_cursor b) (srt by_cursor xs)"
    by (simp add: by_cursor_less not_less)
qed (rule sorted_wrt_sort_key)

lemma ListSince_eq:
  assumes "sort_slice_spec srt" and "cursors_distinct s"
  shows "ListSince srt rid t i limit s = Inr (cut_limit limit (history s rid (Cursor t i)))"
proof -
  let ?xs = "filter (\<lambda>d. d_room_id d = rid \<and> d_status d = DanmakuStatusApproved \<and>
      after_cursor t i d) (danmakus s)"
  have "?xs = filter (\<lambda>d. Cursor t i < danmaku_cursor d) (filter (in_room rid) (danmakus s))"
    by (auto simp: in_room_def after_cursor_less intro: filter_cong)
  moreover have "srt by_cursor ?xs = sort_key danmaku_cursor ?xs"
    using assms by (intro sort_slice_cursor) (auto simp: cursors_distinct_def distinct_map_filter)
  ultimately show ?thesis
    by (simp add: ListSince_def history_def filter_sort)
qed

lemma history_sorted: "sorted (map danmaku_cursor (history s rid c))"
  by (simp add: history_def sorted_filter)

lemma history_strict:
  "cursors_distinct s \<Longrightarrow> sorted_wrt (<) (map danmaku_cursor (history s rid c))"
  unfolding strict_sorted_iff
  by (simp add: history_sorted)
    (simp add: history_def cursors_distinct_def distinct_map_filter distinct_map
      inj_on_def mset_eq_setD [OF mset_sort])

lemma set_history: "set (history s rid c) =
   {d \<in> set (danmakus s). in_room rid d \<and> c < danmaku_cursor d}"
  by (auto simp: history_def)

text \<open>Resuming at the \<open>n\<close>-th danmaku of the history continues with the next one.\<close>

lemma history_resume:
  assumes "cursors_distinct s" and "n < length (history s rid c)"
  shows "history s rid (danmaku_cursor (history s rid c ! n)) = drop (Suc n) (history s rid c)"
proof -
  let ?h = "history s rid c"
  let ?k = "danmaku_cursor (?h ! n)"
  have str: "sorted_wrt (<) (map danmaku_cursor ?h)" by (rule history_strict [OF assms(1)])
  have "c < ?k" using assms(2) nth_mem [OF assms(2)] by (simp add: set_history)
  then have "history s rid ?k = filter (\<lambda>d. ?k < danmaku_cursor d) ?h"
    by (auto simp: history_def intro: filter_cong)
  also have "\<dots> = filter (\<lambda>d. ?k < danmaku_cursor d) (take (Suc n) ?h @ drop (Suc n) ?h)"
    by simp
  also have "\<dots> = filter (\<lambda>d. ?k < danmaku_cursor d) (drop (Suc n) ?h)"
  proof -
    have "\<not> ?k < danmaku_cursor d" if "d \<in> set (take (Suc n) ?h)" for d
    proof -
      from that obtain m where m: "m \<le> n" "d = ?h ! m"
        using assms(2) by (auto simp: in_set_conv_nth less_Suc_eq_le)
      show ?thesis
      proof (cases "m = n")
        case False
        with m str assms(2) have "danmaku_cursor d < ?k"
          by (auto simp: sorted_wrt_iff_nth_less)
        then show ?thesis by simp
      qed (use m in simp)
    qed
    then show ?thesis by (subst filter_append) (simp add: filter_empty_conv)
  qed
  also have "\<dots> = drop (Suc n) ?h"
  proof (rule filter_True, rule ballI)
    fix d assume "d \<in> set (drop (Suc n) ?h)"
    then obtain m where "m < length (drop (Suc n) ?h)" and "d = drop (Suc n) ?h ! m"
      by (auto simp: in_set_conv_nth)
    then have "d = ?h ! (Suc n + m)" and "Suc n + m < length ?h" by auto
    with str show "?k < danmaku_cursor d" by (auto simp: sorted_wrt_iff_nth_less)
  qed
  finally show ?thesis .
qed

section \<open>The contract of the moderation store\<close>

definition stored :: "memory_store \<Rightarrow> string \<rightharpoonup> danmaku" where
  "stored s i = find (\<lambda>d. d_id d = i) (danmakus s)"

definition store_good :: "memory_store \<Rightarrow> bool" where
  "store_good s \<longleftrightarrow> distinct (map d_id (danmakus s))"

lemma stored_None: "stored s i = None \<longleftrightarrow> (\<forall>d \<in> set (danmakus s). d_id d \<noteq> i)"
  by (auto simp: stored_def find_None_iff)

lemma find_id: "distinct (map d_id ds) \<Longrightarrow>
   find (\<lambda>d. d_id d = i) ds = Some d \<longleftrightarrow> d \<in> set ds \<and> d_id d = i"
  by (induction ds) (auto simp: image_iff)

lemma stored_iff: "store_good s \<Longrightarrow> stored s i = Some d \<longleftrightarrow> d \<in> set (danmakus s) \<and> d_id d = i"
  by (simp add: stored_def store_good_def find_id)

lemma update_first_rows:
  "fst (update_first i f ds) = (if find (\<lambda>d. d_id d = i) ds = None then 0 else 1)"
  by (induction ds) (auto split: prod.split)

lemma update_first_find:
  assumes "\<And>d. d_id (f d) = d_id d"
  shows "find (\<lambda>d. d_id d = j) (snd (update_first i f ds)) =
    alter i f (\<lambda>k. find (\<lambda>d. d_id d = k) ds) j"
  by (induction ds) (auto simp: assms alter_apply split: prod.split if_splits)

lemma update_first_ids:
  assumes "\<And>d. d_id (f d) = d_id d"
  shows "map d_id (snd (update_first i f ds)) = map d_id ds"
  by (induction ds) (auto simp: assms split: prod.split)

lemma UpdateStatus_stored:
  assumes "UpdateStatus i st by reason at s = (r, s')"
  shows "stored s' = alter i (reviewed st by reason at) (stored s)"
    and "map d_id (danmakus s') = map d_id (danmakus s)"
    and "r = Inr (if stored s i = None then 0 else 1)"
  using assms update_first_find [of "reviewed st by reason at" _ i "danmakus s"]
    update_first_ids [of "reviewed st by reason at" i "danmakus s"]
    update_first_rows [of i "reviewed st by reason at" "danmakus s"]
  by (auto simp: UpdateStatus_def stored_def fun_eq_iff alter_apply split: prod.splits)

interpretation mem_danmaku: danmaku_contract "memory_danmaku_ops srt" store_good stored
  for srt
proof
  fix s s' i st by' reason at' d and r :: "danmaku option" and n :: int
    and res :: "go_error + int"
  show "do_FindByID (memory_danmaku_ops srt) i s = Inr r \<Longrightarrow> r = stored s i"
    by (simp add: memory_danmaku_ops_def FindByID_def stored_def)
  show "stored s i = Some d \<Longrightarrow> d_id d = i" by (auto simp: stored_def find_Some_iff)
  {
    assume g: "store_good s"
      and u: "do_UpdateStatus (memory_danmaku_ops srt) i st by' reason at' s = (res, s')"
    have u': "UpdateStatus i st by' reason at' s = (res, s')"
      using u by (simp add: memory_danmaku_ops_def)
    from UpdateStatus_stored [OF u'] g show "store_good s' \<and> stored s' = (case res of
        Inl e \<Rightarrow> stored s | Inr n \<Rightarrow> alter i (reviewed st by' reason at') (stored s))"
      by (simp add: store_good_def)
  }
  show "do_UpdateStatus (memory_danmaku_ops srt) i st by' reason at' s = (Inr n, s') \<Longrightarrow>
      n = 0 \<longleftrightarrow> stored s i = None"
    using UpdateStatus_stored(3) [of i st by' reason at' s "Inr n" s']
    by (auto simp: memory_danmaku_ops_def)
qed

text \<open>Adding a danmaku with a new identifier keeps the store's invariants.\<close>

lemma Add_stored:
  assumes "stored s (d_id d) = None" and "store_good s"
  shows "store_good (snd (Add d s))"
    and "stored (snd (Add d s)) = (stored s)(d_id d \<mapsto>
      (if d_status d = '''' then d\<lparr>d_status := DanmakuStatusApproved\<rparr> else d))"
proof -
  let ?d = "if d_status d = '''' then d\<lparr>d_status := DanmakuStatusApproved\<rparr> else d"
  have ds: "danmakus (snd (Add d s)) = danmakus s @ [?d]" and i: "d_id ?d = d_id d"
    by (simp_all add: Add_def Let_def)
  show "store_good (snd (Add d s))"
    using assms i by (auto simp: store_good_def stored_None ds)
  show "stored (snd (Add d s)) = (stored s)(d_id d \<mapsto> ?d)"
  proof
    fix j
    have app: "find P (xs @ [x]) = (case find P xs of None \<Rightarrow> if P x then Some x else None
        | Some y \<Rightarrow> Some y)" for P and xs :: "danmaku list" and x
      by (induction xs) auto
    show "stored (snd (Add d s)) j = ((stored s)(d_id d \<mapsto> ?d)) j"
      unfolding stored_def ds app using assms(1) i
      by (auto simp: stored_def split: option.split)
  qed
qed

section \<open>Properties\<close>

text \<open>
  Corollary (the room list). \<open>ListByRoom\<close> returns the most recent \<open>limit\<close> approved danmaku of the room in
  arrival order, for every limit that \<open>make\<close> accepts.
\<close>

theorem list_by_room_recent:
  "0 \<le> limit \<Longrightarrow>
   ListByRoom rid limit s =
     Some (last_n (nat limit)
       (filter (\<lambda>d. d_room_id d = rid \<and> d_status d = DanmakuStatusApproved) (danmakus s)))"
  using ListByRoom_eq [of limit rid s] by (simp add: in_room_def [abs_def])

definition sample_danmaku :: "string \<Rightarrow> string \<Rightarrow> time \<Rightarrow> danmaku" where
  "sample_danmaku i rid t = \<lparr>d_id = i, d_content = ''hi'', d_color = ''#ffffff'', d_type = ''scroll'',
     d_font_size = 25, d_room_id = rid, d_timestamp = t, d_user_id = ''u'',
     d_status = DanmakuStatusApproved, d_reviewed_by = '''', d_reviewed_at = None,
     d_review_reason = ''''\<rparr>"

definition sample_store :: memory_store where
  "sample_store = \<lparr>danmakus = [sample_danmaku ''b'' ''r'' 2, sample_danmaku ''c'' ''q'' 3,
     sample_danmaku ''a'' ''r'' 2, sample_danmaku ''d'' ''r'' 1]\<rparr>"

theorem list_by_room_recent_witness:
  "ListByRoom ''r'' 2 sample_store = Some [sample_danmaku ''a'' ''r'' 2, sample_danmaku ''d'' ''r'' 1]"
  using list_by_room_recent [of 2 "''r''" sample_store]
  by (simp add: sample_store_def sample_danmaku_def last_n_def)

text \<open>
  Corollary (the history query). Whatever order \<open>sort.Slice\<close> leaves equal elements in, \<open>ListSince\<close> returns the
  approved danmaku of the room strictly after the cursor in the order of \<open>(created_at, id)\<close>,
  cut to the first \<open>limit\<close>, provided no two danmaku share both time and identifier.
\<close>

theorem list_since_history:
  assumes "sort_slice_spec srt" and "cursors_distinct s"
  shows "ListSince srt rid t i limit s = Inr (cut_limit limit (history s rid (Cursor t i))) \<and>
    sorted_wrt (<) (map danmaku_cursor (history s rid (Cursor t i))) \<and>
    set (history s rid (Cursor t i)) =
      {d \<in> set (danmakus s). in_room rid d \<and> Cursor t i < danmaku_cursor d}"
  using ListSince_eq [OF assms] history_strict [OF assms(2)] set_history by blast

theorem list_since_history_witness:
  "ListSince insertion_sort ''r'' 1 ''d'' 1 sample_store = Inr [sample_danmaku ''a'' ''r'' 2]"
proof -
  have d: "cursors_distinct sample_store"
    by (simp add: cursors_distinct_def sample_store_def sample_danmaku_def danmaku_cursor_def)
  have h: "history sample_store ''r'' (Cursor 1 ''d'') =
      [sample_danmaku ''a'' ''r'' 2, sample_danmaku ''b'' ''r'' 2]"
    by (simp add: history_def sample_store_def sample_danmaku_def danmaku_cursor_def in_room_def
        less_cursor_def less_eq_cursor_def)
  from list_since_history [OF insertion_sort_spec d, of "''r''" 1 "''d''" 1] show ?thesis
    by (simp add: h cut_limit_def)
qed

end
