(* ===== verification/UserStore.thy ===== *)
theory UserStore
  imports Interfaces
begin

text \<open>
  \<open>store/auth.go\<close>: the in-memory user store. It holds two Go maps, by user name and by
  identifier, whose values are pointers to the same \<open>User\<close> objects; every update goes through
  the identifier and must be seen through the name. The pointers are modelled: \<open>um_heap\<close> maps
  addresses to users, the two indices map keys to addresses.
\<close>

record user_mem =
  um_heap :: "nat \<rightharpoonup> user"
  um_next :: nat
  um_users :: "string \<rightharpoonup> nat"
  um_byid :: "string \<rightharpoonup> nat"

section \<open>Operations\<close>

definition NewMemoryUserStore :: user_mem where
  "NewMemoryUserStore = \<lparr>um_heap = Map.empty, um_next = 0, um_users = Map.empty, um_byid = Map.empty\<rparr>"

text \<open>\<open>user\<close> is the object the caller allocated; the store keeps its pointer in both maps.\<close>

definition Create :: "user \<Rightarrow> user_mem \<Rightarrow> go_error option \<times> user_mem" where
  "Create u s =
     (if um_users s (u_username u) \<noteq> None then (Some StoreErrDuplicateUsername, s)
      else let p = um_next s in
        (None, s\<lparr>um_heap := (um_heap s)(p \<mapsto> u), um_next := p + 1,
                 um_users := (um_users s)(u_username u \<mapsto> p),
                 um_byid := (um_byid s)(u_id u \<mapsto> p)\<rparr>))"

definition deref :: "user_mem \<Rightarrow> nat option \<Rightarrow> user option" where
  "deref s p = (case p of None \<Rightarrow> None | Some a \<Rightarrow> um_heap s a)"

definition FindByID :: "string \<Rightarrow> user_mem \<Rightarrow> go_error + user option" where
  "FindByID i s = Inr (deref s (um_byid s i))"

definition FindByUsername :: "string \<Rightarrow> user_mem \<Rightarrow> go_error + user option" where
  "FindByUsername n s = Inr (deref s (um_users s n))"

text \<open>The three updates assign fields of the object that the identifier points to.\<close>

definition write_byid :: "string \<Rightarrow> (user \<Rightarrow> user) \<Rightarrow> user_mem \<Rightarrow> user_mem" where
  "write_byid i f s = (case um_byid s i of None \<Rightarrow> s | Some p \<Rightarrow> s\<lparr>um_heap := alter p f (um_heap s)\<rparr>)"

definition UpdateRole :: "string \<Rightarrow> string \<Rightarrow> user_mem \<Rightarrow> go_error option \<times> user_mem" where
  "UpdateRole i role s = (None, write_byid i (u_role_update (\<lambda>_. role)) s)"

definition BanUser :: "time \<Rightarrow> string \<Rightarrow> string \<Rightarrow> string \<Rightarrow> user_mem \<Rightarrow> go_error option \<times> user_mem" where
  "BanUser now i reason banned_by s = (None, write_byid i (banned_user now reason banned_by) s)"

definition UnbanUser :: "string \<Rightarrow> user_mem \<Rightarrow> go_error option \<times> user_mem" where
  "UnbanUser i s = (None, write_byid i unbanned_user s)"

text \<open>The listing methods range over \<open>byID\<close> in the order \<open>ks\<close>.\<close>

definition users_in :: "string list \<Rightarrow> user_mem \<Rightarrow> user list" where
  "users_in ks s = map_values ks (\<lambda>i. deref s (um_byid s i))"

definition ListBannedUsers :: "string list \<Rightarrow> user_mem \<Rightarrow> go_error + user list" where
  "ListBannedUsers ks s = Inr (filter u_banned (users_in ks s))"

definition ListUsers :: "string list \<Rightarrow> user_mem \<Rightarrow> go_error + user list" where
  "ListUsers ks s = Inr (users_in ks s)"

fun other_admin :: "string \<Rightarrow> user list \<Rightarrow> bool" where
  "other_admin x [] = False"
| "other_admin x (u # us) = (if u_id u \<noteq> x \<and> u_role u = RoleAdmin then True else other_admin x us)"

definition HasAdminOtherThan :: "string list \<Rightarrow> string \<Rightarrow> user_mem \<Rightarrow> go_error + bool" where
  "HasAdminOtherThan ks x s = Inr (other_admin x (users_in ks s))"

definition Delete :: "string \<Rightarrow> user_mem \<Rightarrow> go_error option \<times> user_mem" where
  "Delete i s = (case um_byid s i of None \<Rightarrow> (None, s)
     | Some p \<Rightarrow> (case um_heap s p of None \<Rightarrow> (None, s)
         | Some u \<Rightarrow> (None, s\<lparr>um_byid := (um_byid s)(i := None),
                            um_users := (um_users s)(u_username u := None)\<rparr>)))"

text \<open>The interface value; \<open>ord\<close> is the order in which the runtime ranges over \<open>byID\<close>.\<close>

definition memory_user_ops :: "(user_mem \<Rightarrow> string list) \<Rightarrow> user_mem user_ops" where
  "memory_user_ops ord = \<lparr>uo_Create = Create, uo_FindByID = FindByID,
     uo_FindByUsername = FindByUsername, uo_UpdateRole = UpdateRole, uo_BanUser = BanUser,
     uo_UnbanUser = UnbanUser, uo_ListBannedUsers = (\<lambda>s. ListBannedUsers (ord s) s),
     uo_HasAdminOtherThan = (\<lambda>x s. HasAdminOtherThan (ord s) x s)\<rparr>"

section \<open>The invariant\<close>

text \<open>
  Both indices point to live objects, each object is filed under its own name and identifier,
  and an object is in one index exactly when it is in the other.
\<close>

definition users_inv :: "user_mem \<Rightarrow> bool" where
  "users_inv s \<longleftrightarrow>
     (\<forall>i p. um_byid s i = Some p \<longrightarrow>
        (\<exists>u. um_heap s p = Some u \<and> u_id u = i \<and> um_users s (u_username u) = Some p)) \<and>
     (\<forall>n p. um_users s n = Some p \<longrightarrow>
        (\<exists>u. um_heap s p = Some u \<and> u_username u = n \<and> um_byid s (u_id u) = Some p)) \<and>
     (\<forall>p u. um_heap s p = Some u \<longrightarrow> p < um_next s)"

definition user_map :: "user_mem \<Rightarrow> string \<rightharpoonup> user" where
  "user_map s i = deref s (um_byid s i)"

lemma deref_simps [simp]: "deref s None = None" "deref s (Some p) = um_heap s p"
  by (simp_all add: deref_def)

lemma users_inv_byid:
  assumes "users_inv s" and "um_byid s i = Some p"
  obtains u where "um_heap s p = Some u" "u_id u = i" "um_users s (u_username u) = Some p"
  using assms unfolding users_inv_def by blast

lemma users_inv_name:
  assumes "users_inv s" and "um_users s n = Some p"
  obtains u where "um_heap s p = Some u" "u_username u = n" "um_byid s (u_id u) = Some p"
  using assms unfolding users_inv_def by blast

lemma users_inv_fresh: "users_inv s \<Longrightarrow> um_heap s (um_next s) = None"
  unfolding users_inv_def by (metis less_irrefl option.exhaust)

lemma users_inv_New [inv_intros]: "users_inv NewMemoryUserStore"
  by (simp add: users_inv_def NewMemoryUserStore_def)

lemma user_map_New [store_simps]: "user_map NewMemoryUserStore = Map.empty"
  by (simp add: user_map_def NewMemoryUserStore_def fun_eq_iff)

lemma user_map_id: "users_inv s \<Longrightarrow> user_map s i = Some u \<Longrightarrow> u_id u = i"
proof -
  assume inv: "users_inv s" and "user_map s i = Some u"
  then obtain p where p: "um_byid s i = Some p" "um_heap s p = Some u"
    by (auto simp: user_map_def deref_def split: option.splits)
  from users_inv_byid [OF inv p(1)] obtain v where "um_heap s p = Some v" "u_id v = i" .
  with p show ?thesis by simp
qed

lemma byid_inj:
  "users_inv s \<Longrightarrow> um_byid s i = Some p \<Longrightarrow> um_byid s j = Some p \<Longrightarrow> i = j"
  by (metis option.inject users_inv_byid)

lemma user_map_write:
  assumes "users_inv s"
  shows "user_map (write_byid i f s) = alter i f (user_map s)"
proof
  fix j
  show "user_map (write_byid i f s) j = alter i f (user_map s) j"
  proof (cases "um_byid s i")
    case None
    then show ?thesis by (simp add: write_byid_def alter_apply user_map_def)
  next
    case (Some p)
    show ?thesis
    proof (cases "um_byid s j")
      case None
      then show ?thesis using Some by (auto simp: write_byid_def alter_apply user_map_def)
    next
      case (Some q)
      with byid_inj [OF assms] \<open>um_byid s i = Some p\<close> have "q = p \<longleftrightarrow> j = i" by auto
      with Some \<open>um_byid s i = Some p\<close> show ?thesis
        by (auto simp: write_byid_def alter_apply user_map_def)
    qed
  qed
qed

lemma users_inv_write:
  assumes "users_inv s" and "\<And>u. u_id (f u) = u_id u" and "\<And>u. u_username (f u) = u_username u"
  shows "users_inv (write_byid i f s)"
proof (cases "um_byid s i")
  case None
  with assms(1) show ?thesis by (simp add: write_byid_def)
next
  case (Some p)
  have heap: "um_heap (write_byid i f s) = alter p f (um_heap s)"
    "um_byid (write_byid i f s) = um_byid s" "um_users (write_byid i f s) = um_users s"
    "um_next (write_byid i f s) = um_next s"
    using Some by (simp_all add: write_byid_def)
  show ?thesis
    unfolding users_inv_def heap
  proof (intro conjI allI impI)
    fix j q assume "um_byid s j = Some q"
    then obtain u where "um_heap s q = Some u" "u_id u = j" "um_users s (u_username u) = Some q"
      by (rule users_inv_byid [OF assms(1)])
    then show "\<exists>u. alter p f (um_heap s) q = Some u \<and> u_id u = j \<and> um_users s (u_username u) = Some q"
      using assms(2,3) by (auto simp: alter_apply)
  next
    fix n q assume "um_users s n = Some q"
    then obtain u where "um_heap s q = Some u" "u_username u = n" "um_byid s (u_id u) = Some q"
      by (rule users_inv_name [OF assms(1)])
    then show "\<exists>u. alter p f (um_heap s) q = Some u \<and> u_username u = n \<and> um_byid s (u_id u) = Some q"
      using assms(2,3) by (auto simp: alter_apply)
  next
    fix q u assume "alter p f (um_heap s) q = Some u"
    then have "um_heap s q \<noteq> None" by (auto simp: alter_apply split: if_splits)
    then show "q < um_next s" using assms(1) by (auto simp: users_inv_def)
  qed
qed

lemma user_map_None: "users_inv s \<Longrightarrow> user_map s i = None \<longleftrightarrow> um_byid s i = None"
proof (cases "um_byid s i")
  case (Some p)
  assume "users_inv s"
  from users_inv_byid [OF this Some] obtain u where "um_heap s p = Some u" .
  with Some show ?thesis by (simp add: user_map_def)
qed (simp add: user_map_def)

lemma users_inv_Create:
  assumes "users_inv s" and "user_map s (u_id u) = None" and "Create u s = (e, s')"
  shows "users_inv s' \<and> user_map s' = (if e = None then (user_map s)(u_id u \<mapsto> u) else user_map s)"
proof (cases "um_users s (u_username u)")
  case (Some p)
  with assms show ?thesis by (auto simp: Create_def)
next
  case None
  let ?p = "um_next s"
  have none: "um_byid s (u_id u) = None"
    using assms(2) user_map_None [OF assms(1)] by simp
  have e: "e = None" and s': "s' = s\<lparr>um_heap := (um_heap s)(?p \<mapsto> u), um_next := ?p + 1,
      um_users := (um_users s)(u_username u \<mapsto> ?p), um_byid := (um_byid s)(u_id u \<mapsto> ?p)\<rparr>"
    using assms(3) None by (auto simp: Create_def Let_def)
  have live: "um_heap s q \<noteq> None \<Longrightarrow> q < ?p" for q using assms(1) by (auto simp: users_inv_def)
  have "users_inv s'"
    unfolding users_inv_def
  proof (intro conjI allI impI)
    fix j q assume a: "um_byid s' j = Some q"
    show "\<exists>v. um_heap s' q = Some v \<and> u_id v = j \<and> um_users s' (u_username v) = Some q"
    proof (cases "j = u_id u")
      case True
      with a show ?thesis by (simp add: s')
    next
      case False
      with a have "um_byid s j = Some q" by (simp add: s')
      then obtain v where v: "um_heap s q = Some v" "u_id v = j" "um_users s (u_username v) = Some q"
        by (rule users_inv_byid [OF assms(1)])
      with None live [of q] show ?thesis by (intro exI [of _ v]) (auto simp: s')
    qed
  next
    fix n q assume a: "um_users s' n = Some q"
    show "\<exists>v. um_heap s' q = Some v \<and> u_username v = n \<and> um_byid s' (u_id v) = Some q"
    proof (cases "n = u_username u")
      case True
      with a show ?thesis by (simp add: s')
    next
      case False
      with a have "um_users s n = Some q" by (simp add: s')
      then obtain v where v: "um_heap s q = Some v" "u_username v = n" "um_byid s (u_id v) = Some q"
        by (rule users_inv_name [OF assms(1)])
      with none live [of q] show ?thesis by (intro exI [of _ v]) (auto simp: s')
    qed
  next
    fix q v assume "um_heap s' q = Some v"
    then show "q < um_next s'" using live [of q] by (auto simp: s' split: if_splits)
  qed
  moreover have "user_map s' = (user_map s)(u_id u \<mapsto> u)"
  proof
    fix j
    show "user_map s' j = ((user_map s)(u_id u \<mapsto> u)) j"
    proof (cases "um_byid s j")
      case (Some q)
      from users_inv_byid [OF assms(1) this] obtain v where "um_heap s q = Some v" .
      with Some none live [of q] show ?thesis by (auto simp: user_map_def s')
    qed (simp add: user_map_def s')
  qed
  ultimately show ?thesis by (simp add: e)
qed

lemma users_inv_Delete:
  assumes "users_inv s"
  shows "users_inv (snd (Delete i s))"
    and "user_map (snd (Delete i s)) = (user_map s)(i := None)"
proof -
  have "users_inv (snd (Delete i s)) \<and> user_map (snd (Delete i s)) = (user_map s)(i := None)"
  proof (cases "um_byid s i")
    case None
    with assms show ?thesis by (auto simp: Delete_def user_map_def fun_eq_iff)
  next
    case (Some p)
    then obtain u where u: "um_heap s p = Some u" "u_id u = i" "um_users s (u_username u) = Some p"
      by (rule users_inv_byid [OF assms])
    let ?t = "s\<lparr>um_byid := (um_byid s)(i := None), um_users := (um_users s)(u_username u := None)\<rparr>"
    have t: "snd (Delete i s) = ?t" using Some u by (simp add: Delete_def)
    have "users_inv ?t"
      unfolding users_inv_def
    proof (intro conjI allI impI)
      fix j q assume "um_byid ?t j = Some q"
      then have j: "j \<noteq> i" "um_byid s j = Some q" by (auto split: if_splits)
      from users_inv_byid [OF assms j(2)] obtain v where
        v: "um_heap s q = Some v" "u_id v = j" "um_users s (u_username v) = Some q" .
      have "u_username v \<noteq> u_username u" using v u j by auto
      with v show "\<exists>v. um_heap ?t q = Some v \<and> u_id v = j \<and> um_users ?t (u_username v) = Some q"
        by auto
    next
      fix n q assume "um_users ?t n = Some q"
      then have n: "n \<noteq> u_username u" "um_users s n = Some q" by (auto split: if_splits)
      from users_inv_name [OF assms n(2)] obtain v where
        v: "um_heap s q = Some v" "u_username v = n" "um_byid s (u_id v) = Some q" .
      have "u_id v \<noteq> i" using v u n Some by auto
      with v show "\<exists>v. um_heap ?t q = Some v \<and> u_username v = n \<and> um_byid ?t (u_id v) = Some q"
        by auto
    next
      fix q v assume "um_heap ?t q = Some v"
      then show "q < um_next ?t" using assms by (auto simp: users_inv_def)
    qed
    moreover have "user_map ?t = (user_map s)(i := None)"
      by (simp add: user_map_def fun_eq_iff deref_def split: option.split)
    ultimately show ?thesis by (simp add: t)
  qed
  then show "users_inv (snd (Delete i s))"
    and "user_map (snd (Delete i s)) = (user_map s)(i := None)" by simp_all
qed

lemma FindByUsername_iff:
  assumes "users_inv s"
  shows "FindByUsername n s = Inr (Some u) \<longleftrightarrow> user_map s (u_id u) = Some u \<and> u_username u = n"
proof
  assume "FindByUsername n s = Inr (Some u)"
  then obtain p where p: "um_users s n = Some p" "um_heap s p = Some u"
    by (auto simp: FindByUsername_def deref_def split: option.splits)
  from users_inv_name [OF assms p(1)] obtain v where
    "um_heap s p = Some v" "u_username v = n" "um_byid s (u_id v) = Some p" .
  with p(2) show "user_map s (u_id u) = Some u \<and> u_username u = n" by (simp add: user_map_def)
next
  assume a: "user_map s (u_id u) = Some u \<and> u_username u = n"
  then obtain p where p: "um_byid s (u_id u) = Some p" "um_heap s p = Some u"
    by (auto simp: user_map_def deref_def split: option.splits)
  from users_inv_byid [OF assms p(1)] obtain v where
    "um_heap s p = Some v" "um_users s (u_username v) = Some p" .
  with p(2) a show "FindByUsername n s = Inr (Some u)" by (simp add: FindByUsername_def)
qed

lemma other_admin_iff: "other_admin x us \<longleftrightarrow> (\<exists>u \<in> set us. u_id u \<noteq> x \<and> u_role u = RoleAdmin)"
  by (induction us) auto

lemma set_users_in:
  "ranges_over ks (user_map s) \<Longrightarrow> set (users_in ks s) = ran (user_map s)"
  using set_map_values [of ks "user_map s"] by (simp add: users_in_def user_map_def [abs_def])

lemma ran_user_map_name:
  "users_inv s \<Longrightarrow> u \<in> ran (user_map s) \<Longrightarrow> um_users s (u_username u) \<noteq> None"
proof
  assume inv: "users_inv s" and "u \<in> ran (user_map s)" and none: "um_users s (u_username u) = None"
  then obtain i p where p: "um_byid s i = Some p" "um_heap s p = Some u"
    by (auto simp: ran_def user_map_def deref_def split: option.splits)
  from users_inv_byid [OF inv p(1)] obtain v where
    "um_heap s p = Some v" "um_users s (u_username v) = Some p" .
  with p none show False by simp
qed

text \<open>\<open>ord\<close> enumerates the map it ranges over, in whatever order.\<close>

definition enumerates :: "(user_mem \<Rightarrow> string list) \<Rightarrow> bool" where
  "enumerates ord \<longleftrightarrow> (\<forall>s. finite (dom (user_map s)) \<longrightarrow> ranges_over (ord s) (user_map s))"

definition users_good :: "user_mem \<Rightarrow> bool" where
  "users_good s \<longleftrightarrow> users_inv s \<and> finite (dom (user_map s))"

lemma users_good_New: "users_good NewMemoryUserStore"
  by (simp add: users_good_def users_inv_New user_map_New)

lemma memory_user_contract:
  assumes "enumerates ord"
  shows "user_contract (memory_user_ops ord) users_good user_map"
proof
  fix s s' :: user_mem and i n role reason by' x :: string and now :: time
    and r u u' e b
  show "users_good s \<Longrightarrow> uo_FindByID (memory_user_ops ord) i s = Inr r \<Longrightarrow> r = user_map s i"
    by (simp add: memory_user_ops_def FindByID_def user_map_def)
  show "users_good s \<Longrightarrow> user_map s i = Some u \<Longrightarrow> u_id u = i"
    using user_map_id [of s i u] by (simp add: users_good_def)
  show "users_good s \<Longrightarrow> uo_FindByUsername (memory_user_ops ord) n s = Inr r \<Longrightarrow>
      (case r of None \<Rightarrow> \<forall>u \<in> ran (user_map s). u_username u \<noteq> n
       | Some u \<Rightarrow> u_username u = n \<and> user_map s (u_id u) = Some u)"
    using FindByUsername_iff [of s n] user_map_id [of s]
    by (auto simp: memory_user_ops_def users_good_def ran_def split: option.splits)
  show "users_good s \<Longrightarrow> user_map s (u_id u) = None \<Longrightarrow> uo_Create (memory_user_ops ord) u s = (e, s') \<Longrightarrow>
      users_good s' \<and> user_map s' = (if e = None then (user_map s)(u_id u \<mapsto> u) else user_map s)"
    using users_inv_Create [of s u e s'] by (auto simp: memory_user_ops_def users_good_def)
  show "users_good s \<Longrightarrow> u' \<in> ran (user_map s) \<Longrightarrow> u_username u' = u_username u \<Longrightarrow>
      fst (uo_Create (memory_user_ops ord) u s) \<noteq> None"
    using ran_user_map_name [of s u'] by (auto simp: memory_user_ops_def Create_def users_good_def)
  show "users_good s \<Longrightarrow> uo_UpdateRole (memory_user_ops ord) i role s = (e, s') \<Longrightarrow>
      users_good s' \<and> user_map s' = (if e = None then alter i (u_role_update (\<lambda>_. role)) (user_map s)
        else user_map s)"
    by (auto simp: memory_user_ops_def users_good_def UpdateRole_def users_inv_write user_map_write)
  show "users_good s \<Longrightarrow> uo_BanUser (memory_user_ops ord) now i reason by' s = (e, s') \<Longrightarrow>
      users_good s' \<and> user_map s' = (if e = None then alter i (banned_user now reason by') (user_map s)
        else user_map s)"
    by (auto simp: memory_user_ops_def users_good_def BanUser_def users_inv_write user_map_write)
  show "users_good s \<Longrightarrow> uo_UnbanUser (memory_user_ops ord) i s = (e, s') \<Longrightarrow>
      users_good s' \<and> user_map s' = (if e = None then alter i unbanned_user (user_map s)
        else user_map s)"
    by (auto simp: memory_user_ops_def users_good_def UnbanUser_def users_inv_write user_map_write)
  show "users_good s \<Longrightarrow> uo_HasAdminOtherThan (memory_user_ops ord) x s = Inr b \<Longrightarrow>
      b = (\<exists>u \<in> ran (user_map s). u_id u \<noteq> x \<and> u_role u = RoleAdmin)"
    using set_users_in [of "ord s" s] assms
    by (auto simp: memory_user_ops_def users_good_def HasAdminOtherThan_def other_admin_iff
        enumerates_def)
qed

text \<open>One such order exists: the identifiers sorted bytewise.\<close>

definition sorted_ids :: "user_mem \<Rightarrow> string list" where
  "sorted_ids s = sorted_list_of_set (dom (user_map s))"

lemma enumerates_sorted_ids: "enumerates sorted_ids"
  by (simp add: enumerates_def ranges_over_def sorted_ids_def)

interpretation mem_users: user_contract "memory_user_ops sorted_ids" users_good user_map
  by (rule memory_user_contract [OF enumerates_sorted_ids])

section \<open>Reachable stores\<close>

text \<open>
  The stores that calls of the public methods lead to. The one obligation is the caller's: a
  new user's identifier is fresh (\<open>Register\<close> draws a UUID).
\<close>

inductive user_reach :: "user_mem \<Rightarrow> bool" where
  ur_new: "user_reach NewMemoryUserStore"
| ur_create: "user_reach s \<Longrightarrow> FindByID (u_id u) s = Inr None \<Longrightarrow> user_reach (snd (Create u s))"
| ur_role: "user_reach s \<Longrightarrow> user_reach (snd (UpdateRole i role s))"
| ur_ban: "user_reach s \<Longrightarrow> user_reach (snd (BanUser now i reason by s))"
| ur_unban: "user_reach s \<Longrightarrow> user_reach (snd (UnbanUser i s))"
| ur_delete: "user_reach s \<Longrightarrow> user_reach (snd (Delete i s))"

lemma user_reach_inv: "user_reach s \<Longrightarrow> users_inv s"
proof (induction rule: user_reach.induct)
  case (ur_create s u)
  then have "user_map s (u_id u) = None" by (simp add: FindByID_def user_map_def)
  then show ?case using users_inv_Create [OF ur_create.IH, of u] by (metis prod.collapse)
next
  case (ur_delete s i)
  then show ?case by (simp add: users_inv_Delete)
qed (auto simp: users_inv_New UpdateRole_def BanUser_def UnbanUser_def users_inv_write)

text \<open>
  Corollary (the two indices of the user store agree). In every store that the public
  methods lead to, a user is found by identifier exactly when the same user, with the same
  role, ban state and fields, is found by name: the two maps share their objects, so an
  update made through the identifier is seen by the login's lookup, and no deletion leaves a
  name behind.
\<close>

theorem user_indices_agree:
  assumes "user_reach s"
  shows "FindByID i s = Inr (Some u) \<longleftrightarrow> FindByUsername (u_username u) s = Inr (Some u) \<and> u_id u = i"
proof -
  have inv: "users_inv s" by (rule user_reach_inv [OF assms])
  have "FindByID i s = Inr (Some u) \<longleftrightarrow> user_map s i = Some u"
    by (simp add: FindByID_def user_map_def)
  then show ?thesis using FindByUsername_iff [OF inv, of "u_username u" u] user_map_id [OF inv]
    by auto
qed

definition sample_user :: user where
  "sample_user = \<lparr>u_id = ''1'', u_username = ''ann'', u_password_hash = ''h'', u_nickname = ''Ann'',
     u_role = RoleUser, u_banned = False, u_banned_at = None, u_banned_reason = '''',
     u_banned_by = '''', u_created_at = 0, u_updated_at = 0\<rparr>"

definition sample_users :: user_mem where
  "sample_users = snd (BanUser 5 ''1'' ''spam'' ''2'' (snd (Create sample_user NewMemoryUserStore)))"

theorem user_indices_agree_witness:
  "FindByUsername ''ann'' sample_users = Inr (Some (banned_user 5 ''spam'' ''2'' sample_user))"
proof -
  have "user_reach sample_users"
    unfolding sample_users_def
    by (intro user_reach.intros) (simp add: FindByID_def NewMemoryUserStore_def)
  from user_indices_agree [OF this, of "''1''" "banned_user 5 ''spam'' ''2'' sample_user"]
  show ?thesis
    by (simp add: sample_users_def sample_user_def FindByID_def BanUser_def write_byid_def
        Create_def NewMemoryUserStore_def banned_user_def)
qed

end
