(* ===== verification/RoomStore.thy ===== *)
theory RoomStore
  imports Interfaces
begin

text \<open>
  \<open>store/room.go\<close>: the in-memory room store. The map holds the store's own copies, so its
  values are the rooms themselves; \<open>UpdateStatus\<close> is a compare-and-set on the status.
  \<open>ListByStatus\<close> ranges over the map in the order \<open>ks\<close>, stops at the limit and then sorts what
  it has by exchanging elements.
\<close>

record room_mem =
  rm_rooms :: "string \<rightharpoonup> room"

definition NewMemoryRoomStore :: room_mem where
  "NewMemoryRoomStore = \<lparr>rm_rooms = Map.empty\<rparr>"

definition Create :: "room \<Rightarrow> room_mem \<Rightarrow> go_error option \<times> room_mem" where
  "Create r s = (None, s\<lparr>rm_rooms := (rm_rooms s)(r_id r \<mapsto> r)\<rparr>)"

definition FindByID :: "string \<Rightarrow> room_mem \<Rightarrow> go_error + room option" where
  "FindByID i s = Inr (rm_rooms s i)"

fun collect_status :: "string \<Rightarrow> int \<Rightarrow> room list \<Rightarrow> room list \<Rightarrow> room list" where
  "collect_status status limit [] result = result"
| "collect_status status limit (r # rs) result =
     (if r_status r = status
      then (let result = result @ [r] in
            if 0 < limit \<and> limit \<le> int (length result) then result
            else collect_status status limit rs result)
      else collect_status status limit rs result)"

text \<open>The two nested loops that order the result by descending creation time.\<close>

function exchange_inner :: "nat \<Rightarrow> nat \<Rightarrow> room list \<Rightarrow> room list" where
  "exchange_inner i j xs =
     (if j < length xs
      then exchange_inner i (j + 1)
        (if r_created_at (xs ! i) < r_created_at (xs ! j)
         then xs[i := xs ! j, j := xs ! i] else xs)
      else xs)"
  by pat_completeness auto
termination
  by (relation "measure (\<lambda>(i, j, xs). length xs - j)") auto

declare exchange_inner.simps [simp del]

lemma length_exchange_inner [simp]: "length (exchange_inner i j xs) = length xs"
proof (induction i j xs rule: exchange_inner.induct)
  case (1 i j xs)
  then show ?case by (subst exchange_inner.simps) auto
qed

function exchange_outer :: "nat \<Rightarrow> room list \<Rightarrow> room list" where
  "exchange_outer i xs =
     (if i < length xs then exchange_outer (i + 1) (exchange_inner i (i + 1) xs) else xs)"
  by pat_completeness auto
termination
  by (relation "measure (\<lambda>(i, xs). length xs - i)") auto

declare exchange_outer.simps [simp del]

definition ListByStatus ::
  "string list \<Rightarrow> string \<Rightarrow> int \<Rightarrow> room_mem \<Rightarrow> (go_error + room list) option" where
  "ListByStatus ks status limit s =
     (if limit < 0 then None
      else Some (Inr (exchange_outer 0
             (collect_status status limit (map_values ks (rm_rooms s)) []))))"

definition UpdateStatus ::
  "time \<Rightarrow> string \<Rightarrow> string \<Rightarrow> string \<Rightarrow> time \<Rightarrow> room_mem \<Rightarrow> go_error option \<times> room_mem" where
  "UpdateStatus now i from to changed_at s =
     (case rm_rooms s i of
        None \<Rightarrow> (Some StoreErrRoomNotFound, s)
      | Some r \<Rightarrow>
          if r_status r \<noteq> from then (Some StoreErrRoomStatusConflict, s)
          else (None, s\<lparr>rm_rooms := (rm_rooms s)(i \<mapsto> room_moved now to changed_at r)\<rparr>))"

definition Count :: "room_mem \<Rightarrow> nat" where
  "Count s = card (dom (rm_rooms s))"

text \<open>\<open>MustCreate\<close> panics (\<open>None\<close>) on an error of \<open>Create\<close>, which has none.\<close>

definition MustCreate :: "room \<Rightarrow> room_mem \<Rightarrow> room_mem option" where
  "MustCreate r s = (case Create r s of (None, s') \<Rightarrow> Some s' | (Some e, s') \<Rightarrow> None)"

definition memory_room_ops :: "(room_mem \<Rightarrow> string list) \<Rightarrow> room_mem room_ops" where
  "memory_room_ops ord = \<lparr>ro_Create = Create, ro_FindByID = FindByID,
     ro_ListByStatus = (\<lambda>st l s. ListByStatus (ord s) st l s),
     ro_UpdateStatus = UpdateStatus\<rparr>"

interpretation mem_rooms: room_contract "memory_room_ops ord" "\<lambda>s. True" rm_rooms
  for ord
  by unfold_locales
    (auto simp: memory_room_ops_def FindByID_def Create_def UpdateStatus_def alter_def
      split: option.splits if_splits)

section \<open>The listing\<close>

lemma collect_status_filter:
  assumes "limit \<le> 0 \<or> int (length result) < limit"
  shows "collect_status status limit rs result =
    result @ (if 0 < limit then take (nat limit - length result) (filter (\<lambda>r. r_status r = status) rs)
              else filter (\<lambda>r. r_status r = status) rs)"
  using assms
proof (induction rs arbitrary: result)
  case Nil
  then show ?case by simp
next
  case (Cons r rs)
  show ?case
  proof (cases "r_status r = status")
    case False
    with Cons show ?thesis by simp
  next
    case True
    show ?thesis
    proof (cases "0 < limit \<and> limit \<le> int (length (result @ [r]))")
      case full: True
      with Cons.prems have "nat limit = Suc (length result)" by auto
      with True full show ?thesis by simp
    next
      case False
      then have nx: "limit \<le> 0 \<or> int (length (result @ [r])) < limit" by auto
      show ?thesis
      proof (cases "0 < limit")
        case pos: True
        with nx have "Suc (length result) \<le> nat limit" by auto
        then obtain k where k: "nat limit = Suc (length result + k)"
          by (metis add_Suc le_Suc_ex)
        from Cons.IH [OF nx] True False pos k show ?thesis by simp
      next
        case neg: False
        from Cons.IH [OF nx] True False neg show ?thesis by simp
      qed
    qed
  qed
qed

lemma swap_simps:
  assumes "i < length xs" and "j < length xs"
  shows "mset (xs[i := xs ! j, j := xs ! i]) = mset xs"
  using assms by (simp add: mset_swap)

text \<open>One pass of the inner loop puts the greatest of the elements from \<open>i\<close> on at \<open>i\<close>.\<close>

lemma exchange_inner_spec:
  assumes "i < j"
  shows "mset (exchange_inner i j xs) = mset xs"
    and "k < i \<Longrightarrow> exchange_inner i j xs ! k = xs ! k"
    and "i < length xs \<Longrightarrow> r_created_at (xs ! i) \<le> r_created_at (exchange_inner i j xs ! i)"
    and "i < k \<Longrightarrow> k < j \<Longrightarrow> exchange_inner i j xs ! k = xs ! k"
    and "j \<le> k \<Longrightarrow> k < length xs \<Longrightarrow>
      r_created_at (exchange_inner i j xs ! k) \<le> r_created_at (exchange_inner i j xs ! i)"
proof -
  have "i < j \<longrightarrow> mset (exchange_inner i j xs) = mset xs \<and>
    (\<forall>k < i. exchange_inner i j xs ! k = xs ! k) \<and>
    (i < length xs \<longrightarrow> r_created_at (xs ! i) \<le> r_created_at (exchange_inner i j xs ! i)) \<and>
    (\<forall>k. i < k \<and> k < j \<longrightarrow> exchange_inner i j xs ! k = xs ! k) \<and>
    (\<forall>k. j \<le> k \<and> k < length xs \<longrightarrow>
      r_created_at (exchange_inner i j xs ! k) \<le> r_created_at (exchange_inner i j xs ! i))"
  proof (induction i j xs rule: exchange_inner.induct)
    case (1 i j xs)
    show ?case
    proof (cases "j < length xs")
      case False
      then have "exchange_inner i j xs = xs" by (subst exchange_inner.simps) simp
      with False show ?thesis by simp
    next
      case True
      let ?ys = "if r_created_at (xs ! i) < r_created_at (xs ! j)
        then xs[i := xs ! j, j := xs ! i] else xs"
      let ?zs = "exchange_inner i (j + 1) ?ys"
      have step: "exchange_inner i j xs = ?zs"
        using True by (subst exchange_inner.simps) simp
      show ?thesis
      proof (rule impI)
        assume ij: "i < j"
        with True have i: "i < length xs" by simp
        from ij "1.IH" [OF True] have
          m: "mset ?zs = mset ?ys" and lo: "\<forall>k < i. ?zs ! k = ?ys ! k"
          and up: "r_created_at (?ys ! i) \<le> r_created_at (?zs ! i)"
          and mid: "\<forall>k. i < k \<and> k < j + 1 \<longrightarrow> ?zs ! k = ?ys ! k"
          and hi: "\<forall>k. j + 1 \<le> k \<and> k < length xs \<longrightarrow> r_created_at (?zs ! k) \<le> r_created_at (?zs ! i)"
          using i by (auto split: if_splits)
        have y: "mset ?ys = mset xs" "\<forall>k. k \<noteq> i \<and> k \<noteq> j \<longrightarrow> ?ys ! k = xs ! k"
          "r_created_at (xs ! i) \<le> r_created_at (?ys ! i)"
          "r_created_at (?ys ! j) \<le> r_created_at (?ys ! i)"
          using i True ij by (auto simp: swap_simps nth_list_update)
        have "r_created_at (?zs ! k) \<le> r_created_at (?zs ! i)" if "j \<le> k" "k < length xs" for k
        proof (cases "k = j")
          case True
          with mid ij y(4) up show ?thesis by simp
        qed (use hi that in simp)
        then show "mset (exchange_inner i j xs) = mset xs \<and>
          (\<forall>k < i. exchange_inner i j xs ! k = xs ! k) \<and>
          (i < length xs \<longrightarrow> r_created_at (xs ! i) \<le> r_created_at (exchange_inner i j xs ! i)) \<and>
          (\<forall>k. i < k \<and> k < j \<longrightarrow> exchange_inner i j xs ! k = xs ! k) \<and>
          (\<forall>k. j \<le> k \<and> k < length xs \<longrightarrow>
            r_created_at (exchange_inner i j xs ! k) \<le> r_created_at (exchange_inner i j xs ! i))"
          unfolding step using m lo up mid y ij by auto
      qed
    qed
  qed
  with assms show "mset (exchange_inner i j xs) = mset xs"
    and "k < i \<Longrightarrow> exchange_inner i j xs ! k = xs ! k"
    and "i < length xs \<Longrightarrow> r_created_at (xs ! i) \<le> r_created_at (exchange_inner i j xs ! i)"
    and "i < k \<Longrightarrow> k < j \<Longrightarrow> exchange_inner i j xs ! k = xs ! k"
    and "j \<le> k \<Longrightarrow> k < length xs \<Longrightarrow>
      r_created_at (exchange_inner i j xs ! k) \<le> r_created_at (exchange_inner i j xs ! i)"
    by auto
qed

text \<open>The prefix up to \<open>i\<close> is in its final place: descending and not below what follows.\<close>

definition placed :: "nat \<Rightarrow> room list \<Rightarrow> bool" where
  "placed i xs \<longleftrightarrow>
     (\<forall>a b. a < i \<and> a < b \<and> b < length xs \<longrightarrow> r_created_at (xs ! b) \<le> r_created_at (xs ! a))"

lemma mset_drop_eq:
  assumes "mset xs = mset ys" and "take i xs = take i ys"
  shows "mset (drop i xs) = mset (drop i ys)"
  using assms by (metis add_left_cancel append_take_drop_id mset_append)

lemma placed_step:
  assumes "placed i xs" and "i < length xs"
  shows "placed (i + 1) (exchange_inner i (i + 1) xs)"
proof -
  let ?ys = "exchange_inner i (i + 1) xs"
  have pre: "take i ?ys = take i xs"
    using assms(2) by (intro nth_take_lemma) (auto intro: exchange_inner_spec(2))
  have "mset (drop i ?ys) = mset (drop i xs)"
    using exchange_inner_spec(1) [of i "i + 1" xs] pre by (intro mset_drop_eq) auto
  then have rest: "set (drop i ?ys) = set (drop i xs)" by (metis set_mset_mset)
  show ?thesis
    unfolding placed_def
  proof (intro allI impI)
    fix a b assume ab: "a < i + 1 \<and> a < b \<and> b < length ?ys"
    show "r_created_at (?ys ! b) \<le> r_created_at (?ys ! a)"
    proof (cases "a = i")
      case True
      with ab exchange_inner_spec(5) [of i "i + 1" b xs] show ?thesis by simp
    next
      case False
      with ab have a: "a < i" by simp
      then have ya: "?ys ! a = xs ! a" by (rule exchange_inner_spec(2) [rotated]) simp
      show ?thesis
      proof (cases "b < i")
        case True
        then have "?ys ! b = xs ! b" by (rule exchange_inner_spec(2) [rotated]) simp
        with True a ab assms ya show ?thesis by (auto simp: placed_def)
      next
        case False
        with ab have "drop i ?ys ! (b - i) = ?ys ! b" and "b - i < length (drop i ?ys)" by auto
        then have "?ys ! b \<in> set (drop i xs)" using rest nth_mem by metis
        then obtain d where "d < length (drop i xs)" "?ys ! b = drop i xs ! d"
          by (auto simp: in_set_conv_nth)
        then obtain c where "i \<le> c" "c < length xs" "?ys ! b = xs ! c"
          using assms(2) by (intro that [of "i + d"]) auto
        with a assms(1) ya show ?thesis by (auto simp: placed_def)
      qed
    qed
  qed
qed

lemma exchange_outer_spec:
  "placed i xs \<Longrightarrow> mset (exchange_outer i xs) = mset xs \<and> placed (length xs) (exchange_outer i xs)"
proof (induction i xs rule: exchange_outer.induct)
  case (1 i xs)
  show ?case
  proof (cases "i < length xs")
    case True
    then have "exchange_outer i xs = exchange_outer (i + 1) (exchange_inner i (i + 1) xs)"
      by (subst exchange_outer.simps) simp
    with "1.IH" [OF True placed_step [OF "1.prems" True]] show ?thesis
      by (simp add: exchange_inner_spec(1))
  next
    case False
    then have "exchange_outer i xs = xs" by (subst exchange_outer.simps) simp
    with False "1.prems" show ?thesis by (auto simp: placed_def)
  qed
qed

lemma placed_sorted:
  "placed (length xs) xs \<Longrightarrow> sorted_wrt (\<lambda>a b. r_created_at b \<le> r_created_at a) xs"
  by (auto simp: placed_def sorted_wrt_iff_nth_less)

lemma exchange_sort:
  "mset (exchange_outer 0 xs) = mset xs"
  "sorted_wrt (\<lambda>a b. r_created_at b \<le> r_created_at a) (exchange_outer 0 xs)"
proof -
  have "placed 0 xs" by (simp add: placed_def)
  from exchange_outer_spec [OF this] show m: "mset (exchange_outer 0 xs) = mset xs" by simp
  from exchange_outer_spec [OF \<open>placed 0 xs\<close>] m
  show "sorted_wrt (\<lambda>a b. r_created_at b \<le> r_created_at a) (exchange_outer 0 xs)"
    by (metis placed_sorted size_mset)
qed

section \<open>Properties\<close>

text \<open>
  Corollary (the room listing). For every order in which the runtime ranges over the map and
  every positive limit, the listing holds only rooms of the asked status, each at most once,
  newest first, and as many as the limit and the store allow. (Which rooms they are when
  there are more than the limit depends on the order: the loop stops before it sorts.)
\<close>

theorem list_by_status_newest_first:
  assumes "ranges_over ks (rm_rooms s)" and "0 < limit"
  shows "\<exists>rs. ListByStatus ks status limit s = Some (Inr rs) \<and>
    set rs \<subseteq> {r \<in> ran (rm_rooms s). r_status r = status} \<and>
    sorted_wrt (\<lambda>a b. r_created_at b \<le> r_created_at a) rs \<and>
    int (length rs) = min limit (int (card {i. \<exists>r. rm_rooms s i = Some r \<and> r_status r = status}))"
proof -
  let ?all = "map_values ks (rm_rooms s)"
  let ?got = "collect_status status limit ?all []"
  have got: "?got = take (nat limit) (filter (\<lambda>r. r_status r = status) ?all)"
    using assms(2) by (simp add: collect_status_filter)
  have all: "set ?all = ran (rm_rooms s)" by (rule set_map_values [OF assms(1)])
  have count: "length (filter P (map_values js m)) = card {i \<in> set js. \<exists>r. m i = Some r \<and> P r}"
    if "distinct js" for P js and m :: "string \<rightharpoonup> room"
    using that
  proof (induction js)
    case (Cons j js)
    have "{i \<in> set (j # js). \<exists>r. m i = Some r \<and> P r} =
      (if \<exists>r. m j = Some r \<and> P r then insert j {i \<in> set js. \<exists>r. m i = Some r \<and> P r}
       else {i \<in> set js. \<exists>r. m i = Some r \<and> P r})" by auto
    with Cons show ?case by (auto split: option.split)
  qed simp
  have "{i \<in> set ks. \<exists>r. rm_rooms s i = Some r \<and> r_status r = status} =
      {i. \<exists>r. rm_rooms s i = Some r \<and> r_status r = status}"
    using assms(1) by (auto simp: ranges_over_def)
  then have n: "length (filter (\<lambda>r. r_status r = status) ?all) =
      card {i. \<exists>r. rm_rooms s i = Some r \<and> r_status r = status}"
    using count [OF ranges_over_distinct [OF assms(1)]] by simp
  let ?rs = "exchange_outer 0 ?got"
  have m: "mset ?rs = mset ?got" by (rule exchange_sort)
  have "set ?rs = set ?got" by (metis m set_mset_mset)
  then have "set ?rs \<subseteq> {r \<in> ran (rm_rooms s). r_status r = status}"
    using all by (auto simp: got dest: in_set_takeD)
  moreover have "length ?rs = length ?got" by (metis m size_mset)
  moreover have "ListByStatus ks status limit s = Some (Inr ?rs)"
    using assms(2) by (simp add: ListByStatus_def)
  ultimately show ?thesis
    using n assms(2) exchange_sort(2) by (intro exI [of _ ?rs]) (auto simp: got min_def)
qed

definition sample_room :: "string \<Rightarrow> string \<Rightarrow> time \<Rightarrow> room" where
  "sample_room i st t = \<lparr>r_id = i, r_title = ''t'', r_owner_id = ''o'', r_status = st,
     r_started_at = None, r_ended_at = None, r_created_at = t, r_updated_at = t\<rparr>"

definition sample_rooms :: room_mem where
  "sample_rooms = \<lparr>rm_rooms = [''a'' \<mapsto> sample_room ''a'' RoomStatusLive 1,
     ''b'' \<mapsto> sample_room ''b'' RoomStatusEnded 2, ''c'' \<mapsto> sample_room ''c'' RoomStatusLive 3]\<rparr>"

theorem list_by_status_newest_first_witness:
  "\<exists>rs. ListByStatus [''a'', ''b'', ''c''] RoomStatusLive 5 sample_rooms = Some (Inr rs) \<and>
    set rs \<subseteq> {r \<in> ran (rm_rooms sample_rooms). r_status r = RoomStatusLive}"
proof -
  have "ranges_over [''a'', ''b'', ''c''] (rm_rooms sample_rooms)"
    by (auto simp: ranges_over_def sample_rooms_def)
  from list_by_status_newest_first [OF this, of 5 RoomStatusLive] show ?thesis by auto
qed

end
