(* ===== verification/GovernanceStores.thy ===== *)
theory GovernanceStores
  imports Interfaces
begin

text \<open>
  \<open>store/moderation.go\<close>: the in-memory report store, audit log and mute store. The report
  store files each pointer in two maps and updates the object through one of them, so its
  objects live on a heap of their own; a mute is never written after its creation, so the
  mute store's maps hold the records themselves.
\<close>

section \<open>Reports\<close>

record report_mem =
  pm_heap :: "nat \<rightharpoonup> report"
  pm_next :: nat
  pm_reports :: "string \<rightharpoonup> nat"
  pm_byid :: "string \<rightharpoonup> nat"

definition NewMemoryReportStore :: report_mem where
  "NewMemoryReportStore =
     \<lparr>pm_heap = Map.empty, pm_next = 0, pm_reports = Map.empty, pm_byid = Map.empty\<rparr>"

definition CreateReport :: "report \<Rightarrow> report_mem \<Rightarrow> go_error option \<times> report_mem" where
  "CreateReport r s = (let p = pm_next s in
     (None, s\<lparr>pm_heap := (pm_heap s)(p \<mapsto> r), pm_next := p + 1,
              pm_reports := (pm_reports s)(rp_id r \<mapsto> p), pm_byid := (pm_byid s)(rp_id r \<mapsto> p)\<rparr>))"

definition report_at :: "report_mem \<Rightarrow> nat option \<Rightarrow> report option" where
  "report_at s p = (case p of None \<Rightarrow> None | Some a \<Rightarrow> pm_heap s a)"

definition FindReportByID :: "string \<Rightarrow> report_mem \<Rightarrow> go_error + report option" where
  "FindReportByID i s = Inr (report_at s (pm_byid s i))"

text \<open>Both queries range over \<open>reports\<close>, in the order \<open>ks\<close>.\<close>

definition reports_in :: "string list \<Rightarrow> report_mem \<Rightarrow> report list" where
  "reports_in ks s = map_values ks (\<lambda>i. report_at s (pm_reports s i))"

definition FindByDanmakuAndReporter ::
  "string list \<Rightarrow> string \<Rightarrow> string \<Rightarrow> report_mem \<Rightarrow> go_error + report option" where
  "FindByDanmakuAndReporter ks d u s =
     Inr (find (\<lambda>r. rp_danmaku_id r = d \<and> rp_reporter_user_id r = u) (reports_in ks s))"

definition newest_report :: "report \<Rightarrow> report \<Rightarrow> bool" where
  "newest_report r q \<longleftrightarrow> rp_created_at q < rp_created_at r"

definition ListReportsByStatus ::
  "report sorter \<Rightarrow> string list \<Rightarrow> string \<Rightarrow> int \<Rightarrow> report_mem \<Rightarrow> go_error + report list" where
  "ListReportsByStatus srt ks status limit s =
     Inr (cut_limit limit (srt newest_report (filter (\<lambda>r. rp_status r = status) (reports_in ks s))))"

definition UpdateReportStatus ::
  "string \<Rightarrow> string \<Rightarrow> string \<Rightarrow> time \<Rightarrow> report_mem \<Rightarrow> go_error option \<times> report_mem" where
  "UpdateReportStatus i status by at s =
     (case pm_byid s i of
        None \<Rightarrow> (None, s)
      | Some p \<Rightarrow> (None, s\<lparr>pm_heap := alter p (closed_report status by at) (pm_heap s)\<rparr>))"

definition memory_report_ops ::
  "report sorter \<Rightarrow> (report_mem \<Rightarrow> string list) \<Rightarrow> report_mem report_ops" where
  "memory_report_ops srt ord = \<lparr>po_Create = CreateReport, po_FindByID = FindReportByID,
     po_FindByDanmakuAndReporter = (\<lambda>d u s. FindByDanmakuAndReporter (ord s) d u s),
     po_ListByStatus = (\<lambda>st l s. ListReportsByStatus srt (ord s) st l s),
     po_UpdateStatus = UpdateReportStatus\<rparr>"

text \<open>The two maps are one, its pointers are live, and distinct keys have distinct objects.\<close>

definition reports_inv :: "report_mem \<Rightarrow> bool" where
  "reports_inv s \<longleftrightarrow> pm_reports s = pm_byid s \<and> finite (dom (pm_byid s)) \<and>
     (\<forall>i p. pm_byid s i = Some p \<longrightarrow> (\<exists>r. pm_heap s p = Some r \<and> rp_id r = i)) \<and>
     (\<forall>p r. pm_heap s p = Some r \<longrightarrow> p < pm_next s)"

definition report_map :: "report_mem \<Rightarrow> string \<rightharpoonup> report" where
  "report_map s i = report_at s (pm_byid s i)"

lemma report_at_simps [simp]: "report_at s None = None" "report_at s (Some p) = pm_heap s p"
  by (simp_all add: report_at_def)

lemma reports_inv_New [inv_intros]: "reports_inv NewMemoryReportStore"
  by (simp add: reports_inv_def NewMemoryReportStore_def)

lemma reports_inv_byid:
  assumes "reports_inv s" and "pm_byid s i = Some p"
  obtains r where "pm_heap s p = Some r" "rp_id r = i"
  using assms unfolding reports_inv_def by blast

lemma dom_report_map: "reports_inv s \<Longrightarrow> dom (report_map s) = dom (pm_byid s)"
  unfolding reports_inv_def dom_def report_map_def report_at_def
  by (fastforce split: option.splits)

lemma CreateReport_inv:
  assumes "reports_inv s"
  shows "reports_inv (snd (CreateReport r s))"
    and "report_map (snd (CreateReport r s)) = (report_map s)(rp_id r \<mapsto> r)"
proof -
  have live: "pm_heap s q \<noteq> None \<Longrightarrow> q < pm_next s" for q
    using assms by (auto simp: reports_inv_def)
  have old: "pm_byid s i = Some p \<Longrightarrow> p \<noteq> pm_next s" for i p
    using assms live by (metis less_irrefl option.distinct(1) reports_inv_byid)
  show "reports_inv (snd (CreateReport r s))"
    using assms old unfolding reports_inv_def
    by (auto simp: CreateReport_def Let_def intro: less_SucI)
  show "report_map (snd (CreateReport r s)) = (report_map s)(rp_id r \<mapsto> r)"
    using old by (auto simp: report_map_def CreateReport_def Let_def report_at_def fun_eq_iff
        split: option.split)
qed

lemma UpdateReportStatus_inv:
  assumes "reports_inv s"
  shows "reports_inv (snd (UpdateReportStatus i st by at s))"
    and "report_map (snd (UpdateReportStatus i st by at s)) =
      alter i (closed_report st by at) (report_map s)"
proof -
  have "reports_inv (snd (UpdateReportStatus i st by at s)) \<and>
    report_map (snd (UpdateReportStatus i st by at s)) = alter i (closed_report st by at) (report_map s)"
  proof (cases "pm_byid s i")
    case None
    with assms show ?thesis by (auto simp: UpdateReportStatus_def report_map_def alter_def)
  next
    case (Some p)
    let ?t = "s\<lparr>pm_heap := alter p (closed_report st by at) (pm_heap s)\<rparr>"
    have t: "snd (UpdateReportStatus i st by at s) = ?t" using Some by (simp add: UpdateReportStatus_def)
    have "\<exists>r. pm_heap ?t q = Some r \<and> rp_id r = j" if q: "pm_byid s j = Some q" for j q
    proof -
      from reports_inv_byid [OF assms q] obtain r where "pm_heap s q = Some r" "rp_id r = j" .
      then show ?thesis by (auto simp: alter_apply)
    qed
    moreover have "q < pm_next s" if "pm_heap ?t q = Some r" for q r
    proof -
      from that have "pm_heap s q \<noteq> None" by (auto simp: alter_apply split: if_splits)
      with assms show ?thesis by (auto simp: reports_inv_def)
    qed
    ultimately have "reports_inv ?t" using assms by (simp add: reports_inv_def)
    moreover have "report_map ?t j = alter i (closed_report st by at) (report_map s) j" for j
    proof (cases "pm_byid s j")
      case (Some q)
      have "q = p \<longleftrightarrow> j = i"
        using \<open>pm_byid s i = Some p\<close> Some assms by (metis option.inject reports_inv_byid)
      with Some \<open>pm_byid s i = Some p\<close> show ?thesis by (simp add: report_map_def alter_apply)
    qed (use Some in \<open>auto simp: report_map_def alter_apply\<close>)
    ultimately show ?thesis by (simp add: t fun_eq_iff)
  qed
  then show "reports_inv (snd (UpdateReportStatus i st by at s))"
    and "report_map (snd (UpdateReportStatus i st by at s)) =
      alter i (closed_report st by at) (report_map s)" by simp_all
qed

definition enumerates_reports :: "(report_mem \<Rightarrow> string list) \<Rightarrow> bool" where
  "enumerates_reports ord \<longleftrightarrow>
     (\<forall>s. finite (dom (report_map s)) \<longrightarrow> ranges_over (ord s) (report_map s))"

lemma set_reports_in:
  assumes "reports_inv s" and "enumerates_reports ord"
  shows "set (reports_in (ord s) s) = ran (report_map s)"
proof -
  have "(\<lambda>i. report_at s (pm_reports s i)) = report_map s"
    using assms(1) by (simp add: reports_inv_def report_map_def fun_eq_iff)
  moreover have "ranges_over (ord s) (report_map s)"
    using assms dom_report_map [OF assms(1)] by (simp add: enumerates_reports_def reports_inv_def)
  ultimately show ?thesis by (simp add: reports_in_def set_map_values)
qed

lemma memory_report_contract:
  assumes "enumerates_reports ord"
  shows "report_contract (memory_report_ops srt ord) reports_inv report_map"
proof
  fix s s' i d u st by' at' e and res :: "report option" and r :: report
  show "po_FindByID (memory_report_ops srt ord) i s = Inr res \<Longrightarrow> res = report_map s i"
    by (simp add: memory_report_ops_def FindReportByID_def report_map_def)
  show "reports_inv s \<Longrightarrow>
      po_FindByDanmakuAndReporter (memory_report_ops srt ord) d u s = Inr res \<Longrightarrow>
      res = None \<longleftrightarrow>
        (\<forall>x \<in> ran (report_map s). \<not> (rp_danmaku_id x = d \<and> rp_reporter_user_id x = u))"
    using set_reports_in [of s ord] assms
    by (auto simp: memory_report_ops_def FindByDanmakuAndReporter_def find_None_iff)
  show "reports_inv s \<Longrightarrow> po_Create (memory_report_ops srt ord) r s = (e, s') \<Longrightarrow>
      reports_inv s' \<and> report_map s' = (if e = None then (report_map s)(rp_id r \<mapsto> r) else report_map s)"
    using CreateReport_inv [of s r] by (auto simp: memory_report_ops_def CreateReport_def Let_def)
  show "reports_inv s \<Longrightarrow> po_UpdateStatus (memory_report_ops srt ord) i st by' at' s = (e, s') \<Longrightarrow>
      reports_inv s' \<and> report_map s' = (if e = None
        then alter i (closed_report st by' at') (report_map s) else report_map s)"
    using UpdateReportStatus_inv [of s i st by' at']
    by (auto simp: memory_report_ops_def UpdateReportStatus_def split: option.splits)
qed

definition sorted_report_ids :: "report_mem \<Rightarrow> string list" where
  "sorted_report_ids s = sorted_list_of_set (dom (report_map s))"

lemma enumerates_sorted_report_ids: "enumerates_reports sorted_report_ids"
  by (simp add: enumerates_reports_def ranges_over_def sorted_report_ids_def)

interpretation mem_reports: report_contract "memory_report_ops srt sorted_report_ids"
  reports_inv report_map for srt
  by (rule memory_report_contract [OF enumerates_sorted_report_ids])

section \<open>The audit log\<close>

record audit_mem =
  am_entries :: "audit_log list"

definition NewMemoryAuditLogStore :: audit_mem where
  "NewMemoryAuditLogStore = \<lparr>am_entries = []\<rparr>"

definition AddEntry :: "audit_log \<Rightarrow> audit_mem \<Rightarrow> go_error option \<times> audit_mem" where
  "AddEntry e s = (None, s\<lparr>am_entries := am_entries s @ [e]\<rparr>)"

text \<open>\<open>reversed[offset:end]\<close> panics unless \<open>0 \<le> offset \<le> end \<le> len\<close>.\<close>

definition slice :: "'a list \<Rightarrow> int \<Rightarrow> int \<Rightarrow> 'a list option" where
  "slice xs from to = (if 0 \<le> from \<and> from \<le> to \<and> to \<le> int (length xs)
     then Some (drop (nat from) (take (nat to) xs)) else None)"

definition ListEntries :: "int \<Rightarrow> int \<Rightarrow> audit_mem \<Rightarrow> (go_error + audit_log list) option" where
  "ListEntries limit offset s =
     (let n = int (length (am_entries s)) in
      if n \<le> offset then Some (Inr [])
      else let end = i64 (offset + limit);
               end = (if limit \<le> 0 \<or> n < end then n else end)
           in map_option Inr (slice (rev (am_entries s)) offset end))"

definition memory_audit_ops :: "audit_mem audit_ops" where
  "memory_audit_ops = \<lparr>ao_Add = AddEntry, ao_List = ListEntries\<rparr>"

interpretation mem_audit: audit_contract memory_audit_ops am_entries
  by unfold_locales (auto simp: memory_audit_ops_def AddEntry_def)

lemma ListEntries_page:
  assumes "0 \<le> offset" and "0 < limit" and "offset + limit < 2 ^ 63"
  shows "ListEntries limit offset s =
    Some (Inr (take (nat limit) (drop (nat offset) (rev (am_entries s)))))"
proof (cases "int (length (am_entries s)) \<le> offset")
  case True
  then show ?thesis by (simp add: ListEntries_def nat_le_iff le_nat_iff)
next
  case False
  have w: "i64 (offset + limit) = offset + limit" using assms by (intro i64_id) auto
  let ?n = "length (am_entries s)"
  show ?thesis
  proof (cases "int ?n < offset + limit")
    case True
    with False assms show ?thesis by (simp add: ListEntries_def Let_def w slice_def)
  next
    case small: False
    have "nat (offset + limit) - nat offset = nat limit" using assms by (simp add: nat_diff_distrib')
    with small False assms show ?thesis
      by (simp add: ListEntries_def Let_def w slice_def drop_take)
  qed
qed

section \<open>Mutes\<close>

record mute_mem =
  mm_mutes :: "string \<rightharpoonup> mute"
  mm_byid :: "string \<rightharpoonup> mute"

definition NewMemoryMuteStore :: mute_mem where
  "NewMemoryMuteStore = \<lparr>mm_mutes = Map.empty, mm_byid = Map.empty\<rparr>"

definition mute_key :: "string \<Rightarrow> string \<Rightarrow> string" where
  "mute_key user_id room_id = user_id @ '':'' @ room_id"

definition CreateMute :: "mute \<Rightarrow> mute_mem \<Rightarrow> go_error option \<times> mute_mem" where
  "CreateMute m s =
     (None, s\<lparr>mm_mutes := (mm_mutes s)(mute_key (m_user_id m) (m_room_id m) \<mapsto> m),
              mm_byid := (mm_byid s)(m_id m \<mapsto> m)\<rparr>)"

definition FindActiveByUserAndRoom ::
  "time \<Rightarrow> string \<Rightarrow> string \<Rightarrow> mute_mem \<Rightarrow> go_error + mute option" where
  "FindActiveByUserAndRoom now u r s =
     (case mm_mutes s (mute_key u r) of
        None \<Rightarrow> Inr None
      | Some m \<Rightarrow> if \<not> IsActive now m then Inr None else Inr (Some m))"

definition DeleteByUserAndRoom :: "string \<Rightarrow> string \<Rightarrow> mute_mem \<Rightarrow> go_error option \<times> mute_mem" where
  "DeleteByUserAndRoom u r s =
     (case mm_mutes s (mute_key u r) of
        None \<Rightarrow> (None, s)
      | Some m \<Rightarrow> (None, s\<lparr>mm_mutes := (mm_mutes s)(mute_key u r := None),
                            mm_byid := (mm_byid s)(m_id m := None)\<rparr>))"

definition ListActiveByRoom ::
  "string list \<Rightarrow> time \<Rightarrow> string \<Rightarrow> mute_mem \<Rightarrow> go_error + mute list" where
  "ListActiveByRoom ks now r s =
     Inr (filter (\<lambda>m. m_room_id m = r \<and> IsActive now m) (map_values ks (mm_mutes s)))"

definition memory_mute_ops :: "(mute_mem \<Rightarrow> string list) \<Rightarrow> mute_mem mute_ops" where
  "memory_mute_ops ord = \<lparr>mo_Create = CreateMute,
     mo_FindActiveByUserAndRoom = FindActiveByUserAndRoom,
     mo_DeleteByUserAndRoom = DeleteByUserAndRoom,
     mo_ListActiveByRoom = (\<lambda>now r s. ListActiveByRoom (ord s) now r s)\<rparr>"

text \<open>
  The key joins the identifiers with a colon and is unambiguous when the user identifier holds
  none; identifiers are UUIDs in this program.
\<close>

definition no_colon :: "string \<Rightarrow> bool" where
  "no_colon u \<longleftrightarrow> CHR '':'' \<notin> set u"

lemma mute_key_inj:
  "no_colon u \<Longrightarrow> no_colon v \<Longrightarrow> mute_key u r = mute_key v q \<longleftrightarrow> u = v \<and> r = q"
proof
  assume "no_colon u" "no_colon v" "mute_key u r = mute_key v q"
  then show "u = v \<and> r = q"
  proof (induction u arbitrary: v)
    case Nil
    then show ?case by (cases v) (auto simp: no_colon_def mute_key_def)
  next
    case (Cons c u)
    then show ?case by (cases v) (auto simp: no_colon_def mute_key_def)
  qed
qed auto

definition mute_in_force :: "mute_mem \<Rightarrow> string \<times> string \<rightharpoonup> mute" where
  "mute_in_force s k = mm_mutes s (mute_key (fst k) (snd k))"

interpretation mem_mutes: mute_contract "memory_mute_ops ord" no_colon mute_in_force
  for ord
proof
  fix s s' u v r q now e and x :: "mute option" and m :: mute
  show "mo_FindActiveByUserAndRoom (memory_mute_ops ord) now u r s = Inr x \<Longrightarrow>
      x = (case mute_in_force s (u, r) of None \<Rightarrow> None
           | Some m \<Rightarrow> if IsActive now m then Some m else None)"
    by (auto simp: memory_mute_ops_def FindActiveByUserAndRoom_def mute_in_force_def
        split: option.splits if_splits)
  show "no_colon (m_user_id m) \<Longrightarrow> no_colon u \<Longrightarrow> mo_Create (memory_mute_ops ord) m s = (e, s') \<Longrightarrow>
      mute_in_force s' (u, r) = (if e = None \<and> (u, r) = (m_user_id m, m_room_id m) then Some m
                                 else mute_in_force s (u, r))"
    by (auto simp: memory_mute_ops_def CreateMute_def mute_in_force_def mute_key_inj)
  show "no_colon v \<Longrightarrow> no_colon u \<Longrightarrow> mo_DeleteByUserAndRoom (memory_mute_ops ord) v q s = (e, s') \<Longrightarrow>
      mute_in_force s' (u, r) = (if e = None \<and> (u, r) = (v, q) then None
                                 else mute_in_force s (u, r))"
    by (auto simp: memory_mute_ops_def DeleteByUserAndRoom_def mute_in_force_def mute_key_inj
        split: option.splits)
qed

section \<open>Properties\<close>

text \<open>
  Corollary (paging through the audit log). The pages of a positive size, read one after the
  other from offset 0 with no entry written in between, are together the newest entries of the
  log, newest first, without a gap or a repetition: after enough pages, the whole log.
\<close>

theorem audit_pages_newest_first:
  assumes "0 < psz" and "int pages * psz < 2 ^ 63"
  shows "\<exists>ps. map (\<lambda>k. ListEntries psz (int k * psz) s) [0..<pages] = map (Some \<circ> Inr) ps \<and>
    concat ps = take (pages * nat psz) (rev (am_entries s))"
  using assms(2)
proof (induction pages)
  case 0
  then show ?case by simp
next
  case (Suc k)
  have b: "int k * psz + psz < 2 ^ 63" using Suc.prems by (simp add: algebra_simps)
  then have "int k * psz < 2 ^ 63" using assms(1) by linarith
  with Suc.IH obtain ps where
    ps: "map (\<lambda>k. ListEntries psz (int k * psz) s) [0..<k] = map (Some \<circ> Inr) ps"
      "concat ps = take (k * nat psz) (rev (am_entries s))" by blast
  let ?p = "take (nat psz) (drop (k * nat psz) (rev (am_entries s)))"
  have off: "nat (int k * psz) = k * nat psz" using assms(1) by (simp add: nat_mult_distrib)
  have "ListEntries psz (int k * psz) s = Some (Inr ?p)"
    using ListEntries_page [of "int k * psz" psz s] assms(1) b unfolding off by simp
  moreover have "take (Suc k * nat psz) (rev (am_entries s)) =
      take (k * nat psz) (rev (am_entries s)) @ ?p"
    by (simp only: mult_Suc add.commute [of "nat psz"] take_add)
  ultimately show ?case
    using ps by (intro exI [of _ "ps @ [?p]"]) simp
qed

definition sample_audit :: "string \<Rightarrow> audit_log" where
  "sample_audit i = \<lparr>al_id = i, al_action = AuditBanUser, al_actor_user_id = ''a'',
     al_target_user_id = ''b'', al_target_danmaku_id = '''', al_target_room_id = '''',
     al_reason = '''', al_created_at = 0\<rparr>"

definition sample_audits :: audit_mem where
  "sample_audits = \<lparr>am_entries = [sample_audit ''1'', sample_audit ''2'', sample_audit ''3'']\<rparr>"

theorem audit_pages_newest_first_witness:
  "\<exists>ps. map (\<lambda>k. ListEntries 2 (int k * 2) sample_audits) [0..<2] = map (Some \<circ> Inr) ps \<and>
    concat ps = [sample_audit ''3'', sample_audit ''2'', sample_audit ''1'']"
  using audit_pages_newest_first [of 2 2 sample_audits] by (simp add: sample_audits_def)

text \<open>
  Corollary (a mute lasts until its expiry and reaches no one else). Right after \<open>Create\<close> the
  lookup returns the mute to every caller before its expiry and nothing from then on, and the
  lookup for any other user or room answers what it answered before.
\<close>

theorem mute_created_in_force:
  assumes "no_colon (m_user_id m)" and "no_colon u"
  shows "FindActiveByUserAndRoom now u r (snd (CreateMute m s)) =
    (if u = m_user_id m \<and> r = m_room_id m
     then Inr (if now < m_expires_at m then Some m else None)
     else FindActiveByUserAndRoom now u r s)"
  using assms
  by (auto simp: FindActiveByUserAndRoom_def CreateMute_def mute_key_inj IsActive_def)

theorem mute_created_in_force_witness:
  "FindActiveByUserAndRoom 9 ''u'' ''r'' (snd (CreateMute \<lparr>m_id = ''1'', m_user_id = ''u'',
     m_room_id = ''r'', m_created_by = ''a'', m_created_at = 0, m_expires_at = 10, m_reason = ''''\<rparr>
     NewMemoryMuteStore)) \<noteq> Inr None"
  using mute_created_in_force [of "\<lparr>m_id = ''1'', m_user_id = ''u'',
     m_room_id = ''r'', m_created_by = ''a'', m_created_at = 0, m_expires_at = 10, m_reason = ''''\<rparr>"
     "''u''" 9 "''r''" NewMemoryMuteStore]
  by (simp add: no_colon_def)

end
