(* ===== verification/RoomService.thy ===== *)
theory RoomService
  imports RoomStore
begin

text \<open>
  \<open>service/room.go\<close>: creation of rooms, the queries, and the state machine of a live room:
  pending to live by \<open>StartRoom\<close>, live to ended by \<open>EndRoom\<close>, both for the owner only. Each of
  the two is a read, a check and a conditional update, and other calls may come in between:
  \<open>room_step\<close> runs the check and the update as separate steps of any number of calls.
\<close>

section \<open>Operations\<close>

text \<open>The title \<open>Create\<close> falls back to, in UTF-8 (the source's literal is five Chinese characters).\<close>

definition default_title :: string where
  "default_title = map byte [233, 187, 152, 232, 174, 164, 231, 155, 180, 230, 146, 173, 233, 151, 180]"

definition Create ::
  "'r room_ops \<Rightarrow> string \<Rightarrow> time \<Rightarrow> string \<Rightarrow> string \<Rightarrow> 'r \<Rightarrow> (go_error + room) \<times> 'r" where
  "Create rops new_id now owner_id title s =
     (let title = (if title = '''' then default_title else title) in
      if 100 < length (runes title) then (Inl (ErrNew ''title must not exceed 100 characters''), s)
      else
        let now = truncate_ms now;
            r = \<lparr>r_id = new_id, r_title = title, r_owner_id = owner_id, r_status = RoomStatusPending,
                 r_started_at = None, r_ended_at = None, r_created_at = now, r_updated_at = now\<rparr>
        in case ro_Create rops r s of
             (Some e, s') \<Rightarrow> (Inl (Errorf ''create room: '' e ''''), s')
           | (None, s') \<Rightarrow> (Inr r, s'))"

definition GetRoom :: "'r room_ops \<Rightarrow> string \<Rightarrow> 'r \<Rightarrow> go_error + room" where
  "GetRoom rops i s =
     (case ro_FindByID rops i s of
        Inl e \<Rightarrow> Inl (Errorf ''find room: '' e '''')
      | Inr None \<Rightarrow> Inl ErrRoomNotFound
      | Inr (Some r) \<Rightarrow> Inr r)"

definition ListByStatus ::
  "'r room_ops \<Rightarrow> string \<Rightarrow> int \<Rightarrow> 'r \<Rightarrow> (go_error + room list) option" where
  "ListByStatus rops status limit s =
     (let limit = (if limit \<le> 0 \<or> 100 < limit then 20 else limit) in
      case ro_ListByStatus rops status limit s of
        None \<Rightarrow> None
      | Some (Inl e) \<Rightarrow> Some (Inl (Errorf ''list rooms: '' e ''''))
      | Some (Inr rs) \<Rightarrow> Some (Inr rs))"

text \<open>
  \<open>StartRoom\<close> and \<open>EndRoom\<close> check the room they read against the status \<open>from\<close> their transition
  starts in, then ask the store for the transition and translate its errors.
\<close>

definition move_check :: "string \<Rightarrow> string \<Rightarrow> room option \<Rightarrow> go_error option" where
  "move_check from user_id found =
     (case found of
        None \<Rightarrow> Some ErrRoomNotFound
      | Some r \<Rightarrow>
          if r_owner_id r \<noteq> user_id then Some ErrRoomForbidden
          else if r_status r = RoomStatusBanned then Some ErrRoomBanned
          else if r_status r \<noteq> from then Some ErrRoomInvalidTransition
          else None)"

definition move_commit ::
  "'r room_ops \<Rightarrow> time \<Rightarrow> string \<Rightarrow> string \<Rightarrow> string \<Rightarrow> 'r \<Rightarrow> go_error option \<times> 'r" where
  "move_commit rops now i from to s =
     (case ro_UpdateStatus rops now i from to now s of
        (Some e, s') \<Rightarrow>
          (Some (if errors_is e StoreErrRoomNotFound then ErrRoomNotFound
                 else if errors_is e StoreErrRoomStatusConflict then ErrRoomInvalidTransition
                 else Errorf ''update room status: '' e ''''), s')
      | (None, s') \<Rightarrow> (None, s'))"

definition StartRoom ::
  "'r room_ops \<Rightarrow> time \<Rightarrow> string \<Rightarrow> string \<Rightarrow> 'r \<Rightarrow> go_error option \<times> 'r" where
  "StartRoom rops now i user_id s =
     (case ro_FindByID rops i s of
        Inl e \<Rightarrow> (Some (Errorf ''find room: '' e ''''), s)
      | Inr found \<Rightarrow>
          (case move_check RoomStatusPending user_id found of
             Some e \<Rightarrow> (Some e, s)
           | None \<Rightarrow> move_commit rops now i RoomStatusPending RoomStatusLive s))"

definition EndRoom ::
  "'r room_ops \<Rightarrow> time \<Rightarrow> string \<Rightarrow> string \<Rightarrow> 'r \<Rightarrow> go_error option \<times> 'r" where
  "EndRoom rops now i user_id s =
     (case ro_FindByID rops i s of
        Inl e \<Rightarrow> (Some (Errorf ''find room: '' e ''''), s)
      | Inr found \<Rightarrow>
          (case move_check RoomStatusLive user_id found of
             Some e \<Rightarrow> (Some e, s)
           | None \<Rightarrow> move_commit rops now i RoomStatusLive RoomStatusEnded s))"

definition GetStatus :: "'r room_ops \<Rightarrow> string \<Rightarrow> 'r \<Rightarrow> go_error + string" where
  "GetStatus rops i s =
     (case ro_FindByID rops i s of
        Inl e \<Rightarrow> Inl (Errorf ''find room: '' e '''')
      | Inr None \<Rightarrow> Inl ErrRoomNotFound
      | Inr (Some r) \<Rightarrow> Inr (r_status r))"

definition Exists :: "'r room_ops \<Rightarrow> string \<Rightarrow> 'r \<Rightarrow> go_error + bool" where
  "Exists rops i s =
     (case ro_FindByID rops i s of
        Inl e \<Rightarrow> Inl (Errorf ''find room: '' e '''')
      | Inr found \<Rightarrow> Inr (found \<noteq> None))"

section \<open>Concurrent calls\<close>

text \<open>
  A call of \<open>StartRoom\<close> or \<open>EndRoom\<close> whose check has passed waits to commit. The two
  operations differ in the statuses they move between.
\<close>

datatype move = Start | End

fun from_status :: "move \<Rightarrow> string" where
  "from_status Start = RoomStatusPending"
| "from_status End = RoomStatusLive"

fun to_status :: "move \<Rightarrow> string" where
  "to_status Start = RoomStatusLive"
| "to_status End = RoomStatusEnded"

datatype room_call = RoomCall (rc_move: move) (rc_room: string) (rc_user: string)

datatype room_event =
    Created string
  | Checked room_call
  | Committed room_call "go_error option"

type_synonym 'r room_world = "'r \<times> room_call list"

inductive room_step :: "'r room_ops \<Rightarrow> 'r room_world \<Rightarrow> room_event \<Rightarrow> 'r room_world \<Rightarrow> bool"
  for rops where
  rs_create: "ro_FindByID rops new_id s = Inr None \<Longrightarrow>
    Create rops new_id now owner title s = (res, s') \<Longrightarrow>
    room_step rops (s, calls) (Created new_id) (s', calls)"
| rs_check: "ro_FindByID rops i s = Inr found \<Longrightarrow> move_check (from_status m) user found = None \<Longrightarrow>
    room_step rops (s, calls) (Checked (RoomCall m i user)) (s, RoomCall m i user # calls)"
| rs_commit: "RoomCall m i user \<in> set calls \<Longrightarrow>
    move_commit rops now i (from_status m) (to_status m) s = (e, s') \<Longrightarrow>
    room_step rops (s, calls) (Committed (RoomCall m i user) e)
      (s', remove1 (RoomCall m i user) calls)"

inductive_cases room_step_create: "room_step rops w (Created i) w'"
inductive_cases room_step_check: "room_step rops w (Checked c) w'"
inductive_cases room_step_commit: "room_step rops w (Committed c e) w'"

inductive room_trace :: "'r room_ops \<Rightarrow> 'r room_world \<Rightarrow> room_event list \<Rightarrow> 'r room_world \<Rightarrow> bool"
  for rops where
  rt_nil: "room_trace rops w [] w"
| rt_step: "room_trace rops w es v \<Longrightarrow> room_step rops v e u \<Longrightarrow> room_trace rops w (es @ [e]) u"

text \<open>An uninterrupted call is a check and a commit.\<close>

lemma StartRoom_steps:
  assumes "StartRoom rops now i user s = (e, s')" and "ro_FindByID rops i s = Inr found"
    and "move_check RoomStatusPending user found = None"
  shows "room_trace rops (s, []) [Checked (RoomCall Start i user), Committed (RoomCall Start i user) e]
    (s', [])"
proof -
  have c: "move_commit rops now i RoomStatusPending RoomStatusLive s = (e, s')"
    using assms by (simp add: StartRoom_def)
  have "room_step rops (s, []) (Checked (RoomCall Start i user)) (s, [RoomCall Start i user])"
    by (rule rs_check [OF assms(2)]) (simp add: assms(3))
  moreover have "room_step rops (s, [RoomCall Start i user]) (Committed (RoomCall Start i user) e)
      (s', remove1 (RoomCall Start i user) [RoomCall Start i user])"
    by (rule rs_commit [where now = now]) (use c in simp_all)
  ultimately show ?thesis
    using rt_step [OF rt_step [OF rt_nil]] by fastforce
qed

text \<open>The position of a status on the room's way: a commit moves a room one position on.\<close>

definition stage :: "string \<Rightarrow> nat" where
  "stage st = (if st = RoomStatusPending then 0 else if st = RoomStatusLive then 1 else 2)"

lemma stage_move [simp]: "stage (to_status m) = Suc (stage (from_status m))"
  by (cases m) (simp_all add: stage_def)

definition calls_ok :: "(string \<rightharpoonup> room) \<Rightarrow> room_call list \<Rightarrow> bool" where
  "calls_ok rm calls \<longleftrightarrow>
     (\<forall>c \<in> set calls. \<exists>r. rm (rc_room c) = Some r \<and> r_owner_id r = rc_user c)"

lemma calls_ok_mono:
  assumes "calls_ok rm calls" and "set calls' \<subseteq> set calls"
    and "\<And>i r. rm i = Some r \<Longrightarrow> \<exists>r'. rm' i = Some r' \<and> r_owner_id r' = r_owner_id r"
  shows "calls_ok rm' calls'"
  using assms unfolding calls_ok_def by (metis subsetD)

definition commits :: "string \<Rightarrow> room_event list \<Rightarrow> nat" where
  "commits i es = length (filter (\<lambda>e. case e of Committed c None \<Rightarrow> rc_room c = i | _ \<Rightarrow> False) es)"

lemma commits_simps [simp]:
  "commits i [] = 0" "commits i (es @ [Created j]) = commits i es"
  "commits i (es @ [Checked c]) = commits i es"
  "commits i (es @ [Committed c (Some e)]) = commits i es"
  "commits i (es @ [Committed c None]) = commits i es + (if rc_room c = i then 1 else 0)"
  by (simp_all add: commits_def)

lemma move_check_ok:
  "move_check from user found = None \<longleftrightarrow>
     (\<exists>r. found = Some r \<and> r_owner_id r = user \<and> r_status r = from \<and> r_status r \<noteq> RoomStatusBanned)"
  by (auto simp: move_check_def split: option.splits)

text \<open>What one event does to the rooms, over any store that keeps the contract.\<close>

context room_contract begin

lemma move_commit_rooms:
  assumes "good s" and "move_commit rops now i from to s = (e, s')"
  shows "good s'"
    and "e \<noteq> None \<Longrightarrow> rooms s' = rooms s"
    and "e = None \<Longrightarrow> \<exists>r. rooms s i = Some r \<and> r_status r = from \<and>
      rooms s' = (rooms s)(i \<mapsto> room_moved now to now r)"
proof -
  obtain e0 t where u: "ro_UpdateStatus rops now i from to now s = (e0, t)" by fastforce
  with assms(2) have t: "t = s'" and e: "e = None \<longleftrightarrow> e0 = None"
    by (auto simp: move_commit_def split: option.splits)
  from update [OF assms(1) u] t show "good s'" by simp
  from update [OF assms(1) u] t e show "e \<noteq> None \<Longrightarrow> rooms s' = rooms s" by auto
  assume "e = None"
  with e u have u': "ro_UpdateStatus rops now i from to now s = (None, t)" by simp
  from update_cas [OF assms(1) u'] obtain r where r: "rooms s i = Some r" "r_status r = from" by blast
  with update [OF assms(1) u'] t show "\<exists>r. rooms s i = Some r \<and> r_status r = from \<and>
      rooms s' = (rooms s)(i \<mapsto> room_moved now to now r)"
    by (auto simp: alter_def)
qed

lemma Create_rooms:
  assumes "good s" and "ro_FindByID rops i s = Inr None" and "Create rops i now owner title s = (res, s')"
  shows "good s' \<and> rooms s i = None \<and> (rooms s' = rooms s \<or>
    (\<exists>r. rooms s' = (rooms s)(i \<mapsto> r) \<and> r_status r = RoomStatusPending \<and> r_owner_id r = owner))"
proof -
  have none: "rooms s i = None" using find [OF assms(1,2)] by simp
  let ?t = "if title = '''' then default_title else title"
  show ?thesis
  proof (cases "100 < length (runes ?t)")
    case True
    with assms none show ?thesis by (auto simp: Create_def Let_def)
  next
    case False
    let ?r = "\<lparr>r_id = i, r_title = ?t, r_owner_id = owner, r_status = RoomStatusPending,
      r_started_at = None, r_ended_at = None, r_created_at = truncate_ms now,
      r_updated_at = truncate_ms now\<rparr>"
    obtain e t where c: "ro_Create rops ?r s = (e, t)" by fastforce
    with False assms(3) have "t = s'" by (auto simp: Create_def Let_def split: option.splits)
    have "truncate_ms now mod Millisecond = 0" by (simp add: truncate_ms_def minus_mod_eq_mult_div)
    then have "fresh_room ?r" by (simp add: fresh_room_def)
    from create [OF assms(1) this c] none \<open>t = s'\<close> show ?thesis by (cases e) (auto intro: exI [of _ ?r])
  qed
qed

lemma room_step_ok:
  assumes "room_step rops (s, calls) e (s', calls')" and "good s" and "calls_ok (rooms s) calls"
  shows "good s'" and "calls_ok (rooms s') calls'"
    and "rooms s i = Some r \<Longrightarrow> \<exists>r'. rooms s' i = Some r' \<and> r_owner_id r' = r_owner_id r \<and>
      stage (r_status r') = stage (r_status r) + commits i [e] \<and> (commits i [e] = 0 \<longrightarrow> r' = r)"
proof -
  have "good s' \<and> calls_ok (rooms s') calls' \<and> (\<forall>i r. rooms s i = Some r \<longrightarrow>
    (\<exists>r'. rooms s' i = Some r' \<and> r_owner_id r' = r_owner_id r \<and>
      stage (r_status r') = stage (r_status r) + commits i [e] \<and> (commits i [e] = 0 \<longrightarrow> r' = r)))"
    using assms(1)
  proof (cases rule: room_step.cases)
    case (rs_create new_id now owner title res)
    note c = Create_rooms [OF assms(2) rs_create(3,4)]
    then have "rooms s i = Some r \<Longrightarrow> rooms s' i = Some r" for i r by auto
    with c rs_create assms(3) show ?thesis
      by (auto simp: commits_def intro: calls_ok_mono)
  next
    case (rs_check j found m user)
    then have "rooms s j = found" using find [OF assms(2)] by simp
    with rs_check assms(2,3) show ?thesis
      by (auto simp: calls_ok_def commits_def move_check_ok)
  next
    case (rs_commit m j user now res)
    note mc = move_commit_rooms [OF assms(2) rs_commit(4)]
    have sub: "set calls' \<subseteq> set calls" using rs_commit by (simp add: set_remove1_subset)
    show ?thesis
    proof (cases res)
      case None
      with mc(3) obtain r where r: "rooms s j = Some r" "r_status r = from_status m"
        "rooms s' = (rooms s)(j \<mapsto> room_moved now (to_status m) now r)" by blast
      have "calls_ok (rooms s') calls'"
        by (rule calls_ok_mono [OF assms(3) sub]) (use r in auto)
      with mc(1) r None rs_commit show ?thesis by (auto simp: commits_def)
    next
      case (Some err)
      with mc rs_commit have "rooms s' = rooms s" by simp
      with Some mc(1) sub assms(3) rs_commit show ?thesis
        by (auto simp: commits_def intro: calls_ok_mono)
    qed
  qed
  then show "good s'" and "calls_ok (rooms s') calls'"
    and "rooms s i = Some r \<Longrightarrow> \<exists>r'. rooms s' i = Some r' \<and> r_owner_id r' = r_owner_id r \<and>
      stage (r_status r') = stage (r_status r) + commits i [e] \<and> (commits i [e] = 0 \<longrightarrow> r' = r)"
    by blast+
qed

lemma commits_append: "commits i (es @ fs) = commits i es + commits i fs"
  by (simp add: commits_def)

lemma room_trace_ok:
  assumes "room_trace rops w es w'" and "good (fst w)" and "calls_ok (rooms (fst w)) (snd w)"
  shows "good (fst w') \<and> calls_ok (rooms (fst w')) (snd w') \<and> (\<forall>i r. rooms (fst w) i = Some r \<longrightarrow>
    (\<exists>r'. rooms (fst w') i = Some r' \<and> r_owner_id r' = r_owner_id r \<and>
      stage (r_status r') = stage (r_status r) + commits i es \<and> (commits i es = 0 \<longrightarrow> r' = r)))"
  using assms
proof (induction rule: room_trace.induct)
  case (rt_nil w)
  then show ?case by simp
next
  case (rt_step w es v e u)
  obtain s calls s' calls' where vu: "v = (s, calls)" "u = (s', calls')" by (cases v, cases u)
  have ih: "good s" "calls_ok (rooms s) calls" using rt_step vu by auto
  note st = room_step_ok [OF rt_step.hyps(2) [unfolded vu] ih]
  show ?case
  proof (intro conjI allI impI)
    fix i r assume r: "rooms (fst w) i = Some r"
    have "\<forall>i r. rooms (fst w) i = Some r \<longrightarrow> (\<exists>r'. rooms s i = Some r' \<and>
        r_owner_id r' = r_owner_id r \<and> stage (r_status r') = stage (r_status r) + commits i es \<and>
        (commits i es = 0 \<longrightarrow> r' = r))"
      using rt_step.IH [OF rt_step.prems] by (simp add: vu)
    with r obtain r1 where r1: "rooms s i = Some r1" "r_owner_id r1 = r_owner_id r"
      "stage (r_status r1) = stage (r_status r) + commits i es" "commits i es = 0 \<longrightarrow> r1 = r"
      by blast
    from st(3) [OF r1(1)] r1 show "\<exists>r'. rooms (fst u) i = Some r' \<and> r_owner_id r' = r_owner_id r \<and>
        stage (r_status r') = stage (r_status r) + commits i (es @ [e]) \<and>
        (commits i (es @ [e]) = 0 \<longrightarrow> r' = r)"
      by (auto simp: vu commits_append)
  qed (use st vu in auto)
qed

lemma commit_by_owner:
  assumes "room_trace rops w es (s, calls)" and "good (fst w)" and "calls_ok (rooms (fst w)) (snd w)"
    and "room_step rops (s, calls) (Committed c None) (s', calls')"
  shows "\<exists>r. rooms s (rc_room c) = Some r \<and> r_owner_id r = rc_user c \<and>
    r_status r = from_status (rc_move c) \<and>
    (\<exists>now. rooms s' = (rooms s)(rc_room c \<mapsto> room_moved now (to_status (rc_move c)) now r))"
proof -
  from room_trace_ok [OF assms(1-3)] have ok: "good s" "calls_ok (rooms s) calls" by auto
  from assms(4) obtain now where c: "c \<in> set calls"
    and mc: "move_commit rops now (rc_room c) (from_status (rc_move c)) (to_status (rc_move c)) s = (None, s')"
    by (auto elim!: room_step_commit)
  from move_commit_rooms(3) [OF ok(1) mc] ok(2) c show ?thesis
    by (fastforce simp: calls_ok_def)
qed

end

section \<open>Properties\<close>

text \<open>
  Property C33 (the state machine of a room). However the checks and the updates of any number
  of concurrent \<open>StartRoom\<close> and \<open>EndRoom\<close> calls interleave with each other and with creations,
  a room keeps its owner and moves only forward, pending to live to ended, one stage for each
  call that reports success and not at all otherwise; so at most one call starts it, at most
  one ends it, and an ended room never changes again.
\<close>

theorem room_moves_forward:
  assumes "room_trace (memory_room_ops ord) (s, []) es (s', calls)"
    and "rm_rooms s i = Some r"
  shows "\<exists>r'. rm_rooms s' i = Some r' \<and> r_owner_id r' = r_owner_id r \<and>
    stage (r_status r') = stage (r_status r) + commits i es \<and>
    (commits i es = 0 \<longrightarrow> r' = r) \<and> (r_status r = RoomStatusEnded \<longrightarrow> r' = r)"
proof -
  from mem_rooms.room_trace_ok [OF assms(1)]
  have "\<forall>i r. rm_rooms s i = Some r \<longrightarrow> (\<exists>r'. rm_rooms s' i = Some r' \<and>
      r_owner_id r' = r_owner_id r \<and> stage (r_status r') = stage (r_status r) + commits i es \<and>
      (commits i es = 0 \<longrightarrow> r' = r))"
    by (simp add: calls_ok_def)
  with assms(2) obtain r' where r': "rm_rooms s' i = Some r'" "r_owner_id r' = r_owner_id r"
    "stage (r_status r') = stage (r_status r) + commits i es" "commits i es = 0 \<longrightarrow> r' = r"
    by blast
  have "stage (r_status r') \<le> 2" by (simp add: stage_def)
  with r' show ?thesis by (auto simp: stage_def)
qed

theorem room_moves_forward_witness:
  "\<exists>s'. room_trace (memory_room_ops (\<lambda>s. [])) (\<lparr>rm_rooms = [''a'' \<mapsto> sample_room ''a'' RoomStatusPending 1]\<rparr>, [])
      [Checked (RoomCall Start ''a'' ''o''), Committed (RoomCall Start ''a'' ''o'') None] (s', []) \<and>
    (\<exists>r'. rm_rooms s' ''a'' = Some r' \<and> stage (r_status r') = 1)"
proof -
  let ?s = "\<lparr>rm_rooms = [''a'' \<mapsto> sample_room ''a'' RoomStatusPending 1]\<rparr>"
  let ?ops = "memory_room_ops (\<lambda>s. [])"
  obtain s' where s': "StartRoom ?ops 5 ''a'' ''o'' ?s = (None, s')"
    by (simp add: StartRoom_def memory_room_ops_def RoomStore.FindByID_def move_check_def
        move_commit_def RoomStore.UpdateStatus_def sample_room_def)
  have t: "room_trace ?ops (?s, []) [Checked (RoomCall Start ''a'' ''o''),
      Committed (RoomCall Start ''a'' ''o'') None] (s', [])"
    by (rule StartRoom_steps [OF s', where found = "Some (sample_room ''a'' RoomStatusPending 1)"])
      (simp_all add: memory_room_ops_def RoomStore.FindByID_def move_check_def sample_room_def)
  have c: "commits ''a'' [Checked (RoomCall Start ''a'' ''o''),
      Committed (RoomCall Start ''a'' ''o'') None] = 1"
    by (simp add: commits_def)
  have st: "stage (r_status (sample_room ''a'' RoomStatusPending 1)) = 0"
    by (simp add: stage_def sample_room_def)
  have "rm_rooms ?s ''a'' = Some (sample_room ''a'' RoomStatusPending 1)" by simp
  from room_moves_forward [OF t this] c st t show ?thesis by auto
qed

text \<open>
  Corollary (only the owner moves a room). Under the same interleavings, every \<open>StartRoom\<close> or
  \<open>EndRoom\<close> that reports success was called by the owner of the room and found the room, at
  the moment of its update, in the status the operation starts from; it changes that room
  alone.
\<close>

theorem room_moved_by_owner:
  assumes "room_trace (memory_room_ops ord) (s, []) es (t, calls)"
    and "room_step (memory_room_ops ord) (t, calls) (Committed c None) (t', calls')"
  shows "\<exists>r. rm_rooms t (rc_room c) = Some r \<and> r_owner_id r = rc_user c \<and>
    r_status r = from_status (rc_move c) \<and>
    (\<exists>now. rm_rooms t' = (rm_rooms t)(rc_room c \<mapsto> room_moved now (to_status (rc_move c)) now r))"
  by (rule mem_rooms.commit_by_owner [OF assms(1) _ _ assms(2)]) (simp_all add: calls_ok_def)

theorem room_moved_by_owner_witness:
  "\<exists>r. rm_rooms \<lparr>rm_rooms = [''a'' \<mapsto> sample_room ''a'' RoomStatusLive 1]\<rparr> ''a'' = Some r \<and>
    r_owner_id r = ''o''"
proof -
  let ?s = "\<lparr>rm_rooms = [''a'' \<mapsto> sample_room ''a'' RoomStatusLive 1]\<rparr>"
  let ?ops = "memory_room_ops (\<lambda>s. [])"
  let ?c = "RoomCall End ''a'' ''o''"
  have "room_step ?ops (?s, []) (Checked ?c) (?s, [?c])"
    by (rule rs_check [where found = "Some (sample_room ''a'' RoomStatusLive 1)"])
      (simp_all add: memory_room_ops_def RoomStore.FindByID_def move_check_def sample_room_def)
  from rt_step [OF rt_nil this]
  have t: "room_trace ?ops (?s, []) [Checked ?c] (?s, [?c])" by simp
  have "room_step ?ops (?s, [?c]) (Committed ?c None)
      (snd (move_commit ?ops 5 ''a'' (from_status End) (to_status End) ?s), remove1 ?c [?c])"
    by (rule rs_commit [where now = 5])
      (simp_all add: move_commit_def memory_room_ops_def RoomStore.UpdateStatus_def sample_room_def)
  from room_moved_by_owner [OF t this] show ?thesis by auto
qed

end
