(* ===== verification/AdminService.thy ===== *)
theory AdminService
  imports UserStore GovernanceStores
begin

text \<open>
  \<open>service/admin.go\<close>: bans, unbans and role changes, with the rules on who may do what to
  whom, and the audit entry of each. The state is the pair of the user store and the audit
  log; \<open>lst\<close> is the dynamic type test of \<open>hasOtherAdmin\<close>: the \<open>List\<close> method when the user store
  is the memory store.
\<close>

section \<open>Operations\<close>

definition GetUser :: "'u user_ops \<Rightarrow> string \<Rightarrow> 'u \<Rightarrow> go_error + user option" where
  "GetUser uo i s = uo_FindByID uo i s"

definition GetBannedUsers :: "'u user_ops \<Rightarrow> 'u \<Rightarrow> go_error + user list" where
  "GetBannedUsers uo s = uo_ListBannedUsers uo s"

definition CanTargetUser :: "'u user_ops \<Rightarrow> string \<Rightarrow> string \<Rightarrow> 'u \<Rightarrow> go_error option" where
  "CanTargetUser uo actor_id target_id s =
     (if actor_id = target_id then Some ErrCannotBanSelf
      else case uo_FindByID uo actor_id s of
        Inl e \<Rightarrow> Some (Errorf ''find actor: '' e '''')
      | Inr None \<Rightarrow> Some (ErrNew ''actor not found'')
      | Inr (Some actor) \<Rightarrow>
          if u_role actor \<noteq> RoleAdmin then Some ErrInsufficientRole
          else case uo_FindByID uo target_id s of
            Inl e \<Rightarrow> Some (Errorf ''find target: '' e '''')
          | Inr None \<Rightarrow> Some ErrTargetUserNotFound
          | Inr (Some target) \<Rightarrow>
              if u_role target = RoleAdmin then Some ErrCannotBanAdmin else None)"

text \<open>The store of the audit log stamps nothing in memory: \<open>CreatedAt\<close> is never assigned.\<close>

definition audit_entry :: "string \<Rightarrow> string \<Rightarrow> string \<Rightarrow> string \<Rightarrow> string \<Rightarrow> audit_log" where
  "audit_entry new_id action actor_id target_id reason =
     \<lparr>al_id = new_id, al_action = action, al_actor_user_id = actor_id, al_target_user_id = target_id,
      al_target_danmaku_id = '''', al_target_room_id = '''', al_reason = reason,
      al_created_at = zero_time\<rparr>"

definition writeAuditLog ::
  "'a audit_ops \<Rightarrow> string \<Rightarrow> string \<Rightarrow> string \<Rightarrow> string \<Rightarrow> string \<Rightarrow> 'u \<times> 'a \<Rightarrow> go_error option \<times> 'u \<times> 'a"
where
  "writeAuditLog ao new_id action actor_id target_id reason w =
     (let (e, a) = ao_Add ao (audit_entry new_id action actor_id target_id reason) (snd w)
      in (e, fst w, a))"

definition BanUser ::
  "'u user_ops \<Rightarrow> 'a audit_ops \<Rightarrow> string \<Rightarrow> time \<Rightarrow> string \<Rightarrow> string \<Rightarrow> string \<Rightarrow> 'u \<times> 'a
   \<Rightarrow> go_error option \<times> 'u \<times> 'a" where
  "BanUser uo ao new_id now actor_id target_id reason w =
     (case CanTargetUser uo actor_id target_id (fst w) of
        Some e \<Rightarrow> (Some e, w)
      | None \<Rightarrow>
          (case uo_BanUser uo now target_id reason actor_id (fst w) of
             (Some e, u) \<Rightarrow> (Some (Errorf ''ban user: '' e ''''), u, snd w)
           | (None, u) \<Rightarrow> writeAuditLog ao new_id AuditBanUser actor_id target_id reason (u, snd w)))"

definition unban_check :: "'u user_ops \<Rightarrow> string \<Rightarrow> string \<Rightarrow> 'u \<Rightarrow> go_error option" where
  "unban_check uo actor_id target_id s =
     (if actor_id = target_id then
        (case uo_FindByID uo actor_id s of
           Inl e \<Rightarrow> Some (Errorf ''find actor: '' e '''')
         | Inr None \<Rightarrow> Some ErrInsufficientRole
         | Inr (Some actor) \<Rightarrow> if u_role actor \<noteq> RoleAdmin then Some ErrInsufficientRole else None)
      else
        (case CanTargetUser uo actor_id target_id s of
           None \<Rightarrow> None
         | Some e \<Rightarrow>
             if errors_is e ErrTargetUserNotFound then
               (case uo_FindByID uo actor_id s of
                  Inr (Some actor) \<Rightarrow>
                    if u_role actor \<noteq> RoleAdmin then Some ErrInsufficientRole else None
                | _ \<Rightarrow> Some ErrInsufficientRole)
             else Some e))"

definition UnbanUser ::
  "'u user_ops \<Rightarrow> 'a audit_ops \<Rightarrow> string \<Rightarrow> string \<Rightarrow> string \<Rightarrow> 'u \<times> 'a \<Rightarrow> go_error option \<times> 'u \<times> 'a"
where
  "UnbanUser uo ao new_id actor_id target_id w =
     (case unban_check uo actor_id target_id (fst w) of
        Some e \<Rightarrow> (Some e, w)
      | None \<Rightarrow>
          (case uo_UnbanUser uo target_id (fst w) of
             (Some e, u) \<Rightarrow> (Some (Errorf ''unban user: '' e ''''), u, snd w)
           | (None, u) \<Rightarrow> writeAuditLog ao new_id AuditUnbanUser actor_id target_id '''' (u, snd w)))"

definition hasOtherAdmin ::
  "'u user_ops \<Rightarrow> ('u \<Rightarrow> go_error + user list) option \<Rightarrow> string \<Rightarrow> 'u \<Rightarrow> go_error + bool" where
  "hasOtherAdmin uo lst exclude_id s =
     (case lst of
        Some l \<Rightarrow> (case l s of Inl e \<Rightarrow> Inl e | Inr us \<Rightarrow> Inr (other_admin exclude_id us))
      | None \<Rightarrow> uo_HasAdminOtherThan uo exclude_id s)"

text \<open>\<open>SetUserRole\<close> is a check and an update; a concurrent call may come in between.\<close>

definition role_check ::
  "'u user_ops \<Rightarrow> ('u \<Rightarrow> go_error + user list) option \<Rightarrow> string \<Rightarrow> string \<Rightarrow> string \<Rightarrow> 'u
   \<Rightarrow> go_error option" where
  "role_check uo lst actor_id target_id new_role s =
     (if new_role \<noteq> RoleUser \<and> new_role \<noteq> RoleModerator \<and> new_role \<noteq> RoleAdmin
      then Some ErrInvalidRole
      else case uo_FindByID uo actor_id s of
        Inl e \<Rightarrow> Some (Errorf ''find actor: '' e '''')
      | Inr None \<Rightarrow> Some (ErrNew ''actor not found'')
      | Inr (Some actor) \<Rightarrow>
          if u_role actor \<noteq> RoleAdmin then Some ErrInsufficientRole
          else if actor_id = target_id then Some ErrCannotChangeOwnRole
          else case uo_FindByID uo target_id s of
            Inl e \<Rightarrow> Some (Errorf ''find target: '' e '''')
          | Inr None \<Rightarrow> Some ErrTargetUserNotFound
          | Inr (Some target) \<Rightarrow>
              if u_role target = RoleAdmin \<and> new_role \<noteq> RoleAdmin then
                (case hasOtherAdmin uo lst target_id s of
                   Inl e \<Rightarrow> Some (Errorf ''check other admins: '' e '''')
                 | Inr has \<Rightarrow> if \<not> has then Some ErrLastAdmin else None)
              else None)"

definition role_commit ::
  "'u user_ops \<Rightarrow> 'a audit_ops \<Rightarrow> string \<Rightarrow> string \<Rightarrow> string \<Rightarrow> string \<Rightarrow> 'u \<times> 'a
   \<Rightarrow> go_error option \<times> 'u \<times> 'a" where
  "role_commit uo ao new_id actor_id target_id new_role w =
     (case uo_UpdateRole uo target_id new_role (fst w) of
        (Some e, u) \<Rightarrow> (Some (Errorf ''update role: '' e ''''), u, snd w)
      | (None, u) \<Rightarrow> writeAuditLog ao new_id AuditChangeRole actor_id target_id
          (''role changed to '' @ new_role) (u, snd w))"

definition SetUserRole ::
  "'u user_ops \<Rightarrow> ('u \<Rightarrow> go_error + user list) option \<Rightarrow> 'a audit_ops \<Rightarrow> string \<Rightarrow> string \<Rightarrow> string
   \<Rightarrow> string \<Rightarrow> 'u \<times> 'a \<Rightarrow> go_error option \<times> 'u \<times> 'a" where
  "SetUserRole uo lst ao new_id actor_id target_id new_role w =
     (case role_check uo lst actor_id target_id new_role (fst w) of
        Some e \<Rightarrow> (Some e, w)
      | None \<Rightarrow> role_commit uo ao new_id actor_id target_id new_role w)"

section \<open>The rules\<close>

definition is_admin :: "(string \<rightharpoonup> user) \<Rightarrow> string \<Rightarrow> bool" where
  "is_admin us i \<longleftrightarrow> (\<exists>u. us i = Some u \<and> u_role u = RoleAdmin)"

definition may_ban :: "(string \<rightharpoonup> user) \<Rightarrow> string \<Rightarrow> string \<Rightarrow> bool" where
  "may_ban us actor target \<longleftrightarrow> actor \<noteq> target \<and> is_admin us actor \<and> us target \<noteq> None \<and>
     \<not> is_admin us target"

definition may_unban :: "(string \<rightharpoonup> user) \<Rightarrow> string \<Rightarrow> string \<Rightarrow> bool" where
  "may_unban us actor target \<longleftrightarrow> is_admin us actor \<and> (actor = target \<or> \<not> is_admin us target)"

definition may_set_role :: "(string \<rightharpoonup> user) \<Rightarrow> string \<Rightarrow> string \<Rightarrow> string \<Rightarrow> bool" where
  "may_set_role us actor target role \<longleftrightarrow> role \<in> {RoleUser, RoleModerator, RoleAdmin} \<and>
     is_admin us actor \<and> actor \<noteq> target \<and> us target \<noteq> None"

text \<open>
  The service over any user store that keeps its contract. The store may fail at any call; what
  is proved is that a check that passes, passes for a reason.
\<close>

locale admin_users = user_contract uo good users
  for uo :: "'u user_ops" and good users +
  fixes lst :: "('u \<Rightarrow> go_error + user list) option"
  assumes list_all: "lst = Some l \<Longrightarrow> good s \<Longrightarrow> l s = Inr us \<Longrightarrow> set us = ran (users s)"

context admin_users begin

lemma CanTargetUser_ok:
  "good s \<Longrightarrow> CanTargetUser uo actor target s = None \<Longrightarrow> may_ban (users s) actor target"
  using find_by_id [of s actor] find_by_id [of s target]
  by (auto simp: CanTargetUser_def may_ban_def is_admin_def split: if_splits sum.splits option.splits)

lemma CanTargetUser_missing:
  "good s \<Longrightarrow> CanTargetUser uo actor target s = Some e \<Longrightarrow> errors_is e ErrTargetUserNotFound \<Longrightarrow>
   uo_FindByID uo actor s = Inr (Some a) \<Longrightarrow> u_role a = RoleAdmin \<Longrightarrow>
   actor \<noteq> target \<and> (\<exists>err. uo_FindByID uo target s = Inl err) \<or> users s target = None"
  using find_by_id [of s target]
  by (auto simp: CanTargetUser_def split: if_splits sum.splits option.splits)

lemma hasOtherAdmin_ok:
  assumes "good s" and "hasOtherAdmin uo lst x s = Inr b"
  shows "b \<longleftrightarrow> (\<exists>i. i \<noteq> x \<and> is_admin (users s) i)"
proof -
  have "b \<longleftrightarrow> (\<exists>u \<in> ran (users s). u_id u \<noteq> x \<and> u_role u = RoleAdmin)"
  proof (cases lst)
    case None
    with assms has_admin show ?thesis by (simp add: hasOtherAdmin_def)
  next
    case (Some l)
    with assms obtain us where "l s = Inr us" "b = other_admin x us"
      by (auto simp: hasOtherAdmin_def split: sum.splits)
    with list_all [OF Some assms(1)] show ?thesis by (simp add: other_admin_iff)
  qed
  also have "\<dots> \<longleftrightarrow> (\<exists>i. i \<noteq> x \<and> is_admin (users s) i)"
    using key_is_id [OF assms(1)] by (fastforce simp: is_admin_def ran_def)
  finally show ?thesis .
qed

lemma role_check_ok:
  "good s \<Longrightarrow> role_check uo lst actor target role s = None \<Longrightarrow>
   may_set_role (users s) actor target role"
  using find_by_id [of s actor] find_by_id [of s target]
  by (auto simp: role_check_def may_set_role_def is_admin_def
      split: if_splits sum.splits option.splits)

text \<open>The last-admin branch is never taken: the actor is an admin other than the target.\<close>

lemma role_check_not_last:
  assumes "good s"
  shows "role_check uo lst actor target role s \<noteq> Some ErrLastAdmin"
proof
  assume last: "role_check uo lst actor target role s = Some ErrLastAdmin"
  then have "is_admin (users s) actor" "actor \<noteq> target"
    using find_by_id [OF assms, of actor]
    by (auto simp: role_check_def is_admin_def split: if_splits sum.splits option.splits)
  moreover have "hasOtherAdmin uo lst target s = Inr False"
    using last by (auto simp: role_check_def split: if_splits sum.splits option.splits)
  ultimately show False using hasOtherAdmin_ok [OF assms] by blast
qed

lemma role_commit_users:
  assumes "good (fst w)" and "role_commit uo ao new_id actor target role w = (e, w')"
  shows "good (fst w') \<and> (users (fst w') = users (fst w) \<or>
    users (fst w') = alter target (u_role_update (\<lambda>_. role)) (users (fst w)))"
proof -
  obtain e0 u where u: "uo_UpdateRole uo target role (fst w) = (e0, u)" by fastforce
  with assms(2) have "fst w' = u"
    by (auto simp: role_commit_def writeAuditLog_def split: option.splits prod.splits)
  with update_role [OF assms(1) u] show ?thesis by (auto split: if_splits)
qed

lemma SetUserRole_users:
  assumes "good (fst w)" and "SetUserRole uo lst ao new_id actor target role w = (e, w')"
  shows "good (fst w') \<and> (users (fst w') = users (fst w) \<or>
    (may_set_role (users (fst w)) actor target role \<and>
     users (fst w') = alter target (u_role_update (\<lambda>_. role)) (users (fst w))))"
proof (cases "role_check uo lst actor target role (fst w)")
  case None
  with assms(2) have c: "role_commit uo ao new_id actor target role w = (e, w')"
    by (simp add: SetUserRole_def)
  from role_commit_users [OF assms(1) c] role_check_ok [OF assms(1) None] show ?thesis by blast
qed (use assms in \<open>auto simp: SetUserRole_def\<close>)

lemma BanUser_users:
  assumes "good (fst w)" and "BanUser uo ao new_id now actor target reason w = (e, w')"
  shows "good (fst w') \<and> (users (fst w') = users (fst w) \<or> (may_ban (users (fst w)) actor target \<and>
    users (fst w') = alter target (banned_user now reason actor) (users (fst w))))"
proof (cases "CanTargetUser uo actor target (fst w)")
  case None
  obtain e0 u where u: "uo_BanUser uo now target reason actor (fst w) = (e0, u)" by fastforce
  with assms(2) None have "fst w' = u"
    by (auto simp: BanUser_def writeAuditLog_def split: option.splits prod.splits)
  with ban_user [OF assms(1) u] CanTargetUser_ok [OF assms(1) None] show ?thesis
    by (auto split: if_splits)
qed (use assms in \<open>auto simp: BanUser_def\<close>)

lemma UnbanUser_users:
  assumes "good (fst w)" and "UnbanUser uo ao new_id actor target w = (e, w')"
  shows "good (fst w') \<and> (users (fst w') = users (fst w) \<or>
    users (fst w') = alter target unbanned_user (users (fst w)))"
proof (cases "unban_check uo actor target (fst w)")
  case None
  obtain e0 u where u: "uo_UnbanUser uo target (fst w) = (e0, u)" by fastforce
  with assms(2) None have "fst w' = u"
    by (auto simp: UnbanUser_def writeAuditLog_def split: option.splits prod.splits)
  with unban_user [OF assms(1) u] show ?thesis by (auto split: if_splits)
qed (use assms in \<open>auto simp: UnbanUser_def\<close>)

text \<open>Roles survive bans and unbans, and an admin who demotes someone is still there.\<close>

lemma is_admin_alter:
  "(\<And>u. u_role (f u) = u_role u) \<Longrightarrow> is_admin (alter t f us) i \<longleftrightarrow> is_admin us i"
  by (auto simp: is_admin_def alter_apply)

lemma is_admin_set_role:
  "may_set_role us actor target role \<Longrightarrow>
   is_admin (alter target (u_role_update (\<lambda>_. role)) us) actor"
  by (auto simp: is_admin_def may_set_role_def alter_apply)

end

text \<open>The instance: the memory stores.\<close>

interpretation mem_admin: admin_users "memory_user_ops sorted_ids" users_good user_map
  "Some (\<lambda>s. ListUsers (sorted_ids s) s)"
proof
  fix l s us
  show "Some (\<lambda>s. ListUsers (sorted_ids s) s) = Some l \<Longrightarrow> users_good s \<Longrightarrow> l s = Inr us \<Longrightarrow>
      set us = ran (user_map s)"
    using enumerates_sorted_ids set_users_in [of "sorted_ids s" s]
    by (auto simp: ListUsers_def users_good_def enumerates_def)
qed

abbreviation mem_uo :: "user_mem user_ops" where
  "mem_uo \<equiv> memory_user_ops sorted_ids"

abbreviation mem_list :: "(user_mem \<Rightarrow> go_error + user list) option" where
  "mem_list \<equiv> Some (\<lambda>s. ListUsers (sorted_ids s) s)"

lemma mem_find [store_simps]: "uo_FindByID mem_uo i s = Inr (user_map s i)"
  by (simp add: memory_user_ops_def UserStore.FindByID_def user_map_def)

lemma mem_ban [store_simps]:
  "users_inv s \<Longrightarrow> uo_BanUser mem_uo now i r b s = (None, write_byid i (banned_user now r b) s)"
  by (simp add: memory_user_ops_def UserStore.BanUser_def)

lemma mem_unban [store_simps]: "uo_UnbanUser mem_uo i s = (None, write_byid i unbanned_user s)"
  by (simp add: memory_user_ops_def UserStore.UnbanUser_def)

lemma mem_role [store_simps]:
  "uo_UpdateRole mem_uo i r s = (None, write_byid i (u_role_update (\<lambda>_. r)) s)"
  by (simp add: memory_user_ops_def UserStore.UpdateRole_def)

lemma mem_audit_add [store_simps]: "ao_Add memory_audit_ops x a = (None, a\<lparr>am_entries := am_entries a @ [x]\<rparr>)"
  by (simp add: memory_audit_ops_def AddEntry_def)

lemma mem_CanTargetUser: "CanTargetUser mem_uo actor target s = None \<longleftrightarrow> may_ban (user_map s) actor target"
  by (auto simp: CanTargetUser_def may_ban_def is_admin_def store_simps split: option.splits)

lemma mem_unban_check: "unban_check mem_uo actor target s = None \<longleftrightarrow> may_unban (user_map s) actor target"
  by (auto simp: unban_check_def CanTargetUser_def may_unban_def is_admin_def store_simps
      split: option.splits)

section \<open>Sequences and interleavings\<close>

text \<open>A request to the service, and the run of a list of them one after the other.\<close>

datatype admin_request =
    Ban string string string
  | Unban string string
  | SetRole string string string

fun admin_call :: "string \<Rightarrow> time \<Rightarrow> admin_request \<Rightarrow> user_mem \<times> audit_mem
  \<Rightarrow> go_error option \<times> user_mem \<times> audit_mem" where
  "admin_call new_id now (Ban a t r) w = BanUser mem_uo memory_audit_ops new_id now a t r w"
| "admin_call new_id now (Unban a t) w = UnbanUser mem_uo memory_audit_ops new_id a t w"
| "admin_call new_id now (SetRole a t r) w = SetUserRole mem_uo mem_list memory_audit_ops new_id a t r w"

fun admin_run :: "(string \<times> time \<times> admin_request) list \<Rightarrow> user_mem \<times> audit_mem \<Rightarrow> user_mem \<times> audit_mem"
where
  "admin_run [] w = w"
| "admin_run ((i, now, q) # qs) w = admin_run qs (snd (admin_call i now q w))"

lemma admin_call_ok:
  assumes "users_good (fst w)"
  shows "users_good (fst (snd (admin_call i now q w))) \<and>
    ((\<exists>a. is_admin (user_map (fst w)) a) \<longrightarrow>
     (\<exists>a. is_admin (user_map (fst (snd (admin_call i now q w)))) a)) \<and>
    fst (admin_call i now q w) \<noteq> Some ErrLastAdmin"
proof (cases q)
  case (Ban a t r)
  obtain e w' where c: "BanUser mem_uo memory_audit_ops i now a t r w = (e, w')"
    by (metis surj_pair)
  have "e \<noteq> Some ErrLastAdmin"
    using c by (auto simp: BanUser_def CanTargetUser_def store_simps writeAuditLog_def
        split: option.splits if_splits prod.splits)
  with mem_admin.BanUser_users [OF assms c] c Ban show ?thesis
    by (auto simp: mem_admin.is_admin_alter)
next
  case (Unban a t)
  obtain e w' where c: "UnbanUser mem_uo memory_audit_ops i a t w = (e, w')"
    by (metis surj_pair)
  have "e \<noteq> Some ErrLastAdmin"
    using c by (auto simp: UnbanUser_def unban_check_def CanTargetUser_def store_simps
        writeAuditLog_def split: option.splits if_splits prod.splits)
  with mem_admin.UnbanUser_users [OF assms c] c Unban show ?thesis
    by (auto simp: mem_admin.is_admin_alter)
next
  case (SetRole a t r)
  obtain e w' where c: "SetUserRole mem_uo mem_list memory_audit_ops i a t r w = (e, w')"
    by (metis surj_pair)
  have "e \<noteq> Some ErrLastAdmin"
    using c mem_admin.role_check_not_last [OF assms, of a t r]
    by (auto simp: SetUserRole_def role_commit_def store_simps writeAuditLog_def
        split: option.splits if_splits prod.splits)
  moreover have "users_good (fst w')" and
    "user_map (fst w') = user_map (fst w) \<or> is_admin (user_map (fst w')) a"
    using mem_admin.SetUserRole_users [OF assms c] mem_admin.is_admin_set_role by fastforce+
  ultimately show ?thesis using c SetRole by (metis admin_call.simps(3) fst_conv snd_conv)
qed

lemma admin_run_ok:
  "users_good (fst w) \<Longrightarrow> is_admin (user_map (fst w)) a \<Longrightarrow>
   users_good (fst (admin_run qs w)) \<and> (\<exists>a. is_admin (user_map (fst (admin_run qs w))) a)"
proof (induction qs w arbitrary: a rule: admin_run.induct)
  case (2 i now q qs w)
  from admin_call_ok [OF "2.prems"(1), of i now q] "2.prems"(2)
  obtain b where "users_good (fst (snd (admin_call i now q w)))"
    "is_admin (user_map (fst (snd (admin_call i now q w)))) b" by blast
  with "2.IH" show ?case by simp
qed auto

section \<open>Properties\<close>

text \<open>
  Property C36 (who may ban). Over the memory stores, \<open>BanUser\<close> succeeds exactly when the actor
  is an admin, the target is another, existing user and no admin; then the target and only
  the target is banned, with the reason and the actor on record, and one audit entry names
  both; otherwise nothing changes, neither users nor log.
\<close>

theorem ban_rules:
  assumes "users_good u" and "BanUser mem_uo memory_audit_ops new_id now actor target reason (u, a) = (e, u', a')"
  shows "(e = None \<longleftrightarrow> may_ban (user_map u) actor target) \<and>
    (e = None \<longrightarrow> user_map u' = alter target (banned_user now reason actor) (user_map u) \<and>
       am_entries a' = am_entries a @ [audit_entry new_id AuditBanUser actor target reason]) \<and>
    (e \<noteq> None \<longrightarrow> u' = u \<and> a' = a)"
proof (cases "may_ban (user_map u) actor target")
  case True
  then have "CanTargetUser mem_uo actor target u = None" by (simp add: mem_CanTargetUser)
  with assms True show ?thesis
    by (auto simp: BanUser_def writeAuditLog_def store_simps users_good_def user_map_write)
next
  case False
  then obtain err where "CanTargetUser mem_uo actor target u = Some err"
    using mem_CanTargetUser by (metis option.exhaust)
  with assms(2) have "e = Some err \<and> u' = u \<and> a' = a" by (simp add: BanUser_def)
  with False show ?thesis by simp
qed

definition sample_admins :: user_mem where
  "sample_admins = snd (Create (sample_user\<lparr>u_id := ''2'', u_username := ''bob'', u_role := RoleAdmin\<rparr>)
     (snd (Create (sample_user\<lparr>u_role := RoleAdmin\<rparr>)
     (snd (Create (sample_user\<lparr>u_id := ''3'', u_username := ''eve''\<rparr>) NewMemoryUserStore)))))"

lemma sample_admins_map:
  "user_map sample_admins = [''3'' \<mapsto> sample_user\<lparr>u_id := ''3'', u_username := ''eve''\<rparr>,
     ''1'' \<mapsto> sample_user\<lparr>u_role := RoleAdmin\<rparr>,
     ''2'' \<mapsto> sample_user\<lparr>u_id := ''2'', u_username := ''bob'', u_role := RoleAdmin\<rparr>]"
  by (auto simp: sample_admins_def user_map_def Create_def NewMemoryUserStore_def sample_user_def
      fun_eq_iff deref_def split: option.split)

lemma sample_admins_good: "users_good sample_admins"
proof -
  have "user_reach sample_admins"
    unfolding sample_admins_def
    by (intro user_reach.intros)
      (auto simp: FindByID_def Create_def NewMemoryUserStore_def sample_user_def)
  then show ?thesis
    by (simp add: users_good_def user_reach_inv sample_admins_map)
qed

theorem ban_rules_witness:
  "fst (BanUser mem_uo memory_audit_ops ''x'' 7 ''1'' ''3'' ''spam'' (sample_admins, NewMemoryAuditLogStore))
     = None"
proof -
  obtain e u a where c: "BanUser mem_uo memory_audit_ops ''x'' 7 ''1'' ''3'' ''spam''
      (sample_admins, NewMemoryAuditLogStore) = (e, u, a)" by (metis prod_cases3)
  have "may_ban (user_map sample_admins) ''1'' ''3''"
    by (simp add: sample_admins_map may_ban_def is_admin_def sample_user_def)
  with ban_rules [OF sample_admins_good c] c show ?thesis by simp
qed

text \<open>
  Corollary (who may unban). \<open>UnbanUser\<close> succeeds exactly when the actor is an admin and the
  target is the actor or no admin (a target that does not exist is accepted); then the
  target alone is unbanned and one audit entry is written; otherwise nothing changes.
\<close>

theorem unban_rules:
  assumes "users_good u" and "UnbanUser mem_uo memory_audit_ops new_id actor target (u, a) = (e, u', a')"
  shows "(e = None \<longleftrightarrow> may_unban (user_map u) actor target) \<and>
    (e = None \<longrightarrow> user_map u' = alter target unbanned_user (user_map u) \<and>
       am_entries a' = am_entries a @ [audit_entry new_id AuditUnbanUser actor target '''']) \<and>
    (e \<noteq> None \<longrightarrow> u' = u \<and> a' = a)"
proof (cases "may_unban (user_map u) actor target")
  case True
  then have "unban_check mem_uo actor target u = None" by (simp add: mem_unban_check)
  with assms True show ?thesis
    by (auto simp: UnbanUser_def writeAuditLog_def store_simps users_good_def user_map_write)
next
  case False
  then obtain err where "unban_check mem_uo actor target u = Some err"
    using mem_unban_check by (metis option.exhaust)
  with assms(2) have "e = Some err \<and> u' = u \<and> a' = a" by (simp add: UnbanUser_def)
  with False show ?thesis by simp
qed

theorem unban_rules_witness:
  "fst (UnbanUser mem_uo memory_audit_ops ''x'' ''1'' ''2'' (sample_admins, NewMemoryAuditLogStore)) \<noteq> None"
proof -
  obtain e u a where c: "UnbanUser mem_uo memory_audit_ops ''x'' ''1'' ''2''
      (sample_admins, NewMemoryAuditLogStore) = (e, u, a)" by (metis prod_cases3)
  have "\<not> may_unban (user_map sample_admins) ''1'' ''2''"
    by (simp add: sample_admins_map may_unban_def is_admin_def sample_user_def)
  with unban_rules [OF sample_admins_good c] c show ?thesis by simp
qed

text \<open>
  Property C35 (there is always an admin, call by call). From a store with an admin, no sequence
  of complete calls of \<open>BanUser\<close>, \<open>UnbanUser\<close> and \<open>SetUserRole\<close>, by whatever actors on whatever
  targets, leads to a store without one.
\<close>

theorem admin_always_exists:
  assumes "users_good (fst w)" and "is_admin (user_map (fst w)) a"
  shows "\<exists>b. is_admin (user_map (fst (admin_run qs w))) b"
  using admin_run_ok [OF assms] by blast

theorem admin_always_exists_witness:
  "\<exists>b. is_admin (user_map (fst (admin_run [(''x'', 1, SetRole ''1'' ''2'' RoleUser),
      (''y'', 2, SetRole ''2'' ''1'' RoleUser)] (sample_admins, NewMemoryAuditLogStore)))) b"
proof -
  have "users_good (fst (sample_admins, NewMemoryAuditLogStore))" by (simp add: sample_admins_good)
  moreover have "is_admin (user_map (fst (sample_admins, NewMemoryAuditLogStore))) ''1''"
    by (simp add: sample_admins_map is_admin_def sample_user_def)
  ultimately show ?thesis by (rule admin_always_exists)
qed

text \<open>
  Corollary (the last-admin check does not hold up under concurrency). Two admins demote each
  other; both calls of \<open>SetUserRole\<close> have passed their checks when the first of the updates is
  made. Both updates succeed, and the store is left without an admin.
\<close>

theorem concurrent_demotions_leave_no_admin:
  "\<exists>u u1 u2 a a1 a2. users_good u \<and> is_admin (user_map u) ''1'' \<and> is_admin (user_map u) ''2'' \<and>
    role_check mem_uo mem_list ''1'' ''2'' RoleUser u = None \<and>
    role_check mem_uo mem_list ''2'' ''1'' RoleUser u = None \<and>
    role_commit mem_uo memory_audit_ops ''x'' ''1'' ''2'' RoleUser (u, a) = (None, u1, a1) \<and>
    role_commit mem_uo memory_audit_ops ''y'' ''2'' ''1'' RoleUser (u1, a1) = (None, u2, a2) \<and>
    (\<forall>i. \<not> is_admin (user_map u2) i)"
proof -
  let ?u1 = "write_byid ''2'' (u_role_update (\<lambda>_. RoleUser)) sample_admins"
  let ?u2 = "write_byid ''1'' (u_role_update (\<lambda>_. RoleUser)) ?u1"
  let ?a = NewMemoryAuditLogStore
  have inv: "users_inv sample_admins" using sample_admins_good by (simp add: users_good_def)
  then have inv1: "users_inv ?u1" by (rule users_inv_write) simp_all
  have adm: "is_admin (user_map sample_admins) ''1''" "is_admin (user_map sample_admins) ''2''"
    by (simp_all add: sample_admins_map is_admin_def sample_user_def)
  have oth: "hasOtherAdmin mem_uo mem_list x sample_admins = Inr True" for x
  proof -
    obtain b where b: "hasOtherAdmin mem_uo mem_list x sample_admins = Inr b"
      by (simp add: hasOtherAdmin_def ListUsers_def)
    have "\<exists>i. i \<noteq> x \<and> is_admin (user_map sample_admins) i"
    proof (cases "x = ''1''")
      case True
      with adm(2) show ?thesis by (intro exI [of _ "''2''"]) simp
    next
      case False
      then have "''1'' \<noteq> x" by (rule not_sym)
      with adm(1) show ?thesis by (intro exI conjI)
    qed
    with mem_admin.hasOtherAdmin_ok [OF sample_admins_good b] b show ?thesis by simp
  qed
  have chk: "role_check mem_uo mem_list ''1'' ''2'' RoleUser sample_admins = None"
    "role_check mem_uo mem_list ''2'' ''1'' RoleUser sample_admins = None"
    using adm by (auto simp: role_check_def store_simps oth is_admin_def)
  have "\<not> is_admin (user_map ?u2) i" for i
    by (simp add: user_map_write [OF inv1] user_map_write [OF inv] is_admin_def alter_apply
        sample_admins_map sample_user_def)
  moreover obtain a1 where
    "role_commit mem_uo memory_audit_ops ''x'' ''1'' ''2'' RoleUser (sample_admins, ?a) = (None, ?u1, a1)"
    by (simp add: role_commit_def writeAuditLog_def store_simps)
  moreover obtain a2 where
    "role_commit mem_uo memory_audit_ops ''y'' ''2'' ''1'' RoleUser (?u1, a1) = (None, ?u2, a2)"
    by (simp add: role_commit_def writeAuditLog_def store_simps)
  ultimately show ?thesis using sample_admins_good adm chk by blast
qed

end
