(* ===== verification/AuthService.thy ===== *)
theory AuthService
  imports AdminService
begin

text \<open>
  \<open>service/auth.go\<close>: registration, login and the JSON web tokens they hand out. The hash
  (bcrypt) and the token format (golang-jwt) are other packages: they are parameters, with the
  behaviour the code relies on as \<open>bcrypt_spec\<close> and \<open>jwt_spec\<close>. The token type \<open>'t\<close> is whatever
  the token library represents a signed token by.
\<close>

section \<open>The libraries\<close>

record claims =
  c_user_id :: string
  c_username :: string
  c_nickname :: string
  c_role :: string
  c_issued_at :: time
  c_expires_at :: time
  c_issuer :: string
  c_subject :: string

text \<open>What \<open>ParseWithClaims\<close> returns: the claims, if they have the asked type, and \<open>Valid\<close>.\<close>

record parsed =
  pt_claims :: "claims option"
  pt_valid :: bool

record 't jwt_lib =
  jl_sign :: "string \<Rightarrow> claims \<Rightarrow> go_error + 't"
  jl_alg :: "'t \<Rightarrow> string"
  jl_parse :: "time \<Rightarrow> (string \<Rightarrow> go_error + string) \<Rightarrow> 't \<Rightarrow> go_error + parsed"

text \<open>
  What \<open>encoding/json\<close> makes of a string that is marshalled and unmarshalled: every byte that is not part of
  valid UTF-8 has become U+FFFD. The claims of a token travel as JSON.
\<close>

definition json_string :: "string \<Rightarrow> string" where
  "json_string s = utf8 (runes s)"

definition json_claims :: "claims \<Rightarrow> claims" where
  "json_claims c = \<lparr>c_user_id = json_string (c_user_id c), c_username = json_string (c_username c),
     c_nickname = json_string (c_nickname c), c_role = json_string (c_role c), c_issued_at = c_issued_at c,
     c_expires_at = c_expires_at c, c_issuer = json_string (c_issuer c), c_subject = json_string (c_subject c)\<rparr>"

lemma json_string_utf8: "(\<And>r. r \<in> set rs \<Longrightarrow> valid_rune r) \<Longrightarrow> json_string (utf8 rs) = utf8 rs"
  by (simp add: json_string_def runes_utf8)

lemma json_string_idem [simp]: "json_string (json_string s) = json_string s"
  unfolding json_string_def by (rule arg_cong [OF runes_utf8]) (rule runes_valid)

lemma json_string_eq_Nil [simp]: "json_string s = '''' \<longleftrightarrow> s = ''''"
proof -
  have "utf8 rs = '''' \<longleftrightarrow> rs = []" for rs by (cases rs) simp_all
  then show ?thesis by (simp add: json_string_def)
qed

lemma json_string_ascii: "is_ascii s \<Longrightarrow> json_string s = s"
proof -
  have "utf8 (map byte_of s) = s" if "is_ascii s"
    using that by (induction s) (auto simp: is_ascii_def encode_rune_def encode_valid_def valid_rune_def byte_def byte_of_def)
  then show "is_ascii s \<Longrightarrow> json_string s = s" by (simp add: json_string_def runes_ascii)
qed

lemma decode_small:
  assumes "fst (decode_rune (c # cs)) < 128"
  shows "byte_of c < 128"
proof (rule ccontr)
  assume a: "\<not> byte_of c < 128"
  have "128 \<le> (byte_of c - 192) * 64 + x" if "194 \<le> byte_of c" for x using that by simp
  moreover have "128 \<le> (byte_of c - 224) * 4096 + low6 c1 * 64 + x" if "224 \<le> byte_of c" "second_ok (byte_of c) c1" for c1 x
    using that low6_second [OF that(2)] by (cases "byte_of c = 224") auto
  moreover have "128 \<le> (byte_of c - 240) * 262144 + low6 c1 * 4096 + x" if "240 \<le> byte_of c" "second_ok (byte_of c) c1" for c1 x
    using that low6_second [OF that(2)] by (cases "byte_of c = 240") auto
  ultimately have "128 \<le> fst (decode_rune (c # cs))"
    using a by (auto simp: decode_rune.simps Let_def add.assoc split: list.split)
  with assms show False by simp
qed

lemma ascii_runes:
  assumes "\<forall>r \<in> set (runes s). r < 128"
  shows "is_ascii s"
  using assms
proof (induction s)
  case (Cons c cs)
  obtain r n where d: "decode_rune (c # cs) = (r, n)" by (cases "decode_rune (c # cs)")
  then have "r < 128" using Cons.prems by (simp add: runes_def segments_step [OF _ d])
  then have c: "byte_of c < 128" using decode_small [of c cs] d by simp
  then have "runes (c # cs) = byte_of c # runes cs"
    using segments_step [OF _ decode_ascii [OF c, of cs]] by (simp add: runes_def)
  then show ?case using Cons c by (simp add: is_ascii_def)
qed (simp add: is_ascii_def)

text \<open>
  Signing with HS256 and a byte key succeeds; parsing asks the key function with the algorithm
  of the token's header, fails when it fails, returns the signed claims, as JSON has carried them, when it
  gives the signing key and the token has not expired, and fails when it has.
\<close>

definition jwt_spec :: "'t jwt_lib \<Rightarrow> bool" where
  "jwt_spec jl \<longleftrightarrow>
     (\<forall>k c. \<exists>t. jl_sign jl k c = Inr t) \<and>
     (\<forall>k c t now kf. jl_sign jl k c = Inr t \<longrightarrow> jl_alg jl t = ''HS256'' \<and>
        (kf ''HS256'' = Inr k \<longrightarrow>
          (if now < c_expires_at c then jl_parse jl now kf t = Inr \<lparr>pt_claims = Some (json_claims c), pt_valid = True\<rparr>
           else \<exists>e. jl_parse jl now kf t = Inl e))) \<and>
     (\<forall>t now kf e. kf (jl_alg jl t) = Inl e \<longrightarrow> (\<exists>e'. jl_parse jl now kf t = Inl e'))"

lemma jwt_spec_refuses:
  "jwt_spec jl \<Longrightarrow> kf (jl_alg jl t) = Inl e \<Longrightarrow> \<exists>e'. jl_parse jl now kf t = Inl e'"
  unfolding jwt_spec_def by blast

record bcrypt_lib =
  bc_generate :: "string \<Rightarrow> go_error + string"
  bc_compare :: "string \<Rightarrow> string \<Rightarrow> go_error option"

definition bcrypt_spec :: "bcrypt_lib \<Rightarrow> bool" where
  "bcrypt_spec bc \<longleftrightarrow> (\<forall>p h. bc_generate bc p = Inr h \<longrightarrow> bc_compare bc h p = None)"

text \<open>\<open>jwt.NewNumericDate\<close> keeps whole seconds.\<close>

definition numeric_date :: "time \<Rightarrow> time" where
  "numeric_date t = t - t mod Second"

section \<open>Operations\<close>

record auth_service =
  au_secret :: string
  au_expiry_hours :: int

definition NewAuthService :: "string \<Rightarrow> int \<Rightarrow> auth_service" where
  "NewAuthService jwt_secret expiry_hours =
     \<lparr>au_secret = (if jwt_secret = '''' then ''danmakuflow-dev-secret-do-not-use-in-production''
                   else jwt_secret),
      au_expiry_hours = (if expiry_hours \<le> 0 then 72 else expiry_hours)\<rparr>"

definition alnum :: "rune \<Rightarrow> bool" where
  "alnum r \<longleftrightarrow> (97 \<le> r \<and> r \<le> 122) \<or> (65 \<le> r \<and> r \<le> 90) \<or> (48 \<le> r \<and> r \<le> 57)"

definition validateUsername :: "string \<Rightarrow> go_error option" where
  "validateUsername username =
     (if length username < 3 \<or> 32 < length username then Some ErrInvalidUsername
      else if list_all alnum (runes username) then None
      else Some ErrInvalidUsername)"

definition token_claims :: "auth_service \<Rightarrow> time \<Rightarrow> user \<Rightarrow> claims" where
  "token_claims au now user =
     \<lparr>c_user_id = u_id user, c_username = u_username user, c_nickname = u_nickname user,
      c_role = (if u_role user = '''' then RoleUser else u_role user),
      c_issued_at = numeric_date now,
      c_expires_at = numeric_date (now + i64 (au_expiry_hours au * Hour)),
      c_issuer = ''danmakuflow'', c_subject = u_id user\<rparr>"

definition generateToken ::
  "'t jwt_lib \<Rightarrow> auth_service \<Rightarrow> time \<Rightarrow> user \<Rightarrow> go_error + 't" where
  "generateToken jl au now user =
     (case jl_sign jl (au_secret au) (token_claims au now user) of
        Inl e \<Rightarrow> Inl (Errorf ''sign token: '' e '''')
      | Inr t \<Rightarrow> Inr t)"

definition new_user :: "string \<Rightarrow> string \<Rightarrow> string \<Rightarrow> string \<Rightarrow> user" where
  "new_user new_id username hash nickname =
     \<lparr>u_id = new_id, u_username = username, u_password_hash = hash, u_nickname = nickname,
      u_role = '''', u_banned = False, u_banned_at = None, u_banned_reason = '''',
      u_banned_by = '''', u_created_at = zero_time, u_updated_at = zero_time\<rparr>"

text \<open>The nickname that is stored: trimmed, the user name for an empty one, cut to 32 bytes.\<close>

definition nickname_of :: "string \<Rightarrow> string \<Rightarrow> string" where
  "nickname_of username nickname =
     (let nickname = TrimSpace nickname;
          nickname = (if nickname = '''' then username else nickname)
      in if 32 < length nickname then take 32 nickname else nickname)"

definition Register ::
  "'u user_ops \<Rightarrow> 't jwt_lib \<Rightarrow> bcrypt_lib \<Rightarrow> auth_service \<Rightarrow> string \<Rightarrow> time
   \<Rightarrow> string \<Rightarrow> string \<Rightarrow> string \<Rightarrow> 'u \<Rightarrow> (go_error + user \<times> 't) \<times> 'u" where
  "Register uo jl bc au new_id now username password nickname s =
     (let username = TrimSpace username in
      case validateUsername username of
        Some e \<Rightarrow> (Inl e, s)
      | None \<Rightarrow>
          if length password < 6 then (Inl ErrWeakPassword, s)
          else if 72 < length password
          then (Inl (ErrNew ''password must not exceed 72 characters''), s)
          else (case bc_generate bc password of
            Inl e \<Rightarrow> (Inl (Errorf ''password hash: '' e ''''), s)
          | Inr hash \<Rightarrow>
              (let user = new_user new_id username hash (nickname_of username nickname) in
               case uo_Create uo user s of
                 (Some e, s') \<Rightarrow>
                   (Inl (if errors_is e StoreErrDuplicateUsername then ErrUsernameTaken
                         else Errorf ''create user: '' e ''''), s')
               | (None, s') \<Rightarrow>
                   (case generateToken jl au now user of
                      Inl e \<Rightarrow> (Inl e, s')
                    | Inr t \<Rightarrow> (Inr (user, t), s')))))"

definition Login ::
  "'u user_ops \<Rightarrow> 't jwt_lib \<Rightarrow> bcrypt_lib \<Rightarrow> auth_service \<Rightarrow> time \<Rightarrow> string \<Rightarrow> string \<Rightarrow> 'u
   \<Rightarrow> go_error + user \<times> 't" where
  "Login uo jl bc au now username password s =
     (case uo_FindByUsername uo (TrimSpace username) s of
        Inl e \<Rightarrow> Inl (Errorf ''find user: '' e '''')
      | Inr None \<Rightarrow> Inl ErrInvalidCreds
      | Inr (Some user) \<Rightarrow>
          (case bc_compare bc (u_password_hash user) password of
             Some e \<Rightarrow> Inl ErrInvalidCreds
           | None \<Rightarrow>
               (case generateToken jl au now user of
                  Inl e \<Rightarrow> Inl e
                | Inr t \<Rightarrow> Inr (user, t))))"

text \<open>The key function: the secret for HS256 and an error for any other algorithm.\<close>

definition key_func :: "auth_service \<Rightarrow> string \<Rightarrow> go_error + string" where
  "key_func au alg =
     (if alg \<noteq> ''HS256'' then Inl (ErrNew (''unexpected signing method: '' @ alg))
      else Inr (au_secret au))"

definition ValidateToken :: "'t jwt_lib \<Rightarrow> auth_service \<Rightarrow> time \<Rightarrow> 't \<Rightarrow> go_error + actor" where
  "ValidateToken jl au now t =
     (case jl_parse jl now (key_func au) t of
        Inl e \<Rightarrow> Inl (Errorf '''' ErrInvalidToken ('': '' @ error_text e))
      | Inr p \<Rightarrow>
          (case pt_claims p of
             None \<Rightarrow> Inl ErrInvalidToken
           | Some c \<Rightarrow>
               if \<not> pt_valid p then Inl ErrInvalidToken
               else Inr \<lparr>a_user_id = c_user_id c, a_username = c_username c,
                 a_nickname = c_nickname c,
                 a_role = (if c_role c = '''' then RoleUser else c_role c),
                 a_authenticated = True\<rparr>))"

section \<open>Lemmas\<close>

lemma validateUsername_None:
  "validateUsername n = None \<longleftrightarrow> 3 \<le> length n \<and> length n \<le> 32 \<and> (\<forall>r \<in> set (runes n). alnum r)"
  by (auto simp: validateUsername_def list_all_iff)

lemma validateUsername_Some: "validateUsername n = Some e \<Longrightarrow> e = ErrInvalidUsername"
  by (auto simp: validateUsername_def split: if_splits)

lemma nickname_of_length: "length (nickname_of n k) \<le> 32"
  by (auto simp: nickname_of_def Let_def)

lemma nickname_of_nonempty: "n \<noteq> '''' \<Longrightarrow> nickname_of n k \<noteq> ''''"
  by (auto simp: nickname_of_def Let_def)

definition actor_of :: "user \<Rightarrow> actor" where
  "actor_of u = \<lparr>a_user_id = u_id u, a_username = u_username u, a_nickname = u_nickname u,
     a_role = (if u_role u = '''' then RoleUser else u_role u), a_authenticated = True\<rparr>"

text \<open>The identity a token of the user carries: the user's own, but for bytes that are not valid UTF-8.\<close>

definition carried_actor :: "user \<Rightarrow> actor" where
  "carried_actor u = \<lparr>a_user_id = json_string (u_id u), a_username = json_string (u_username u),
     a_nickname = json_string (u_nickname u), a_role = json_string (if u_role u = '''' then RoleUser else u_role u),
     a_authenticated = True\<rparr>"

lemma carried_actor_ascii:
  "is_ascii (u_id u) \<Longrightarrow> is_ascii (u_username u) \<Longrightarrow> u_role u = '''' \<Longrightarrow>
   carried_actor u = (actor_of u)\<lparr>a_nickname := json_string (u_nickname u)\<rparr>"
proof -
  have "is_ascii RoleUser" by code_simp
  then show "is_ascii (u_id u) \<Longrightarrow> is_ascii (u_username u) \<Longrightarrow> u_role u = '''' \<Longrightarrow>
      carried_actor u = (actor_of u)\<lparr>a_nickname := json_string (u_nickname u)\<rparr>"
    by (simp add: carried_actor_def actor_of_def json_string_ascii)
qed

lemma validateUsername_ascii: "validateUsername n = None \<Longrightarrow> is_ascii n"
  by (rule ascii_runes) (auto simp: validateUsername_None alnum_def)

lemma generateToken_total: "jwt_spec jl \<Longrightarrow> \<exists>t. generateToken jl au now u = Inr t"
  unfolding jwt_spec_def generateToken_def
  by (metis sum.simps(6))

lemma generateToken_valid:
  assumes "jwt_spec jl" and "generateToken jl au now u = Inr t"
  shows "ValidateToken jl au now' t =
    (if now' < numeric_date (now + i64 (au_expiry_hours au * Hour)) then Inr (carried_actor u)
     else ValidateToken jl au now' t)"
    and "\<not> now' < numeric_date (now + i64 (au_expiry_hours au * Hour)) \<Longrightarrow>
      \<exists>e. ValidateToken jl au now' t = Inl e \<and> errors_is e ErrInvalidToken"
proof -
  have s: "jl_sign jl (au_secret au) (token_claims au now u) = Inr t"
    using assms(2) by (auto simp: generateToken_def split: sum.splits)
  have k: "key_func au ''HS256'' = Inr (au_secret au)" by (simp add: key_func_def)
  have e: "c_expires_at (token_claims au now u) = numeric_date (now + i64 (au_expiry_hours au * Hour))"
    by (simp add: token_claims_def)
  have p: "if now' < c_expires_at (token_claims au now u)
    then jl_parse jl now' (key_func au) t =
      Inr \<lparr>pt_claims = Some (json_claims (token_claims au now u)), pt_valid = True\<rparr>
    else \<exists>e. jl_parse jl now' (key_func au) t = Inl e"
    using assms(1) s k unfolding jwt_spec_def by blast
  show "ValidateToken jl au now' t =
    (if now' < numeric_date (now + i64 (au_expiry_hours au * Hour)) then Inr (carried_actor u)
     else ValidateToken jl au now' t)"
    using p by (auto simp: e ValidateToken_def carried_actor_def json_claims_def token_claims_def)
  show "\<not> now' < numeric_date (now + i64 (au_expiry_hours au * Hour)) \<Longrightarrow>
      \<exists>e. ValidateToken jl au now' t = Inl e \<and> errors_is e ErrInvalidToken"
    using p by (auto simp: e ValidateToken_def)
qed

lemma Register_mem:
  assumes "users_good s" and "user_map s new_id = None"
    and "Register mem_uo jl bc au new_id now username password nickname s = (Inr (u, t), s')"
  shows "users_good s'" and "user_map s' = (user_map s)(new_id \<mapsto> u)"
    and "\<forall>v \<in> ran (user_map s). u_username v \<noteq> u_username u"
    and "validateUsername (TrimSpace username) = None"
    and "6 \<le> length password" and "length password \<le> 72"
    and "\<exists>h. bc_generate bc password = Inr h \<and>
      u = new_user new_id (TrimSpace username) h (nickname_of (TrimSpace username) nickname)"
    and "generateToken jl au now u = Inr t"
proof -
  from assms(3) obtain h where
    v: "validateUsername (TrimSpace username) = None" and l: "6 \<le> length password" "length password \<le> 72"
    and h: "bc_generate bc password = Inr h"
    and u: "u = new_user new_id (TrimSpace username) h (nickname_of (TrimSpace username) nickname)"
    and c: "uo_Create mem_uo u s = (None, s')" and t: "generateToken jl au now u = Inr t"
    by (auto simp: Register_def Let_def split: option.splits if_splits sum.splits prod.splits)
  have i: "u_id u = new_id" by (simp add: u new_user_def)
  from mem_users.create [OF assms(1) _ c] assms(2) i
  show "users_good s'" and "user_map s' = (user_map s)(new_id \<mapsto> u)" by simp_all
  show "\<forall>v \<in> ran (user_map s). u_username v \<noteq> u_username u"
    using mem_users.create_dup [OF assms(1), of _ u] c by auto
  show "validateUsername (TrimSpace username) = None" "6 \<le> length password" "length password \<le> 72"
    "generateToken jl au now u = Inr t"
    by fact+
  show "\<exists>h. bc_generate bc password = Inr h \<and>
      u = new_user new_id (TrimSpace username) h (nickname_of (TrimSpace username) nickname)"
    using h u by blast
qed

text \<open>A token library and a hash for the witnesses: a token is the key and the claims in JSON.\<close>

definition plain_jwt :: "(string \<times> claims) jwt_lib" where
  "plain_jwt = \<lparr>jl_sign = (\<lambda>k c. Inr (k, json_claims c)), jl_alg = (\<lambda>t. ''HS256''),
     jl_parse = (\<lambda>now kf t. case kf ''HS256'' of
        Inl e \<Rightarrow> Inl e
      | Inr k \<Rightarrow> if k = fst t \<and> now < c_expires_at (snd t)
                then Inr \<lparr>pt_claims = Some (snd t), pt_valid = True\<rparr>
                else Inl (ErrNew ''token is invalid''))\<rparr>"

lemma plain_jwt_spec: "jwt_spec plain_jwt"
  by (auto simp: jwt_spec_def plain_jwt_def json_claims_def)

definition plain_bcrypt :: bcrypt_lib where
  "plain_bcrypt = \<lparr>bc_generate = (\<lambda>p. Inr (''h'' @ p)),
     bc_compare = (\<lambda>h p. if h = ''h'' @ p then None else Some (ErrNew ''mismatch''))\<rparr>"

lemma plain_bcrypt_spec: "bcrypt_spec plain_bcrypt"
  by (simp add: bcrypt_spec_def plain_bcrypt_def)

section \<open>Properties\<close>

text \<open>
  Property C37 (register, log in, be recognised). After a successful registration in a memory
  store, under a new identifier of ASCII characters, as a UUID is, logging in with the same name and password finds
  the very user, and the token of the registration and the token of the login both validate until they expire, and
  are refused with \<open>ErrInvalidToken\<close> from then on. The identity they validate to is the user's: identifier and
  name as stored, the role \<open>user\<close>, and the nickname as JSON carries it, which is the stored one whenever that is valid
  UTF-8 (\<open>json_string_utf8\<close>); it may not be, since \<open>Register\<close> cuts nicknames at 32 bytes.
\<close>

theorem register_login_validate:
  assumes "jwt_spec jl" and "bcrypt_spec bc" and "users_good s" and "user_map s new_id = None" and "is_ascii new_id"
    and "Register mem_uo jl bc au new_id now username password nickname s = (Inr (u, t), s')"
    and "who = (actor_of u)\<lparr>a_nickname := json_string (u_nickname u)\<rparr>"
  shows "\<exists>t2. Login mem_uo jl bc au now2 username password s' = Inr (u, t2) \<and>
    (\<forall>n. if n < numeric_date (now2 + i64 (au_expiry_hours au * Hour))
         then ValidateToken jl au n t2 = Inr who
         else \<exists>e. ValidateToken jl au n t2 = Inl e \<and> errors_is e ErrInvalidToken) \<and>
    (\<forall>n. if n < numeric_date (now + i64 (au_expiry_hours au * Hour))
         then ValidateToken jl au n t = Inr who
         else \<exists>e. ValidateToken jl au n t = Inl e \<and> errors_is e ErrInvalidToken) \<and>
    a_user_id who = new_id \<and> a_username who = u_username u \<and> a_role who = RoleUser"
proof -
  note r = Register_mem [OF assms(3,4,6)]
  from r(7) obtain h where h: "bc_generate bc password = Inr h"
    and u: "u = new_user new_id (TrimSpace username) h (nickname_of (TrimSpace username) nickname)"
    by blast
  have f: "uo_FindByUsername mem_uo (TrimSpace username) s' = Inr (Some u)"
    using FindByUsername_iff [of s' "TrimSpace username" u] r(1,2) u
    by (simp add: memory_user_ops_def users_good_def new_user_def)
  have "bc_compare bc h password = None" using assms(2) h by (simp add: bcrypt_spec_def)
  moreover obtain t2 where t2: "generateToken jl au now2 u = Inr t2"
    using generateToken_total [OF assms(1)] by blast
  moreover have "u_password_hash u = h" by (simp add: u new_user_def)
  ultimately have l: "Login mem_uo jl bc au now2 username password s' = Inr (u, t2)"
    using f by (simp add: Login_def)
  have "carried_actor u = (actor_of u)\<lparr>a_nickname := json_string (u_nickname u)\<rparr>"
    by (rule carried_actor_ascii) (use r(4) assms(5) in \<open>simp_all add: u new_user_def validateUsername_ascii\<close>)
  then have who: "carried_actor u = who" by (simp add: assms(7))
  have v: "if n < numeric_date (m + i64 (au_expiry_hours au * Hour))
      then ValidateToken jl au n tok = Inr who
      else \<exists>e. ValidateToken jl au n tok = Inl e \<and> errors_is e ErrInvalidToken"
    if "generateToken jl au m u = Inr tok" for n m tok
    using generateToken_valid [OF assms(1) that, of n] who by auto
  have "a_user_id who = new_id" "a_username who = u_username u" "a_role who = RoleUser"
    by (simp_all add: assms(7) u new_user_def actor_of_def)
  with l v [OF t2] v [OF r(8)] show ?thesis by blast
qed

theorem register_login_validate_witness:
  "\<exists>u t s' t2. Register mem_uo plain_jwt plain_bcrypt (NewAuthService '''' 0) ''i'' 0 ''ann'' ''secret'' ''''
      NewMemoryUserStore = (Inr (u, t), s') \<and>
    Login mem_uo plain_jwt plain_bcrypt (NewAuthService '''' 0) 5 ''ann'' ''secret'' s' = Inr (u, t2)"
proof -
  have trim: "TrimSpace ''ann'' = ''ann''" by code_simp
  have nick: "nickname_of ''ann'' '''' = ''ann''" by code_simp
  have val: "validateUsername ''ann'' = None" by code_simp
  obtain u t s' where r: "Register mem_uo plain_jwt plain_bcrypt (NewAuthService '''' 0) ''i'' 0 ''ann''
      ''secret'' '''' NewMemoryUserStore = (Inr (u, t), s')"
    by (simp add: Register_def trim nick val plain_bcrypt_def plain_jwt_def memory_user_ops_def
        UserStore.Create_def NewMemoryUserStore_def generateToken_def new_user_def Let_def)
  have "user_map NewMemoryUserStore ''i'' = None" by (simp add: user_map_New)
  moreover have "is_ascii ''i''" by code_simp
  ultimately show ?thesis
    using register_login_validate [OF plain_jwt_spec plain_bcrypt_spec users_good_New _ _ r refl, of 5] r by blast
qed

text \<open>
  Corollary (a long nickname is not the same in the token). Eleven characters of three bytes are cut at 32 bytes, in the
  middle of the last one; the token then carries U+FFFD in place of each of the two bytes left of it.
\<close>

theorem cut_nickname_differs:
  "json_string (nickname_of name (utf8 (replicate 11 24352))) =
     take 30 (nickname_of name (utf8 (replicate 11 24352))) @ utf8 [RuneError, RuneError]"
proof -
  have e: "encode_rune 24352 = [byte 229, byte 188, byte 160]"
    by (simp add: encode_rune_def valid_rune_def encode_valid_def)
  have v: "valid_rune 24352" by (simp add: valid_rune_def)
  have seg: "segments (utf8 (replicate n 24352)) = replicate n (24352, encode_rune 24352)" for n
    by (induction n) (simp_all add: segments_encode v)
  have run: "runes (utf8 (replicate n 24352) @ s) = replicate n 24352 @ runes s" for n s
    by (induction n) (simp_all add: runes_encode v)
  have len: "length (utf8 (replicate n 24352)) = 3 * n" for n by (induction n) (simp_all add: e)
  have "TrimSpace (utf8 (replicate 11 24352)) = utf8 (replicate 11 24352)"
    unfolding TrimSpace_def seg by (simp add: trim_segs_def is_space_def utf8_def)
  moreover have app: "utf8 (replicate 11 24352) = utf8 (replicate 10 24352) @ encode_rune 24352"
    using replicate_add [of 10 1 "24352 :: nat"] by (simp add: utf8_def)
  moreover have "utf8 (replicate 11 24352) \<noteq> ''''" using len [of 11] by auto
  ultimately have cut: "nickname_of name (utf8 (replicate 11 24352)) = utf8 (replicate 10 24352) @ [byte 229, byte 188]"
    by (simp add: nickname_of_def Let_def len e)
  have "decode_rune [byte 229, byte 188] = (RuneError, 1)" "decode_rune [byte 188] = (RuneError, 1)"
    by (simp_all add: decode_rune.simps byte_of_byte)
  then have "runes [byte 229, byte 188] = [RuneError, RuneError]"
    using segments_step [of "[byte 229, byte 188]"] segments_step [of "[byte 188]"] by (simp add: runes_def)
  moreover have "utf8 (xs @ ys) = utf8 xs @ utf8 ys" for xs ys by (simp add: utf8_def)
  ultimately show ?thesis by (simp add: cut json_string_def run len)
qed

text \<open>
  Property C38 (what registration lets in). A successful registration stores exactly one new
  user: the trimmed name has 3 to 32 letters and digits and no other user bears it, the
  password has 6 to 72 bytes, the stored hash is the hash of it, the nickname is not empty
  and not longer than 32 bytes, the user is not banned and has no privileged role.
\<close>

theorem register_stores_valid_user:
  assumes "users_good s" and "user_map s new_id = None"
    and "Register mem_uo jl bc au new_id now username password nickname s = (Inr (u, t), s')"
  shows "user_map s' = (user_map s)(new_id \<mapsto> u) \<and> u_username u = TrimSpace username \<and>
    3 \<le> length (u_username u) \<and> length (u_username u) \<le> 32 \<and>
    (\<forall>r \<in> set (runes (u_username u)). alnum r) \<and>
    (\<forall>v \<in> ran (user_map s). u_username v \<noteq> u_username u) \<and>
    6 \<le> length password \<and> length password \<le> 72 \<and>
    bc_generate bc password = Inr (u_password_hash u) \<and>
    u_nickname u \<noteq> '''' \<and> length (u_nickname u) \<le> 32 \<and> \<not> u_banned u \<and>
    u_role u \<notin> {RoleModerator, RoleAdmin}"
proof -
  note r = Register_mem [OF assms]
  from r(7) obtain h where h: "bc_generate bc password = Inr h"
    and u: "u = new_user new_id (TrimSpace username) h (nickname_of (TrimSpace username) nickname)"
    by blast
  have n: "3 \<le> length (TrimSpace username)" "length (TrimSpace username) \<le> 32"
    "\<forall>r \<in> set (runes (TrimSpace username)). alnum r"
    using r(4) by (auto simp: validateUsername_None)
  then have "nickname_of (TrimSpace username) nickname \<noteq> ''''"
    by (intro nickname_of_nonempty) auto
  moreover have "u_username u = TrimSpace username" "u_password_hash u = h" "\<not> u_banned u"
    "u_role u = ''''" "u_nickname u = nickname_of (TrimSpace username) nickname"
    by (simp_all add: u new_user_def)
  ultimately show ?thesis
    using r(2,3,5,6) h n nickname_of_length by auto
qed

theorem register_stores_valid_user_witness:
  "\<exists>u t s'. Register mem_uo plain_jwt plain_bcrypt (NewAuthService ''k'' 1) ''i'' 0 ''bob'' ''secret'' ''''
      NewMemoryUserStore = (Inr (u, t), s') \<and> length (u_nickname u) \<le> 32"
proof -
  have trim: "TrimSpace ''bob'' = ''bob''" by code_simp
  have nick: "nickname_of ''bob'' '''' = ''bob''" by code_simp
  have val: "validateUsername ''bob'' = None" by code_simp
  obtain u t s' where r: "Register mem_uo plain_jwt plain_bcrypt (NewAuthService ''k'' 1) ''i'' 0 ''bob''
      ''secret'' '''' NewMemoryUserStore = (Inr (u, t), s')"
    by (simp add: Register_def trim nick val plain_bcrypt_def plain_jwt_def memory_user_ops_def
        UserStore.Create_def NewMemoryUserStore_def generateToken_def new_user_def Let_def)
  have "user_map NewMemoryUserStore ''i'' = None" by (simp add: user_map_New)
  from register_stores_valid_user [OF users_good_New this r] r show ?thesis by blast
qed

text \<open>
  Corollary (no algorithm but HS256). Whatever the token library accepts under a key the code
  hands out, \<open>ValidateToken\<close> refuses a token whose header names another signing method.
\<close>

theorem validate_requires_hs256:
  assumes "jwt_spec jl" and "ValidateToken jl au now t = Inr a"
  shows "jl_alg jl t = ''HS256'' \<and> a_authenticated a \<and> a_role a \<noteq> ''''"
proof -
  have p: "\<exists>p. jl_parse jl now (key_func au) t = Inr p"
    using assms(2) by (auto simp: ValidateToken_def split: sum.splits)
  have "\<not> (\<exists>e. key_func au (jl_alg jl t) = Inl e)"
  proof
    assume "\<exists>e. key_func au (jl_alg jl t) = Inl e"
    then obtain e where "key_func au (jl_alg jl t) = Inl e" ..
    from jwt_spec_refuses [where kf = "key_func au" and now = now, OF assms(1) this] p show False by auto
  qed
  then have "jl_alg jl t = ''HS256''" by (auto simp: key_func_def split: if_splits)
  then show ?thesis
    using assms(2) by (auto simp: ValidateToken_def split: sum.splits option.splits if_splits)
qed

theorem validate_requires_hs256_witness:
  "\<exists>a. ValidateToken plain_jwt (NewAuthService ''k'' 1) 0
      (''k'', token_claims (NewAuthService ''k'' 1) 0 sample_user) = Inr a \<and> a_role a \<noteq> ''''"
proof -
  let ?t = "(''k'', token_claims (NewAuthService ''k'' 1) 0 sample_user)"
  have "i64 Hour = Hour" by (simp add: i64_id)
  then obtain a where a: "ValidateToken plain_jwt (NewAuthService ''k'' 1) 0 ?t = Inr a"
    by (simp add: ValidateToken_def plain_jwt_def key_func_def NewAuthService_def token_claims_def
        numeric_date_def)
  from validate_requires_hs256 [OF plain_jwt_spec this] a show ?thesis by blast
qed

end
