(* ===== verification/AhoCorasick.thy ===== *)
theory AhoCorasick
  imports GoText
begin

text \<open>
  \<open>service/moderation.go\<close>, lines 624 to 708: the Aho-Corasick automaton over runes that finds
  blocklist words. The nodes live in an arena: a node is an index, the root is 0, a nil
  pointer is \<open>None\<close>; a child map is the association list in insertion order, and \<open>ord i\<close> is
  the order in which the runtime ranges over the child map of node \<open>i\<close> (each is ranged over
  once). The loops that follow \<open>fail\<close> pointers and the breadth-first loop are
  \<open>partial_function\<close>s: \<open>None\<close> stands for a nil dereference and for a loop that does not end, and
  the theorems below show that neither happens.
\<close>

section \<open>The automaton\<close>

record aca_node =
  an_children :: "(rune \<times> nat) list"
  an_fail :: "nat option"
  an_output :: string

definition new_node :: aca_node where
  "new_node = \<lparr>an_children = [], an_fail = None, an_output = ''''\<rparr>"

type_synonym arena = "aca_node list"

definition child :: "arena \<Rightarrow> nat \<Rightarrow> rune \<Rightarrow> nat option" where
  "child ns i r = map_of (an_children (ns ! i)) r"

abbreviation fail_of :: "arena \<Rightarrow> nat \<Rightarrow> nat option" where
  "fail_of ns i \<equiv> an_fail (ns ! i)"

abbreviation output_of :: "arena \<Rightarrow> nat \<Rightarrow> string" where
  "output_of ns i \<equiv> an_output (ns ! i)"

text \<open>The inner loop of the construction: down from node \<open>i\<close> along the runes of the word.\<close>

fun insert_runes :: "arena \<Rightarrow> nat \<Rightarrow> rune list \<Rightarrow> string \<Rightarrow> arena" where
  "insert_runes ns i [] word = ns[i := (ns ! i)\<lparr>an_output := word\<rparr>]"
| "insert_runes ns i (r # rs) word =
     (case child ns i r of
        Some j \<Rightarrow> insert_runes ns j rs word
      | None \<Rightarrow>
          (let j = length ns;
               ns = ns[i := (ns ! i)\<lparr>an_children := an_children (ns ! i) @ [(r, j)]\<rparr>] @ [new_node]
           in insert_runes ns j rs word))"

fun insert_words :: "arena \<Rightarrow> string list \<Rightarrow> arena" where
  "insert_words ns [] = ns"
| "insert_words ns (w # ws) =
     insert_words (if w = '''' then ns else insert_runes ns 0 (runes w) w) ws"

fun init_queue :: "arena \<Rightarrow> (rune \<times> nat) list \<Rightarrow> nat list \<Rightarrow> arena \<times> nat list" where
  "init_queue ns [] q = (ns, q)"
| "init_queue ns ((r, c) # cs) q = init_queue (ns[c := (ns ! c)\<lparr>an_fail := Some 0\<rparr>]) cs (q @ [c])"

partial_function (option) seek :: "arena \<Rightarrow> rune \<Rightarrow> nat option \<Rightarrow> nat option option" where
  "seek ns r f = (case f of
       None \<Rightarrow> Some None
     | Some i \<Rightarrow> (if child ns i r = None then seek ns r (fail_of ns i) else Some (Some i)))"

fun visit :: "arena \<Rightarrow> nat \<Rightarrow> (rune \<times> nat) list \<Rightarrow> nat list \<Rightarrow> (arena \<times> nat list) option" where
  "visit ns p [] q = Some (ns, q)"
| "visit ns p ((r, c) # cs) q =
     (case seek ns r (fail_of ns p) of
        None \<Rightarrow> None
      | Some f \<Rightarrow>
          (let t = (case f of None \<Rightarrow> 0 | Some i \<Rightarrow> the (child ns i r));
               ns = ns[c := (ns ! c)\<lparr>an_fail := Some t\<rparr>];
               ns = (if output_of ns t \<noteq> '''' \<and> output_of ns c = ''''
                     then ns[c := (ns ! c)\<lparr>an_output := output_of ns t\<rparr>] else ns)
           in visit ns p cs (q @ [c])))"

partial_function (option) bfs ::
  "(nat \<Rightarrow> (rune \<times> nat) list \<Rightarrow> (rune \<times> nat) list) \<Rightarrow> arena \<Rightarrow> nat list \<Rightarrow> arena option" where
  "bfs ord ns q = (case q of
       [] \<Rightarrow> Some ns
     | p # q' \<Rightarrow> (case visit ns p (ord p (an_children (ns ! p))) q' of
         None \<Rightarrow> None
       | Some (ns', q'') \<Rightarrow> bfs ord ns' q''))"

definition buildACA ::
  "(nat \<Rightarrow> (rune \<times> nat) list \<Rightarrow> (rune \<times> nat) list) \<Rightarrow> string list \<Rightarrow> arena option" where
  "buildACA ord words =
     (let ns = insert_words [new_node] words;
          (ns, q) = init_queue ns (ord 0 (an_children (ns ! 0))) []
      in bfs ord ns q)"

partial_function (option) fall_back :: "arena \<Rightarrow> rune \<Rightarrow> nat \<Rightarrow> nat option" where
  "fall_back ns r i =
     (if i \<noteq> 0 \<and> child ns i r = None
      then (case fail_of ns i of None \<Rightarrow> None | Some j \<Rightarrow> fall_back ns r j)
      else Some i)"

fun match_runes :: "arena \<Rightarrow> nat \<Rightarrow> rune list \<Rightarrow> string option" where
  "match_runes ns i [] = Some ''''"
| "match_runes ns i (r # rs) =
     (case fall_back ns r i of
        None \<Rightarrow> None
      | Some j \<Rightarrow>
          (let k = (case child ns j r of None \<Rightarrow> j | Some c \<Rightarrow> c) in
           if output_of ns k \<noteq> '''' then Some (output_of ns k) else match_runes ns k rs))"

definition Match :: "arena \<Rightarrow> string \<Rightarrow> string option" where
  "Match ns content = match_runes ns 0 (runes content)"

section \<open>Suffixes in a prefix-closed set\<close>

fun lsuf :: "rune list set \<Rightarrow> rune list \<Rightarrow> rune list" where
  "lsuf T [] = []"
| "lsuf T (x # xs) = (if x # xs \<in> T then x # xs else lsuf T xs)"

definition prefix_closed :: "rune list set \<Rightarrow> bool" where
  "prefix_closed T \<longleftrightarrow> [] \<in> T \<and> (\<forall>w r. w @ [r] \<in> T \<longrightarrow> w \<in> T)"

lemma prefix_closed_butlast: "prefix_closed T \<Longrightarrow> w @ [r] \<in> T \<Longrightarrow> w \<in> T"
  unfolding prefix_closed_def by blast

lemma prefix_closed_append: "prefix_closed T \<Longrightarrow> u @ v \<in> T \<Longrightarrow> u \<in> T"
proof (induction v rule: rev_induct)
  case (snoc r v)
  then have "(u @ v) @ [r] \<in> T" by simp
  with snoc prefix_closed_butlast show ?case by blast
qed simp

lemma lsuf_in: "prefix_closed T \<Longrightarrow> lsuf T w \<in> T"
  by (induction w) (auto simp: prefix_closed_def)

lemma lsuf_self [simp]: "w \<in> T \<Longrightarrow> lsuf T w = w"
  by (cases w) auto

lemma length_lsuf: "length (lsuf T w) \<le> length w"
  by (induction w) auto

lemma lsuf_snoc: "prefix_closed T \<Longrightarrow> lsuf T (w @ [r]) = lsuf T (lsuf T w @ [r])"
proof (induction w)
  case (Cons x xs)
  show ?case
  proof (cases "x # xs \<in> T")
    case False
    then have "(x # xs) @ [r] \<notin> T" using prefix_closed_butlast [OF Cons.prems] by blast
    then have "lsuf T ((x # xs) @ [r]) = lsuf T (xs @ [r])" by simp
    with False Cons show ?thesis by simp
  qed simp
qed simp

lemma lsuf_snoc_fail:
  assumes "prefix_closed T" and "u @ [r] \<notin> T" and "u \<noteq> []"
  shows "lsuf T (u @ [r]) = lsuf T (lsuf T (tl u) @ [r])"
proof -
  from assms(3) obtain x xs where u: "u = x # xs" by (cases u) auto
  with assms(2) have "lsuf T (u @ [r]) = lsuf T (xs @ [r])" by simp
  also have "\<dots> = lsuf T (lsuf T xs @ [r])" by (rule lsuf_snoc [OF assms(1)])
  finally show ?thesis by (simp add: u)
qed

lemma lsuf_single: "[r] \<notin> T \<Longrightarrow> lsuf T [r] = []"
  by simp

text \<open>
  \<open>word_at ws w\<close> is the last of the words spelled \<open>w\<close>, \<open>best ws w\<close> the longest word that \<open>w\<close> ends
  with; both are empty when there is none.
\<close>

definition word_at :: "string list \<Rightarrow> rune list \<Rightarrow> string" where
  "word_at ws w = (case find (\<lambda>x. x \<noteq> '''' \<and> runes x = w) (rev ws) of None \<Rightarrow> '''' | Some x \<Rightarrow> x)"

fun best :: "string list \<Rightarrow> rune list \<Rightarrow> string" where
  "best ws [] = ''''"
| "best ws (x # xs) = (if word_at ws (x # xs) \<noteq> '''' then word_at ws (x # xs) else best ws xs)"

lemma findSomeD: "find P xs = Some x \<Longrightarrow> P x \<and> x \<in> set xs"
  by (induction xs) (auto split: if_splits)

lemma word_at_Nil [simp]: "word_at ws [] = ''''"
  by (auto simp: word_at_def dest: findSomeD split: option.split)

lemma word_at_empty [simp]: "word_at [] w = ''''"
  by (simp add: word_at_def)

lemma word_at_snoc: "word_at (ws @ [x]) w = (if x \<noteq> '''' \<and> runes x = w then x else word_at ws w)"
  by (auto simp: word_at_def)

lemma word_at_in: "word_at ws w \<noteq> '''' \<Longrightarrow> word_at ws w \<in> set ws \<and> runes (word_at ws w) = w"
proof -
  assume a: "word_at ws w \<noteq> ''''"
  then obtain x where f: "find (\<lambda>x. x \<noteq> '''' \<and> runes x = w) (rev ws) = Some x"
    by (auto simp: word_at_def split: option.splits)
  from findSomeD [OF f] f show ?thesis by (simp add: word_at_def)
qed

lemma word_at_found: "x \<in> set ws \<Longrightarrow> x \<noteq> '''' \<Longrightarrow> word_at ws (runes x) \<noteq> ''''"
  by (auto simp: word_at_def find_None_iff dest: findSomeD split: option.split)

lemma best_lsuf:
  assumes "\<forall>x \<in> set ws. x \<noteq> '''' \<longrightarrow> runes x \<in> T"
  shows "best ws (lsuf T w) = best ws w"
proof (induction w)
  case (Cons x xs)
  show ?case
  proof (cases "x # xs \<in> T")
    case False
    then have "word_at ws (x # xs) = ''''" using word_at_in assms by fastforce
    with Cons False show ?thesis by simp
  qed simp
qed simp

lemma best_in: "best ws w \<noteq> '''' \<Longrightarrow> best ws w \<in> set ws \<and> suffix (runes (best ws w)) w"
proof (induction w)
  case (Cons x xs)
  show ?case
  proof (cases "word_at ws (x # xs) = ''''")
    case False
    with word_at_in [OF this] show ?thesis by simp
  next
    case True
    with Cons show ?thesis by (auto intro: suffix_ConsI)
  qed
qed simp

lemma best_found: "x \<in> set ws \<Longrightarrow> x \<noteq> '''' \<Longrightarrow> suffix (runes x) w \<Longrightarrow> best ws w \<noteq> ''''"
proof (induction w)
  case (Cons a w)
  then show ?case using word_at_found [of x ws] by (auto simp: suffix_Cons)
qed simp

text \<open>The scan without an automaton: at each position the longest word that ends there.\<close>

fun naive_from :: "string list \<Rightarrow> rune list \<Rightarrow> rune list \<Rightarrow> string" where
  "naive_from ws seen [] = ''''"
| "naive_from ws seen (r # rs) =
     (if best ws (seen @ [r]) \<noteq> '''' then best ws (seen @ [r]) else naive_from ws (seen @ [r]) rs)"

definition naive :: "string list \<Rightarrow> string \<Rightarrow> string" where
  "naive ws content = naive_from ws [] (runes content)"

lemma naive_from_in:
  "naive_from ws seen rs \<noteq> '''' \<Longrightarrow>
   naive_from ws seen rs \<in> set ws \<and> sublist (runes (naive_from ws seen rs)) (seen @ rs)"
proof (induction rs arbitrary: seen)
  case (Cons r rs)
  show ?case
  proof (cases "best ws (seen @ [r]) = ''''")
    case True
    with Cons.IH [of "seen @ [r]"] Cons.prems show ?thesis by simp
  next
    case False
    from best_in [OF this] have b: "best ws (seen @ [r]) \<in> set ws"
      "suffix (runes (best ws (seen @ [r]))) (seen @ [r])" by auto
    from b(2) obtain zs where "seen @ [r] = zs @ runes (best ws (seen @ [r]))"
      by (auto simp: suffix_def)
    then have "(seen @ [r]) @ rs = zs @ runes (best ws (seen @ [r])) @ rs" by simp
    then have "sublist (runes (best ws (seen @ [r]))) (seen @ r # rs)"
      unfolding sublist_def append_assoc append_Cons append_Nil by blast
    with False b(1) show ?thesis by simp
  qed
qed simp

lemma naive_from_found:
  "x \<in> set ws \<Longrightarrow> x \<noteq> '''' \<Longrightarrow> suffix (runes x) (seen @ us) \<Longrightarrow> us \<noteq> [] \<Longrightarrow>
   naive_from ws seen (us @ vs) \<noteq> ''''"
proof (induction us arbitrary: seen)
  case (Cons u us)
  show ?case
  proof (cases "us = []")
    case True
    with Cons.prems best_found [of x ws "seen @ [u]"] show ?thesis by simp
  next
    case False
    with Cons.IH [of "seen @ [u]"] Cons.prems show ?thesis by simp
  qed
qed simp

lemma naive_iff:
  "naive ws content \<noteq> '''' \<longleftrightarrow> (\<exists>x \<in> set ws. x \<noteq> '''' \<and> sublist (runes x) (runes content))"
proof
  assume a: "naive ws content \<noteq> ''''"
  from naive_from_in [OF a [unfolded naive_def]]
  show "\<exists>x \<in> set ws. x \<noteq> '''' \<and> sublist (runes x) (runes content)"
    using a by (auto simp: naive_def)
next
  assume "\<exists>x \<in> set ws. x \<noteq> '''' \<and> sublist (runes x) (runes content)"
  then obtain x ps ss where x: "x \<in> set ws" "x \<noteq> ''''" and c: "runes content = ps @ runes x @ ss"
    by (auto simp: sublist_def)
  then have "naive_from ws [] ((ps @ runes x) @ ss) \<noteq> ''''"
    by (intro naive_from_found [of x]) (auto simp: suffix_def)
  then show "naive ws content \<noteq> ''''" by (simp add: naive_def c)
qed

section \<open>The trie\<close>

lemma nth_upd: "(xs[i := x]) ! k = (if k = i \<and> i < length xs then x else xs ! k)"
  by (cases "i < length xs") (auto simp: nth_list_update list_update_beyond)

text \<open>\<open>ps\<close> lists the path of each node; a node is the child of the node whose path it extends.\<close>

definition trie :: "arena \<Rightarrow> rune list list \<Rightarrow> bool" where
  "trie ns ps \<longleftrightarrow> length ps = length ns \<and> ns \<noteq> [] \<and> ps ! 0 = [] \<and> distinct ps \<and>
     (\<forall>i < length ns. distinct (map fst (an_children (ns ! i)))) \<and>
     (\<forall>i < length ns. \<forall>r j. child ns i r = Some j \<longrightarrow> j < length ns \<and> ps ! j = ps ! i @ [r]) \<and>
     (\<forall>j < length ns. ps ! j \<noteq> [] \<longrightarrow> (\<exists>i r. i < length ns \<and> child ns i r = Some j))"

lemma trie_len: "trie ns ps \<Longrightarrow> length ps = length ns" and
  trie_nonempty: "trie ns ps \<Longrightarrow> 0 < length ns" and
  trie_root: "trie ns ps \<Longrightarrow> ps ! 0 = []" and
  trie_distinct: "trie ns ps \<Longrightarrow> distinct ps" and
  trie_keys: "trie ns ps \<Longrightarrow> i < length ns \<Longrightarrow> distinct (map fst (an_children (ns ! i)))" and
  trie_child: "trie ns ps \<Longrightarrow> i < length ns \<Longrightarrow> child ns i r = Some j \<Longrightarrow>
    j < length ns \<and> ps ! j = ps ! i @ [r]" and
  trie_parent: "trie ns ps \<Longrightarrow> j < length ns \<Longrightarrow> ps ! j \<noteq> [] \<Longrightarrow>
    \<exists>i r. i < length ns \<and> child ns i r = Some j"
  unfolding trie_def by blast+

lemma trie_path_inj: "trie ns ps \<Longrightarrow> i < length ns \<Longrightarrow> j < length ns \<Longrightarrow> ps ! i = ps ! j \<longleftrightarrow> i = j"
  by (simp add: trie_len trie_distinct nth_eq_iff_index_eq)

lemma trie_path_Nil: "trie ns ps \<Longrightarrow> i < length ns \<Longrightarrow> ps ! i = [] \<longleftrightarrow> i = 0"
  using trie_path_inj [of ns ps i 0] trie_root [of ns ps] trie_nonempty [of ns ps] by simp

lemma trie_set: "trie ns ps \<Longrightarrow> w \<in> set ps \<longleftrightarrow> (\<exists>i < length ns. ps ! i = w)"
  by (metis in_set_conv_nth trie_len)

lemma trie_child_iff:
  assumes "trie ns ps" and "i < length ns"
  shows "child ns i r = Some j \<longleftrightarrow> j < length ns \<and> ps ! j = ps ! i @ [r]"
proof
  assume "j < length ns \<and> ps ! j = ps ! i @ [r]"
  then have j: "j < length ns" "ps ! j = ps ! i @ [r]" by auto
  then obtain k q where k: "k < length ns" "child ns k q = Some j"
    using trie_parent [OF assms(1), of j] by auto
  with trie_child [OF assms(1) this] j(2) have "ps ! k = ps ! i" "q = r" by auto
  with k assms show "child ns i r = Some j" by (simp add: trie_path_inj)
qed (use trie_child assms in blast)

lemma trie_child_None:
  assumes "trie ns ps" and "i < length ns"
  shows "child ns i r = None \<longleftrightarrow> ps ! i @ [r] \<notin> set ps"
proof -
  have "ps ! i @ [r] \<in> set ps \<longleftrightarrow> (\<exists>j. child ns i r = Some j)"
    using trie_child_iff [OF assms] trie_set [OF assms(1)] by auto
  then show ?thesis by auto
qed

lemma trie_prefix_closed: "trie ns ps \<Longrightarrow> prefix_closed (set ps)"
  unfolding prefix_closed_def
proof (intro conjI allI impI)
  assume t: "trie ns ps"
  then show "[] \<in> set ps" by (metis trie_nonempty trie_root trie_set)
  fix w r assume "w @ [r] \<in> set ps"
  with t obtain j where j: "j < length ns" "ps ! j = w @ [r]" by (auto simp: trie_set)
  then obtain i q where "i < length ns" "child ns i q = Some j"
    using trie_parent [OF t j(1)] by auto
  with trie_child [OF t this] j(2) show "w \<in> set ps" by (auto simp: trie_set [OF t])
qed

text \<open>Writes to \<open>fail\<close> and \<open>output\<close> leave the trie alone.\<close>

lemma child_update [simp]:
  "child (ns[i := (ns ! i)\<lparr>an_output := w\<rparr>]) = child ns"
  "child (ns[i := (ns ! i)\<lparr>an_fail := f\<rparr>]) = child ns"
  by (auto simp: child_def fun_eq_iff nth_upd)

lemma trie_cong:
  assumes "length ns' = length ns" and "\<And>i. i < length ns \<Longrightarrow> an_children (ns' ! i) = an_children (ns ! i)"
  shows "trie ns' ps \<longleftrightarrow> trie ns ps"
proof -
  have c: "i < length ns \<Longrightarrow> child ns' i = child ns i" for i
    using assms(2) by (auto simp: child_def fun_eq_iff)
  have e: "ns' \<noteq> [] \<longleftrightarrow> ns \<noteq> []" using assms(1) by (metis length_greater_0_conv)
  have k: "(\<forall>i < length ns. distinct (map fst (an_children (ns' ! i)))) \<longleftrightarrow>
      (\<forall>i < length ns. distinct (map fst (an_children (ns ! i))))"
    using assms(2) by simp
  have d: "(\<forall>i < length ns. \<forall>r j. child ns' i r = Some j \<longrightarrow> P i r j) \<longleftrightarrow>
      (\<forall>i < length ns. \<forall>r j. child ns i r = Some j \<longrightarrow> P i r j)" for P
    using c by simp
  have f: "(\<exists>i r. i < length ns \<and> child ns' i r = Some j) \<longleftrightarrow>
      (\<exists>i r. i < length ns \<and> child ns i r = Some j)" for j
    using c by metis
  show ?thesis unfolding trie_def assms(1) e k d f ..
qed

lemma trie_output [simp]: "trie (ns[i := (ns ! i)\<lparr>an_output := w\<rparr>]) ps \<longleftrightarrow> trie ns ps"
  by (rule trie_cong) (auto simp: nth_upd)

lemma trie_fail [simp]: "trie (ns[i := (ns ! i)\<lparr>an_fail := f\<rparr>]) ps \<longleftrightarrow> trie ns ps"
  by (rule trie_cong) (auto simp: nth_upd)

lemma trie_add:
  assumes t: "trie ns ps" and i: "i < length ns" and none: "child ns i r = None"
  shows "trie (ns[i := (ns ! i)\<lparr>an_children := an_children (ns ! i) @ [(r, length ns)]\<rparr>] @ [new_node])
    (ps @ [ps ! i @ [r]])"
proof -
  let ?ns = "ns[i := (ns ! i)\<lparr>an_children := an_children (ns ! i) @ [(r, length ns)]\<rparr>] @ [new_node]"
  let ?ps = "ps @ [ps ! i @ [r]]"
  have len: "length ?ns = Suc (length ns)" and lps: "length ps = length ns"
    using trie_len [OF t] by simp_all
  have ch: "child ?ns k q = (if k = i \<and> q = r then Some (length ns) else if k < length ns then child ns k q else None)"
    if "k < Suc (length ns)" for k q
  proof (cases "k = length ns")
    case True
    then show ?thesis using i by (auto simp: child_def new_node_def nth_append)
  next
    case False
    with that have k: "k < length ns" by simp
    then show ?thesis using none
      by (auto simp: child_def nth_append nth_upd map_add_def split: option.split)
  qed
  have pold: "?ps ! k = ps ! k" if "k < length ns" for k using that lps by (simp add: nth_append)
  have pnew: "?ps ! length ns = ps ! i @ [r]" using lps by (metis nth_append_length)
  show ?thesis
    unfolding trie_def
  proof (intro conjI allI impI)
    show "length ?ps = length ?ns" by (simp add: lps)
    show "?ns \<noteq> []" by simp
    show "?ps ! 0 = []" using pold [of 0] trie_root [OF t] trie_nonempty [OF t] by simp
    show "distinct ?ps" using trie_distinct [OF t] none trie_child_None [OF t i] by simp
  next
    fix k assume k: "k < length ?ns"
    have "r \<notin> fst ` set (an_children (ns ! i))"
      using none by (auto simp: child_def map_of_eq_None_iff)
    with k i show "distinct (map fst (an_children (?ns ! k)))"
      using trie_keys [OF t, of k] by (auto simp: nth_append nth_upd new_node_def)
  next
    fix k q j assume k: "k < length ?ns" and c: "child ?ns k q = Some j"
    have kk: "k < Suc (length ns)" using k by simp
    show "j < length ?ns"
      using c [unfolded ch [OF kk]] trie_child [OF t, of k q j] by (auto simp: less_Suc_eq split: if_splits)
    show "?ps ! j = ?ps ! k @ [q]"
    proof (cases "k = i \<and> q = r")
      case True
      with c [unfolded ch [OF kk]] have "j = length ns" by simp
      with True show ?thesis using pnew pold [OF i] by simp
    next
      case False
      with c [unfolded ch [OF kk]] have old: "k < length ns" "child ns k q = Some j"
        by (auto split: if_splits)
      with trie_child [OF t old] pold show ?thesis by simp
    qed
  next
    fix j assume j: "j < length ?ns" and "?ps ! j \<noteq> []"
    show "\<exists>k q. k < length ?ns \<and> child ?ns k q = Some j"
    proof (cases "j = length ns")
      case True
      have "child ?ns i r = Some j" using ch [of i r] i True by simp
      then show ?thesis using i len by (metis less_SucI)
    next
      case False
      with j have jl: "j < length ns" by simp
      with \<open>?ps ! j \<noteq> []\<close> pold have "ps ! j \<noteq> []" by simp
      from trie_parent [OF t jl this] obtain k q where k: "k < length ns" "child ns k q = Some j" by blast
      then have nk: "\<not> (k = i \<and> q = r)" using none by auto
      have "child ?ns k q = Some j" unfolding ch [OF less_SucI [OF k(1)]] if_not_P [OF nk] using k by simp
      then show ?thesis using k len by (metis less_SucI)
    qed
  qed
qed

text \<open>The arena after the insertions: raw outputs, no failure links.\<close>

definition raw_arena :: "arena \<Rightarrow> rune list list \<Rightarrow> string list \<Rightarrow> bool" where
  "raw_arena ns ps ws \<longleftrightarrow> trie ns ps \<and>
     (\<forall>i < length ns. output_of ns i = word_at ws (ps ! i) \<and> fail_of ns i = None) \<and>
     (\<forall>x \<in> set ws. x \<noteq> '''' \<longrightarrow> runes x \<in> set ps)"

lemma insert_runes_raw:
  assumes "trie ns ps" and "i < length ns"
    and "\<forall>k < length ns. fail_of ns k = None"
    and "\<forall>k < length ns. output_of ns k = out (ps ! k)"
    and "\<forall>w. w \<notin> set ps \<longrightarrow> out w = ''''"
  shows "\<exists>qs. trie (insert_runes ns i rs word) (ps @ qs) \<and> ps ! i @ rs \<in> set (ps @ qs) \<and>
    (\<forall>k < length (insert_runes ns i rs word). fail_of (insert_runes ns i rs word) k = None \<and>
      output_of (insert_runes ns i rs word) k =
        (if (ps @ qs) ! k = ps ! i @ rs then word else out ((ps @ qs) ! k)))"
  using assms
proof (induction rs arbitrary: ns ps i)
  case Nil
  have "ps ! i \<in> set ps" using Nil.prems(1,2) by (auto simp: trie_set)
  with Nil.prems show ?case
    by (intro exI [of _ "[]"]) (auto simp: nth_upd trie_path_inj)
next
  case (Cons r rs)
  show ?case
  proof (cases "child ns i r")
    case (Some j)
    from trie_child [OF Cons.prems(1,2) this] have j: "j < length ns" "ps ! j = ps ! i @ [r]" by auto
    from Cons.IH [OF Cons.prems(1) j(1) Cons.prems(3-5)] show ?thesis by (simp add: Some j(2))
  next
    case None
    let ?j = "length ns"
    let ?ns = "ns[i := (ns ! i)\<lparr>an_children := an_children (ns ! i) @ [(r, ?j)]\<rparr>] @ [new_node]"
    let ?ps = "ps @ [ps ! i @ [r]]"
    have t: "trie ?ns ?ps" by (rule trie_add [OF Cons.prems(1,2) None])
    have len: "length ps = ?j" by (rule trie_len [OF Cons.prems(1)])
    have fresh: "ps ! i @ [r] \<notin> set ps" using None trie_child_None [OF Cons.prems(1,2)] by simp
    have j: "?j < length ?ns" by simp
    have f: "\<forall>k < length ?ns. fail_of ?ns k = None"
      using Cons.prems(3) by (auto simp: nth_append nth_upd new_node_def)
    have o: "\<forall>k < length ?ns. output_of ?ns k = out (?ps ! k)"
      using Cons.prems(4,5) fresh len by (auto simp: nth_append nth_upd new_node_def)
    have z: "\<forall>w. w \<notin> set ?ps \<longrightarrow> out w = ''''" using Cons.prems(5) by simp
    have step: "insert_runes ns i (r # rs) word = insert_runes ?ns ?j rs word"
      by (simp add: None Let_def)
    have pj: "?ps ! ?j = ps ! i @ [r]" using len by (metis nth_append_length)
    from Cons.IH [OF t j f o z] obtain qs where qs:
      "trie (insert_runes ns i (r # rs) word) (?ps @ qs)" "(ps ! i @ [r]) @ rs \<in> set (?ps @ qs)"
      "\<forall>k < length (insert_runes ns i (r # rs) word). fail_of (insert_runes ns i (r # rs) word) k = None \<and>
        output_of (insert_runes ns i (r # rs) word) k =
          (if (?ps @ qs) ! k = (ps ! i @ [r]) @ rs then word else out ((?ps @ qs) ! k))"
      unfolding step pj by blast
    show ?thesis
      by (rule exI [of _ "[ps ! i @ [r]] @ qs"]) (use qs in simp)
  qed
qed

lemma insert_words_raw:
  "raw_arena ns ps us \<Longrightarrow> \<exists>qs. raw_arena (insert_words ns ws) qs (us @ ws)"
proof (induction ws arbitrary: ns ps us)
  case Nil
  then show ?case by auto
next
  case (Cons w ws)
  have "\<exists>qs. raw_arena (if w = '''' then ns else insert_runes ns 0 (runes w) w) qs (us @ [w])"
  proof (cases "w = ''''")
    case True
    with Cons.prems show ?thesis by (auto simp: raw_arena_def word_at_snoc intro!: exI [of _ ps])
  next
    case False
    have t: "trie ns ps" using Cons.prems by (simp add: raw_arena_def)
    have z: "\<forall>v. v \<notin> set ps \<longrightarrow> word_at us v = ''''"
      using Cons.prems word_at_in unfolding raw_arena_def by metis
    have "\<exists>qs. trie (insert_runes ns 0 (runes w) w) (ps @ qs) \<and> ps ! 0 @ runes w \<in> set (ps @ qs) \<and>
      (\<forall>k < length (insert_runes ns 0 (runes w) w). fail_of (insert_runes ns 0 (runes w) w) k = None \<and>
        output_of (insert_runes ns 0 (runes w) w) k =
          (if (ps @ qs) ! k = ps ! 0 @ runes w then w else word_at us ((ps @ qs) ! k)))"
      by (rule insert_runes_raw [OF t trie_nonempty [OF t] _ _ z])
        (use Cons.prems in \<open>auto simp: raw_arena_def\<close>)
    then obtain qs where qs: "trie (insert_runes ns 0 (runes w) w) (ps @ qs)"
      "runes w \<in> set (ps @ qs)"
      "\<forall>k < length (insert_runes ns 0 (runes w) w). fail_of (insert_runes ns 0 (runes w) w) k = None \<and>
        output_of (insert_runes ns 0 (runes w) w) k =
          (if (ps @ qs) ! k = runes w then w else word_at us ((ps @ qs) ! k))"
      by (auto simp: trie_root [OF t])
    have "\<forall>x \<in> set (us @ [w]). x \<noteq> '''' \<longrightarrow> runes x \<in> set (ps @ qs)"
      using Cons.prems qs(2) by (auto simp: raw_arena_def)
    with qs(1,3) False have "raw_arena (insert_runes ns 0 (runes w) w) (ps @ qs) (us @ [w])"
      unfolding raw_arena_def word_at_snoc by auto
    with False show ?thesis by auto
  qed
  then obtain qs where "raw_arena (if w = '''' then ns else insert_runes ns 0 (runes w) w) qs (us @ [w])" ..
  from Cons.IH [OF this] show ?case by simp
qed

lemma raw_arena_new: "raw_arena [new_node] [[]] []"
  by (auto simp: raw_arena_def trie_def child_def new_node_def)

section \<open>The failure links\<close>

text \<open>A node is linked when its failure link and its output have their final values.\<close>

definition linked :: "arena \<Rightarrow> rune list list \<Rightarrow> string list \<Rightarrow> nat \<Rightarrow> bool" where
  "linked ns ps ws i \<longleftrightarrow> output_of ns i = best ws (ps ! i) \<and>
     (if i = 0 then fail_of ns i = None
      else \<exists>j < length ns. fail_of ns i = Some j \<and> ps ! j = lsuf (set ps) (tl (ps ! i)))"

lemma linked_fail:
  "linked ns ps ws i \<Longrightarrow> i \<noteq> 0 \<Longrightarrow> \<exists>j < length ns. fail_of ns i = Some j \<and> ps ! j = lsuf (set ps) (tl (ps ! i))"
  by (simp add: linked_def)

lemma tl_shorter: "w \<noteq> [] \<Longrightarrow> length (lsuf T (tl w)) < length w"
  using length_lsuf [of T "tl w"] by (cases w) auto

lemma seek_spec:
  assumes "trie ns ps" and "i < length ns"
    and "\<And>k. k < length ns \<Longrightarrow> length (ps ! k) \<le> length (ps ! i) \<Longrightarrow> linked ns ps ws k"
  shows "\<exists>f. seek ns r (Some i) = Some f \<and>
    (case f of None \<Rightarrow> lsuf (set ps) (ps ! i @ [r]) = []
     | Some k \<Rightarrow> k < length ns \<and> (\<exists>c. child ns k r = Some c \<and> c < length ns \<and>
         ps ! c = lsuf (set ps) (ps ! i @ [r])))"
  using assms
proof (induction "length (ps ! i)" arbitrary: i rule: less_induct)
  case less
  note t = less.prems(1) and i = less.prems(2)
  show ?case
  proof (cases "child ns i r")
    case (Some c)
    from trie_child [OF t i this] have c: "c < length ns" "ps ! c = ps ! i @ [r]" by auto
    then have "ps ! i @ [r] \<in> set ps" using trie_set [OF t] by blast
    moreover have "seek ns r (Some i) = Some (Some i)" by (subst seek.simps) (simp add: Some)
    ultimately show ?thesis using Some c i by auto
  next
    case None
    then have nin: "ps ! i @ [r] \<notin> set ps" using trie_child_None [OF t i] by simp
    have step: "seek ns r (Some i) = seek ns r (fail_of ns i)" by (subst seek.simps) (simp add: None)
    have li: "linked ns ps ws i" using less.prems(3) [OF i] by simp
    show ?thesis
    proof (cases "i = 0")
      case True
      with li have "fail_of ns i = None" by (simp add: linked_def)
      moreover have "seek ns r None = Some None" by (subst seek.simps) simp
      moreover have "lsuf (set ps) (ps ! i @ [r]) = []"
        using nin True trie_root [OF t] by simp
      ultimately show ?thesis using step by auto
    next
      case False
      from linked_fail [OF li False] obtain j where j: "j < length ns" "fail_of ns i = Some j"
        "ps ! j = lsuf (set ps) (tl (ps ! i))" by blast
      have ne: "ps ! i \<noteq> []" using trie_path_Nil [OF t i] False by simp
      then have short: "length (ps ! j) < length (ps ! i)" using tl_shorter j(3) by metis
      have low: "linked ns ps ws k" if "k < length ns" "length (ps ! k) \<le> length (ps ! j)" for k
        using less.prems(3) [OF that(1)] that(2) short by simp
      have "lsuf (set ps) (ps ! i @ [r]) = lsuf (set ps) (ps ! j @ [r])"
        using lsuf_snoc_fail [OF trie_prefix_closed [OF t] nin ne] j(3) by simp
      with less.hyps [OF short t j(1) low] show ?thesis by (simp only: step j(2))
    qed
  qed
qed

text \<open>The write of one child: its failure link and, if it has none, its output.\<close>

lemma link_child:
  assumes t: "trie ns ps" and words: "\<forall>x \<in> set ws. x \<noteq> '''' \<longrightarrow> runes x \<in> set ps"
    and c: "c < length ns" "c \<noteq> 0" "output_of ns c = word_at ws (ps ! c)"
    and k: "k < length ns" "k \<noteq> c" "ps ! k = lsuf (set ps) (tl (ps ! c))" "linked ns ps ws k"
    and ns1: "ns1 = ns[c := (ns ! c)\<lparr>an_fail := Some k\<rparr>]"
    and ns2: "ns2 = (if output_of ns1 k \<noteq> '''' \<and> output_of ns1 c = ''''
      then ns1[c := (ns1 ! c)\<lparr>an_output := output_of ns1 k\<rparr>] else ns1)"
  shows "length ns2 = length ns" and "trie ns2 ps" and "child ns2 = child ns"
    and "\<And>i. i \<noteq> c \<Longrightarrow> ns2 ! i = ns ! i" and "linked ns2 ps ws c"
    and "an_children (ns2 ! i) = an_children (ns ! i)"
proof -
  show len: "length ns2 = length ns" by (simp add: ns1 ns2)
  have "trie ns1 ps" using t by (simp add: ns1)
  then show "trie ns2 ps" by (simp add: ns2)
  have "child ns1 = child ns" by (simp add: ns1)
  then show "child ns2 = child ns" by (simp add: ns2)
  show same: "\<And>i. i \<noteq> c \<Longrightarrow> ns2 ! i = ns ! i" by (auto simp: ns1 ns2 nth_upd)
  show "an_children (ns2 ! i) = an_children (ns ! i)" by (auto simp: ns1 ns2 nth_upd)
  have ne: "ps ! c \<noteq> []" using trie_path_Nil [OF t c(1)] c(2) by simp
  then obtain x xs where x: "ps ! c = x # xs" by (cases "ps ! c") auto
  have "best ws (ps ! k) = best ws xs"
    using best_lsuf [OF words] k(3) x by simp
  then have "output_of ns k = best ws xs" using k(4) by (simp add: linked_def)
  then have "output_of ns2 c = best ws (ps ! c)"
    using c k(2) x by (auto simp: ns1 ns2 nth_upd)
  moreover have "fail_of ns2 c = Some k" using c(1) by (auto simp: ns1 ns2 nth_upd)
  ultimately show "linked ns2 ps ws c" using c(2) k(1,3) len by (auto simp: linked_def)
qed

text \<open>
  The invariant of the breadth-first loop while node \<open>p\<close> is being visited: \<open>R\<close> is the set of
  nodes that are not linked yet, \<open>cs\<close> what is left of the children of \<open>p\<close>, \<open>q\<close> the queue.
\<close>

definition visit_inv ::
  "arena \<Rightarrow> rune list list \<Rightarrow> string list \<Rightarrow> nat \<Rightarrow> (rune \<times> nat) list \<Rightarrow> nat list \<Rightarrow> nat set \<Rightarrow> bool" where
  "visit_inv ns ps ws p cs q R \<longleftrightarrow> trie ns ps \<and> (\<forall>x \<in> set ws. x \<noteq> '''' \<longrightarrow> runes x \<in> set ps) \<and> finite R \<and>
     (\<forall>i < length ns. i \<notin> R \<longrightarrow> linked ns ps ws i) \<and>
     (\<forall>i \<in> R. i < length ns \<and> i \<noteq> 0 \<and> output_of ns i = word_at ws (ps ! i)) \<and>
     (\<forall>i \<in> set q. i < length ns \<and> i \<notin> R \<and> i \<noteq> 0 \<and> length (ps ! p) \<le> length (ps ! i) \<and>
        length (ps ! i) \<le> Suc (length (ps ! p))) \<and>
     distinct q \<and> sorted (map (\<lambda>i. length (ps ! i)) q) \<and>
     p < length ns \<and> p \<notin> R \<and> p \<noteq> 0 \<and> p \<notin> set q \<and>
     distinct (map fst cs) \<and> (\<forall>(r, c) \<in> set cs. child ns p r = Some c) \<and>
     (\<forall>i < length ns. \<forall>r j. child ns i r = Some j \<longrightarrow>
        (j \<in> R \<longleftrightarrow> i \<in> R \<or> i \<in> set q \<or> (i = p \<and> (r, j) \<in> set cs)))"

text \<open>Nothing as shallow as the visited node is left to link.\<close>

lemma visit_inv_deep:
  assumes inv: "visit_inv ns ps ws p cs q R" and "i \<in> R"
  shows "length (ps ! p) < length (ps ! i)"
  using assms(2)
proof (induction "length (ps ! i)" arbitrary: i rule: less_induct)
  case less
  have t: "trie ns ps" using inv by (simp add: visit_inv_def)
  have i: "i < length ns" "i \<noteq> 0" using inv less.prems by (auto simp: visit_inv_def)
  then have "ps ! i \<noteq> []" using trie_path_Nil [OF t i(1)] by simp
  from trie_parent [OF t i(1) this] obtain k r where k: "k < length ns" "child ns k r = Some i" by blast
  from trie_child [OF t this] have len: "length (ps ! i) = Suc (length (ps ! k))" by simp
  have "k \<in> R \<or> k \<in> set q \<or> k = p"
    using inv k less.prems unfolding visit_inv_def by blast
  then show ?case
  proof (elim disjE)
    assume "k \<in> R"
    with less.hyps [of k] len show ?thesis by simp
  next
    assume "k \<in> set q"
    then have "length (ps ! p) \<le> length (ps ! k)" using inv unfolding visit_inv_def by blast
    with len show ?thesis by simp
  qed (use len in simp)
qed

lemma visit_step:
  assumes inv: "visit_inv ns ps ws p ((r, c) # cs) q R"
  shows "\<exists>ns'. visit ns p ((r, c) # cs) q = visit ns' p cs (q @ [c]) \<and>
    visit_inv ns' ps ws p cs (q @ [c]) (R - {c}) \<and> c \<in> R \<and> length ns' = length ns"
proof -
  have t: "trie ns ps" and words: "\<forall>x \<in> set ws. x \<noteq> '''' \<longrightarrow> runes x \<in> set ps"
    and p: "p < length ns" "p \<notin> R" "p \<noteq> 0" "p \<notin> set q"
    and ch: "child ns p r = Some c"
    and lk: "\<And>i. i < length ns \<Longrightarrow> i \<notin> R \<Longrightarrow> linked ns ps ws i"
    using inv by (auto simp: visit_inv_def)
  from trie_child [OF t p(1) ch] have c: "c < length ns" "ps ! c = ps ! p @ [r]" by auto
  have iff: "\<And>i r' j. i < length ns \<Longrightarrow> child ns i r' = Some j \<Longrightarrow>
      (j \<in> R \<longleftrightarrow> i \<in> R \<or> i \<in> set q \<or> (i = p \<and> (r', j) \<in> set ((r, c) # cs)))"
    using inv unfolding visit_inv_def by blast
  have cR: "c \<in> R" using iff [OF p(1) ch] by simp
  have low: "linked ns ps ws k" if "k < length ns" "length (ps ! k) \<le> length (ps ! p)" for k
    using lk [OF that(1)] visit_inv_deep [OF inv, of k] that(2) by auto
  have pne: "ps ! p \<noteq> []" using trie_path_Nil [OF t p(1)] p(3) by simp
  from linked_fail [OF low [OF p(1) order_refl] p(3)] obtain f where
    f: "f < length ns" "fail_of ns p = Some f" "ps ! f = lsuf (set ps) (tl (ps ! p))" by blast
  have fs: "length (ps ! f) < length (ps ! p)" using tl_shorter [OF pne] f(3) by metis
  have lowf: "linked ns ps ws k" if "k < length ns" "length (ps ! k) \<le> length (ps ! f)" for k
    using low [OF that(1)] that(2) fs by simp
  from seek_spec [OF t f(1) lowf, of r] obtain g where
    g: "seek ns r (Some f) = Some g" and gs: "case g of
      None \<Rightarrow> lsuf (set ps) (ps ! f @ [r]) = []
    | Some k \<Rightarrow> k < length ns \<and> (\<exists>c. child ns k r = Some c \<and> c < length ns \<and>
        ps ! c = lsuf (set ps) (ps ! f @ [r]))" by blast
  let ?k = "case g of None \<Rightarrow> 0 | Some i \<Rightarrow> the (child ns i r)"
  have k: "?k < length ns" "ps ! ?k = lsuf (set ps) (ps ! f @ [r])"
    using gs trie_nonempty [OF t] trie_root [OF t] by (auto split: option.splits)
  have "lsuf (set ps) (tl (ps ! c)) = lsuf (set ps) (tl (ps ! p) @ [r])"
    using c(2) pne by simp
  also have "\<dots> = lsuf (set ps) (ps ! f @ [r])"
    using lsuf_snoc [OF trie_prefix_closed [OF t]] f(3) by metis
  finally have kc: "ps ! ?k = lsuf (set ps) (tl (ps ! c))" using k(2) by simp
  have ks: "length (ps ! ?k) \<le> length (ps ! p)"
    using length_lsuf [of "set ps" "tl (ps ! c)"] kc c(2) by simp
  then have knc: "?k \<noteq> c" using c(2) by auto
  have c0: "c \<noteq> 0" "output_of ns c = word_at ws (ps ! c)"
    using inv cR by (auto simp: visit_inv_def)
  define ns1 where "ns1 = ns[c := (ns ! c)\<lparr>an_fail := Some ?k\<rparr>]"
  define ns2 where "ns2 = (if output_of ns1 ?k \<noteq> '''' \<and> output_of ns1 c = ''''
      then ns1[c := (ns1 ! c)\<lparr>an_output := output_of ns1 ?k\<rparr>] else ns1)"
  note lc = link_child [OF t words c(1) c0 k(1) knc kc low [OF k(1) ks] ns1_def ns2_def]
  have v: "visit ns p ((r, c) # cs) q = visit ns2 p cs (q @ [c])"
    using f(2) g by (simp add: Let_def ns2_def flip: ns1_def)
  have lk2: "linked ns2 ps ws i" if "i < length ns" "i \<notin> R - {c}" for i
  proof (cases "i = c")
    case False
    with that(2) have "i \<notin> R" by simp
    then have "linked ns ps ws i" by (rule lk [OF that(1)])
    then show ?thesis unfolding linked_def lc(1) lc(4) [OF False] .
  qed (simp add: lc(5))
  have "r \<notin> fst ` set cs" using inv by (simp add: visit_inv_def)
  then have dist: "\<forall>(r', j) \<in> set cs. r' \<noteq> r" by force
  have iff2: "j \<in> R - {c} \<longleftrightarrow> i \<in> R - {c} \<or> i \<in> set (q @ [c]) \<or> (i = p \<and> (r', j) \<in> set cs)"
    if i: "i < length ns" "child ns i r' = Some j" for i r' j
  proof (cases "j = c")
    case True
    have "ps ! i @ [r'] = ps ! p @ [r]" using trie_child [OF t i] c(2) True by simp
    then have "i = p" "r' = r" using trie_path_inj [OF t i(1) p(1)] by auto
    with True p cR c dist show ?thesis by auto
  next
    case False
    with iff [OF i] cR p show ?thesis by auto
  qed
  have "visit_inv ns2 ps ws p cs (q @ [c]) (R - {c})"
    unfolding visit_inv_def lc(1) lc(3)
  proof (intro conjI)
    show "\<forall>i \<in> R - {c}. i < length ns \<and> i \<noteq> 0 \<and> output_of ns2 i = word_at ws (ps ! i)"
      using inv lc(4) by (auto simp: visit_inv_def)
    show "\<forall>i \<in> set (q @ [c]). i < length ns \<and> i \<notin> R - {c} \<and> i \<noteq> 0 \<and> length (ps ! p) \<le> length (ps ! i) \<and>
        length (ps ! i) \<le> Suc (length (ps ! p))"
      using inv c c0 by (auto simp: visit_inv_def)
    have "c \<notin> set q" using inv cR by (auto simp: visit_inv_def)
    then show "distinct (q @ [c])" using inv by (simp add: visit_inv_def)
    show "sorted (map (\<lambda>i. length (ps ! i)) (q @ [c]))"
      using inv c by (auto simp: visit_inv_def sorted_append)
    show "p \<notin> set (q @ [c])" using p c by auto
    show "\<forall>i < length ns. \<forall>r j. child ns i r = Some j \<longrightarrow>
        (j \<in> R - {c} \<longleftrightarrow> i \<in> R - {c} \<or> i \<in> set (q @ [c]) \<or> (i = p \<and> (r, j) \<in> set cs))"
      using iff2 by blast
  qed (use inv lc(2) lk2 p in \<open>auto simp: visit_inv_def\<close>)
  with v cR lc(1) show ?thesis by blast
qed

lemma visit_spec:
  "visit_inv ns ps ws p cs q R \<Longrightarrow> \<exists>ns' q' R'. visit ns p cs q = Some (ns', q') \<and>
    visit_inv ns' ps ws p [] q' R' \<and> card R' + length q' = card R + length q"
proof (induction cs arbitrary: ns q R)
  case Nil
  then show ?case by auto
next
  case (Cons rc cs)
  obtain r c where rc: "rc = (r, c)" by fastforce
  from visit_step [OF Cons.prems [unfolded rc]] obtain ns1 where
    s: "visit ns p ((r, c) # cs) q = visit ns1 p cs (q @ [c])"
      "visit_inv ns1 ps ws p cs (q @ [c]) (R - {c})" "c \<in> R" by blast
  have "finite R" using Cons.prems by (simp add: visit_inv_def)
  then have "card R = Suc (card (R - {c}))" using s(3) by (rule card.remove)
  then have m: "card (R - {c}) + length (q @ [c]) = card R + length q" by simp
  from Cons.IH [OF s(2)] show ?case unfolding rc s(1) m .
qed

text \<open>Between visits; the queue is ordered by depth and its depths differ by at most one.\<close>

definition bfs_inv :: "arena \<Rightarrow> rune list list \<Rightarrow> string list \<Rightarrow> nat list \<Rightarrow> nat set \<Rightarrow> bool" where
  "bfs_inv ns ps ws q R \<longleftrightarrow> trie ns ps \<and> (\<forall>x \<in> set ws. x \<noteq> '''' \<longrightarrow> runes x \<in> set ps) \<and> finite R \<and>
     (\<forall>i < length ns. i \<notin> R \<longrightarrow> linked ns ps ws i) \<and>
     (\<forall>i \<in> R. i < length ns \<and> i \<noteq> 0 \<and> output_of ns i = word_at ws (ps ! i)) \<and>
     (\<forall>i \<in> set q. i < length ns \<and> i \<notin> R \<and> i \<noteq> 0 \<and>
        length (ps ! i) \<le> Suc (length (ps ! hd q))) \<and>
     distinct q \<and> sorted (map (\<lambda>i. length (ps ! i)) q) \<and>
     (\<forall>i < length ns. \<forall>r j. child ns i r = Some j \<longrightarrow> (j \<in> R \<longleftrightarrow> i \<in> R \<or> i \<in> set q))"

definition any_order :: "(nat \<Rightarrow> (rune \<times> nat) list \<Rightarrow> (rune \<times> nat) list) \<Rightarrow> bool" where
  "any_order ord \<longleftrightarrow> (\<forall>i xs. mset (ord i xs) = mset xs)"

lemma any_order_set: "any_order ord \<Longrightarrow> set (ord i xs) = set xs"
  unfolding any_order_def by (metis set_mset_mset)

lemma any_order_keys: "any_order ord \<Longrightarrow> distinct (map fst xs) \<Longrightarrow> distinct (map fst (ord i xs))"
  unfolding any_order_def by (metis mset_eq_imp_distinct_iff mset_map)

lemma children_set:
  assumes "trie ns ps" and "i < length ns" and "any_order ord"
  shows "(r, c) \<in> set (ord k (an_children (ns ! i))) \<longleftrightarrow> child ns i r = Some c"
  unfolding any_order_set [OF assms(3)] child_def
  using trie_keys [OF assms(1,2)] by simp

lemma bfs_inv_pop:
  assumes inv: "bfs_inv ns ps ws (p # q) R" and ord: "any_order ord"
  shows "visit_inv ns ps ws p (ord p (an_children (ns ! p))) q R"
proof -
  have t: "trie ns ps" and p: "p < length ns" "p \<notin> R" "p \<noteq> 0"
    using inv by (auto simp: bfs_inv_def)
  note cs = children_set [OF t p(1) ord, of _ _ p]
  have low: "length (ps ! p) \<le> length (ps ! i)" if "i \<in> set q" for i
    using inv that by (auto simp: bfs_inv_def)
  show ?thesis
    unfolding visit_inv_def
  proof (intro conjI)
    show "\<forall>i \<in> set q. i < length ns \<and> i \<notin> R \<and> i \<noteq> 0 \<and> length (ps ! p) \<le> length (ps ! i) \<and>
        length (ps ! i) \<le> Suc (length (ps ! p))"
      using inv low by (simp add: bfs_inv_def)
    show "distinct (map fst (ord p (an_children (ns ! p))))"
      by (rule any_order_keys [OF ord trie_keys [OF t p(1)]])
    show "\<forall>(r, c) \<in> set (ord p (an_children (ns ! p))). child ns p r = Some c" using cs by blast
    show "\<forall>i < length ns. \<forall>r j. child ns i r = Some j \<longrightarrow>
        (j \<in> R \<longleftrightarrow> i \<in> R \<or> i \<in> set q \<or> (i = p \<and> (r, j) \<in> set (ord p (an_children (ns ! p)))))"
      using inv unfolding cs bfs_inv_def by auto
  qed (use inv p in \<open>auto simp: bfs_inv_def\<close>)
qed

lemma bfs_inv_after:
  assumes inv: "visit_inv ns ps ws p [] q R"
  shows "bfs_inv ns ps ws q R"
proof -
  have "length (ps ! i) \<le> Suc (length (ps ! hd q))" if i: "i \<in> set q" for i
  proof -
    have "length (ps ! i) \<le> Suc (length (ps ! p))" using inv i by (simp add: visit_inv_def)
    moreover have "hd q \<in> set q" using i by (cases q) auto
    then have "length (ps ! p) \<le> length (ps ! hd q)" using inv by (simp add: visit_inv_def)
    ultimately show ?thesis by simp
  qed
  with inv show ?thesis by (simp add: bfs_inv_def visit_inv_def)
qed

lemma bfs_inv_done:
  assumes "bfs_inv ns ps ws [] R"
  shows "R = {}"
proof -
  have "i \<notin> R" for i
  proof (induction "length (ps ! i)" arbitrary: i rule: less_induct)
    case less
    show ?case
    proof
      assume i: "i \<in> R"
      have t: "trie ns ps" and i': "i < length ns" "i \<noteq> 0" using assms i by (auto simp: bfs_inv_def)
      then have "ps ! i \<noteq> []" using trie_path_Nil [OF t i'(1)] by simp
      from trie_parent [OF t i'(1) this] obtain k r where k: "k < length ns" "child ns k r = Some i" by blast
      with assms i have "k \<in> R" by (auto simp: bfs_inv_def)
      moreover have "length (ps ! k) < length (ps ! i)" using trie_child [OF t k] by simp
      ultimately show False using less by blast
    qed
  qed
  then show ?thesis by blast
qed

text \<open>The loop ends: each turn takes a node off the queue and every node enters it once.\<close>

lemma bfs_spec:
  assumes "bfs_inv ns ps ws q R" and ord: "any_order ord"
  shows "\<exists>ns'. bfs ord ns q = Some ns' \<and> trie ns' ps \<and> (\<forall>i < length ns'. linked ns' ps ws i)"
  using assms(1)
proof (induction "card R + length q" arbitrary: ns q R rule: less_induct)
  case less
  show ?case
  proof (cases q)
    case Nil
    with less.prems have "R = {}" by (simp add: bfs_inv_done)
    moreover have "bfs ord ns q = Some ns" by (subst bfs.simps) (simp add: Nil)
    ultimately show ?thesis using less.prems by (simp add: bfs_inv_def)
  next
    case (Cons p q')
    from visit_spec [OF bfs_inv_pop [OF less.prems [unfolded Cons] ord]] obtain ns1 q1 R1 where
      v: "visit ns p (ord p (an_children (ns ! p))) q' = Some (ns1, q1)"
        "visit_inv ns1 ps ws p [] q1 R1" "card R1 + length q1 = card R + length q'" by blast
    have "bfs ord ns q = bfs ord ns1 q1" by (subst bfs.simps) (simp add: Cons v(1))
    moreover have "card R1 + length q1 < card R + length q" using v(3) by (simp add: Cons)
    ultimately show ?thesis using less.hyps [OF _ bfs_inv_after [OF v(2)]] by simp
  qed
qed

lemma init_queue_spec:
  "fst (init_queue ns cs q) ! k =
     (if k \<in> snd ` set cs \<and> k < length ns then (ns ! k)\<lparr>an_fail := Some 0\<rparr> else ns ! k) \<and>
   length (fst (init_queue ns cs q)) = length ns \<and>
   snd (init_queue ns cs q) = q @ map snd cs"
  by (induction ns cs q rule: init_queue.induct) (auto simp: nth_upd)

lemma init_bfs_inv:
  assumes raw: "raw_arena ns ps ws" and ord: "any_order ord"
    and q: "init_queue ns (ord 0 (an_children (ns ! 0))) [] = (ns', q)"
  shows "bfs_inv ns' ps ws q {i. i < length ns \<and> 2 \<le> length (ps ! i)}"
proof -
  let ?cs = "ord 0 (an_children (ns ! 0))"
  let ?R = "{i. i < length ns \<and> 2 \<le> length (ps ! i)}"
  have t: "trie ns ps" using raw by (simp add: raw_arena_def)
  note n0 = trie_nonempty [OF t]
  note cs = children_set [OF t n0 ord, of _ _ 0]
  have spec: "ns' ! k = (if k \<in> snd ` set ?cs \<and> k < length ns then (ns ! k)\<lparr>an_fail := Some 0\<rparr> else ns ! k)"
    "length ns' = length ns" "q = map snd ?cs" for k
    using init_queue_spec [of ns ?cs "[]" k] by (simp_all add: q)
  have depth1: "k \<in> set q \<longleftrightarrow> k < length ns \<and> length (ps ! k) = 1" for k
  proof
    assume "k \<in> set q"
    then obtain r where "child ns 0 r = Some k" by (auto simp: spec(3) cs)
    from trie_child [OF t n0 this] show "k < length ns \<and> length (ps ! k) = 1"
      by (simp add: trie_root [OF t])
  next
    assume k: "k < length ns \<and> length (ps ! k) = 1"
    then obtain r where "ps ! k = [r]" by (auto simp: length_Suc_conv)
    with k have "child ns 0 r = Some k" by (simp add: trie_child_iff [OF t n0] trie_root [OF t])
    then have "(r, k) \<in> set ?cs" by (simp add: cs)
    then show "k \<in> set q" by (force simp: spec(3))
  qed
  have child': "child ns' = child ns" by (auto simp: child_def fun_eq_iff spec(1))
  have t': "trie ns' ps" using t trie_cong [of ns' ns ps] spec by simp
  have out: "output_of ns' i = word_at ws (ps ! i)" if "i < length ns" for i
    using raw that by (simp add: raw_arena_def spec(1))
  have lk: "linked ns' ps ws i" if i: "i < length ns" "i \<notin> ?R" for i
  proof (cases "i = 0")
    case True
    have "0 \<notin> set q" using depth1 [of 0] trie_root [OF t] by simp
    then have "ns' ! 0 = ns ! 0" using spec(1) [of 0] spec(3) by auto
    with True raw n0 show ?thesis by (simp add: linked_def raw_arena_def trie_root [OF t])
  next
    case False
    then have "ps ! i \<noteq> []" using trie_path_Nil [OF t i(1)] by simp
    then have "0 < length (ps ! i)" by simp
    moreover have "\<not> 2 \<le> length (ps ! i)" using i by simp
    ultimately have l1: "length (ps ! i) = 1" by linarith
    then obtain r where r: "ps ! i = [r]" by (auto simp: length_Suc_conv)
    have "i \<in> snd ` set ?cs" using depth1 [of i] l1 i by (simp add: spec(3))
    then have "fail_of ns' i = Some 0" using i by (simp add: spec(1))
    moreover have "output_of ns' i = best ws (ps ! i)" using out [OF i(1)] by (simp add: r)
    ultimately show ?thesis using False n0 by (simp add: linked_def spec(2) r trie_root [OF t])
  qed
  have "distinct q"
  proof -
    have "distinct (map fst ?cs)" by (rule any_order_keys [OF ord trie_keys [OF t n0]])
    moreover have "inj_on snd (set ?cs)"
    proof (rule inj_onI)
      fix x y assume "x \<in> set ?cs" "y \<in> set ?cs" "snd x = snd y"
      moreover obtain a b c d where "x = (a, b)" "y = (c, d)" by fastforce
      ultimately show "x = y"
        using trie_child [OF t n0, of a b] trie_child [OF t n0, of c d] by (auto simp: cs)
    qed
    ultimately show ?thesis by (auto simp: spec(3) distinct_map)
  qed
  moreover have "sorted (map (\<lambda>i. length (ps ! i)) q)"
  proof -
    have "map (\<lambda>i. length (ps ! i)) q = replicate (length q) 1"
      using depth1 by (intro replicate_eqI) auto
    then show ?thesis by (metis sorted_replicate)
  qed
  moreover have "j \<in> ?R \<longleftrightarrow> i \<in> ?R \<or> i \<in> set q" if "i < length ns" "child ns i r = Some j" for i r j
    using trie_child [OF t that] that(1) depth1 [of i] by auto
  moreover have "length (ps ! hd q) = 1" if "q \<noteq> []"
    using depth1 [of "hd q"] that by simp
  moreover have "i \<noteq> 0" if "2 \<le> length (ps ! i) \<or> length (ps ! i) = 1" for i
    using that trie_root [OF t] by (metis list.size(3) not_numeral_le_zero zero_neq_one)
  ultimately show ?thesis
    unfolding bfs_inv_def child' spec(2)
    using t' raw lk out depth1 by (auto simp: raw_arena_def)
qed

text \<open>The finished automaton: every node linked, its paths closed, every word spelled by a node.\<close>

definition automaton :: "arena \<Rightarrow> rune list list \<Rightarrow> string list \<Rightarrow> bool" where
  "automaton ns ps ws \<longleftrightarrow> trie ns ps \<and> (\<forall>i < length ns. linked ns ps ws i) \<and>
     (\<forall>x \<in> set ws. x \<noteq> '''' \<longrightarrow> runes x \<in> set ps)"

lemma buildACA_automaton:
  assumes "any_order ord"
  shows "\<exists>ns ps. buildACA ord ws = Some ns \<and> automaton ns ps ws"
proof -
  from insert_words_raw [OF raw_arena_new, of ws] obtain ps where
    raw: "raw_arena (insert_words [new_node] ws) ps ws" by auto
  obtain ns q where q: "init_queue (insert_words [new_node] ws)
      (ord 0 (an_children (insert_words [new_node] ws ! 0))) [] = (ns, q)" by fastforce
  from bfs_spec [OF init_bfs_inv [OF raw assms q] assms] obtain ns' where
    "bfs ord ns q = Some ns'" "trie ns' ps" "\<forall>i < length ns'. linked ns' ps ws i" by blast
  moreover have "\<forall>x \<in> set ws. x \<noteq> '''' \<longrightarrow> runes x \<in> set ps" using raw by (simp add: raw_arena_def)
  ultimately show ?thesis using q by (auto simp: buildACA_def automaton_def Let_def)
qed

section \<open>Matching\<close>

lemma fall_back_spec:
  assumes a: "automaton ns ps ws" and "i < length ns"
  shows "\<exists>j. fall_back ns r i = Some j \<and> j < length ns \<and>
    (case child ns j r of
       Some c \<Rightarrow> c < length ns \<and> ps ! c = lsuf (set ps) (ps ! i @ [r])
     | None \<Rightarrow> j = 0 \<and> lsuf (set ps) (ps ! i @ [r]) = [])"
  using assms(2)
proof (induction "length (ps ! i)" arbitrary: i rule: less_induct)
  case less
  have t: "trie ns ps" and lk: "linked ns ps ws i" using a less.prems by (auto simp: automaton_def)
  show ?case
  proof (cases "child ns i r")
    case (Some c)
    from trie_child [OF t less.prems this] have c: "c < length ns" "ps ! c = ps ! i @ [r]" by auto
    then have "ps ! i @ [r] \<in> set ps" using trie_set [OF t] by blast
    moreover have "fall_back ns r i = Some i" by (subst fall_back.simps) (simp add: Some)
    ultimately show ?thesis using Some c less.prems by auto
  next
    case None
    then have nin: "ps ! i @ [r] \<notin> set ps" using trie_child_None [OF t less.prems] by simp
    show ?thesis
    proof (cases "i = 0")
      case True
      then have "fall_back ns r i = Some 0" by (subst fall_back.simps) simp
      with True None nin less.prems show ?thesis by (auto simp: trie_root [OF t])
    next
      case False
      from linked_fail [OF lk False] obtain j where j: "j < length ns" "fail_of ns i = Some j"
        "ps ! j = lsuf (set ps) (tl (ps ! i))" by blast
      have ne: "ps ! i \<noteq> []" using trie_path_Nil [OF t less.prems] False by simp
      then have short: "length (ps ! j) < length (ps ! i)" using tl_shorter j(3) by metis
      have "lsuf (set ps) (ps ! i @ [r]) = lsuf (set ps) (ps ! j @ [r])"
        using lsuf_snoc_fail [OF trie_prefix_closed [OF t] nin ne] j(3) by simp
      moreover have "fall_back ns r i = fall_back ns r j"
        by (subst fall_back.simps) (simp add: None False j(2))
      ultimately show ?thesis using less.hyps [OF short j(1)] by (simp only:)
    qed
  qed
qed

text \<open>After the runes \<open>seen\<close> the automaton is in the node of their longest suffix in the trie.\<close>

lemma match_runes_naive:
  assumes "automaton ns ps ws"
  shows "i < length ns \<Longrightarrow> ps ! i = lsuf (set ps) seen \<Longrightarrow>
    match_runes ns i rs = Some (naive_from ws seen rs)"
proof (induction rs arbitrary: i seen)
  case (Cons r rs)
  have t: "trie ns ps" using assms by (simp add: automaton_def)
  from fall_back_spec [OF assms Cons.prems(1), of r] obtain j where
    j: "fall_back ns r i = Some j" "j < length ns" and cj: "case child ns j r of
       Some c \<Rightarrow> c < length ns \<and> ps ! c = lsuf (set ps) (ps ! i @ [r])
     | None \<Rightarrow> j = 0 \<and> lsuf (set ps) (ps ! i @ [r]) = []" by blast
  define k where "k = (case child ns j r of None \<Rightarrow> j | Some c \<Rightarrow> c)"
  have k: "k < length ns" "ps ! k = lsuf (set ps) (ps ! i @ [r])"
    using cj j(2) trie_root [OF t] by (auto simp: k_def split: option.splits)
  then have k': "ps ! k = lsuf (set ps) (seen @ [r])"
    using lsuf_snoc [OF trie_prefix_closed [OF t]] Cons.prems(2) by metis
  have "output_of ns k = best ws (ps ! k)" using assms k(1) by (simp add: automaton_def linked_def)
  also have "\<dots> = best ws (seen @ [r])"
    unfolding k' using assms by (intro best_lsuf) (simp add: automaton_def)
  finally have out: "output_of ns k = best ws (seen @ [r])" .
  have step: "match_runes ns i (r # rs) =
      (if output_of ns k \<noteq> '''' then Some (output_of ns k) else match_runes ns k rs)"
    by (simp add: j(1) k_def Let_def)
  show ?case unfolding step out using Cons.IH [OF k(1) k'] by simp
qed simp

lemma Match_naive:
  assumes "any_order ord"
  shows "\<exists>ns. buildACA ord ws = Some ns \<and> (\<forall>content. Match ns content = Some (naive ws content))"
proof -
  from buildACA_automaton [OF assms] obtain ns ps where a: "buildACA ord ws = Some ns" "automaton ns ps ws"
    by blast
  have t: "trie ns ps" using a(2) by (simp add: automaton_def)
  have "Match ns content = Some (naive ws content)" for content
    unfolding Match_def naive_def
    by (rule match_runes_naive [OF a(2) trie_nonempty [OF t]]) (simp add: trie_root [OF t])
  with a(1) show ?thesis by blast
qed

section \<open>Properties\<close>

text \<open>
  Property C23 (the automaton is the naive scan). Whatever order the runtime ranges over the
  child maps in, the construction ends without a nil dereference, and so does every match; the
  match returns what trying every word at every position returns: the longest word that ends
  at the first position where any word ends.
\<close>

theorem automaton_is_naive_scan:
  assumes "any_order ord"
  shows "\<exists>ns. buildACA ord words = Some ns \<and> (\<forall>content. Match ns content = Some (naive words content))"
  by (rule Match_naive [OF assms])

theorem automaton_is_naive_scan_witness:
  "\<exists>ns. buildACA (\<lambda>i cs. rev cs) [''he'', ''she'', ''hers''] = Some ns \<and> Match ns ''ushers'' = Some ''she''"
proof -
  have "any_order (\<lambda>i cs. rev cs)" by (simp add: any_order_def)
  moreover have "naive [''he'', ''she'', ''hers''] ''ushers'' = ''she''" by code_simp
  ultimately show ?thesis
    using automaton_is_naive_scan [of "\<lambda>i cs. rev cs" "[''he'', ''she'', ''hers'']"] by metis
qed

text \<open>
  Corollary (detection is exact). A match is reported exactly when some non-empty blocklist
  word occurs in the content as a run of consecutive runes, and the word that is reported is
  on the list and occurs in the content.
\<close>

theorem match_detects_words:
  assumes "any_order ord" and "buildACA ord words = Some ns" and "Match ns content = Some found"
  shows "(found \<noteq> '''' \<longleftrightarrow> (\<exists>w \<in> set words. w \<noteq> '''' \<and> sublist (runes w) (runes content))) \<and>
    (found \<noteq> '''' \<longrightarrow> found \<in> set words \<and> sublist (runes found) (runes content))"
proof -
  have f: "found = naive words content"
    using Match_naive [OF assms(1), of words] assms(2,3) by auto
  show ?thesis
    using naive_iff [of words content] naive_from_in [of words "[]" "runes content"]
    by (auto simp: f naive_def)
qed

theorem match_detects_words_witness:
  "\<exists>ns found. buildACA (\<lambda>i cs. cs) [''bad''] = Some ns \<and> Match ns ''so bad'' = Some found \<and> found \<noteq> ''''"
proof -
  have o: "any_order (\<lambda>i cs. cs)" by (simp add: any_order_def)
  from Match_naive [OF o, of "[''bad'']"] obtain ns found where
    b: "buildACA (\<lambda>i cs. cs) [''bad''] = Some ns" "Match ns ''so bad'' = Some found" by blast
  have "sublist (runes ''bad'') (runes ''so bad'')" by code_simp
  with match_detects_words [OF o b] b show ?thesis by auto
qed


section \<open>The loops end\<close>

text \<open>
  The two loops of \<open>Match\<close> as one: a turn either follows a \<open>fail\<close> pointer, of which \<open>n\<close> may be
  followed in all, or consumes a rune. \<open>None\<close> is a nil dereference or more than \<open>n\<close> such turns.
\<close>

function match_within :: "nat \<Rightarrow> arena \<Rightarrow> nat \<Rightarrow> rune list \<Rightarrow> string option" where
  "match_within n ns i [] = Some ''''"
| "match_within n ns i (r # rs) =
     (if i \<noteq> 0 \<and> child ns i r = None
      then (case n of 0 \<Rightarrow> None | Suc m \<Rightarrow> (case fail_of ns i of None \<Rightarrow> None | Some j \<Rightarrow> match_within m ns j (r # rs)))
      else (let k = (case child ns i r of None \<Rightarrow> i | Some c \<Rightarrow> c) in
            if output_of ns k \<noteq> '''' then Some (output_of ns k) else match_within n ns k rs))"
  by pat_completeness auto
termination by (relation "measure (\<lambda>(n, ns, i, rs). n + length rs)") auto

text \<open>Following a \<open>fail\<close> pointer shortens the path of the node, consuming a rune lengthens it by one at most.\<close>

lemma match_within_enough:
  assumes "automaton ns ps ws" and "i < length ns" and "length (ps ! i) + length rs \<le> n"
  shows "match_within n ns i rs = match_runes ns i rs"
  using assms
proof (induction n ns i rs rule: match_within.induct)
  case (2 n ns i r rs)
  have t: "trie ns ps" and lk: "linked ns ps ws i" using 2(3,4) by (auto simp: automaton_def)
  show ?case
  proof (cases "i \<noteq> 0 \<and> child ns i r = None")
    case True
    then have ne: "ps ! i \<noteq> []" using trie_path_Nil [OF t 2(4)] by simp
    from linked_fail [OF lk] True obtain j where j: "j < length ns" "fail_of ns i = Some j"
      "ps ! j = lsuf (set ps) (tl (ps ! i))" by blast
    have short: "length (ps ! j) < length (ps ! i)" using tl_shorter [OF ne] j(3) by metis
    with 2(5) obtain m where m: "n = Suc m" by (cases n) auto
    have "match_within m ns j (r # rs) = match_runes ns j (r # rs)"
      by (rule 2(1) [OF True m j(2) 2(3) j(1)]) (use short 2(5) m in simp)
    moreover have "fall_back ns r i = fall_back ns r j" using True j(2) by (subst fall_back.simps) simp
    ultimately show ?thesis using True m j(2) by simp
  next
    case False
    define k where "k = (case child ns i r of None \<Rightarrow> i | Some c \<Rightarrow> c)"
    have k: "k < length ns \<and> length (ps ! k) \<le> Suc (length (ps ! i))"
      using trie_child [OF t 2(4), of r] 2(4) by (auto simp: k_def split: option.split)
    have f: "fall_back ns r i = Some i" using False by (subst fall_back.simps) auto
    have "match_within n ns k rs = match_runes ns k rs" if "output_of ns k = ''''"
      using 2(2) [OF False k_def] that 2(3,5) k by simp
    then show ?thesis using False f by (auto simp: k_def [symmetric] Let_def)
  qed
qed simp

text \<open>
  Property C24 (linear matching). For the automaton of any list of words, matching any content follows at
  most one \<open>fail\<close> pointer for each of its runes in all: with that bound on the two loops the
  result is the one of \<open>Match\<close>, which always returns.
\<close>

theorem match_is_linear:
  assumes "any_order ord" and "buildACA ord words = Some ns"
  shows "match_within (length (runes content)) ns 0 (runes content) = Match ns content \<and> Match ns content \<noteq> None"
proof -
  from buildACA_automaton [OF assms(1), of words] assms(2) obtain ps where a: "automaton ns ps words" by auto
  then have t: "trie ns ps" by (simp add: automaton_def)
  show ?thesis
    using match_within_enough [OF a trie_nonempty [OF t], of "runes content" "length (runes content)"]
      Match_naive [OF assms(1), of words] assms(2)
    by (auto simp: trie_root [OF t] Match_def)
qed

theorem match_is_linear_witness:
  "\<exists>ns. buildACA (\<lambda>i cs. cs) [''aab''] = Some ns \<and> match_within 4 ns 0 (runes ''aaab'') = Match ns ''aaab''"
proof -
  have o: "any_order (\<lambda>i cs. cs)" by (simp add: any_order_def)
  obtain ns where b: "buildACA (\<lambda>i cs. cs) [''aab''] = Some ns" using Match_naive [OF o] by blast
  have "length (runes ''aaab'') = 4" by code_simp
  with match_is_linear [OF o b, of "''aaab''"] b show ?thesis by auto
qed

end
