(* ===== verification/ContentFilter.thy ===== *)
theory ContentFilter
  imports AhoCorasick
begin

text \<open>
  \<open>service/moderation.go\<close>: what the content check does around the automaton: the loading of the
  blocklist from the configuration and from a file, the normalisation of words and content, and
  \<open>CheckContent\<close>. NFKC normalisation, the Unicode case table and \<open>%q\<close> quoting are library
  tables, parameters here; the file is the list of lines that \<open>bufio.Scanner\<close> delivers, \<open>None\<close>
  when it cannot be opened.
\<close>

record text_tables =
  tx_nfkc :: "string \<Rightarrow> string"
  tx_lower :: "rune \<Rightarrow> rune"
  tx_quote :: "string \<Rightarrow> string"

definition zero_width :: "rune \<Rightarrow> bool" where
  "zero_width r \<longleftrightarrow> r = 8203 \<or> r = 8204 \<or> r = 8205 \<or> r = 65279 \<or> r = 8206 \<or> r = 8207"

definition normalizeContent :: "text_tables \<Rightarrow> string \<Rightarrow> string" where
  "normalizeContent tx s =
     (let s = tx_nfkc tx s;
          s = MapRunes (\<lambda>r. if zero_width r then None else Some r) s;
          s = ToLower (tx_lower tx) s
      in TrimSpace s)"

text \<open>One turn of either loop of \<open>loadBlocklist\<close>; the state is \<open>seen\<close> and \<open>words\<close>.\<close>

definition add_word :: "text_tables \<Rightarrow> string \<Rightarrow> string set \<times> string list \<Rightarrow> string set \<times> string list" where
  "add_word tx w st =
     (let normalized = normalizeContent tx w in
      if normalized \<noteq> '''' \<and> normalized \<notin> fst st
      then (insert normalized (fst st), snd st @ [normalized]) else st)"

fun load_words :: "text_tables \<Rightarrow> string list \<Rightarrow> string set \<times> string list \<Rightarrow> string set \<times> string list"
where
  "load_words tx [] st = st"
| "load_words tx (w # ws) st = load_words tx ws (add_word tx w st)"

definition skipped_line :: "string \<Rightarrow> bool" where
  "skipped_line line \<longleftrightarrow> line = '''' \<or> HasPrefix line ''#'' \<or> HasPrefix line ''//''"

fun load_lines :: "text_tables \<Rightarrow> string list \<Rightarrow> string set \<times> string list \<Rightarrow> string set \<times> string list"
where
  "load_lines tx [] st = st"
| "load_lines tx (l # ls) st =
     (let line = TrimSpace l in
      if skipped_line line then load_lines tx ls st
      else load_lines tx ls (add_word tx line st))"

definition loadBlocklist ::
  "text_tables \<Rightarrow> (string \<Rightarrow> string list option) \<Rightarrow> string list \<Rightarrow> string \<Rightarrow> string list" where
  "loadBlocklist tx open_file blocklist_words blocklist_path =
     (let st = load_words tx blocklist_words ({}, []) in
      if blocklist_path = '''' then snd st
      else case open_file blocklist_path of
        None \<Rightarrow> snd st
      | Some ls \<Rightarrow> snd (load_lines tx ls st))"

record content_check =
  cc_blocked :: bool
  cc_flagged :: bool
  cc_word :: string

definition CheckContent ::
  "text_tables \<Rightarrow> arena option \<Rightarrow> bool \<Rightarrow> string \<Rightarrow> content_check option" where
  "CheckContent tx aca auto_reject content =
     (case aca of
        None \<Rightarrow> Some \<lparr>cc_blocked = False, cc_flagged = False, cc_word = ''''\<rparr>
      | Some ns \<Rightarrow>
          if content = '''' then Some \<lparr>cc_blocked = False, cc_flagged = False, cc_word = ''''\<rparr>
          else (case Match ns (normalizeContent tx content) of
            None \<Rightarrow> None
          | Some matched \<Rightarrow>
              Some (if matched = '''' then \<lparr>cc_blocked = False, cc_flagged = False, cc_word = ''''\<rparr>
                    else if auto_reject then \<lparr>cc_blocked = True, cc_flagged = False, cc_word = matched\<rparr>
                    else \<lparr>cc_blocked = False, cc_flagged = True, cc_word = matched\<rparr>)))"

section \<open>The blocklist\<close>

definition word_state :: "string set \<times> string list \<Rightarrow> bool" where
  "word_state st \<longleftrightarrow> fst st = set (snd st) \<and> distinct (snd st) \<and> '''' \<notin> set (snd st)"

lemma add_word_state:
  "word_state st \<Longrightarrow> word_state (add_word tx w st) \<and>
   set (snd (add_word tx w st)) = set (snd st) \<union> ({normalizeContent tx w} - {''''})"
proof -
  assume st: "word_state st"
  obtain seen words where sw: "st = (seen, words)" by fastforce
  show ?thesis
  proof (cases "normalizeContent tx w \<noteq> '''' \<and> normalizeContent tx w \<notin> seen")
    case True
    then have "add_word tx w st = (insert (normalizeContent tx w) seen, words @ [normalizeContent tx w])"
      by (simp add: sw add_word_def Let_def)
    with st True show ?thesis by (fastforce simp: word_state_def sw)
  next
    case False
    then have "add_word tx w st = st" by (simp add: sw add_word_def Let_def)
    moreover have "normalizeContent tx w = '''' \<or> normalizeContent tx w \<in> set words"
      using st False by (auto simp: word_state_def sw)
    ultimately show ?thesis using st by (auto simp: sw)
  qed
qed

lemma load_words_state:
  "word_state st \<Longrightarrow> word_state (load_words tx ws st) \<and>
   set (snd (load_words tx ws st)) = set (snd st) \<union> (normalizeContent tx ` set ws - {''''})"
proof (induction ws arbitrary: st)
  case (Cons w ws)
  from Cons.IH [OF conjunct1 [OF add_word_state [OF Cons.prems]]] add_word_state [OF Cons.prems]
  show ?case by auto
qed simp

lemma load_lines_state:
  "word_state st \<Longrightarrow> word_state (load_lines tx ls st) \<and>
   set (snd (load_lines tx ls st)) =
     set (snd st) \<union> ((\<lambda>l. normalizeContent tx (TrimSpace l)) ` {l \<in> set ls. \<not> skipped_line (TrimSpace l)} - {''''})"
proof (induction ls arbitrary: st)
  case (Cons l ls)
  show ?case
  proof (cases "skipped_line (TrimSpace l)")
    case True
    with Cons show ?thesis by (auto simp: Let_def)
  next
    case False
    from Cons.IH [OF conjunct1 [OF add_word_state [OF Cons.prems]]] add_word_state [OF Cons.prems] False
    show ?thesis by (auto simp: Let_def)
  qed
qed simp

text \<open>The texts that a configuration blocks: its words, and the lines of its file.\<close>

definition configured ::
  "(string \<Rightarrow> string list option) \<Rightarrow> string list \<Rightarrow> string \<Rightarrow> string set" where
  "configured open_file ws path = set ws \<union>
     (if path = '''' then {}
      else case open_file path of None \<Rightarrow> {}
        | Some ls \<Rightarrow> TrimSpace ` {l \<in> set ls. \<not> skipped_line (TrimSpace l)})"

lemma loadBlocklist_set:
  "distinct (loadBlocklist tx open_file ws path) \<and>
   set (loadBlocklist tx open_file ws path) = normalizeContent tx ` configured open_file ws path - {''''}"
proof -
  have e: "word_state ({}, [])" by (simp add: word_state_def)
  note w = load_words_state [OF e, of tx ws]
  note l = load_lines_state [OF conjunct1 [OF w]]
  show ?thesis
  proof (cases "path = '''' \<or> open_file path = None")
    case True
    then have "loadBlocklist tx open_file ws path = snd (load_words tx ws ({}, []))"
      and "configured open_file ws path = set ws"
      by (auto simp: loadBlocklist_def Let_def configured_def)
    with w show ?thesis by (simp add: word_state_def)
  next
    case False
    then obtain ls where ls: "open_file path = Some ls" "path \<noteq> ''''" by auto
    then have "loadBlocklist tx open_file ws path = snd (load_lines tx ls (load_words tx ws ({}, [])))"
      and "configured open_file ws path = set ws \<union> TrimSpace ` {l \<in> set ls. \<not> skipped_line (TrimSpace l)}"
      by (auto simp: loadBlocklist_def Let_def configured_def)
    with l [of tx ls] w show ?thesis by (auto simp: word_state_def)
  qed
qed

lemma naive_loaded:
  "naive (loadBlocklist tx open_file ws path) n \<noteq> '''' \<longleftrightarrow>
     (\<exists>t \<in> configured open_file ws path. normalizeContent tx t \<noteq> '''' \<and>
        sublist (runes (normalizeContent tx t)) (runes n))"
  unfolding naive_iff using loadBlocklist_set [of tx open_file ws path] by auto

section \<open>Properties\<close>

text \<open>
  Property C25 (the content check, end to end). With the automaton built from the loaded
  blocklist, the check of non-empty content never panics and reports the content exactly when
  the normal form of some configured text is not empty and occurs in the normal form of the
  content as consecutive runes: as blocked when \<open>auto_reject\<close> is set, as flagged when it is
  not, never as both.
\<close>

theorem content_check_exact:
  assumes "any_order ord" and "content \<noteq> ''''"
  shows "\<exists>ns c. buildACA ord (loadBlocklist tx open_file ws path) = Some ns \<and>
    CheckContent tx (Some ns) auto_reject content = Some c \<and>
    (cc_blocked c \<or> cc_flagged c \<longleftrightarrow>
      (\<exists>t \<in> configured open_file ws path. normalizeContent tx t \<noteq> '''' \<and>
        sublist (runes (normalizeContent tx t)) (runes (normalizeContent tx content)))) \<and>
    (cc_blocked c \<longrightarrow> auto_reject) \<and> (cc_flagged c \<longrightarrow> \<not> auto_reject)"
proof -
  let ?ws = "loadBlocklist tx open_file ws path"
  let ?n = "normalizeContent tx content"
  from Match_naive [OF assms(1), of ?ws] obtain ns where
    b: "buildACA ord ?ws = Some ns" "Match ns ?n = Some (naive ?ws ?n)" by blast
  with assms(2) naive_loaded [of tx open_file ws path] show ?thesis by (auto simp: CheckContent_def)
qed

definition plain_tables :: text_tables where
  "plain_tables = \<lparr>tx_nfkc = id, tx_lower = id, tx_quote = id\<rparr>"

lemma normalizeContent_ascii:
  assumes "is_ascii s"
  shows "normalizeContent plain_tables s = TrimSpace (ToLower id s)"
proof -
  have "List.map_filter (\<lambda>r. if zero_width r then None else Some r) (map byte_of s) = map byte_of s"
    using assms by (induction s) (auto simp: is_ascii_def zero_width_def List.map_filter_def)
  moreover have "utf8 (map byte_of s) = s"
    using assms by (induction s) (auto simp: is_ascii_def encode_rune_def encode_valid_def
        valid_rune_def byte_def byte_of_def)
  ultimately have "MapRunes (\<lambda>r. if zero_width r then None else Some r) s = s"
    by (simp add: MapRunes_def runes_ascii [OF assms])
  then show ?thesis by (simp add: normalizeContent_def plain_tables_def Let_def)
qed

lemma sample_normal:
  "normalizeContent plain_tables ''BAD'' = ''bad''" "normalizeContent plain_tables ''so Bad!'' = ''so bad!''"
proof -
  have a: "is_ascii ''BAD''" "is_ascii ''so Bad!''" by code_simp+
  have l: "ToLower id ''BAD'' = ''bad''" "ToLower id ''so Bad!'' = ''so bad!''" by code_simp+
  have m: "TrimSpace ''bad'' = ''bad''" "TrimSpace ''so bad!'' = ''so bad!''"
    by (simp_all add: TrimSpace_def segments_ascii is_ascii_def trim_segs_def is_space_def byte_of_def)
  show "normalizeContent plain_tables ''BAD'' = ''bad''" "normalizeContent plain_tables ''so Bad!'' = ''so bad!''"
    by (simp_all only: normalizeContent_ascii a l m)
qed

lemma sample_hit:
  "\<exists>t \<in> configured (\<lambda>p. None) [''BAD''] ''''. normalizeContent plain_tables t \<noteq> '''' \<and>
     sublist (runes (normalizeContent plain_tables t)) (runes (normalizeContent plain_tables ''so Bad!''))"
proof (rule bexI)
  have "sublist (runes ''bad'') (runes ''so bad!'')" by code_simp
  then show "normalizeContent plain_tables ''BAD'' \<noteq> '''' \<and>
    sublist (runes (normalizeContent plain_tables ''BAD''))
      (runes (normalizeContent plain_tables ''so Bad!''))"
    unfolding sample_normal by blast
  show "''BAD'' \<in> configured (\<lambda>p. None) [''BAD''] ''''" by (simp add: configured_def)
qed

theorem content_check_exact_witness:
  "\<exists>ns c. buildACA (\<lambda>i cs. cs) (loadBlocklist plain_tables (\<lambda>p. None) [''BAD''] '''') = Some ns \<and>
    CheckContent plain_tables (Some ns) True ''so Bad!'' = Some c \<and> (cc_blocked c \<or> cc_flagged c)"
proof -
  have o: "any_order (\<lambda>i cs. cs)" by (simp add: any_order_def)
  have ne: "''so Bad!'' \<noteq> ''''" by simp
  from content_check_exact [OF o ne, where tx = plain_tables and open_file = "\<lambda>p. None"
      and ws = "[''BAD'']" and path = "''''" and auto_reject = True]
  obtain ns c where b: "buildACA (\<lambda>i cs. cs) (loadBlocklist plain_tables (\<lambda>p. None) [''BAD''] '''') = Some ns"
    and k: "CheckContent plain_tables (Some ns) True ''so Bad!'' = Some c"
    and r: "(cc_blocked c \<or> cc_flagged c) = (\<exists>t \<in> configured (\<lambda>p. None) [''BAD''] ''''.
      normalizeContent plain_tables t \<noteq> '''' \<and> sublist (runes (normalizeContent plain_tables t))
        (runes (normalizeContent plain_tables ''so Bad!'')))"
    by (elim exE conjE)
  from r sample_hit have "cc_blocked c \<or> cc_flagged c" by (rule iffD2)
  with b k show ?thesis by (intro exI conjI)
qed

end
