(* ===== verification/Moderation.thy ===== *)
theory Moderation
  imports ContentFilter DanmakuStore GovernanceStores UserStore
begin

text \<open>
  \<open>service/moderation.go\<close>: review of danmaku with broadcast and retraction, reports and their
  resolution, mutes, and the audit entries of each. A service is a record of the interface
  values and settings it was constructed with; the world is the state behind the interfaces and
  the messages handed to the hub, in order. \<open>json.Marshal\<close> is the parameter \<open>marshals\<close>: whether
  it encodes a message. Calls of \<open>uuid.New\<close> and \<open>time.Now\<close> within a handler draw from \<open>ids\<close> and
  \<open>clk\<close> in order.
\<close>

record ('u, 'd, 'p, 'a, 'm) mod_service =
  ms_danmaku :: "'d danmaku_ops"
  ms_reports :: "'p report_ops"
  ms_audit :: "'a audit_ops"
  ms_mutes :: "'m mute_ops"
  ms_users :: "'u user_ops"
  ms_hub :: bool
  ms_marshals :: "envelope \<Rightarrow> bool"
  ms_tables :: text_tables
  ms_automaton :: "arena option"
  ms_auto_reject :: bool
  ms_fail_closed :: bool

record ('u, 'd, 'p, 'a, 'm) mod_world =
  mw_users :: 'u
  mw_danmaku :: 'd
  mw_reports :: 'p
  mw_audit :: 'a
  mw_mutes :: 'm
  mw_sent :: "(string \<times> envelope) list"

section \<open>Checks\<close>

definition NewModerationService ::
  "(nat \<Rightarrow> (rune \<times> nat) list \<Rightarrow> (rune \<times> nat) list) \<Rightarrow> (string \<Rightarrow> string list option) \<Rightarrow>
   string list \<Rightarrow> string \<Rightarrow> ('u, 'd, 'p, 'a, 'm) mod_service \<Rightarrow> ('u, 'd, 'p, 'a, 'm) mod_service option"
where
  "NewModerationService ord open_file blocklist_words blocklist_path sv =
     (case buildACA ord (loadBlocklist (ms_tables sv) open_file blocklist_words blocklist_path) of
        None \<Rightarrow> None
      | Some ns \<Rightarrow> Some (sv\<lparr>ms_automaton := Some ns\<rparr>))"

definition CheckUserBan :: "('u, 'd, 'p, 'a, 'm) mod_service \<Rightarrow> string \<Rightarrow> ('u, 'd, 'p, 'a, 'm) mod_world
  \<Rightarrow> go_error + bool" where
  "CheckUserBan sv user_id w =
     (case uo_FindByID (ms_users sv) user_id (mw_users w) of
        Inl e \<Rightarrow> Inl (Errorf ''check ban: '' e '''')
      | Inr None \<Rightarrow> Inr False
      | Inr (Some u) \<Rightarrow> Inr (u_banned u))"

definition CheckMute :: "('u, 'd, 'p, 'a, 'm) mod_service \<Rightarrow> time \<Rightarrow> string \<Rightarrow> string
  \<Rightarrow> ('u, 'd, 'p, 'a, 'm) mod_world \<Rightarrow> go_error + bool" where
  "CheckMute sv now user_id room_id w =
     (case mo_FindActiveByUserAndRoom (ms_mutes sv) now user_id room_id (mw_mutes w) of
        Inl e \<Rightarrow> Inl (Errorf ''check mute: '' e '''')
      | Inr m \<Rightarrow> Inr (m \<noteq> None))"

definition writeAuditLog ::
  "('u, 'd, 'p, 'a, 'm) mod_service \<Rightarrow> string \<Rightarrow> string \<Rightarrow> string \<Rightarrow> string \<Rightarrow> string \<Rightarrow> string \<Rightarrow> string
   \<Rightarrow> ('u, 'd, 'p, 'a, 'm) mod_world \<Rightarrow> go_error option \<times> ('u, 'd, 'p, 'a, 'm) mod_world" where
  "writeAuditLog sv new_id action actor_id target_user target_danmaku target_room reason w =
     (let (e, a) = ao_Add (ms_audit sv) \<lparr>al_id = new_id, al_action = action,
            al_actor_user_id = actor_id, al_target_user_id = target_user,
            al_target_danmaku_id = target_danmaku, al_target_room_id = target_room,
            al_reason = reason, al_created_at = zero_time\<rparr> (mw_audit w)
      in (e, w\<lparr>mw_audit := a\<rparr>))"

section \<open>Review\<close>

record review_result =
  rv_action :: string
  rv_notified :: bool
  rv_danmaku_id :: string

definition valid_transition :: "string \<Rightarrow> string \<Rightarrow> bool" where
  "valid_transition current new \<longleftrightarrow>
     (if current = DanmakuStatusFlagged then new = DanmakuStatusApproved \<or> new = DanmakuStatusRejected
      else if current = DanmakuStatusApproved then new = DanmakuStatusRejected
      else if current = DanmakuStatusRejected then new = DanmakuStatusApproved
      else if current = DanmakuStatusPending then new = DanmakuStatusApproved \<or> new = DanmakuStatusRejected
      else False)"

definition broadcastDanmaku ::
  "('u, 'd, 'p, 'a, 'm) mod_service \<Rightarrow> danmaku \<Rightarrow> string \<Rightarrow> string \<Rightarrow> time
   \<Rightarrow> ('u, 'd, 'p, 'a, 'm) mod_world \<Rightarrow> ('u, 'd, 'p, 'a, 'm) mod_world" where
  "broadcastDanmaku sv dm reviewer_id reason reviewed_at w =
     (let m = MsgBroadcast (reviewed DanmakuStatusApproved reviewer_id reason reviewed_at dm) in
      if ms_marshals sv m then w\<lparr>mw_sent := mw_sent w @ [(d_room_id dm, m)]\<rparr> else w)"

definition sendRetract ::
  "('u, 'd, 'p, 'a, 'm) mod_service \<Rightarrow> string \<Rightarrow> string \<Rightarrow> string
   \<Rightarrow> ('u, 'd, 'p, 'a, 'm) mod_world \<Rightarrow> ('u, 'd, 'p, 'a, 'm) mod_world" where
  "sendRetract sv room_id message_id reason w =
     (let m = MsgRetract message_id reason in
      if ms_marshals sv m then w\<lparr>mw_sent := mw_sent w @ [(room_id, m)]\<rparr> else w)"

definition notify_review ::
  "('u, 'd, 'p, 'a, 'm) mod_service \<Rightarrow> danmaku \<Rightarrow> string \<Rightarrow> string \<Rightarrow> string \<Rightarrow> time
   \<Rightarrow> ('u, 'd, 'p, 'a, 'm) mod_world \<Rightarrow> bool \<times> ('u, 'd, 'p, 'a, 'm) mod_world" where
  "notify_review sv current reviewer_id new_status reason now w =
     (let hub = ms_hub sv \<and> d_room_id current \<noteq> '''';
          (n1, w) = (if new_status = DanmakuStatusApproved \<and> d_status current \<noteq> DanmakuStatusApproved \<and> hub
                     then (True, broadcastDanmaku sv current reviewer_id reason now w) else (False, w));
          (n2, w) = (if new_status = DanmakuStatusRejected \<and> d_status current = DanmakuStatusApproved \<and> hub
                     then (True, sendRetract sv (d_room_id current) (d_id current) reason w)
                     else (False, w))
      in (n1 \<or> n2, w))"

text \<open>The error of the audit write is dropped; the parameter \<open>room_id\<close> is not used.\<close>

definition ReviewDanmaku ::
  "('u, 'd, 'p, 'a, 'm) mod_service \<Rightarrow> string \<Rightarrow> time \<Rightarrow> string \<Rightarrow> string \<Rightarrow> string \<Rightarrow> string \<Rightarrow> string
   \<Rightarrow> ('u, 'd, 'p, 'a, 'm) mod_world \<Rightarrow> (go_error + review_result) \<times> ('u, 'd, 'p, 'a, 'm) mod_world"
where
  "ReviewDanmaku sv new_id now danmaku_id reviewer_id new_status reason room_id w =
     (case do_FindByID (ms_danmaku sv) danmaku_id (mw_danmaku w) of
        Inl e \<Rightarrow> (Inl (Errorf ''find danmaku: '' e ''''), w)
      | Inr None \<Rightarrow> (Inl ErrDanmakuNotFound, w)
      | Inr (Some current) \<Rightarrow>
          if d_status current = new_status
          then (Inr \<lparr>rv_action = new_status, rv_notified = False, rv_danmaku_id = danmaku_id\<rparr>, w)
          else if \<not> valid_transition (d_status current) new_status
          then (Inl (Errorf '''' ErrForbiddenTransition
                  ('': cannot transition from '' @ d_status current @ '' to '' @ new_status)), w)
          else
            (case do_UpdateStatus (ms_danmaku sv) danmaku_id new_status reviewer_id reason now (mw_danmaku w) of
               (Inl e, d) \<Rightarrow> (Inl (Errorf ''update status: '' e ''''), w\<lparr>mw_danmaku := d\<rparr>)
             | (Inr rows, d) \<Rightarrow>
                 if rows = 0 then (Inl ErrDanmakuNotFound, w\<lparr>mw_danmaku := d\<rparr>)
                 else
                   let (notified, w) = notify_review sv current reviewer_id new_status reason now
                         (w\<lparr>mw_danmaku := d\<rparr>);
                       audit_reason = (if reason = '''' then ''review: '' @ d_status current @ '' -> '' @ new_status
                         else reason);
                       (_, w) = writeAuditLog sv new_id AuditReviewDanmaku reviewer_id '''' danmaku_id
                         (d_room_id current) audit_reason w
                   in (Inr \<lparr>rv_action = new_status, rv_notified = notified, rv_danmaku_id = danmaku_id\<rparr>, w)))"

section \<open>Reports\<close>

definition ReportDanmaku ::
  "('u, 'd, 'p, 'a, 'm) mod_service \<Rightarrow> string \<Rightarrow> string \<Rightarrow> string \<Rightarrow> string \<Rightarrow> string
   \<Rightarrow> ('u, 'd, 'p, 'a, 'm) mod_world \<Rightarrow> go_error option \<times> ('u, 'd, 'p, 'a, 'm) mod_world" where
  "ReportDanmaku sv new_id danmaku_id room_id reporter_id reason w =
     (let reason = TrimSpace reason in
      if reason = '''' \<or> 500 < length (runes reason) then (Some (ErrNew ''reason must be 1-500 characters''), w)
      else case CheckUserBan sv reporter_id w of
        Inl e \<Rightarrow> (Some (Errorf ''check reporter ban: '' e ''''), w)
      | Inr banned \<Rightarrow>
          if banned then (Some ErrBannedUserReport, w)
          else (case do_FindByID (ms_danmaku sv) danmaku_id (mw_danmaku w) of
            Inl e \<Rightarrow> (Some (Errorf ''find danmaku: '' e ''''), w)
          | Inr None \<Rightarrow> (Some ErrDanmakuNotFound, w)
          | Inr (Some dm) \<Rightarrow>
              if d_room_id dm \<noteq> room_id then (Some ErrDanmakuRoomMismatch, w)
              else (case po_FindByDanmakuAndReporter (ms_reports sv) danmaku_id reporter_id (mw_reports w) of
                Inl e \<Rightarrow> (Some (Errorf ''check duplicate report: '' e ''''), w)
              | Inr (Some existing) \<Rightarrow> (Some ErrDuplicateReport, w)
              | Inr None \<Rightarrow>
                  (case po_Create (ms_reports sv) \<lparr>rp_id = new_id, rp_danmaku_id = danmaku_id,
                       rp_room_id = room_id, rp_reporter_user_id = reporter_id, rp_reason = reason,
                       rp_status = ReportStatusPending, rp_created_at = zero_time, rp_resolved_by = '''',
                       rp_resolved_at = None\<rparr> (mw_reports w) of
                     (Some e, p) \<Rightarrow> (Some (Errorf ''create report: '' e ''''), w\<lparr>mw_reports := p\<rparr>)
                   | (None, p) \<Rightarrow> (None, w\<lparr>mw_reports := p\<rparr>)))))"

definition GetPendingReports :: "('u, 'd, 'p, 'a, 'm) mod_service \<Rightarrow> string \<Rightarrow> int
  \<Rightarrow> ('u, 'd, 'p, 'a, 'm) mod_world \<Rightarrow> go_error + report list" where
  "GetPendingReports sv status limit w = po_ListByStatus (ms_reports sv) status limit (mw_reports w)"

definition ResolveReport ::
  "('u, 'd, 'p, 'a, 'm) mod_service \<Rightarrow> string \<Rightarrow> time \<Rightarrow> string \<Rightarrow> string \<Rightarrow> string \<Rightarrow> string
   \<Rightarrow> ('u, 'd, 'p, 'a, 'm) mod_world \<Rightarrow> go_error option \<times> ('u, 'd, 'p, 'a, 'm) mod_world" where
  "ResolveReport sv new_id now report_id resolver_id status reason w =
     (case po_FindByID (ms_reports sv) report_id (mw_reports w) of
        Inl e \<Rightarrow> (Some (Errorf ''find report: '' e ''''), w)
      | Inr None \<Rightarrow> (Some ErrReportNotFound, w)
      | Inr (Some report) \<Rightarrow>
          if rp_status report \<noteq> ReportStatusPending then (Some ErrReportClosed, w)
          else (case po_UpdateStatus (ms_reports sv) report_id status resolver_id now (mw_reports w) of
            (Some e, p) \<Rightarrow> (Some (Errorf ''resolve report: '' e ''''), w\<lparr>mw_reports := p\<rparr>)
          | (None, p) \<Rightarrow> writeAuditLog sv new_id AuditResolveReport resolver_id '''' ''''
              (rp_room_id report) reason (w\<lparr>mw_reports := p\<rparr>)))"

section \<open>Mutes and lists\<close>

definition MuteUser ::
  "('u, 'd, 'p, 'a, 'm) mod_service \<Rightarrow> string \<Rightarrow> string \<Rightarrow> time \<Rightarrow> string \<Rightarrow> string \<Rightarrow> string \<Rightarrow> duration
   \<Rightarrow> string \<Rightarrow> ('u, 'd, 'p, 'a, 'm) mod_world \<Rightarrow> go_error option \<times> ('u, 'd, 'p, 'a, 'm) mod_world" where
  "MuteUser sv new_id audit_id now user_id room_id created_by dur reason w =
     (case mo_Create (ms_mutes sv) \<lparr>m_id = new_id, m_user_id = user_id, m_room_id = room_id,
          m_created_by = created_by, m_created_at = zero_time, m_expires_at = now + dur,
          m_reason = reason\<rparr> (mw_mutes w) of
        (Some e, m) \<Rightarrow> (Some (Errorf ''create mute: '' e ''''), w\<lparr>mw_mutes := m\<rparr>)
      | (None, m) \<Rightarrow> writeAuditLog sv audit_id AuditMuteUser created_by user_id '''' room_id reason
          (w\<lparr>mw_mutes := m\<rparr>))"

definition UnmuteUser ::
  "('u, 'd, 'p, 'a, 'm) mod_service \<Rightarrow> string \<Rightarrow> string \<Rightarrow> string \<Rightarrow> string
   \<Rightarrow> ('u, 'd, 'p, 'a, 'm) mod_world \<Rightarrow> go_error option \<times> ('u, 'd, 'p, 'a, 'm) mod_world" where
  "UnmuteUser sv audit_id user_id room_id actor_id w =
     (case mo_DeleteByUserAndRoom (ms_mutes sv) user_id room_id (mw_mutes w) of
        (Some e, m) \<Rightarrow> (Some (Errorf ''delete mute: '' e ''''), w\<lparr>mw_mutes := m\<rparr>)
      | (None, m) \<Rightarrow> writeAuditLog sv audit_id AuditUnmuteUser actor_id user_id '''' room_id ''''
          (w\<lparr>mw_mutes := m\<rparr>))"

definition GetFlaggedDanmaku :: "('u, 'd, 'p, 'a, 'm) mod_service \<Rightarrow> string \<Rightarrow> int
  \<Rightarrow> ('u, 'd, 'p, 'a, 'm) mod_world \<Rightarrow> go_error + danmaku list" where
  "GetFlaggedDanmaku sv room_id limit w =
     do_ListByStatus (ms_danmaku sv) room_id DanmakuStatusFlagged limit (mw_danmaku w)"

definition GetAuditLogs :: "('u, 'd, 'p, 'a, 'm) mod_service \<Rightarrow> int \<Rightarrow> int
  \<Rightarrow> ('u, 'd, 'p, 'a, 'm) mod_world \<Rightarrow> (go_error + audit_log list) option" where
  "GetAuditLogs sv limit offset w = ao_List (ms_audit sv) limit offset (mw_audit w)"

section \<open>Resolution of a report with an action\<close>

record resolve_result =
  rr_report_id :: string
  rr_decision :: string
  rr_actions :: "string list"
  rr_danmaku_id :: string

text \<open>
  An action yields the error it failed with, if any, the list of what it did, and the world.
  The identifiers and instants it draws are counted from 0; \<open>now\<close> of the handler is \<open>clk 0\<close>.
\<close>

definition rejected_ok :: "(go_error + review_result) \<Rightarrow> go_error option" where
  "rejected_ok r = (case r of Inr v \<Rightarrow> None
     | Inl e \<Rightarrow> if errors_is e ErrDanmakuNotFound then None else Some e)"

definition act_reject ::
  "('u, 'd, 'p, 'a, 'm) mod_service \<Rightarrow> (nat \<Rightarrow> string) \<Rightarrow> (nat \<Rightarrow> time) \<Rightarrow> report \<Rightarrow> string \<Rightarrow> string
   \<Rightarrow> ('u, 'd, 'p, 'a, 'm) mod_world \<Rightarrow> go_error option \<times> string list \<times> ('u, 'd, 'p, 'a, 'm) mod_world"
where
  "act_reject sv ids clk report resolver_id reason w =
     (let (r, w) = ReviewDanmaku sv (ids 0) (clk 1) (rp_danmaku_id report) resolver_id
            DanmakuStatusRejected reason (rp_room_id report) w
      in case rejected_ok r of Some e \<Rightarrow> (Some e, [], w) | None \<Rightarrow> (None, [''rejected_danmaku''], w))"

definition mute_duration :: "int \<Rightarrow> duration" where
  "mute_duration mute_minutes =
     (let d = i64 (mute_minutes * Minute) in if d \<le> 0 then 30 * Minute else d)"

definition act_mute ::
  "('u, 'd, 'p, 'a, 'm) mod_service \<Rightarrow> (nat \<Rightarrow> string) \<Rightarrow> (nat \<Rightarrow> time) \<Rightarrow> report \<Rightarrow> string \<Rightarrow> string \<Rightarrow> int
   \<Rightarrow> ('u, 'd, 'p, 'a, 'm) mod_world \<Rightarrow> go_error option \<times> string list \<times> ('u, 'd, 'p, 'a, 'm) mod_world"
where
  "act_mute sv ids clk report resolver_id reason mute_minutes w =
     (let (r, w) = ReviewDanmaku sv (ids 0) (clk 1) (rp_danmaku_id report) resolver_id
            DanmakuStatusRejected reason (rp_room_id report) w
      in case rejected_ok r of
           Some e \<Rightarrow> (Some e, [], w)
         | None \<Rightarrow>
             (case do_FindByID (ms_danmaku sv) (rp_danmaku_id report) (mw_danmaku w) of
                Inl e \<Rightarrow> (Some (Errorf ''find danmaku for mute: '' e ''''), [''rejected_danmaku''], w)
              | Inr None \<Rightarrow> (None, [''rejected_danmaku''], w)
              | Inr (Some dm) \<Rightarrow>
                  (case MuteUser sv (ids 1) (ids 2) (clk 2) (d_user_id dm) (rp_room_id report) resolver_id
                       (mute_duration mute_minutes) reason w of
                     (Some e, w) \<Rightarrow> (Some e, [''rejected_danmaku''], w)
                   | (None, w) \<Rightarrow> (None, [''rejected_danmaku'', ''muted_user''], w))))"

definition act_ban ::
  "('u, 'd, 'p, 'a, 'm) mod_service \<Rightarrow> (nat \<Rightarrow> string) \<Rightarrow> (nat \<Rightarrow> time) \<Rightarrow> report \<Rightarrow> string \<Rightarrow> string
   \<Rightarrow> ('u, 'd, 'p, 'a, 'm) mod_world \<Rightarrow> go_error option \<times> string list \<times> ('u, 'd, 'p, 'a, 'm) mod_world"
where
  "act_ban sv ids clk report resolver_id reason w =
     (case do_FindByID (ms_danmaku sv) (rp_danmaku_id report) (mw_danmaku w) of
        Inl e \<Rightarrow> (Some (Errorf ''find danmaku for ban: '' e ''''), [], w)
      | Inr None \<Rightarrow> (None, [], w)
      | Inr (Some dm) \<Rightarrow>
          if resolver_id = d_user_id dm then (Some ErrCannotBanSelf, [], w)
          else (case uo_FindByID (ms_users sv) (d_user_id dm) (mw_users w) of
            Inl e \<Rightarrow> (Some (Errorf ''find target user: '' e ''''), [], w)
          | Inr None \<Rightarrow> (Some ErrTargetUserNotFound, [], w)
          | Inr (Some target) \<Rightarrow>
              if u_role target = RoleAdmin then (Some ErrCannotBanAdmin, [], w)
              else (case uo_BanUser (ms_users sv) (clk 1) (d_user_id dm) reason resolver_id (mw_users w) of
                (Some e, u) \<Rightarrow> (Some e, [], w\<lparr>mw_users := u\<rparr>)
              | (None, u) \<Rightarrow>
                  (None, [''banned_user''], snd (writeAuditLog sv (ids 0) AuditBanUser resolver_id
                     (d_user_id dm) '''' '''' reason (w\<lparr>mw_users := u\<rparr>))))))"

definition ResolveReportWithAction ::
  "('u, 'd, 'p, 'a, 'm) mod_service \<Rightarrow> (nat \<Rightarrow> string) \<Rightarrow> (nat \<Rightarrow> time) \<Rightarrow> string \<Rightarrow> string \<Rightarrow> string \<Rightarrow> string
   \<Rightarrow> string \<Rightarrow> string \<Rightarrow> int \<Rightarrow> ('u, 'd, 'p, 'a, 'm) mod_world
   \<Rightarrow> (go_error + resolve_result) \<times> ('u, 'd, 'p, 'a, 'm) mod_world" where
  "ResolveReportWithAction sv ids clk report_id resolver_id resolver_role decision action reason
     mute_minutes w =
     (case po_FindByID (ms_reports sv) report_id (mw_reports w) of
        Inl e \<Rightarrow> (Inl (Errorf ''find report: '' e ''''), w)
      | Inr None \<Rightarrow> (Inl ErrReportNotFound, w)
      | Inr (Some report) \<Rightarrow>
          if rp_status report \<noteq> ReportStatusPending then (Inl ErrReportClosed, w)
          else
            let result = (\<lambda>acts. \<lparr>rr_report_id = report_id, rr_decision = decision, rr_actions = acts,
                  rr_danmaku_id = rp_danmaku_id report\<rparr>);
                now = clk 0
            in if decision = ''dismissed'' then
                 (case po_UpdateStatus (ms_reports sv) report_id ReportStatusDismissed resolver_id now (mw_reports w) of
                    (Some e, p) \<Rightarrow> (Inl (Errorf ''dismiss report: '' e ''''), w\<lparr>mw_reports := p\<rparr>)
                  | (None, p) \<Rightarrow> (Inr (result [''dismissed'']),
                      snd (writeAuditLog sv (ids 0) AuditResolveReport resolver_id '''' '''' (rp_room_id report)
                        reason (w\<lparr>mw_reports := p\<rparr>))))
               else if action = ''ban'' \<and> resolver_role \<noteq> RoleAdmin then (Inl ErrInsufficientRole, w)
               else if action \<noteq> ''reject'' \<and> action \<noteq> ''mute'' \<and> action \<noteq> ''ban''
               then (Inl (ErrNew (''unknown action: '' @ tx_quote (ms_tables sv) action)), w)
               else
                 (case (if action = ''reject'' then act_reject sv ids clk report resolver_id reason w
                        else if action = ''mute'' then act_mute sv ids clk report resolver_id reason mute_minutes w
                        else act_ban sv ids clk report resolver_id reason w) of
                    (Some e, acts, w) \<Rightarrow> (Inl e, w)
                  | (None, acts, w) \<Rightarrow>
                      (case po_UpdateStatus (ms_reports sv) report_id ReportStatusResolved resolver_id now (mw_reports w) of
                         (Some e, p) \<Rightarrow> (Inl (Errorf ''update report status: '' e ''''), w\<lparr>mw_reports := p\<rparr>)
                       | (None, p) \<Rightarrow> (Inr (result (acts @ [''report_'' @ ReportStatusResolved])),
                           snd (writeAuditLog sv (ids 3) AuditResolveReport resolver_id '''' '''' (rp_room_id report)
                             (''decision='' @ decision @ '' action='' @ action @ '' reason='' @ reason)
                             (w\<lparr>mw_reports := p\<rparr>))))))"

section \<open>Effects, over any stores that keep their contracts\<close>

text \<open>What a review sends to the room, if anything.\<close>

definition review_notice ::
  "('u, 'd, 'p, 'a, 'm) mod_service \<Rightarrow> danmaku \<Rightarrow> string \<Rightarrow> string \<Rightarrow> string \<Rightarrow> time \<Rightarrow> envelope option" where
  "review_notice sv d reviewer_id new_status reason now =
     (if \<not> ms_hub sv \<or> d_room_id d = '''' then None
      else if new_status = DanmakuStatusApproved \<and> d_status d \<noteq> DanmakuStatusApproved
      then Some (MsgBroadcast (reviewed DanmakuStatusApproved reviewer_id reason now d))
      else if new_status = DanmakuStatusRejected \<and> d_status d = DanmakuStatusApproved
      then Some (MsgRetract (d_id d) reason)
      else None)"

definition sent_notice :: "('u, 'd, 'p, 'a, 'm) mod_service \<Rightarrow> string \<Rightarrow> envelope option \<Rightarrow> (string \<times> envelope) list"
where
  "sent_notice sv room m = (case m of None \<Rightarrow> [] | Some m \<Rightarrow> if ms_marshals sv m then [(room, m)] else [])"

lemma notify_review_eq:
  "notify_review sv d reviewer st reason now w =
     (review_notice sv d reviewer st reason now \<noteq> None,
      w\<lparr>mw_sent := mw_sent w @ sent_notice sv (d_room_id d) (review_notice sv d reviewer st reason now)\<rparr>)"
  by (auto simp: notify_review_def review_notice_def sent_notice_def broadcastDanmaku_def
      sendRetract_def Let_def)

definition audit_of :: "string \<Rightarrow> string \<Rightarrow> string \<Rightarrow> string \<Rightarrow> string \<Rightarrow> string \<Rightarrow> string \<Rightarrow> audit_log" where
  "audit_of new_id action actor_id target_user target_danmaku target_room reason =
     \<lparr>al_id = new_id, al_action = action, al_actor_user_id = actor_id,
      al_target_user_id = target_user, al_target_danmaku_id = target_danmaku,
      al_target_room_id = target_room, al_reason = reason, al_created_at = zero_time\<rparr>"

lemma writeAuditLog_eq:
  "writeAuditLog sv i ac actor u d r reason w =
     (fst (ao_Add (ms_audit sv) (audit_of i ac actor u d r reason) (mw_audit w)),
      w\<lparr>mw_audit := snd (ao_Add (ms_audit sv) (audit_of i ac actor u d r reason) (mw_audit w))\<rparr>)"
  by (simp add: writeAuditLog_def audit_of_def split: prod.split)

lemma writeAuditLog_frame [frame_simps]:
  "mw_users (snd (writeAuditLog sv i ac actor u d r reason w)) = mw_users w"
  "mw_danmaku (snd (writeAuditLog sv i ac actor u d r reason w)) = mw_danmaku w"
  "mw_reports (snd (writeAuditLog sv i ac actor u d r reason w)) = mw_reports w"
  "mw_mutes (snd (writeAuditLog sv i ac actor u d r reason w)) = mw_mutes w"
  "mw_sent (snd (writeAuditLog sv i ac actor u d r reason w)) = mw_sent w"
  by (simp_all add: writeAuditLog_eq)

text \<open>A review that reaches the update, as one equation.\<close>

lemma ReviewDanmaku_update:
  assumes "do_FindByID (ms_danmaku sv) i (mw_danmaku w) = Inr (Some d)" and "d_status d \<noteq> st"
    and "valid_transition (d_status d) st"
    and "do_UpdateStatus (ms_danmaku sv) i st reviewer reason now (mw_danmaku w) = (Inr n, s)" and "n \<noteq> 0"
  shows "ReviewDanmaku sv new_id now i reviewer st reason room w =
    (Inr \<lparr>rv_action = st, rv_notified = review_notice sv d reviewer st reason now \<noteq> None, rv_danmaku_id = i\<rparr>,
     snd (writeAuditLog sv new_id AuditReviewDanmaku reviewer '''' i (d_room_id d)
       (if reason = '''' then ''review: '' @ d_status d @ '' -> '' @ st else reason)
       (w\<lparr>mw_danmaku := s, mw_sent := mw_sent w @
           sent_notice sv (d_room_id d) (review_notice sv d reviewer st reason now)\<rparr>)))"
  using assms by (simp add: ReviewDanmaku_def notify_review_eq Let_def split: prod.split)

text \<open>A review changes nothing, or only lets the store fail, or updates and notifies.\<close>

lemma ReviewDanmaku_cases:
  assumes "ReviewDanmaku sv new_id now i reviewer st reason room w = (res, w')"
  obtains "w' = w"
  | s e where "w' = w\<lparr>mw_danmaku := s\<rparr>"
      "do_UpdateStatus (ms_danmaku sv) i st reviewer reason now (mw_danmaku w) = (e, s)"
      "case e of Inl _ \<Rightarrow> True | Inr n \<Rightarrow> n = 0" "\<exists>err. res = Inl err"
  | d n s where "do_FindByID (ms_danmaku sv) i (mw_danmaku w) = Inr (Some d)" "d_status d \<noteq> st"
      "valid_transition (d_status d) st" "n \<noteq> 0"
      "do_UpdateStatus (ms_danmaku sv) i st reviewer reason now (mw_danmaku w) = (Inr n, s)"
      "mw_danmaku w' = s" "mw_users w' = mw_users w" "mw_reports w' = mw_reports w"
      "mw_mutes w' = mw_mutes w" "mw_sent w' = mw_sent w @
        sent_notice sv (d_room_id d) (review_notice sv d reviewer st reason now)"
proof (cases "\<exists>d. do_FindByID (ms_danmaku sv) i (mw_danmaku w) = Inr (Some d) \<and> d_status d \<noteq> st \<and>
    valid_transition (d_status d) st")
  case False
  then have "w' = w"
    using assms by (auto simp: ReviewDanmaku_def split: sum.splits option.splits if_splits)
  then show ?thesis by (rule that(1))
next
  case True
  then obtain d where d: "do_FindByID (ms_danmaku sv) i (mw_danmaku w) = Inr (Some d)"
    "d_status d \<noteq> st" "valid_transition (d_status d) st" by blast
  obtain e s where u: "do_UpdateStatus (ms_danmaku sv) i st reviewer reason now (mw_danmaku w) = (e, s)"
    by fastforce
  show ?thesis
  proof (cases "case e of Inl _ \<Rightarrow> True | Inr n \<Rightarrow> n = 0")
    case True
    then have "w' = w\<lparr>mw_danmaku := s\<rparr> \<and> (\<exists>err. res = Inl err)"
      using d u assms by (auto simp: ReviewDanmaku_def split: sum.splits)
    with that(2) u True show ?thesis by blast
  next
    case False
    then obtain n where n: "e = Inr n" "n \<noteq> 0" by (auto split: sum.splits)
    have w': "w' = snd (ReviewDanmaku sv new_id now i reviewer st reason room w)" using assms by simp
    note eq = ReviewDanmaku_update [OF d u [unfolded n(1)] n(2), of new_id room]
    show ?thesis
      by (rule that(3) [OF d n(2) u [unfolded n(1)]]) (simp_all add: w' eq frame_simps)
  qed
qed

locale moderation =
  us: user_contract uo ugood users +
  dm: danmaku_contract dops dgood dms +
  rp: report_contract pops pgood reports
  for uo :: "'u user_ops" and ugood users and dops :: "'d danmaku_ops" and dgood dms
    and pops :: "'p report_ops" and pgood reports +
  fixes sv :: "('u, 'd, 'p, 'a, 'm) mod_service"
  assumes sv_ops: "ms_users sv = uo" "ms_danmaku sv = dops" "ms_reports sv = pops"

context moderation begin

lemma review_effect:
  assumes g: "dgood (mw_danmaku w)"
    and r: "ReviewDanmaku sv new_id now i reviewer st reason room w = (res, w')"
  shows "dgood (mw_danmaku w') \<and> mw_users w' = mw_users w \<and> mw_reports w' = mw_reports w \<and>
    mw_mutes w' = mw_mutes w \<and>
    ((dms (mw_danmaku w') = dms (mw_danmaku w) \<and> mw_sent w' = mw_sent w) \<or>
     (\<exists>d. dms (mw_danmaku w) i = Some d \<and> d_status d \<noteq> st \<and> valid_transition (d_status d) st \<and>
        dms (mw_danmaku w') = alter i (reviewed st reviewer reason now) (dms (mw_danmaku w)) \<and>
        mw_sent w' = mw_sent w @ sent_notice sv (d_room_id d) (review_notice sv d reviewer st reason now)))"
  using r
proof (cases rule: ReviewDanmaku_cases)
  case 1
  with g show ?thesis by simp
next
  case (2 s e)
  then have u: "do_UpdateStatus dops i st reviewer reason now (mw_danmaku w) = (e, s)"
    by (simp add: sv_ops)
  have "dms s = dms (mw_danmaku w)"
  proof (cases e)
    case (Inl x)
    with dm.update [OF g u] show ?thesis by simp
  next
    case (Inr n)
    with 2 u have "do_UpdateStatus dops i st reviewer reason now (mw_danmaku w) = (Inr 0, s)" by simp
    with dm.update_rows [OF g this] dm.update [OF g this] show ?thesis by (simp add: alter_None)
  qed
  with dm.update [OF g u] 2(1) show ?thesis by simp
next
  case (3 d n s)
  then have "dms (mw_danmaku w) i = Some d" using dm.find [OF g] by (simp add: sv_ops)
  moreover have "dgood s \<and> dms s = alter i (reviewed st reviewer reason now) (dms (mw_danmaku w))"
    using dm.update [OF g] 3(5) by (fastforce simp: sv_ops)
  ultimately show ?thesis using 3 by simp
qed

end

text \<open>The shared shapes of the effects: at most one review, at most one ban.\<close>

definition review_moves ::
  "('u, 'd, 'p, 'a, 'm) mod_service \<Rightarrow> ('d \<Rightarrow> string \<rightharpoonup> danmaku)
   \<Rightarrow> ('u, 'd, 'p, 'a, 'm) mod_world \<Rightarrow> ('u, 'd, 'p, 'a, 'm) mod_world \<Rightarrow> bool" where
  "review_moves sv dms w w' \<longleftrightarrow>
     (dms (mw_danmaku w') = dms (mw_danmaku w) \<and> mw_sent w' = mw_sent w) \<or>
     (\<exists>i d st reviewer reason now. dms (mw_danmaku w) i = Some d \<and> d_status d \<noteq> st \<and>
        valid_transition (d_status d) st \<and>
        dms (mw_danmaku w') = alter i (reviewed st reviewer reason now) (dms (mw_danmaku w)) \<and>
        mw_sent w' = mw_sent w @ sent_notice sv (d_room_id d) (review_notice sv d reviewer st reason now))"

definition report_closed ::
  "(string \<rightharpoonup> report) \<Rightarrow> string \<Rightarrow> string \<Rightarrow> string \<Rightarrow> time \<Rightarrow> (string \<rightharpoonup> report) \<Rightarrow> bool" where
  "report_closed rs i st resolver now rs' \<longleftrightarrow>
     (\<exists>r. rs i = Some r \<and> rp_status r = ReportStatusPending) \<and> rs' = alter i (closed_report st resolver now) rs"

lemma MuteUser_frame:
  assumes "MuteUser sv i j now user room by dur reason w = (e, w')"
  shows "mw_users w' = mw_users w" "mw_danmaku w' = mw_danmaku w" "mw_reports w' = mw_reports w"
    "mw_sent w' = mw_sent w"
  using assms by (auto simp: MuteUser_def writeAuditLog_eq split: option.splits prod.splits)

lemma UnmuteUser_frame:
  assumes "UnmuteUser sv i user room by w = (e, w')"
  shows "mw_users w' = mw_users w" "mw_danmaku w' = mw_danmaku w" "mw_reports w' = mw_reports w"
    "mw_sent w' = mw_sent w"
  using assms by (auto simp: UnmuteUser_def writeAuditLog_eq split: option.splits prod.splits)

definition new_report :: "string \<Rightarrow> string \<Rightarrow> string \<Rightarrow> string \<Rightarrow> string \<Rightarrow> report" where
  "new_report new_id i room reporter reason = \<lparr>rp_id = new_id, rp_danmaku_id = i, rp_room_id = room,
     rp_reporter_user_id = reporter, rp_reason = TrimSpace reason, rp_status = ReportStatusPending,
     rp_created_at = zero_time, rp_resolved_by = '''', rp_resolved_at = None\<rparr>"

definition report_ready ::
  "('u, 'd, 'p, 'a, 'm) mod_service \<Rightarrow> string \<Rightarrow> string \<Rightarrow> string \<Rightarrow> string \<Rightarrow> danmaku
   \<Rightarrow> ('u, 'd, 'p, 'a, 'm) mod_world \<Rightarrow> bool" where
  "report_ready sv i room reporter reason d w \<longleftrightarrow>
     TrimSpace reason \<noteq> '''' \<and> length (runes (TrimSpace reason)) \<le> 500 \<and> CheckUserBan sv reporter w = Inr False \<and>
     do_FindByID (ms_danmaku sv) i (mw_danmaku w) = Inr (Some d) \<and> d_room_id d = room \<and>
     po_FindByDanmakuAndReporter (ms_reports sv) i reporter (mw_reports w) = Inr None"

lemma ReportDanmaku_cases:
  assumes "ReportDanmaku sv new_id i room reporter reason w = (e, w')"
  obtains "w' = w" "e \<noteq> None"
  | d x s where "report_ready sv i room reporter reason d w"
      "po_Create (ms_reports sv) (new_report new_id i room reporter reason) (mw_reports w) = (x, s)"
      "x = None \<longleftrightarrow> e = None" "w' = w\<lparr>mw_reports := s\<rparr>"
proof (cases "\<exists>d. report_ready sv i room reporter reason d w")
  case False
  then have "w' = w \<and> e \<noteq> None"
    using assms unfolding ReportDanmaku_def Let_def report_ready_def
    by (simp split: if_splits sum.splits option.splits) auto
  with that(1) show ?thesis by blast
next
  case True
  then obtain d where d: "report_ready sv i room reporter reason d w" ..
  obtain x s where c: "po_Create (ms_reports sv) (new_report new_id i room reporter reason) (mw_reports w) = (x, s)"
    by fastforce
  have "(x = None \<longleftrightarrow> e = None) \<and> w' = w\<lparr>mw_reports := s\<rparr>"
    using assms d c unfolding ReportDanmaku_def Let_def report_ready_def new_report_def
    by (auto split: option.splits)
  with that(2) d c show ?thesis by blast
qed

lemma CheckUserBan_False:
  "CheckUserBan sv i w = Inr False \<Longrightarrow> uo_FindByID (ms_users sv) i (mw_users w) = Inr r \<Longrightarrow>
   r = Some u \<Longrightarrow> \<not> u_banned u"
  by (simp add: CheckUserBan_def)

lemma CheckUserBan_found: "CheckUserBan sv i w = Inr b \<Longrightarrow> \<exists>r. uo_FindByID (ms_users sv) i (mw_users w) = Inr r"
  by (auto simp: CheckUserBan_def split: sum.splits)

lemma act_ban_cases:
  assumes "act_ban sv ids clk report resolver reason w = (e, acts, w')"
  obtains "w' = w"
  | d target x s where "do_FindByID (ms_danmaku sv) (rp_danmaku_id report) (mw_danmaku w) = Inr (Some d)"
      "resolver \<noteq> d_user_id d" "uo_FindByID (ms_users sv) (d_user_id d) (mw_users w) = Inr (Some target)"
      "u_role target \<noteq> RoleAdmin"
      "uo_BanUser (ms_users sv) (clk 1) (d_user_id d) reason resolver (mw_users w) = (x, s)"
      "mw_users w' = s" "mw_danmaku w' = mw_danmaku w" "mw_reports w' = mw_reports w" "mw_sent w' = mw_sent w"
  using assms unfolding act_ban_def
  by (auto simp: frame_simps split: if_splits sum.splits option.splits prod.splits)

context moderation begin

lemma report_effect:
  assumes g: "ugood (mw_users w)" "dgood (mw_danmaku w)" "pgood (mw_reports w)"
    and new: "reports (mw_reports w) new_id = None"
    and r: "ReportDanmaku sv new_id i room reporter reason w = (e, w')"
  shows "pgood (mw_reports w') \<and> mw_users w' = mw_users w \<and> mw_danmaku w' = mw_danmaku w \<and>
    mw_sent w' = mw_sent w \<and>
    (if e = None then \<exists>q d. reports (mw_reports w') = (reports (mw_reports w))(new_id \<mapsto> q) \<and>
        rp_danmaku_id q = i \<and> rp_reporter_user_id q = reporter \<and> rp_status q = ReportStatusPending \<and>
        (\<forall>x \<in> ran (reports (mw_reports w)). \<not> (rp_danmaku_id x = i \<and> rp_reporter_user_id x = reporter)) \<and>
        dms (mw_danmaku w) i = Some d \<and> d_room_id d = room \<and>
        (\<forall>u. users (mw_users w) reporter = Some u \<longrightarrow> \<not> u_banned u)
     else reports (mw_reports w') = reports (mw_reports w))"
  using r
proof (cases rule: ReportDanmaku_cases)
  case 1
  then obtain err where "e = Some err" "w' = w" by auto
  with g show ?thesis by simp
next
  case (2 d x s)
  let ?q = "new_report new_id i room reporter reason"
  note ready = 2(1) [unfolded report_ready_def sv_ops]
  have c: "po_Create pops ?q (mw_reports w) = (x, s)" using 2(2) by (simp add: sv_ops)
  obtain f where f: "uo_FindByID uo reporter (mw_users w) = Inr f"
    using CheckUserBan_found [of sv reporter w] ready by (auto simp: sv_ops)
  have "\<not> u_banned u" if "users (mw_users w) reporter = Some u" for u
    using CheckUserBan_False [of sv reporter w f u] ready f us.find_by_id [OF g(1) f] that by (simp add: sv_ops)
  moreover have "dms (mw_danmaku w) i = Some d" using dm.find [OF g(2), of i "Some d"] ready by simp
  moreover have "\<forall>x \<in> ran (reports (mw_reports w)). \<not> (rp_danmaku_id x = i \<and> rp_reporter_user_id x = reporter)"
    using rp.find_pair [OF g(3), of i reporter None] ready by simp
  moreover have i: "rp_id ?q = new_id" "rp_danmaku_id ?q = i" "rp_reporter_user_id ?q = reporter"
    "rp_status ?q = ReportStatusPending" by (simp_all add: new_report_def)
  moreover have "pgood s \<and> reports s = (if x = None then (reports (mw_reports w))(new_id \<mapsto> ?q)
      else reports (mw_reports w))"
    using rp.create [OF g(3) _ c] new i by simp
  moreover have "d_room_id d = room" using ready by simp
  ultimately show ?thesis using 2(3,4) by auto
qed

lemma resolve_effect:
  assumes g: "pgood (mw_reports w)"
    and r: "ResolveReport sv new_id now i resolver st reason w = (e, w')"
  shows "pgood (mw_reports w') \<and> mw_users w' = mw_users w \<and> mw_danmaku w' = mw_danmaku w \<and>
    mw_sent w' = mw_sent w \<and> (reports (mw_reports w') = reports (mw_reports w) \<or>
      report_closed (reports (mw_reports w)) i st resolver now (reports (mw_reports w')))"
proof (cases "\<exists>q. po_FindByID pops i (mw_reports w) = Inr (Some q) \<and> rp_status q = ReportStatusPending")
  case False
  with r have "w' = w" by (auto simp: ResolveReport_def sv_ops split: sum.splits option.splits if_splits)
  with g show ?thesis by simp
next
  case True
  then obtain q where q: "po_FindByID pops i (mw_reports w) = Inr (Some q)" "rp_status q = ReportStatusPending"
    by blast
  obtain x s where u: "po_UpdateStatus pops i st resolver now (mw_reports w) = (x, s)" by fastforce
  have "mw_users w' = mw_users w \<and> mw_danmaku w' = mw_danmaku w \<and> mw_sent w' = mw_sent w \<and> mw_reports w' = s"
    using r q u by (auto simp: ResolveReport_def sv_ops writeAuditLog_eq split: option.splits)
  with rp.update [OF g u] rp.find [OF g q(1)] q(2) show ?thesis
    by (auto simp: report_closed_def)
qed

lemma act_reject_effect:
  assumes "dgood (mw_danmaku w)" and "act_reject sv ids clk report resolver reason w = (e, acts, w')"
  shows "dgood (mw_danmaku w') \<and> mw_users w' = mw_users w \<and> mw_reports w' = mw_reports w \<and>
    review_moves sv dms w w'"
proof -
  obtain r w1 where rv: "ReviewDanmaku sv (ids 0) (clk 1) (rp_danmaku_id report) resolver
      DanmakuStatusRejected reason (rp_room_id report) w = (r, w1)" by (metis surj_pair)
  with assms(2) have "w' = w1" by (auto simp: act_reject_def split: option.splits)
  with review_effect [OF assms(1) rv] show ?thesis unfolding review_moves_def by blast
qed

lemma act_mute_effect:
  assumes "dgood (mw_danmaku w)" and "act_mute sv ids clk report resolver reason mins w = (e, acts, w')"
  shows "dgood (mw_danmaku w') \<and> mw_users w' = mw_users w \<and> mw_reports w' = mw_reports w \<and>
    review_moves sv dms w w'"
proof -
  obtain r w1 where rv: "ReviewDanmaku sv (ids 0) (clk 1) (rp_danmaku_id report) resolver
      DanmakuStatusRejected reason (rp_room_id report) w = (r, w1)" by (metis surj_pair)
  have "mw_users w' = mw_users w1 \<and> mw_reports w' = mw_reports w1 \<and> mw_danmaku w' = mw_danmaku w1 \<and>
      mw_sent w' = mw_sent w1"
  proof (cases "\<exists>d. rejected_ok r = None \<and> do_FindByID (ms_danmaku sv) (rp_danmaku_id report) (mw_danmaku w1) = Inr (Some d)")
    case False
    with assms(2) rv show ?thesis by (auto simp: act_mute_def split: option.splits sum.splits)
  next
    case True
    then obtain d where d: "rejected_ok r = None"
      "do_FindByID (ms_danmaku sv) (rp_danmaku_id report) (mw_danmaku w1) = Inr (Some d)" by blast
    obtain x w2 where m: "MuteUser sv (ids 1) (ids 2) (clk 2) (d_user_id d) (rp_room_id report) resolver
        (mute_duration mins) reason w1 = (x, w2)" by (metis surj_pair)
    with assms(2) rv d have "w' = w2" by (auto simp: act_mute_def split: option.splits)
    with MuteUser_frame [OF m] show ?thesis by simp
  qed
  with review_effect [OF assms(1) rv] show ?thesis unfolding review_moves_def by metis
qed

lemma act_ban_effect:
  assumes g: "ugood (mw_users w)" "dgood (mw_danmaku w)"
    and b: "act_ban sv ids clk report resolver reason w = (e, acts, w')"
  shows "ugood (mw_users w') \<and> mw_danmaku w' = mw_danmaku w \<and> mw_reports w' = mw_reports w \<and>
    mw_sent w' = mw_sent w \<and> (users (mw_users w') = users (mw_users w) \<or>
      (\<exists>d t. dms (mw_danmaku w) (rp_danmaku_id report) = Some d \<and> d_user_id d \<noteq> resolver \<and>
        users (mw_users w) (d_user_id d) = Some t \<and> u_role t \<noteq> RoleAdmin \<and>
        users (mw_users w') = alter (d_user_id d) (banned_user (clk 1) reason resolver) (users (mw_users w))))"
  using b
proof (cases rule: act_ban_cases)
  case 1
  with g show ?thesis by simp
next
  case (2 d target x s)
  have "dms (mw_danmaku w) (rp_danmaku_id report) = Some d" using dm.find [OF g(2)] 2(1) by (simp add: sv_ops)
  moreover have "users (mw_users w) (d_user_id d) = Some target"
    using us.find_by_id [OF g(1)] 2(3) by (simp add: sv_ops)
  moreover have "ugood s \<and> users s = (if x = None
      then alter (d_user_id d) (banned_user (clk 1) reason resolver) (users (mw_users w)) else users (mw_users w))"
    using us.ban_user [OF g(1)] 2(5) by (simp add: sv_ops)
  ultimately show ?thesis using 2 by (auto split: if_splits)
qed

end

text \<open>The ban of an action: by an admin, of another user who is no admin.\<close>

definition banned_by_report ::
  "(string \<rightharpoonup> user) \<Rightarrow> string \<Rightarrow> (string \<rightharpoonup> user) \<Rightarrow> bool" where
  "banned_by_report us resolver us' \<longleftrightarrow>
     (\<exists>i t now reason. i \<noteq> resolver \<and> us i = Some t \<and> u_role t \<noteq> RoleAdmin \<and>
        us' = alter i (banned_user now reason resolver) us)"

definition act ::
  "('u, 'd, 'p, 'a, 'm) mod_service \<Rightarrow> (nat \<Rightarrow> string) \<Rightarrow> (nat \<Rightarrow> time) \<Rightarrow> report \<Rightarrow> string \<Rightarrow> string
   \<Rightarrow> string \<Rightarrow> int \<Rightarrow> ('u, 'd, 'p, 'a, 'm) mod_world
   \<Rightarrow> go_error option \<times> string list \<times> ('u, 'd, 'p, 'a, 'm) mod_world" where
  "act sv ids clk report resolver action reason mins w =
     (if action = ''reject'' then act_reject sv ids clk report resolver reason w
      else if action = ''mute'' then act_mute sv ids clk report resolver reason mins w
      else act_ban sv ids clk report resolver reason w)"

lemma ResolveReportWithAction_cases:
  assumes "ResolveReportWithAction sv ids clk i resolver role decision action reason mins w = (res, w')"
  obtains "w' = w" "\<exists>e. res = Inl e"
  | r x s where "po_FindByID (ms_reports sv) i (mw_reports w) = Inr (Some r)"
      "rp_status r = ReportStatusPending" "decision = ''dismissed''"
      "po_UpdateStatus (ms_reports sv) i ReportStatusDismissed resolver (clk 0) (mw_reports w) = (x, s)"
      "x = None \<longleftrightarrow> (\<exists>v. res = Inr v)" "mw_reports w' = s" "mw_users w' = mw_users w"
      "mw_danmaku w' = mw_danmaku w" "mw_sent w' = mw_sent w"
  | r e acts where "po_FindByID (ms_reports sv) i (mw_reports w) = Inr (Some r)"
      "rp_status r = ReportStatusPending" "action = ''ban'' \<Longrightarrow> role = RoleAdmin"
      "act sv ids clk r resolver action reason mins w = (Some e, acts, w')" "res = Inl e"
      "action = ''reject'' \<or> action = ''mute'' \<or> action = ''ban''"
  | r acts w1 x s where "po_FindByID (ms_reports sv) i (mw_reports w) = Inr (Some r)"
      "rp_status r = ReportStatusPending" "action = ''ban'' \<Longrightarrow> role = RoleAdmin" "decision \<noteq> ''dismissed''"
      "act sv ids clk r resolver action reason mins w = (None, acts, w1)"
      "action = ''reject'' \<or> action = ''mute'' \<or> action = ''ban''"
      "po_UpdateStatus (ms_reports sv) i ReportStatusResolved resolver (clk 0) (mw_reports w1) = (x, s)"
      "x = None \<longleftrightarrow> (\<exists>v. res = Inr v)" "mw_reports w' = s" "mw_users w' = mw_users w1"
      "mw_danmaku w' = mw_danmaku w1" "mw_sent w' = mw_sent w1"
proof (cases "\<exists>r. po_FindByID (ms_reports sv) i (mw_reports w) = Inr (Some r) \<and> rp_status r = ReportStatusPending")
  case False
  then have "w' = w \<and> (\<exists>e. res = Inl e)"
    using assms by (auto simp: ResolveReportWithAction_def split: sum.splits option.splits if_splits)
  with that(1) show ?thesis by blast
next
  case True
  then obtain r where r: "po_FindByID (ms_reports sv) i (mw_reports w) = Inr (Some r)"
    "rp_status r = ReportStatusPending" by blast
  let ?go = "decision \<noteq> ''dismissed'' \<and> (action = ''ban'' \<longrightarrow> role = RoleAdmin) \<and>
    (action = ''reject'' \<or> action = ''mute'' \<or> action = ''ban'')"
  consider (dis) "decision = ''dismissed''" | (stop) "decision \<noteq> ''dismissed''" "\<not> ?go" | (go) ?go by blast
  then show ?thesis
  proof cases
    case dis
    obtain x s where u: "po_UpdateStatus (ms_reports sv) i ReportStatusDismissed resolver (clk 0) (mw_reports w) = (x, s)"
      by fastforce
    show ?thesis
      by (rule that(2) [OF r dis u])
        (use assms r dis u in \<open>auto simp: ResolveReportWithAction_def Let_def frame_simps split: option.splits\<close>)
  next
    case stop
    then have "w' = w \<and> (\<exists>e. res = Inl e)"
      using assms r by (auto simp: ResolveReportWithAction_def Let_def split: if_splits)
    with that(1) show ?thesis by blast
  next
    case go
    obtain e acts w1 where a: "act sv ids clk r resolver action reason mins w = (e, acts, w1)"
      by (metis surj_pair)
    have eq: "(res, w') = (case (e, acts, w1) of (Some e, acts, w) \<Rightarrow> (Inl e, w)
      | (None, acts, w) \<Rightarrow>
          (case po_UpdateStatus (ms_reports sv) i ReportStatusResolved resolver (clk 0) (mw_reports w) of
             (Some e, p) \<Rightarrow> (Inl (Errorf ''update report status: '' e ''''), w\<lparr>mw_reports := p\<rparr>)
           | (None, p) \<Rightarrow> (Inr \<lparr>rr_report_id = i, rr_decision = decision,
               rr_actions = acts @ [''report_'' @ ReportStatusResolved], rr_danmaku_id = rp_danmaku_id r\<rparr>,
               snd (writeAuditLog sv (ids 3) AuditResolveReport resolver '''' '''' (rp_room_id r)
                 (''decision='' @ decision @ '' action='' @ action @ '' reason='' @ reason)
                 (w\<lparr>mw_reports := p\<rparr>)))))"
      unfolding a [symmetric] act_def assms [symmetric] ResolveReportWithAction_def
      using r go by (auto simp: Let_def)
    show ?thesis
    proof (cases e)
      case (Some err)
      with eq have "w' = w1" "res = Inl err" by auto
      with that(3) [of r err acts] r go a Some show ?thesis by blast
    next
      case None
      obtain x s where u: "po_UpdateStatus (ms_reports sv) i ReportStatusResolved resolver (clk 0) (mw_reports w1) = (x, s)"
        by fastforce
      show ?thesis
        by (rule that(4) [OF r _ _ a [unfolded None] _ u])
          (use eq None u go in \<open>auto simp: frame_simps split: option.splits\<close>)
    qed
  qed
qed

context moderation begin

lemma act_effect:
  assumes g: "ugood (mw_users w)" "dgood (mw_danmaku w)"
    and a: "act sv ids clk report resolver action reason mins w = (e, acts, w')"
  shows "ugood (mw_users w')" and "dgood (mw_danmaku w')" and "mw_reports w' = mw_reports w"
    and "review_moves sv dms w w'"
    and "users (mw_users w') = users (mw_users w) \<or>
      (action \<noteq> ''reject'' \<and> action \<noteq> ''mute'' \<and> banned_by_report (users (mw_users w)) resolver (users (mw_users w')))"
proof -
  have "ugood (mw_users w') \<and> dgood (mw_danmaku w') \<and> mw_reports w' = mw_reports w \<and>
    review_moves sv dms w w' \<and> (users (mw_users w') = users (mw_users w) \<or>
      (action \<noteq> ''reject'' \<and> action \<noteq> ''mute'' \<and> banned_by_report (users (mw_users w)) resolver (users (mw_users w'))))"
  proof -
    consider "action = ''reject''" | "action = ''mute''" | "action \<noteq> ''reject''" "action \<noteq> ''mute''" by blast
    then show ?thesis
    proof cases
      case 1
      with a act_reject_effect [OF g(2), of ids clk report resolver reason e acts w'] g
      show ?thesis by (simp add: act_def)
    next
      case 2
      with a act_mute_effect [OF g(2), of ids clk report resolver reason mins e acts w'] g
      show ?thesis by (simp add: act_def)
    next
      case 3
      with a have "act_ban sv ids clk report resolver reason w = (e, acts, w')" by (simp add: act_def)
      from act_ban_effect [OF g this] g 3 show ?thesis
        unfolding review_moves_def banned_by_report_def by metis
    qed
  qed
  then show "ugood (mw_users w')" and "dgood (mw_danmaku w')" and "mw_reports w' = mw_reports w"
    and "review_moves sv dms w w'"
    and "users (mw_users w') = users (mw_users w) \<or>
      (action \<noteq> ''reject'' \<and> action \<noteq> ''mute'' \<and> banned_by_report (users (mw_users w)) resolver (users (mw_users w')))"
    by blast+
qed

lemma resolve_action_effect:
  assumes g: "ugood (mw_users w)" "dgood (mw_danmaku w)" "pgood (mw_reports w)"
    and r: "ResolveReportWithAction sv ids clk i resolver role decision action reason mins w = (res, w')"
  shows "ugood (mw_users w') \<and> dgood (mw_danmaku w') \<and> pgood (mw_reports w') \<and> review_moves sv dms w w' \<and>
    (users (mw_users w') = users (mw_users w) \<or> (role = RoleAdmin \<and> action = ''ban'' \<and>
       banned_by_report (users (mw_users w)) resolver (users (mw_users w')))) \<and>
    (case res of Inl e \<Rightarrow> reports (mw_reports w') = reports (mw_reports w)
     | Inr v \<Rightarrow> report_closed (reports (mw_reports w)) i
         (if decision = ''dismissed'' then ReportStatusDismissed else ReportStatusResolved) resolver (clk 0)
         (reports (mw_reports w')))"
  using r
proof (cases rule: ResolveReportWithAction_cases)
  case 1
  with g show ?thesis by (auto simp: review_moves_def)
next
  case (2 q x s)
  have u: "po_UpdateStatus pops i ReportStatusDismissed resolver (clk 0) (mw_reports w) = (x, s)"
    using 2 by (simp add: sv_ops)
  have "reports (mw_reports w) i = Some q" using rp.find [OF g(3), of i "Some q"] 2(1) by (simp add: sv_ops)
  with rp.update [OF g(3) u] 2 g show ?thesis
    by (cases res) (auto simp: review_moves_def report_closed_def)
next
  case (3 q e acts)
  note a = act_effect [OF g(1,2) 3(4)]
  from a(5) 3(3,6) have "users (mw_users w') = users (mw_users w) \<or> (role = RoleAdmin \<and> action = ''ban'' \<and>
       banned_by_report (users (mw_users w)) resolver (users (mw_users w')))" by blast
  with a(1-4) 3(5) g(3) show ?thesis by simp
next
  case (4 q acts w1 x s)
  note a = act_effect [OF g(1,2) 4(5)]
  have us: "users (mw_users w') = users (mw_users w) \<or> (role = RoleAdmin \<and> action = ''ban'' \<and>
       banned_by_report (users (mw_users w)) resolver (users (mw_users w')))"
    using a(5) 4(3,6,10) by metis
  have u: "po_UpdateStatus pops i ReportStatusResolved resolver (clk 0) (mw_reports w) = (x, s)"
    using 4(7) a(3) by (simp add: sv_ops)
  have q: "reports (mw_reports w) i = Some q" using rp.find [OF g(3), of i "Some q"] 4(1) by (simp add: sv_ops)
  have "case res of Inl e \<Rightarrow> reports (mw_reports w') = reports (mw_reports w)
     | Inr v \<Rightarrow> report_closed (reports (mw_reports w)) i ReportStatusResolved resolver (clk 0)
         (reports (mw_reports w'))"
    using rp.update [OF g(3) u] q 4(2,8,9) by (cases res) (auto simp: report_closed_def)
  moreover have "pgood (mw_reports w')" using rp.update [OF g(3) u] 4(9) by simp
  moreover have "review_moves sv dms w w'" using a(4) 4(11,12) by (simp add: review_moves_def)
  ultimately show ?thesis using us a(1,2) 4(4,10,11) by simp
qed

end

section \<open>The service at work\<close>

text \<open>A call of any of the methods that write; a report draws an identifier not yet in use.\<close>

inductive mod_step ::
  "('u, 'd, 'p, 'a, 'm) mod_service \<Rightarrow> ('u, 'd, 'p, 'a, 'm) mod_world \<Rightarrow> ('u, 'd, 'p, 'a, 'm) mod_world \<Rightarrow> bool"
  for sv where
  step_review: "ReviewDanmaku sv new_id now i reviewer st reason room w = (res, w') \<Longrightarrow> mod_step sv w w'"
| step_report: "po_FindByID (ms_reports sv) new_id (mw_reports w) = Inr None \<Longrightarrow>
    ReportDanmaku sv new_id i room reporter reason w = (e, w') \<Longrightarrow> mod_step sv w w'"
| step_resolve: "ResolveReport sv new_id now i resolver st reason w = (e, w') \<Longrightarrow> mod_step sv w w'"
| step_action: "ResolveReportWithAction sv ids clk i resolver role decision action reason mins w = (r, w') \<Longrightarrow>
    mod_step sv w w'"
| step_mute: "MuteUser sv new_id audit_id now user room by dur reason w = (e, w') \<Longrightarrow> mod_step sv w w'"
| step_unmute: "UnmuteUser sv audit_id user room actor w = (e, w') \<Longrightarrow> mod_step sv w w'"

definition one_per_reporter :: "(string \<rightharpoonup> report) \<Rightarrow> bool" where
  "one_per_reporter rs \<longleftrightarrow> (\<forall>i j r q. rs i = Some r \<and> rs j = Some q \<and>
     rp_danmaku_id r = rp_danmaku_id q \<and> rp_reporter_user_id r = rp_reporter_user_id q \<longrightarrow> i = j)"

text \<open>What the clients of a room show after a list of messages: broadcast and not retracted since.\<close>

definition show_message :: "string \<Rightarrow> string \<times> envelope \<Rightarrow> bool \<Rightarrow> bool" where
  "show_message i m b = (case snd m of
       MsgBroadcast d \<Rightarrow> if d_id d = i then True else b
     | MsgRetract j reason \<Rightarrow> if j = i then False else b
     | _ \<Rightarrow> b)"

definition shown :: "string \<Rightarrow> (string \<times> envelope) list \<Rightarrow> bool" where
  "shown i ms = fold (show_message i) ms False"

lemma shown_append: "shown i (ms @ [m]) = show_message i m (shown i ms)"
  by (simp add: shown_def)

lemma one_per_reporter_insert:
  assumes "one_per_reporter rs"
    and "\<And>j r. rs j = Some r \<Longrightarrow>
      rp_danmaku_id r \<noteq> rp_danmaku_id q \<or> rp_reporter_user_id r \<noteq> rp_reporter_user_id q"
  shows "one_per_reporter (rs(i \<mapsto> q))"
  unfolding one_per_reporter_def
proof (intro allI impI, elim conjE)
  fix j k r t
  assume a: "(rs(i \<mapsto> q)) j = Some r" "(rs(i \<mapsto> q)) k = Some t"
    "rp_danmaku_id r = rp_danmaku_id t" "rp_reporter_user_id r = rp_reporter_user_id t"
  show "j = k"
  proof (cases "j = i"; cases "k = i")
    assume "j \<noteq> i" "k \<noteq> i"
    with a have "rs j = Some r" "rs k = Some t" by auto
    with a(3,4) assms(1) show ?thesis unfolding one_per_reporter_def by blast
  next
    assume "j = i" "k \<noteq> i"
    with a assms(2) [of k t] show ?thesis by auto
  next
    assume "j \<noteq> i" "k = i"
    with a assms(2) [of j r] show ?thesis by auto
  qed simp
qed

lemma one_per_reporter_alter:
  assumes "one_per_reporter rs" and "\<And>r. rp_danmaku_id (f r) = rp_danmaku_id r"
    and "\<And>r. rp_reporter_user_id (f r) = rp_reporter_user_id r"
  shows "one_per_reporter (alter i f rs)"
proof -
  have old: "\<exists>r0. rs j = Some r0 \<and> rp_danmaku_id r0 = rp_danmaku_id r \<and>
      rp_reporter_user_id r0 = rp_reporter_user_id r" if "alter i f rs j = Some r" for j r
    using that assms(2,3) by (cases "j = i") auto
  show ?thesis
    unfolding one_per_reporter_def
  proof (intro allI impI, elim conjE)
    fix j k r t
    assume "alter i f rs j = Some r" "alter i f rs k = Some t"
      and same: "rp_danmaku_id r = rp_danmaku_id t" "rp_reporter_user_id r = rp_reporter_user_id t"
    from old [OF this(1)] old [OF this(2)] obtain r0 t0 where
      "rs j = Some r0" "rs k = Some t0" "rp_danmaku_id r0 = rp_danmaku_id t0"
      "rp_reporter_user_id r0 = rp_reporter_user_id t0" using same by auto
    with assms(1) show "j = k" unfolding one_per_reporter_def by blast
  qed
qed

definition in_step :: "(string \<rightharpoonup> danmaku) \<Rightarrow> (string \<times> envelope) list \<Rightarrow> bool" where
  "in_step dm ms \<longleftrightarrow> (\<forall>i d. dm i = Some d \<longrightarrow>
     d_room_id d \<noteq> '''' \<and> (d_status d = DanmakuStatusApproved \<longleftrightarrow> shown i ms))"

lemma valid_transition_to:
  "valid_transition old new \<Longrightarrow> new = DanmakuStatusApproved \<or> new = DanmakuStatusRejected"
  by (simp add: valid_transition_def split: if_splits)

lemma review_sent:
  assumes "ms_hub sv" and "d_room_id d \<noteq> []" and "d_status d \<noteq> st" and "valid_transition (d_status d) st"
    and m: "\<And>e. ms_marshals sv e"
  shows "sent_notice sv (d_room_id d) (review_notice sv d reviewer st reason now) =
    (if st = DanmakuStatusApproved
     then [(d_room_id d, MsgBroadcast (reviewed DanmakuStatusApproved reviewer reason now d))]
     else if d_status d = DanmakuStatusApproved then [(d_room_id d, MsgRetract (d_id d) reason)] else [])"
proof (cases "st = DanmakuStatusApproved")
  case True
  with assms(1-3) m show ?thesis by (simp add: sent_notice_def review_notice_def)
next
  case False
  with valid_transition_to [OF assms(4)] have "st = DanmakuStatusRejected" by blast
  with assms(1-3) m show ?thesis by (simp add: sent_notice_def review_notice_def)
qed

lemma shown_review:
  assumes "in_step dm ms" and "dm i = Some d" and "d_id d = i" and "d_status d \<noteq> st"
    and "valid_transition (d_status d) st"
  shows "shown j (ms @ (if st = DanmakuStatusApproved
      then [(d_room_id d, MsgBroadcast (reviewed DanmakuStatusApproved reviewer reason now d))]
      else if d_status d = DanmakuStatusApproved then [(d_room_id d, MsgRetract (d_id d) reason)] else [])) =
    (if j = i then st = DanmakuStatusApproved else shown j ms)"
proof -
  have "d_status d = DanmakuStatusApproved \<longleftrightarrow> shown i ms"
    using assms(1,2) by (simp add: in_step_def)
  then show ?thesis using assms(3) by (simp add: shown_append show_message_def)
qed

context moderation begin

definition mod_good :: "('u, 'd, 'p, 'a, 'm) mod_world \<Rightarrow> bool" where
  "mod_good w \<longleftrightarrow> ugood (mw_users w) \<and> dgood (mw_danmaku w) \<and> pgood (mw_reports w)"

lemma step_effect:
  assumes "mod_step sv w w'" and "mod_good w"
  shows "mod_good w'" and "review_moves sv dms w w'"
    and "users (mw_users w') = users (mw_users w) \<or>
      (\<exists>resolver. banned_by_report (users (mw_users w)) resolver (users (mw_users w')))"
    and "reports (mw_reports w') = reports (mw_reports w) \<or>
      (\<exists>i q. reports (mw_reports w) i = None \<and> reports (mw_reports w') = (reports (mw_reports w))(i \<mapsto> q) \<and>
         (\<forall>x \<in> ran (reports (mw_reports w)). \<not> (rp_danmaku_id x = rp_danmaku_id q \<and>
            rp_reporter_user_id x = rp_reporter_user_id q))) \<or>
      (\<exists>i st by now. report_closed (reports (mw_reports w)) i st by now (reports (mw_reports w')))"
proof -
  have g: "ugood (mw_users w)" "dgood (mw_danmaku w)" "pgood (mw_reports w)"
    using assms(2) by (simp_all add: mod_good_def)
  have "mod_good w' \<and> review_moves sv dms w w' \<and> (users (mw_users w') = users (mw_users w) \<or>
      (\<exists>resolver. banned_by_report (users (mw_users w)) resolver (users (mw_users w')))) \<and>
    (reports (mw_reports w') = reports (mw_reports w) \<or>
      (\<exists>i q. reports (mw_reports w) i = None \<and> reports (mw_reports w') = (reports (mw_reports w))(i \<mapsto> q) \<and>
         (\<forall>x \<in> ran (reports (mw_reports w)). \<not> (rp_danmaku_id x = rp_danmaku_id q \<and>
            rp_reporter_user_id x = rp_reporter_user_id q))) \<or>
      (\<exists>i st by now. report_closed (reports (mw_reports w)) i st by now (reports (mw_reports w'))))"
    using assms(1)
  proof (cases rule: mod_step.cases)
    case (step_review new_id now i reviewer st reason room res)
    from review_effect [OF g(2) this] g show ?thesis
      unfolding review_moves_def mod_good_def by metis
  next
    case (step_report new_id i room reporter reason e)
    have "reports (mw_reports w) new_id = None"
      using rp.find [OF g(3), of new_id None] step_report(1) by (simp add: sv_ops)
    from report_effect [OF g this step_report(2)] this g show ?thesis
      unfolding review_moves_def mod_good_def by (cases e) auto
  next
    case (step_resolve new_id now i resolver st reason e)
    from resolve_effect [OF g(3) this] g show ?thesis
      unfolding review_moves_def mod_good_def by auto
  next
    case (step_action ids clk i resolver role decision action reason mins r)
    from resolve_action_effect [OF g this] show ?thesis
      unfolding mod_good_def by (cases r) auto
  next
    case (step_mute new_id audit_id now user room b dur reason e)
    from MuteUser_frame [OF this] g show ?thesis by (simp add: review_moves_def mod_good_def)
  next
    case (step_unmute audit_id user room actor e)
    from UnmuteUser_frame [OF this] g show ?thesis by (simp add: review_moves_def mod_good_def)
  qed
  then show "mod_good w'" and "review_moves sv dms w w'"
    and "users (mw_users w') = users (mw_users w) \<or>
      (\<exists>resolver. banned_by_report (users (mw_users w)) resolver (users (mw_users w')))"
    and "reports (mw_reports w') = reports (mw_reports w) \<or>
      (\<exists>i q. reports (mw_reports w) i = None \<and> reports (mw_reports w') = (reports (mw_reports w))(i \<mapsto> q) \<and>
         (\<forall>x \<in> ran (reports (mw_reports w)). \<not> (rp_danmaku_id x = rp_danmaku_id q \<and>
            rp_reporter_user_id x = rp_reporter_user_id q))) \<or>
      (\<exists>i st by now. report_closed (reports (mw_reports w)) i st by now (reports (mw_reports w')))"
    by blast+
qed

lemma step_one_per_reporter:
  assumes "mod_step sv w w'" and "mod_good w" and "one_per_reporter (reports (mw_reports w))"
  shows "one_per_reporter (reports (mw_reports w'))"
  using step_effect(4) [OF assms(1,2)]
proof (elim disjE exE conjE)
  fix i q
  assume new: "reports (mw_reports w') = (reports (mw_reports w))(i \<mapsto> q)"
    and other: "\<forall>x \<in> ran (reports (mw_reports w)). \<not> (rp_danmaku_id x = rp_danmaku_id q \<and>
      rp_reporter_user_id x = rp_reporter_user_id q)"
  have "rp_danmaku_id r \<noteq> rp_danmaku_id q \<or> rp_reporter_user_id r \<noteq> rp_reporter_user_id q"
    if "reports (mw_reports w) j = Some r" for j r
    using other that by (auto simp: ran_def)
  with assms(3) show ?thesis unfolding new by (rule one_per_reporter_insert)
next
  fix i st b now assume "report_closed (reports (mw_reports w)) i st b now (reports (mw_reports w'))"
  then have new: "reports (mw_reports w') = alter i (closed_report st b now) (reports (mw_reports w))"
    by (simp add: report_closed_def)
  from assms(3) show ?thesis unfolding new by (rule one_per_reporter_alter) simp_all
qed (use assms in simp)

lemma step_closed_final:
  assumes "mod_step sv w w'" and "mod_good w"
    and "reports (mw_reports w) i = Some r" and "rp_status r \<noteq> ReportStatusPending"
  shows "reports (mw_reports w') i = Some r"
  using step_effect(4) [OF assms(1,2)] assms(3,4)
  by (auto simp: report_closed_def alter_apply)

lemma step_admin_safe:
  assumes "mod_step sv w w'" and "mod_good w"
    and "users (mw_users w) i = Some u" and "u_role u = RoleAdmin"
  shows "users (mw_users w') i = Some u"
  using step_effect(3) [OF assms(1,2)] assms(3,4)
  by (auto simp: banned_by_report_def alter_apply)

lemma step_in_step:
  assumes "mod_step sv w w'" and "mod_good w" and hub: "ms_hub sv" and m: "\<And>e. ms_marshals sv e"
    and "in_step (dms (mw_danmaku w)) (mw_sent w)"
  shows "in_step (dms (mw_danmaku w')) (mw_sent w')"
  using step_effect(2) [OF assms(1,2)]
  unfolding review_moves_def
proof (elim disjE exE conjE)
  fix i d st reviewer reason now
  assume d: "dms (mw_danmaku w) i = Some d" "d_status d \<noteq> st" "valid_transition (d_status d) st"
    and upd: "dms (mw_danmaku w') = alter i (reviewed st reviewer reason now) (dms (mw_danmaku w))"
    and sent: "mw_sent w' = mw_sent w @ sent_notice sv (d_room_id d) (review_notice sv d reviewer st reason now)"
  have "dgood (mw_danmaku w)" using assms(2) by (simp add: mod_good_def)
  then have id: "d_id d = i" using d(1) by (rule dm.key_is_id)
  have room: "d_room_id d \<noteq> ''''" using d(1) assms(5) by (simp add: in_step_def)
  have sh: "shown j (mw_sent w') = (if j = i then st = DanmakuStatusApproved else shown j (mw_sent w))" for j
    unfolding sent review_sent [OF hub room d(2,3) m]
    using assms(5) d(1) by (rule shown_review [OF _ _ id d(2,3)])
  show ?thesis
    unfolding in_step_def upd sh using assms(5)
    by (auto simp: in_step_def alter_apply split: if_splits)
qed (use assms in simp)

end

text \<open>The service over the memory stores.\<close>

definition mem_service ::
  "danmaku sorter \<Rightarrow> report sorter \<Rightarrow> (mute_mem \<Rightarrow> string list) \<Rightarrow> bool \<Rightarrow> (envelope \<Rightarrow> bool) \<Rightarrow> text_tables
   \<Rightarrow> arena option \<Rightarrow> bool \<Rightarrow> bool
   \<Rightarrow> (user_mem, memory_store, report_mem, audit_mem, mute_mem) mod_service" where
  "mem_service srt rsrt mord hub marshals tx aca auto_reject fail_closed =
     \<lparr>ms_danmaku = memory_danmaku_ops srt, ms_reports = memory_report_ops rsrt sorted_report_ids,
      ms_audit = memory_audit_ops, ms_mutes = memory_mute_ops mord,
      ms_users = memory_user_ops sorted_ids, ms_hub = hub, ms_marshals = marshals, ms_tables = tx,
      ms_automaton = aca, ms_auto_reject = auto_reject, ms_fail_closed = fail_closed\<rparr>"

interpretation mem_mod: moderation "memory_user_ops sorted_ids" users_good user_map
  "memory_danmaku_ops srt" store_good stored "memory_report_ops rsrt sorted_report_ids"
  reports_inv report_map "mem_service srt rsrt mord hub marshals tx aca auto_reject fail_closed"
  for srt rsrt mord hub marshals tx aca auto_reject fail_closed
  by unfold_locales (simp_all add: mem_service_def)

type_synonym mem_world = "(user_mem, memory_store, report_mem, audit_mem, mute_mem) mod_world"

definition mem_good :: "mem_world \<Rightarrow> bool" where
  "mem_good w \<longleftrightarrow> users_good (mw_users w) \<and> store_good (mw_danmaku w) \<and> reports_inv (mw_reports w)"

lemma mem_good_iff: "mem_good w \<longleftrightarrow> mem_mod.mod_good w"
  by (simp add: mem_good_def mem_mod.mod_good_def)

lemma mem_steps_inv:
  assumes "(mod_step (mem_service srt rsrt mord hub marshals tx aca ar fc))\<^sup>*\<^sup>* w w'"
    and "mem_good w" and "P w"
    and "\<And>v u. mod_step (mem_service srt rsrt mord hub marshals tx aca ar fc) v u \<Longrightarrow> mem_good v \<Longrightarrow> P v \<Longrightarrow> P u"
  shows "P w'"
proof -
  have "mem_good w' \<and> P w'"
    using assms(1)
  proof (induction rule: rtranclp_induct)
    case (step v u)
    then show ?case
      using assms(4) mem_mod.step_effect(1) [of srt rsrt mord hub marshals tx aca ar fc v u]
      by (simp add: mem_good_iff)
  qed (use assms in simp)
  then show ?thesis by simp
qed

lemma mod_step_star: "mod_step sv w w' \<Longrightarrow> (mod_step sv)\<^sup>*\<^sup>* w w'"
  by (rule r_into_rtranclp)

section \<open>Properties\<close>

text \<open>
  Property C30 (every branch of a review). Over the memory stores, \<open>ReviewDanmaku\<close> of a danmaku
  that is not stored fails with \<open>ErrDanmakuNotFound\<close>; of one that has the status already it
  succeeds and does nothing; of one whose status has no transition to the new one it fails
  with \<open>ErrForbiddenTransition\<close>; none of these changes anything. Otherwise it sets the status and
  the review fields of that danmaku alone, sends the room the broadcast or the retraction the
  transition calls for, reports whether it did, and writes one audit entry.
\<close>

theorem review_outcome:
  assumes sv: "sv = mem_service srt rsrt mord hub marshals tx aca ar fc"
    and "ReviewDanmaku sv new_id now i reviewer st reason room w = (res, w')"
  shows "case stored (mw_danmaku w) i of
      None \<Rightarrow> res = Inl ErrDanmakuNotFound \<and> w' = w
    | Some d \<Rightarrow>
        if d_status d = st
        then res = Inr \<lparr>rv_action = st, rv_notified = False, rv_danmaku_id = i\<rparr> \<and> w' = w
        else if \<not> valid_transition (d_status d) st
        then (\<exists>e. res = Inl e \<and> errors_is e ErrForbiddenTransition) \<and> w' = w
        else let notice = review_notice sv d reviewer st reason now in
          res = Inr \<lparr>rv_action = st, rv_notified = (notice \<noteq> None), rv_danmaku_id = i\<rparr> \<and>
          stored (mw_danmaku w') = alter i (reviewed st reviewer reason now) (stored (mw_danmaku w)) \<and>
          mw_sent w' = mw_sent w @ sent_notice sv (d_room_id d) notice \<and>
          am_entries (mw_audit w') = am_entries (mw_audit w) @ [audit_of new_id AuditReviewDanmaku reviewer '''' i
            (d_room_id d) (if reason = '''' then ''review: '' @ d_status d @ '' -> '' @ st else reason)]"
proof -
  have f: "do_FindByID (ms_danmaku sv) i (mw_danmaku w) = Inr (stored (mw_danmaku w) i)"
    by (simp add: sv mem_service_def memory_danmaku_ops_def DanmakuStore.FindByID_def stored_def)
  show ?thesis
  proof (cases "\<exists>d. stored (mw_danmaku w) i = Some d \<and> d_status d \<noteq> st \<and> valid_transition (d_status d) st")
    case False
    with assms(2) f show ?thesis by (auto simp: ReviewDanmaku_def split: option.splits)
  next
    case True
    then obtain d where d: "stored (mw_danmaku w) i = Some d" "d_status d \<noteq> st"
      "valid_transition (d_status d) st" by blast
    obtain r s where u: "UpdateStatus i st reviewer reason now (mw_danmaku w) = (r, s)" by fastforce
    note us = UpdateStatus_stored [OF u]
    have u1: "do_UpdateStatus (ms_danmaku sv) i st reviewer reason now (mw_danmaku w) = (Inr 1, s)"
      using u us(3) d by (simp add: sv mem_service_def memory_danmaku_ops_def)
    have f1: "do_FindByID (ms_danmaku sv) i (mw_danmaku w) = Inr (Some d)" using f d by simp
    note eq = ReviewDanmaku_update [OF f1 d(2,3) u1, of new_id room]
    have a: "ao_Add (ms_audit sv) x y = (None, y\<lparr>am_entries := am_entries y @ [x]\<rparr>)" for x y
      by (simp add: sv mem_service_def memory_audit_ops_def AddEntry_def)
    show ?thesis using assms(2) eq d us(1) by (auto simp: Let_def writeAuditLog_eq a)
  qed
qed

definition sample_world :: mem_world where
  "sample_world = \<lparr>mw_users = sample_users, mw_danmaku = sample_store, mw_reports = NewMemoryReportStore,
     mw_audit = NewMemoryAuditLogStore, mw_mutes = NewMemoryMuteStore,
     mw_sent = [(''r'', MsgBroadcast (sample_danmaku ''b'' ''r'' 2)), (''q'', MsgBroadcast (sample_danmaku ''c'' ''q'' 3)),
       (''r'', MsgBroadcast (sample_danmaku ''a'' ''r'' 2)), (''r'', MsgBroadcast (sample_danmaku ''d'' ''r'' 1))]\<rparr>"

definition sample_service ::
  "(user_mem, memory_store, report_mem, audit_mem, mute_mem) mod_service" where
  "sample_service = mem_service insertion_sort insertion_sort (\<lambda>s. []) True (\<lambda>m. True) plain_tables None True True"

lemma sample_world_good: "mem_good sample_world"
proof -
  have "user_reach sample_users"
    unfolding sample_users_def
    by (intro user_reach.intros) (simp add: UserStore.FindByID_def NewMemoryUserStore_def)
  moreover have "finite (dom (user_map sample_users))"
  proof -
    have "dom (user_map sample_users) \<subseteq> {''1''}"
      by (auto simp: sample_users_def user_map_def UserStore.BanUser_def write_byid_def Create_def
          NewMemoryUserStore_def sample_user_def deref_def split: option.splits if_splits)
    then show ?thesis by (rule finite_subset) simp
  qed
  moreover have "store_good sample_store"
    by (simp add: store_good_def sample_store_def sample_danmaku_def)
  ultimately show ?thesis
    by (simp add: mem_good_def users_good_def user_reach_inv sample_world_def reports_inv_New)
qed

theorem review_outcome_witness:
  "\<exists>w'. ReviewDanmaku sample_service ''x'' 9 ''a'' ''m'' DanmakuStatusRejected ''rude'' ''r'' sample_world =
      (Inr \<lparr>rv_action = DanmakuStatusRejected, rv_notified = True, rv_danmaku_id = ''a''\<rparr>, w') \<and>
    mw_sent w' = mw_sent sample_world @ [(''r'', MsgRetract ''a'' ''rude'')]"
proof -
  obtain res w' where r: "ReviewDanmaku sample_service ''x'' 9 ''a'' ''m'' DanmakuStatusRejected ''rude'' ''r''
      sample_world = (res, w')" by fastforce
  have d: "stored (mw_danmaku sample_world) ''a'' = Some (sample_danmaku ''a'' ''r'' 2)"
    by (simp add: sample_world_def stored_def sample_store_def sample_danmaku_def)
  have n: "review_notice sample_service (sample_danmaku ''a'' ''r'' 2) ''m'' DanmakuStatusRejected ''rude'' 9 =
      Some (MsgRetract ''a'' ''rude'')" "ms_marshals sample_service = (\<lambda>m. True)"
    by (simp_all add: review_notice_def sample_service_def mem_service_def sample_danmaku_def)
  have s: "d_status (sample_danmaku ''a'' ''r'' 2) = DanmakuStatusApproved" "d_room_id (sample_danmaku ''a'' ''r'' 2) = ''r''"
    by (simp_all add: sample_danmaku_def)
  from review_outcome [OF sample_service_def r] r show ?thesis
    by (simp add: d s n valid_transition_def sent_notice_def Let_def)
qed

text \<open>
  Corollary (clients show what is approved). If the hub is there and every message can be
  encoded, and in every room the clients show exactly the approved danmaku, then they still do
  after any sequence of reviews, reports, resolutions with or without action, mutes and
  unmutes, successful or failing: no approval goes unannounced, no rejection leaves a danmaku on
  screen.
\<close>

theorem clients_show_approved:
  assumes "sv = mem_service srt rsrt mord True (\<lambda>m. True) tx aca ar fc"
    and "(mod_step sv)\<^sup>*\<^sup>* w w'" and "mem_good w" and "in_step (stored (mw_danmaku w)) (mw_sent w)"
  shows "in_step (stored (mw_danmaku w')) (mw_sent w')"
  using assms(2,3,4) unfolding assms(1)
proof (rule mem_steps_inv)
  fix v u
  assume st: "mod_step (mem_service srt rsrt mord True (\<lambda>m. True) tx aca ar fc) v u" and g: "mem_good v"
    and i: "in_step (stored (mw_danmaku v)) (mw_sent v)"
  show "in_step (stored (mw_danmaku u)) (mw_sent u)"
    by (rule mem_mod.step_in_step [OF st g [unfolded mem_good_iff] _ _ i]) (simp_all add: mem_service_def)
qed

lemma sample_world_in_step: "in_step (stored (mw_danmaku sample_world)) (mw_sent sample_world)"
  unfolding in_step_def
  by (auto simp: sample_world_def stored_def sample_store_def sample_danmaku_def shown_def show_message_def
      split: if_splits)

theorem clients_show_approved_witness:
  "in_step (stored (mw_danmaku (snd (ReviewDanmaku sample_service ''x'' 9 ''a'' ''m'' DanmakuStatusRejected ''rude'' ''r'' sample_world))))
     (mw_sent (snd (ReviewDanmaku sample_service ''x'' 9 ''a'' ''m'' DanmakuStatusRejected ''rude'' ''r'' sample_world)))"
proof -
  have "(mod_step sample_service)\<^sup>*\<^sup>* sample_world
      (snd (ReviewDanmaku sample_service ''x'' 9 ''a'' ''m'' DanmakuStatusRejected ''rude'' ''r'' sample_world))"
    by (rule mod_step_star, rule step_review, rule surjective_pairing)
  from clients_show_approved [OF sample_service_def this sample_world_good sample_world_in_step] show ?thesis .
qed

text \<open>
  Property C32 (one report per user and danmaku). Whatever sequence of calls the service handles,
  no user ever has two reports of the same danmaku on file.
\<close>

theorem one_report_each:
  assumes "sv = mem_service srt rsrt mord hub marshals tx aca ar fc"
    and "(mod_step sv)\<^sup>*\<^sup>* w w'" and "mem_good w" and "one_per_reporter (report_map (mw_reports w))"
  shows "one_per_reporter (report_map (mw_reports w'))"
  using assms(2,3,4) unfolding assms(1)
proof (rule mem_steps_inv)
  fix v u
  assume st: "mod_step (mem_service srt rsrt mord hub marshals tx aca ar fc) v u" and g: "mem_good v"
    and i: "one_per_reporter (report_map (mw_reports v))"
  show "one_per_reporter (report_map (mw_reports u))"
    by (rule mem_mod.step_one_per_reporter [OF st g [unfolded mem_good_iff] i])
qed

definition reported_world :: mem_world where
  "reported_world = snd (ReportDanmaku sample_service ''p'' ''a'' ''r'' ''2'' ''rude'' sample_world)"

lemma reported_world_step: "mod_step sample_service sample_world reported_world"
proof (rule step_report)
  show "po_FindByID (ms_reports sample_service) ''p'' (mw_reports sample_world) = Inr None"
    by (simp add: sample_service_def mem_service_def memory_report_ops_def FindReportByID_def
        sample_world_def NewMemoryReportStore_def)
  show "ReportDanmaku sample_service ''p'' ''a'' ''r'' ''2'' ''rude'' sample_world =
      (fst (ReportDanmaku sample_service ''p'' ''a'' ''r'' ''2'' ''rude'' sample_world), reported_world)"
    by (simp add: reported_world_def)
qed

lemma sample_world_reports: "report_map (mw_reports sample_world) = Map.empty"
  by (simp add: sample_world_def report_map_def NewMemoryReportStore_def fun_eq_iff)

theorem one_report_each_witness:
  "one_per_reporter (report_map (mw_reports reported_world))"
proof -
  have "one_per_reporter (report_map (mw_reports sample_world))"
    by (simp add: sample_world_reports one_per_reporter_def)
  from one_report_each [OF sample_service_def mod_step_star [OF reported_world_step] sample_world_good this]
  show ?thesis .
qed

text \<open>
  Corollary (a resolution is final). Once a report has been resolved or dismissed, no sequence
  of calls changes it: not its status, not who resolved it and when.
\<close>

theorem resolved_report_final:
  assumes "sv = mem_service srt rsrt mord hub marshals tx aca ar fc"
    and "(mod_step sv)\<^sup>*\<^sup>* w w'" and "mem_good w"
    and "report_map (mw_reports w) i = Some r" and "rp_status r \<noteq> ReportStatusPending"
  shows "report_map (mw_reports w') i = Some r"
  using assms(2,3,4) unfolding assms(1)
proof (rule mem_steps_inv)
  fix v u
  assume st: "mod_step (mem_service srt rsrt mord hub marshals tx aca ar fc) v u" and g: "mem_good v"
    and i: "report_map (mw_reports v) i = Some r"
  show "report_map (mw_reports u) i = Some r"
    by (rule mem_mod.step_closed_final [OF st g [unfolded mem_good_iff] i assms(5)])
qed

definition closed_world :: mem_world where
  "closed_world = sample_world\<lparr>mw_reports := snd (CreateReport (closed_report ReportStatusResolved ''m'' 4
     (new_report ''p'' ''a'' ''r'' ''2'' ''rude'')) NewMemoryReportStore)\<rparr>"

theorem resolved_report_final_witness:
  "\<exists>r. report_map (mw_reports (snd (ResolveReport sample_service ''x'' 9 ''p'' ''m2'' ReportStatusDismissed '''' closed_world)))
      ''p'' = Some r \<and> rp_resolved_by r = ''m''"
proof -
  have g: "mem_good closed_world"
    using sample_world_good CreateReport_inv(1) [OF reports_inv_New] by (simp add: mem_good_def closed_world_def)
  have r: "report_map (mw_reports closed_world) ''p'' =
      Some (closed_report ReportStatusResolved ''m'' 4 (new_report ''p'' ''a'' ''r'' ''2'' ''rude''))"
    using CreateReport_inv(2) [OF reports_inv_New] by (simp add: closed_world_def new_report_def)
  have s: "(mod_step sample_service)\<^sup>*\<^sup>* closed_world
      (snd (ResolveReport sample_service ''x'' 9 ''p'' ''m2'' ReportStatusDismissed '''' closed_world))"
    by (rule mod_step_star, rule step_resolve, rule surjective_pairing)
  from resolved_report_final [OF sample_service_def s g r] show ?thesis
    by (simp add: closed_report_def)
qed

text \<open>
  Property C31 (a report is closed exactly when its handling succeeds). \<open>ResolveReportWithAction\<close>
  that returns an error leaves every report as it was, whatever the action had done by then;
  one that returns a result has closed that report, which was pending, in the name of the
  resolver. Only an admin's \<open>ban\<close> changes a user, and never the resolver or an admin.
\<close>

theorem resolve_action_outcome:
  assumes "sv = mem_service srt rsrt mord hub marshals tx aca ar fc" and "mem_good w"
    and "ResolveReportWithAction sv ids clk i resolver role decision action reason mins w = (res, w')"
  shows "(case res of Inl e \<Rightarrow> report_map (mw_reports w') = report_map (mw_reports w)
      | Inr v \<Rightarrow> report_closed (report_map (mw_reports w)) i
          (if decision = ''dismissed'' then ReportStatusDismissed else ReportStatusResolved) resolver (clk 0)
          (report_map (mw_reports w'))) \<and>
    (user_map (mw_users w') = user_map (mw_users w) \<or> (role = RoleAdmin \<and> action = ''ban'' \<and>
       banned_by_report (user_map (mw_users w)) resolver (user_map (mw_users w'))))"
  using mem_mod.resolve_action_effect [OF _ _ _ assms(3) [unfolded assms(1)]] assms(2)
  by (simp add: mem_good_def)

theorem resolve_action_outcome_witness:
  "\<exists>e w'. ResolveReportWithAction sample_service (\<lambda>n. ''x'') (\<lambda>n. 9) ''p'' ''m'' RoleModerator ''resolved'' ''ban'' '''' 0 sample_world =
      (Inl e, w') \<and> report_map (mw_reports w') = report_map (mw_reports sample_world)"
proof -
  obtain w' where r: "ResolveReportWithAction sample_service (\<lambda>n. ''x'') (\<lambda>n. 9) ''p'' ''m'' RoleModerator
      ''resolved'' ''ban'' '''' 0 sample_world = (Inl ErrReportNotFound, w')"
    by (simp add: ResolveReportWithAction_def sample_service_def mem_service_def memory_report_ops_def
        FindReportByID_def sample_world_def NewMemoryReportStore_def)
  from resolve_action_outcome [OF sample_service_def sample_world_good r] r show ?thesis by auto
qed

text \<open>
  Corollary (admins cannot be banned through reports). No sequence of calls of the moderation
  service, with whatever roles the callers claim, changes the account of a user who is an admin.
\<close>

theorem moderation_spares_admins:
  assumes "sv = mem_service srt rsrt mord hub marshals tx aca ar fc"
    and "(mod_step sv)\<^sup>*\<^sup>* w w'" and "mem_good w"
    and "user_map (mw_users w) i = Some u" and "u_role u = RoleAdmin"
  shows "user_map (mw_users w') i = Some u"
  using assms(2,3,4) unfolding assms(1)
proof (rule mem_steps_inv)
  fix v u'
  assume st: "mod_step (mem_service srt rsrt mord hub marshals tx aca ar fc) v u'" and g: "mem_good v"
    and i: "user_map (mw_users v) i = Some u"
  show "user_map (mw_users u') i = Some u"
    by (rule mem_mod.step_admin_safe [OF st g [unfolded mem_good_iff] i assms(5)])
qed

theorem moderation_spares_admins_witness:
  "\<exists>u. user_map (mw_users (snd (UnmuteUser sample_service ''x'' ''1'' ''r'' ''m''
      (sample_world\<lparr>mw_users := snd (UpdateRole ''1'' RoleAdmin sample_users)\<rparr>)))) ''1'' = Some u \<and> u_role u = RoleAdmin"
proof -
  let ?w = "sample_world\<lparr>mw_users := snd (UpdateRole ''1'' RoleAdmin sample_users)\<rparr>"
  have inv: "users_good sample_users" using sample_world_good by (simp add: mem_good_def sample_world_def)
  then have m: "user_map (snd (UpdateRole ''1'' RoleAdmin sample_users)) =
      alter ''1'' (u_role_update (\<lambda>_. RoleAdmin)) (user_map sample_users)"
    and i: "users_inv (snd (UpdateRole ''1'' RoleAdmin sample_users))"
    by (simp_all add: UpdateRole_def user_map_write users_inv_write users_good_def)
  have g: "mem_good ?w" using sample_world_good inv i by (simp add: mem_good_def users_good_def m)
  obtain u where u: "user_map (mw_users ?w) ''1'' = Some u" "u_role u = RoleAdmin"
    by (simp add: m) (auto simp: sample_users_def user_map_def UserStore.BanUser_def write_byid_def Create_def
        NewMemoryUserStore_def sample_user_def)
  have s: "(mod_step sample_service)\<^sup>*\<^sup>* ?w (snd (UnmuteUser sample_service ''x'' ''1'' ''r'' ''m'' ?w))"
    by (rule mod_step_star, rule step_unmute, rule surjective_pairing)
  from moderation_spares_admins [OF sample_service_def s g u] u show ?thesis by blast
qed

end
