(* ===== verification/RateLimiter.thy ===== *)
theory RateLimiter
  imports Prelude "HOL-Library.AList"
begin

text \<open>
  \<open>service/danmaku.go\<close>, lines 46 to 88: the in-memory rate limiter. Its map is an association
  list with distinct keys, so that its size is the length. The map is cleaned of old entries
  when it has grown by more than 1000; \<open>allow_plain\<close> is the limiter that never cleans, and the
  two answer alike on every run of a clock that does not go back.
\<close>

record rate_limiter =
  rl_last :: "(string \<times> time) list"
  rl_interval :: duration
  rl_clean_count :: int

text \<open>The interval is computed from the configured rate in floating point and is a parameter.\<close>

definition newRateLimiter :: "duration \<Rightarrow> rate_limiter" where
  "newRateLimiter interval = \<lparr>rl_last = [], rl_interval = interval, rl_clean_count = 0\<rparr>"

definition clean_up :: "time \<Rightarrow> rate_limiter \<Rightarrow> rate_limiter" where
  "clean_up now rl =
     (let size = int (length (rl_last rl)) in
      if 1000 < size \<and> 1000 < size - rl_clean_count rl
      then let threshold = now + i64 (i64 (- rl_interval rl) * 2);
               prev = filter (\<lambda>(uid, t). \<not> t < threshold) (rl_last rl)
           in rl\<lparr>rl_last := prev, rl_clean_count := int (length prev)\<rparr>
      else rl)"

definition Allow :: "time \<Rightarrow> string \<Rightarrow> rate_limiter \<Rightarrow> bool \<times> rate_limiter" where
  "Allow now user_id rl =
     (if rl_interval rl \<le> 0 then (True, rl)
      else case map_of (rl_last rl) user_id of
        Some prev \<Rightarrow>
          if time_sub now prev < rl_interval rl then (False, rl)
          else (True, clean_up now (rl\<lparr>rl_last := AList.update user_id now (rl_last rl)\<rparr>))
      | None \<Rightarrow> (True, clean_up now (rl\<lparr>rl_last := AList.update user_id now (rl_last rl)\<rparr>)))"

text \<open>The specification: the instants of the last admissions, and nothing else.\<close>

definition allow_plain :: "duration \<Rightarrow> time \<Rightarrow> string \<Rightarrow> (string \<rightharpoonup> time) \<Rightarrow> bool \<times> (string \<rightharpoonup> time)" where
  "allow_plain interval now u m =
     (if interval \<le> 0 then (True, m)
      else case m u of
        Some prev \<Rightarrow> if now - prev < interval then (False, m) else (True, m(u \<mapsto> now))
      | None \<Rightarrow> (True, m(u \<mapsto> now)))"

fun run_limiter :: "(time \<times> string) list \<Rightarrow> rate_limiter \<Rightarrow> bool list" where
  "run_limiter [] rl = []"
| "run_limiter ((now, u) # cs) rl = (let (b, rl') = Allow now u rl in b # run_limiter cs rl')"

fun run_plain :: "duration \<Rightarrow> (time \<times> string) list \<Rightarrow> (string \<rightharpoonup> time) \<Rightarrow> bool list" where
  "run_plain interval [] m = []"
| "run_plain interval ((now, u) # cs) m =
     (let (b, m') = allow_plain interval now u m in b # run_plain interval cs m')"

section \<open>Cleaning is invisible\<close>

text \<open>
  The relation between the two: the limiter's entries are the specification's, except that an
  entry at least two intervals before \<open>now\<close> may be missing.
\<close>

definition forgets_old :: "time \<Rightarrow> rate_limiter \<Rightarrow> (string \<rightharpoonup> time) \<Rightarrow> bool" where
  "forgets_old now rl m \<longleftrightarrow> distinct (map fst (rl_last rl)) \<and>
     (\<forall>u t. map_of (rl_last rl) u = Some t \<longrightarrow> m u = Some t) \<and>
     (\<forall>u t. m u = Some t \<and> map_of (rl_last rl) u = None \<longrightarrow> t \<le> now - 2 * rl_interval rl)"

lemma forgets_old_later: "forgets_old now rl m \<Longrightarrow> now \<le> later \<Longrightarrow> forgets_old later rl m"
  by (fastforce simp: forgets_old_def)

lemma map_of_filter_distinct:
  "distinct (map fst xs) \<Longrightarrow>
   map_of (filter P xs) k = (case map_of xs k of Some v \<Rightarrow> if P (k, v) then Some v else None | None \<Rightarrow> None)"
  by (induction xs) (auto simp: map_of_eq_None_iff image_iff split: option.splits)

lemma distinct_filter_keys: "distinct (map fst xs) \<Longrightarrow> distinct (map fst (filter P xs))"
  by (induction xs) auto

lemma clean_up_forgets:
  assumes "forgets_old now rl m" and "0 < rl_interval rl" and "rl_interval rl < 2 ^ 62"
  shows "forgets_old now (clean_up now rl) m" and "rl_interval (clean_up now rl) = rl_interval rl"
proof -
  have "i64 (- rl_interval rl) = - rl_interval rl" using assms(2,3) by (intro i64_id) auto
  moreover have "i64 (- rl_interval rl * 2) = - rl_interval rl * 2" using assms(2,3) by (intro i64_id) auto
  ultimately have th: "now + i64 (i64 (- rl_interval rl) * 2) = now - 2 * rl_interval rl" by simp
  have d: "distinct (map fst (rl_last rl))" using assms(1) by (simp add: forgets_old_def)
  show "forgets_old now (clean_up now rl) m"
    using assms(1) d
    by (auto simp: clean_up_def Let_def th forgets_old_def distinct_filter_keys map_of_filter_distinct
        split: option.splits if_splits)
  show "rl_interval (clean_up now rl) = rl_interval rl" by (simp add: clean_up_def Let_def)
qed

lemma forgets_old_update:
  assumes "forgets_old now rl m"
  shows "forgets_old now (rl\<lparr>rl_last := AList.update u now (rl_last rl)\<rparr>) (m(u \<mapsto> now))"
  using assms by (auto simp: forgets_old_def update_conv' distinct_update)

lemma Allow_plain:
  assumes "forgets_old now rl m" and "0 < rl_interval rl" and "rl_interval rl < 2 ^ 62"
  shows "fst (Allow now u rl) = fst (allow_plain (rl_interval rl) now u m) \<and>
    forgets_old now (snd (Allow now u rl)) (snd (allow_plain (rl_interval rl) now u m)) \<and>
    rl_interval (snd (Allow now u rl)) = rl_interval rl"
proof -
  let ?rl = "rl\<lparr>rl_last := AList.update u now (rl_last rl)\<rparr>"
  have sub: "time_sub now prev < rl_interval rl \<longleftrightarrow> now - prev < rl_interval rl" for prev
    using assms(2,3) by (intro time_sub_less) auto
  have up: "forgets_old now (clean_up now ?rl) (m(u \<mapsto> now))" "rl_interval (clean_up now ?rl) = rl_interval rl"
    using clean_up_forgets [OF forgets_old_update [OF assms(1)]] assms(2,3) by simp_all
  show ?thesis
  proof (cases "map_of (rl_last rl) u")
    case None
    then have "case m u of None \<Rightarrow> True | Some t \<Rightarrow> \<not> now - t < rl_interval rl"
      using assms(1,2) by (force simp: forgets_old_def split: option.split)
    with None assms(2) up show ?thesis
      by (auto simp: Allow_def allow_plain_def split: option.splits)
  next
    case (Some prev)
    then have "m u = Some prev" using assms(1) by (simp add: forgets_old_def)
    with Some assms up show ?thesis by (auto simp: Allow_def allow_plain_def sub)
  qed
qed

lemma run_limiter_plain:
  "forgets_old now rl m \<Longrightarrow> 0 < rl_interval rl \<Longrightarrow> rl_interval rl < 2 ^ 62 \<Longrightarrow>
   sorted (now # map fst cs) \<Longrightarrow> run_limiter cs rl = run_plain (rl_interval rl) cs m"
proof (induction cs arbitrary: now rl m)
  case (Cons c cs)
  obtain t u where c: "c = (t, u)" by fastforce
  from Cons.prems(1,4) c have f: "forgets_old t rl m" by (auto intro: forgets_old_later)
  note a = Allow_plain [OF f Cons.prems(2,3), of u]
  obtain b rl' b' m' where r: "Allow t u rl = (b, rl')" "allow_plain (rl_interval rl) t u m = (b', m')"
    by fastforce
  have "sorted (t # map fst cs)" using Cons.prems(4) c by simp
  with Cons.IH [of t rl' m'] a r Cons.prems(2,3) show ?case by (simp add: c)
qed simp

lemma run_limiter_off: "rl_interval rl \<le> 0 \<Longrightarrow> run_limiter cs rl = replicate (length cs) True"
  by (induction cs rl rule: run_limiter.induct) (auto simp: Allow_def)

lemma length_run_plain [simp]: "length (run_plain iv cs m) = length cs"
  by (induction iv cs m rule: run_plain.induct) (auto split: prod.split)

lemma run_plain_spacing_first:
  "m u = Some t \<Longrightarrow> 0 < iv \<Longrightarrow> sorted (t # map fst cs) \<Longrightarrow> j < length cs \<Longrightarrow> snd (cs ! j) = u \<Longrightarrow>
   run_plain iv cs m ! j \<Longrightarrow> iv \<le> fst (cs ! j) - t"
proof (induction cs arbitrary: m t j)
  case (Cons c cs)
  obtain n v where c: "c = (n, v)" by fastforce
  obtain b m' where r: "allow_plain iv n v m = (b, m')" by fastforce
  show ?case
  proof (cases j)
    case 0
    with Cons.prems c r show ?thesis by (auto simp: allow_plain_def split: if_splits)
  next
    case (Suc k)
    have run: "run_plain iv cs m' ! k" using Cons.prems(6) c r Suc by simp
    have sc: "sorted (n # map fst cs)" and tn: "t \<le> n" using Cons.prems(3) c by auto
    have k: "k < length cs" "snd (cs ! k) = u" using Cons.prems(4,5) Suc by auto
    obtain t' where t': "m' u = Some t'" "t \<le> t'" "t' \<le> n"
      using r Cons.prems(1,2) tn by (cases "v = u") (auto simp: allow_plain_def split: if_splits option.splits)
    have "sorted (t' # map fst cs)" using sc t'(3) by auto
    from Cons.IH [OF t'(1) Cons.prems(2) this k run] t'(2) Suc show ?thesis by simp
  qed
qed simp

lemma run_plain_spacing:
  "0 < iv \<Longrightarrow> sorted (map fst cs) \<Longrightarrow> i < j \<Longrightarrow> j < length cs \<Longrightarrow> snd (cs ! i) = snd (cs ! j) \<Longrightarrow>
   run_plain iv cs m ! i \<Longrightarrow> run_plain iv cs m ! j \<Longrightarrow> iv \<le> fst (cs ! j) - fst (cs ! i)"
proof (induction cs arbitrary: m i j)
  case (Cons c cs)
  obtain n v where c: "c = (n, v)" by fastforce
  obtain b m' where r: "allow_plain iv n v m = (b, m')" by fastforce
  obtain k where j: "j = Suc k" using Cons.prems(3) by (cases j) auto
  show ?case
  proof (cases i)
    case 0
    with Cons.prems(1,6) c r have "m' v = Some n"
      by (auto simp: allow_plain_def split: if_splits option.splits)
    from run_plain_spacing_first [where m = m', OF this Cons.prems(1), of cs k] Cons.prems c r j 0
    show ?thesis by simp
  next
    case (Suc h)
    with Cons.IH [of h k m'] Cons.prems c r j show ?thesis by simp
  qed
qed simp

section \<open>Properties\<close>

text \<open>
  Property C39 (the cleaning of the limiter's map changes no answer). On every sequence of calls
  at instants that do not decrease, the limiter answers like the one that remembers every
  user's last admission for ever.
\<close>

theorem rate_limiter_refines:
  assumes "0 < interval" and "interval < 2 ^ 62" and "sorted (map fst calls)"
  shows "run_limiter calls (newRateLimiter interval) = run_plain interval calls Map.empty"
proof (cases calls)
  case (Cons c cs)
  have "forgets_old (fst c) (newRateLimiter interval) Map.empty"
    by (simp add: forgets_old_def newRateLimiter_def)
  moreover have "sorted (fst c # map fst calls)" using assms(3) Cons by simp
  ultimately show ?thesis
    using run_limiter_plain [of "fst c" "newRateLimiter interval" Map.empty calls] assms(1,2)
    by (simp add: newRateLimiter_def)
qed simp

theorem rate_limiter_refines_witness:
  "run_limiter [(0, ''u''), (5, ''u''), (10, ''u'')] (newRateLimiter 10) = [True, False, True]"
  using rate_limiter_refines [of 10 "[(0, ''u''), (5, ''u''), (10, ''u'')]"]
  by (simp add: allow_plain_def)

text \<open>
  Corollary (the limit is kept). Two calls of the same user that are both admitted are at least
  the interval apart, whatever happens in between, cleaning included.
\<close>

theorem admissions_spaced:
  assumes "0 < interval" and "interval < 2 ^ 62" and "sorted (map fst calls)"
    and "i < j" and "j < length calls" and "snd (calls ! i) = snd (calls ! j)"
    and "run_limiter calls (newRateLimiter interval) ! i"
    and "run_limiter calls (newRateLimiter interval) ! j"
  shows "interval \<le> fst (calls ! j) - fst (calls ! i)"
proof (rule run_plain_spacing [OF assms(1,3-6)])
  have "forgets_old (fst (calls ! 0)) (newRateLimiter interval) Map.empty"
    by (simp add: forgets_old_def newRateLimiter_def)
  moreover have "sorted (fst (calls ! 0) # map fst calls)" using assms(3) by (cases calls) auto
  ultimately have e: "run_limiter calls (newRateLimiter interval) = run_plain interval calls Map.empty"
    using run_limiter_plain [of "fst (calls ! 0)" "newRateLimiter interval" Map.empty calls] assms(1,2)
    by (simp add: newRateLimiter_def)
  show "run_plain interval calls Map.empty ! i" "run_plain interval calls Map.empty ! j"
    using assms(7,8) by (simp_all add: e)
qed

theorem admissions_spaced_witness:
  "(10::int) \<le> fst ([(0, ''u''), (3, ''v''), (12, ''u'')] ! 2) - fst ([(0, ''u''), (3, ''v''), (12, ''u'')] ! 0)"
  by (rule admissions_spaced [of 10 "[(0, ''u''), (3, ''v''), (12, ''u'')]" 0 2])
    (simp_all add: Allow_def newRateLimiter_def clean_up_def time_sub_def Let_def)

end
