(* ===== verification/DanmakuService.thy ===== *)
theory DanmakuService
  imports Moderation RateLimiter RoomService
begin

text \<open>
  \<open>service/danmaku.go\<close>: the sending of a danmaku, from the WebSocket message or the HTTP request
  to the store, the buffer or Kafka, and to the room. The world contains the moderation
  service's: its danmaku store is the one that danmaku are written to, its list of messages is
  what the hub is asked to broadcast. A broadcast that goes through \<open>BroadcastToRoom\<close> is an
  entry of that list. The result is \<open>None\<close> where the program would panic.
\<close>

record create_request =
  cr_content :: string
  cr_user_id :: string
  cr_room_id :: string
  cr_color :: string
  cr_type :: string
  cr_font_size :: int
  cr_request_id :: string

definition empty_request :: create_request where
  "empty_request = \<lparr>cr_content = '''', cr_user_id = '''', cr_room_id = '''', cr_color = '''',
     cr_type = '''', cr_font_size = 0, cr_request_id = ''''\<rparr>"

text \<open>
  \<open>ds_produce\<close> is the Kafka producer (\<open>None\<close>: not configured), \<open>ds_chan_cap\<close> the capacity of
  \<open>danmakuChan\<close> (\<open>None\<close>: not created), \<open>ds_status\<close> the room status getter.
\<close>

record ('u, 'd, 'p, 'a, 'm, 'r) danmaku_service =
  ds_store :: "'d store_ops"
  ds_chan_cap :: "nat option"
  ds_limited :: bool
  ds_produce :: "(danmaku \<Rightarrow> go_error option) option"
  ds_status :: "(string \<Rightarrow> 'r \<Rightarrow> go_error + string) option"
  ds_moderation :: "('u, 'd, 'p, 'a, 'm) mod_service option"

record ('u, 'd, 'p, 'a, 'm, 'r) dm_world =
  dw_mod :: "('u, 'd, 'p, 'a, 'm) mod_world"
  dw_rooms :: 'r
  dw_chan :: "danmaku list"
  dw_produced :: "danmaku list"
  dw_limiter :: rate_limiter
  dw_accepting :: bool
  dw_inflight :: int

definition NewDanmakuService ::
  "'d store_ops \<Rightarrow> int \<Rightarrow> (string \<Rightarrow> 'r \<Rightarrow> go_error + string) option \<Rightarrow> (danmaku \<Rightarrow> go_error option) option
   \<Rightarrow> ('u, 'd, 'p, 'a, 'm) mod_service option \<Rightarrow> ('u, 'd, 'p, 'a, 'm, 'r) danmaku_service" where
  "NewDanmakuService st async_buffer_size status produce mods =
     \<lparr>ds_store = st,
      ds_chan_cap = (if produce = None \<and> 0 < async_buffer_size then Some (nat async_buffer_size) else None),
      ds_limited = True, ds_produce = produce, ds_status = status, ds_moderation = mods\<rparr>"

section \<open>Checks\<close>

definition validateRoomForSend ::
  "('u, 'd, 'p, 'a, 'm, 'r) danmaku_service \<Rightarrow> string \<Rightarrow> 'r \<Rightarrow> go_error option" where
  "validateRoomForSend sv room_id rs =
     (case ds_status sv of
        None \<Rightarrow> None
      | Some get \<Rightarrow>
          (case get room_id rs of
             Inl e \<Rightarrow>
               if errors_is e ErrRoomNotFound then Some ErrRoomNotFound
               else Some (Errorf '''' ErrPersistenceFailed ('': room status lookup: '' @ error_text e))
           | Inr status \<Rightarrow>
               if status = RoomStatusLive then None
               else if status = '''' then Some ErrRoomNotFound
               else if status = RoomStatusBanned then Some ErrRoomBanned
               else Some ErrRoomNotLive))"

definition roomSendErrorCode :: "go_error \<Rightarrow> string" where
  "roomSendErrorCode e =
     (if errors_is e ErrRoomNotFound then ''room_not_found''
      else if errors_is e ErrRoomBanned then ''room_banned''
      else if errors_is e ErrRoomNotLive then ''room_not_live''
      else if errors_is e ErrPersistenceQueueFull \<or> errors_is e ErrPersistenceFailed
      then ''persistence_unavailable''
      else if errors_is e ErrContentBlocked then ''content_blocked''
      else if errors_is e ErrMuted then ''muted''
      else if errors_is e ErrUserBanned then ''user_banned''
      else ''validation_error'')"

definition valid_types :: "string list" where
  "valid_types = [''scroll'', ''top'', ''bottom'', ''reverse'']"

definition validate :: "create_request \<Rightarrow> go_error option" where
  "validate req =
     (if TrimSpace (cr_content req) = '''' then Some (ErrNew ''content cannot be empty'')
      else if 500 < length (cr_content req) then Some (ErrNew ''content cannot exceed 500 characters'')
      else if TrimSpace (cr_user_id req) = '''' then Some (ErrNew ''user_id cannot be empty'')
      else if TrimSpace (cr_room_id req) = '''' then Some (ErrNew ''room_id cannot be empty'')
      else if cr_type req \<noteq> '''' \<and> cr_type req \<notin> set valid_types
      then Some (ErrNew ''type must be one of scroll/top/bottom/reverse'')
      else if cr_font_size req \<noteq> 0 \<and> cr_font_size req \<noteq> 18 \<and> cr_font_size req \<noteq> 25 \<and> cr_font_size req \<noteq> 36
      then Some (ErrNew ''font_size must be 18/25/36'')
      else if cr_color req \<noteq> '''' \<and> \<not> HasPrefix (cr_color req) ''#''
      then Some (ErrNew ''color must start with #, e.g. #FFFFFF'')
      else None)"

section \<open>Building and persisting\<close>

definition buildDanmaku :: "string \<Rightarrow> time \<Rightarrow> create_request \<Rightarrow> danmaku" where
  "buildDanmaku new_id now req =
     \<lparr>d_id = new_id, d_content = cr_content req,
      d_color = (if cr_color req = '''' then ''#ffffff'' else cr_color req),
      d_type = (if cr_type req = '''' then ''scroll'' else cr_type req),
      d_font_size = (if cr_font_size req \<le> 0 then 25 else cr_font_size req),
      d_room_id = cr_room_id req, d_timestamp = truncate_ms now, d_user_id = cr_user_id req,
      d_status = DanmakuStatusApproved, d_reviewed_by = '''', d_reviewed_at = None,
      d_review_reason = ''''\<rparr>"

definition put_store :: "'d \<Rightarrow> ('u, 'd, 'p, 'a, 'm, 'r) dm_world \<Rightarrow> ('u, 'd, 'p, 'a, 'm, 'r) dm_world" where
  "put_store s w = w\<lparr>dw_mod := (dw_mod w)\<lparr>mw_danmaku := s\<rparr>\<rparr>"

definition persistDanmaku ::
  "('u, 'd, 'p, 'a, 'm, 'r) danmaku_service \<Rightarrow> danmaku \<Rightarrow> ('u, 'd, 'p, 'a, 'm, 'r) dm_world
   \<Rightarrow> (go_error + string) \<times> ('u, 'd, 'p, 'a, 'm, 'r) dm_world" where
  "persistDanmaku sv dm w =
     (case ds_produce sv of
        Some produce \<Rightarrow>
          (case produce dm of
             Some e \<Rightarrow> (Inl (Errorf '''' ErrPersistenceFailed ('': kafka: '' @ error_text e)), w)
           | None \<Rightarrow> (Inr ''persisted'', w\<lparr>dw_produced := dw_produced w @ [dm]\<rparr>))
      | None \<Rightarrow>
          (case ds_chan_cap sv of
             Some cap \<Rightarrow>
               if length (dw_chan w) < cap then (Inr ''buffered'', w\<lparr>dw_chan := dw_chan w @ [dm]\<rparr>)
               else (Inl ErrPersistenceQueueFull, w)
           | None \<Rightarrow>
               (case st_Add (ds_store sv) dm (mw_danmaku (dw_mod w)) of
                  (Some e, s) \<Rightarrow> (Inl (Errorf '''' ErrPersistenceFailed ('': '' @ error_text e)), put_store s w)
                | (None, s) \<Rightarrow> (Inr ''persisted'', put_store s w))))"

text \<open>One turn of \<open>danmakuConsumer\<close>: take the oldest buffered danmaku, write it to the store.\<close>

definition danmakuConsumer ::
  "('u, 'd, 'p, 'a, 'm, 'r) danmaku_service \<Rightarrow> ('u, 'd, 'p, 'a, 'm, 'r) dm_world
   \<Rightarrow> ('u, 'd, 'p, 'a, 'm, 'r) dm_world" where
  "danmakuConsumer sv w =
     (case dw_chan w of
        [] \<Rightarrow> w
      | dm # rest \<Rightarrow>
          put_store (snd (st_Add (ds_store sv) dm (mw_danmaku (dw_mod w)))) (w\<lparr>dw_chan := rest\<rparr>))"

section \<open>Sending\<close>

text \<open>
  The verdict of the moderation service: an error, or whether the content is flagged. A check
  that fails counts as passed unless the service is in fail-closed mode.
\<close>

definition moderation_verdict ::
  "('u, 'd, 'p, 'a, 'm) mod_service \<Rightarrow> time \<Rightarrow> create_request \<Rightarrow> ('u, 'd, 'p, 'a, 'm) mod_world
   \<Rightarrow> (go_error + bool) option" where
  "moderation_verdict ms now req w =
     (let after_mute =
            (case CheckContent (ms_tables ms) (ms_automaton ms) (ms_auto_reject ms) (cr_content req) of
               None \<Rightarrow> None
             | Some c \<Rightarrow> Some (if cc_blocked c then Inl (Errorf '''' ErrContentBlocked ('': '' @ cc_word c))
                               else Inr (cc_flagged c)));
          after_ban =
            (case CheckMute ms now (cr_user_id req) (cr_room_id req) w of
               Inl e \<Rightarrow> if ms_fail_closed ms then Some (Inl e) else after_mute
             | Inr muted \<Rightarrow> if muted then Some (Inl ErrMuted) else after_mute)
      in case CheckUserBan ms (cr_user_id req) w of
           Inl e \<Rightarrow> if ms_fail_closed ms then Some (Inl e) else after_ban
         | Inr banned \<Rightarrow> if banned then Some (Inl ErrUserBanned) else after_ban)"

definition broadcast_new ::
  "danmaku \<Rightarrow> ('u, 'd, 'p, 'a, 'm, 'r) dm_world \<Rightarrow> ('u, 'd, 'p, 'a, 'm, 'r) dm_world" where
  "broadcast_new dm w =
     w\<lparr>dw_mod := (dw_mod w)\<lparr>mw_sent := mw_sent (dw_mod w) @ [(d_room_id dm, MsgBroadcast dm)]\<rparr>\<rparr>"

text \<open>Flagged content is persisted and not broadcast, all other content is both.\<close>

definition persist_and_send ::
  "('u, 'd, 'p, 'a, 'm, 'r) danmaku_service \<Rightarrow> bool \<Rightarrow> danmaku \<Rightarrow> ('u, 'd, 'p, 'a, 'm, 'r) dm_world
   \<Rightarrow> (go_error + danmaku \<times> string) \<times> ('u, 'd, 'p, 'a, 'm, 'r) dm_world" where
  "persist_and_send sv flagged built w =
     (let dm = built\<lparr>d_status := (if flagged then DanmakuStatusFlagged else DanmakuStatusApproved)\<rparr> in
      case persistDanmaku sv dm w of
        (Inl e, w) \<Rightarrow> (Inl e, w)
      | (Inr persistence, w) \<Rightarrow> (Inr (dm, persistence), if flagged then w else broadcast_new dm w))"

text \<open>The body of \<open>createAndBroadcast\<close> between the two updates of \<open>inflight\<close>.\<close>

definition create_body ::
  "('u, 'd, 'p, 'a, 'm, 'r) danmaku_service \<Rightarrow> string \<Rightarrow> (nat \<Rightarrow> time) \<Rightarrow> create_request
   \<Rightarrow> ('u, 'd, 'p, 'a, 'm, 'r) dm_world
   \<Rightarrow> ((go_error + danmaku \<times> string) \<times> ('u, 'd, 'p, 'a, 'm, 'r) dm_world) option" where
  "create_body sv new_id clk req w =
     (if \<not> dw_accepting w then Some (Inl (ErrNew ''service is shutting down''), w)
      else case validate req of
        Some e \<Rightarrow> Some (Inl e, w)
      | None \<Rightarrow>
          (let (allowed, rl) = (if ds_limited sv then Allow (clk 0) (cr_user_id req) (dw_limiter w)
                                else (True, dw_limiter w));
               w = w\<lparr>dw_limiter := rl\<rparr>
           in if \<not> allowed then Some (Inl (ErrNew ''sending too fast, please wait''), w)
              else case (case ds_moderation sv of None \<Rightarrow> Some (Inr False)
                         | Some ms \<Rightarrow> moderation_verdict ms (clk 1) req (dw_mod w)) of
                None \<Rightarrow> None
              | Some (Inl e) \<Rightarrow> Some (Inl e, w)
              | Some (Inr flagged) \<Rightarrow>
                  Some (persist_and_send sv flagged (buildDanmaku new_id (clk 2) req) w)))"

definition createAndBroadcast ::
  "('u, 'd, 'p, 'a, 'm, 'r) danmaku_service \<Rightarrow> string \<Rightarrow> (nat \<Rightarrow> time) \<Rightarrow> create_request
   \<Rightarrow> ('u, 'd, 'p, 'a, 'm, 'r) dm_world
   \<Rightarrow> ((go_error + danmaku \<times> string) \<times> ('u, 'd, 'p, 'a, 'm, 'r) dm_world) option" where
  "createAndBroadcast sv new_id clk req w =
     (case create_body sv new_id clk req (w\<lparr>dw_inflight := dw_inflight w + 1\<rparr>) of
        None \<Rightarrow> None
      | Some (res, w) \<Rightarrow> Some (res, w\<lparr>dw_inflight := dw_inflight w - 1\<rparr>))"

definition CreateDanmaku ::
  "('u, 'd, 'p, 'a, 'm, 'r) danmaku_service \<Rightarrow> string \<Rightarrow> (nat \<Rightarrow> time) \<Rightarrow> create_request
   \<Rightarrow> ('u, 'd, 'p, 'a, 'm, 'r) dm_world
   \<Rightarrow> ((go_error + danmaku) \<times> ('u, 'd, 'p, 'a, 'm, 'r) dm_world) option" where
  "CreateDanmaku sv new_id clk req w =
     (case validateRoomForSend sv (cr_room_id req) (dw_rooms w) of
        Some e \<Rightarrow> Some (Inl e, w)
      | None \<Rightarrow>
          (case createAndBroadcast sv new_id clk req w of
             None \<Rightarrow> None
           | Some (Inl e, w) \<Rightarrow> Some (Inl e, w)
           | Some (Inr (dm, persistence), w) \<Rightarrow> Some (Inr dm, w)))"

text \<open>
  \<open>json.Unmarshal\<close>: \<open>jd_envelope\<close> gives the type and the payload of a message that decodes as an
  envelope; \<open>jd_request\<close> decodes into a request that has values already and returns what it holds
  afterwards beside the error.
\<close>

record json_decoder =
  jd_envelope :: "string \<Rightarrow> (string \<times> string) option"
  jd_request :: "string \<Rightarrow> create_request \<Rightarrow> create_request \<times> go_error option"

definition failed_result :: "string \<Rightarrow> string \<Rightarrow> string \<Rightarrow> handle_result" where
  "failed_result request_id code reason =
     \<lparr>hr_request_id = request_id, hr_message_id = '''', hr_ok = False, hr_error_code = code,
      hr_reason = reason, hr_persistence = '''', hr_data = None\<rparr>"

definition HandleMessage ::
  "json_decoder \<Rightarrow> ('u, 'd, 'p, 'a, 'm, 'r) danmaku_service \<Rightarrow> string \<Rightarrow> (nat \<Rightarrow> time) \<Rightarrow> string \<Rightarrow> actor
   \<Rightarrow> string \<Rightarrow> ('u, 'd, 'p, 'a, 'm, 'r) dm_world
   \<Rightarrow> (handle_result \<times> ('u, 'd, 'p, 'a, 'm, 'r) dm_world) option" where
  "HandleMessage jd sv new_id clk room_id actor data w =
     (let data = (case jd_envelope jd data of
            Some (ty, payload) \<Rightarrow> if ty = ''danmaku'' then payload else data
          | None \<Rightarrow> data);
          req = (fst (jd_request jd data empty_request))\<lparr>cr_room_id := room_id\<rparr>
      in if \<not> a_authenticated actor
         then Some (failed_result (cr_request_id req) ''unauthorized'' ''authentication required'', w)
         else case validateRoomForSend sv room_id (dw_rooms w) of
           Some e \<Rightarrow> Some (failed_result (cr_request_id req) (roomSendErrorCode e) (error_text e), w)
         | None \<Rightarrow>
             (case jd_request jd data req of
                (req, Some e) \<Rightarrow>
                  Some (failed_result (cr_request_id req) ''validation_error'' (''invalid JSON: '' @ error_text e), w)
              | (req, None) \<Rightarrow>
                  (let req = req\<lparr>cr_room_id := room_id, cr_user_id := a_user_id actor\<rparr> in
                   case createAndBroadcast sv new_id clk req w of
                     None \<Rightarrow> None
                   | Some (Inl e, w) \<Rightarrow>
                       Some (failed_result (cr_request_id req) (roomSendErrorCode e) (error_text e), w)
                   | Some (Inr (dm, persistence), w) \<Rightarrow>
                       Some (\<lparr>hr_request_id = cr_request_id req, hr_message_id = d_id dm, hr_ok = True,
                         hr_error_code = '''', hr_reason = '''', hr_persistence = persistence,
                         hr_data = Some dm\<rparr>, w))))"

definition ListByRoom :: "('u, 'd, 'p, 'a, 'm, 'r) danmaku_service \<Rightarrow> string \<Rightarrow> int
  \<Rightarrow> ('u, 'd, 'p, 'a, 'm, 'r) dm_world \<Rightarrow> danmaku list option" where
  "ListByRoom sv room_id limit w = st_ListByRoom (ds_store sv) room_id limit (mw_danmaku (dw_mod w))"

definition QueryHistory :: "('u, 'd, 'p, 'a, 'm, 'r) danmaku_service \<Rightarrow> string \<Rightarrow> time \<Rightarrow> string \<Rightarrow> int
  \<Rightarrow> ('u, 'd, 'p, 'a, 'm, 'r) dm_world \<Rightarrow> go_error + danmaku list" where
  "QueryHistory sv room_id since_time last_id limit w =
     st_ListSince (ds_store sv) room_id since_time last_id limit (mw_danmaku (dw_mod w))"

definition PingStore :: "('u, 'd, 'p, 'a, 'm, 'r) danmaku_service \<Rightarrow> ('u, 'd, 'p, 'a, 'm, 'r) dm_world \<Rightarrow> bool" where
  "PingStore sv w = st_Ping (ds_store sv) (mw_danmaku (dw_mod w))"

definition HasKafkaConfig :: "('u, 'd, 'p, 'a, 'm, 'r) danmaku_service \<Rightarrow> bool" where
  "HasKafkaConfig sv = (ds_produce sv \<noteq> None)"

section \<open>Lemmas\<close>

lemma put_store_simps [simp]:
  "mw_danmaku (dw_mod (put_store s w)) = s" "mw_sent (dw_mod (put_store s w)) = mw_sent (dw_mod w)"
  "mw_users (dw_mod (put_store s w)) = mw_users (dw_mod w)"
  "mw_reports (dw_mod (put_store s w)) = mw_reports (dw_mod w)"
  "mw_mutes (dw_mod (put_store s w)) = mw_mutes (dw_mod w)"
  "mw_audit (dw_mod (put_store s w)) = mw_audit (dw_mod w)"
  "dw_chan (put_store s w) = dw_chan w" "dw_produced (put_store s w) = dw_produced w"
  "dw_rooms (put_store s w) = dw_rooms w" "dw_limiter (put_store s w) = dw_limiter w"
  "dw_accepting (put_store s w) = dw_accepting w" "dw_inflight (put_store s w) = dw_inflight w"
  by (simp_all add: put_store_def)

lemma broadcast_new_simps [simp]:
  "mw_danmaku (dw_mod (broadcast_new d w)) = mw_danmaku (dw_mod w)"
  "mw_sent (dw_mod (broadcast_new d w)) = mw_sent (dw_mod w) @ [(d_room_id d, MsgBroadcast d)]"
  "mw_users (dw_mod (broadcast_new d w)) = mw_users (dw_mod w)"
  "mw_reports (dw_mod (broadcast_new d w)) = mw_reports (dw_mod w)"
  "mw_mutes (dw_mod (broadcast_new d w)) = mw_mutes (dw_mod w)"
  "mw_audit (dw_mod (broadcast_new d w)) = mw_audit (dw_mod w)"
  "dw_chan (broadcast_new d w) = dw_chan w" "dw_produced (broadcast_new d w) = dw_produced w"
  "dw_rooms (broadcast_new d w) = dw_rooms w" "dw_limiter (broadcast_new d w) = dw_limiter w"
  "dw_accepting (broadcast_new d w) = dw_accepting w" "dw_inflight (broadcast_new d w) = dw_inflight w"
  by (simp_all add: broadcast_new_def)

text \<open>What a sending leaves alone, whether it succeeds or fails.\<close>

definition same_frame ::
  "('u, 'd, 'p, 'a, 'm, 'r) dm_world \<Rightarrow> ('u, 'd, 'p, 'a, 'm, 'r) dm_world \<Rightarrow> bool" where
  "same_frame w w' \<longleftrightarrow> dw_rooms w' = dw_rooms w \<and> dw_accepting w' = dw_accepting w \<and>
     dw_inflight w' = dw_inflight w \<and> mw_users (dw_mod w') = mw_users (dw_mod w) \<and>
     mw_reports (dw_mod w') = mw_reports (dw_mod w) \<and> mw_audit (dw_mod w') = mw_audit (dw_mod w) \<and>
     mw_mutes (dw_mod w') = mw_mutes (dw_mod w)"

text \<open>A danmaku is taken over by exactly one of Kafka, the buffer and the store.\<close>

definition taken ::
  "('u, 'd, 'p, 'a, 'm, 'r) danmaku_service \<Rightarrow> danmaku \<Rightarrow> ('u, 'd, 'p, 'a, 'm, 'r) dm_world
   \<Rightarrow> ('u, 'd, 'p, 'a, 'm, 'r) dm_world \<Rightarrow> bool" where
  "taken sv dm w w' \<longleftrightarrow>
     (if ds_produce sv \<noteq> None
      then dw_produced w' = dw_produced w @ [dm] \<and> dw_chan w' = dw_chan w \<and>
        mw_danmaku (dw_mod w') = mw_danmaku (dw_mod w)
      else case ds_chan_cap sv of
        Some cap \<Rightarrow> dw_produced w' = dw_produced w \<and> dw_chan w' = dw_chan w @ [dm] \<and>
          length (dw_chan w') \<le> cap \<and> mw_danmaku (dw_mod w') = mw_danmaku (dw_mod w)
      | None \<Rightarrow> dw_produced w' = dw_produced w \<and> dw_chan w' = dw_chan w \<and>
          st_Add (ds_store sv) dm (mw_danmaku (dw_mod w)) = (None, mw_danmaku (dw_mod w')))"

text \<open>Nothing is taken over; a store that fails may still have moved to another state.\<close>

definition not_taken ::
  "('u, 'd, 'p, 'a, 'm, 'r) danmaku_service \<Rightarrow> ('u, 'd, 'p, 'a, 'm, 'r) dm_world
   \<Rightarrow> ('u, 'd, 'p, 'a, 'm, 'r) dm_world \<Rightarrow> bool" where
  "not_taken sv w w' \<longleftrightarrow> dw_produced w' = dw_produced w \<and> dw_chan w' = dw_chan w \<and>
     mw_sent (dw_mod w') = mw_sent (dw_mod w) \<and>
     (mw_danmaku (dw_mod w') = mw_danmaku (dw_mod w) \<or>
      (\<exists>dm e. st_Add (ds_store sv) dm (mw_danmaku (dw_mod w)) = (Some e, mw_danmaku (dw_mod w'))))"

lemma persistDanmaku_effect:
  assumes "persistDanmaku sv dm w = (res, w')"
  shows "same_frame w w' \<and> dw_limiter w' = dw_limiter w \<and> mw_sent (dw_mod w') = mw_sent (dw_mod w) \<and>
    (case res of Inl e \<Rightarrow> not_taken sv w w' \<and>
        (errors_is e ErrPersistenceFailed \<or> errors_is e ErrPersistenceQueueFull)
     | Inr p \<Rightarrow> taken sv dm w w' \<and> p = (if ds_produce sv = None \<and> ds_chan_cap sv \<noteq> None then ''buffered'' else ''persisted''))"
  using assms
  by (auto simp: persistDanmaku_def same_frame_def taken_def not_taken_def
      split: option.splits if_splits prod.splits)

lemma broadcast_frame [simp]:
  "taken sv dm w (broadcast_new d w1) = taken sv dm w w1"
  "same_frame w (broadcast_new d w1) = same_frame w w1"
  by (simp_all add: taken_def same_frame_def split: option.split)

lemma persist_and_send_effect:
  assumes "persist_and_send sv flagged b w = (res, w')"
  shows "same_frame w w' \<and> dw_limiter w' = dw_limiter w \<and>
    (case res of Inl e \<Rightarrow> not_taken sv w w' \<and>
        (errors_is e ErrPersistenceFailed \<or> errors_is e ErrPersistenceQueueFull)
     | Inr (dm, p) \<Rightarrow> dm = b\<lparr>d_status := (if flagged then DanmakuStatusFlagged else DanmakuStatusApproved)\<rparr> \<and>
         taken sv dm w w' \<and>
         p = (if ds_produce sv = None \<and> ds_chan_cap sv \<noteq> None then ''buffered'' else ''persisted'') \<and>
         mw_sent (dw_mod w') = mw_sent (dw_mod w) @
           (if flagged then [] else [(d_room_id dm, MsgBroadcast dm)]))"
proof -
  let ?dm = "b\<lparr>d_status := (if flagged then DanmakuStatusFlagged else DanmakuStatusApproved)\<rparr>"
  obtain r w1 where p: "persistDanmaku sv ?dm w = (r, w1)" by fastforce
  note eff = persistDanmaku_effect [OF p]
  show ?thesis
  proof (cases r)
    case (Inl e)
    then have "res = Inl e" "w' = w1" using assms p by (simp_all add: persist_and_send_def Let_def)
    with eff Inl show ?thesis by simp
  next
    case (Inr q)
    then have "res = Inr (?dm, q)" "w' = (if flagged then w1 else broadcast_new ?dm w1)"
      using assms p by (simp_all add: persist_and_send_def Let_def)
    with eff Inr show ?thesis by (cases flagged) simp_all
  qed
qed

text \<open>The moderation service lets a request pass, flagged or not.\<close>

definition passes ::
  "('u, 'd, 'p, 'a, 'm, 'r) danmaku_service \<Rightarrow> time \<Rightarrow> create_request \<Rightarrow> ('u, 'd, 'p, 'a, 'm, 'r) dm_world
   \<Rightarrow> bool \<Rightarrow> bool" where
  "passes sv now req w flagged \<longleftrightarrow>
     (case ds_moderation sv of None \<Rightarrow> \<not> flagged
      | Some ms \<Rightarrow> moderation_verdict ms now req (dw_mod w) = Some (Inr flagged))"

lemma createAndBroadcast_cases:
  assumes "createAndBroadcast sv new_id clk req w = Some (res, w')"
  obtains rl e where "res = Inl e" "w' = w\<lparr>dw_limiter := rl\<rparr>"
      "\<not> (errors_is e ErrPersistenceFailed \<or> errors_is e ErrPersistenceQueueFull) \<or>
       (\<exists>ms. ds_moderation sv = Some ms \<and> moderation_verdict ms (clk 1) req (dw_mod w) = Some (Inl e))"
  | flagged rl w1 where "dw_accepting w" "validate req = None" "passes sv (clk 1) req w flagged"
      "ds_limited sv \<Longrightarrow> fst (Allow (clk 0) (cr_user_id req) (dw_limiter w))"
      "persist_and_send sv flagged (buildDanmaku new_id (clk 2) req)
         (w\<lparr>dw_inflight := dw_inflight w + 1, dw_limiter := rl\<rparr>) = (res, w1)"
      "w' = w1\<lparr>dw_inflight := dw_inflight w1 - 1\<rparr>"
proof -
  let ?w = "w\<lparr>dw_inflight := dw_inflight w + 1\<rparr>"
  from assms obtain w2 where b: "create_body sv new_id clk req ?w = Some (res, w2)"
    and w': "w' = w2\<lparr>dw_inflight := dw_inflight w2 - 1\<rparr>"
    by (auto simp: createAndBroadcast_def split: option.splits)
  obtain ok rl where al: "(if ds_limited sv then Allow (clk 0) (cr_user_id req) (dw_limiter ?w)
      else (True, dw_limiter ?w)) = (ok, rl)" by fastforce
  let ?verdict = "case ds_moderation sv of None \<Rightarrow> Some (Inr False)
    | Some ms \<Rightarrow> moderation_verdict ms (clk 1) req (dw_mod w)"
  have body: "create_body sv new_id clk req ?w =
      (if \<not> dw_accepting w then Some (Inl (ErrNew ''service is shutting down''), ?w)
       else case validate req of Some e \<Rightarrow> Some (Inl e, ?w)
       | None \<Rightarrow> if \<not> ok then Some (Inl (ErrNew ''sending too fast, please wait''), ?w\<lparr>dw_limiter := rl\<rparr>)
           else case ?verdict of None \<Rightarrow> None | Some (Inl e) \<Rightarrow> Some (Inl e, ?w\<lparr>dw_limiter := rl\<rparr>)
             | Some (Inr flagged) \<Rightarrow> Some (persist_and_send sv flagged (buildDanmaku new_id (clk 2) req)
                 (?w\<lparr>dw_limiter := rl\<rparr>)))"
    unfolding create_body_def al by (simp add: Let_def split: option.split)
  show ?thesis
  proof (cases "dw_accepting w \<and> validate req = None \<and> ok \<and> (\<exists>fl. ?verdict = Some (Inr fl))")
    case True
    then obtain fl where fl: "?verdict = Some (Inr fl)" by blast
    have "passes sv (clk 1) req w fl"
      using fl by (auto simp: passes_def split: option.splits)
    moreover have "persist_and_send sv fl (buildDanmaku new_id (clk 2) req)
         (w\<lparr>dw_inflight := dw_inflight w + 1, dw_limiter := rl\<rparr>) = (res, w2)"
      using b True fl by (simp add: body)
    moreover have "ds_limited sv \<Longrightarrow> fst (Allow (clk 0) (cr_user_id req) (dw_limiter w))"
      using al True by simp
    ultimately show ?thesis using that(2) True w' by blast
  next
    case False
    have lim: "w\<lparr>dw_inflight := dw_inflight w\<rparr> = w\<lparr>dw_limiter := dw_limiter w\<rparr>" by simp
    show ?thesis
    proof (cases "dw_accepting w \<and> validate req = None \<and> ok")
      case True
      then obtain e where e: "?verdict = Some (Inl e)"
        using False b by (auto simp: body split: option.splits sum.splits)
      then obtain ms where "ds_moderation sv = Some ms" by (auto split: option.splits)
      moreover have "res = Inl e" "w' = w\<lparr>dw_limiter := rl\<rparr>" using True b w' e by (auto simp: body)
      ultimately show ?thesis using that(1) e by simp
    next
      case stop: False
      then consider "\<not> dw_accepting w" | e where "dw_accepting w" "validate req = Some e"
        | "dw_accepting w" "validate req = None" "\<not> ok" by (cases "validate req") auto
      then show ?thesis
      proof cases
        case 1
        then have "res = Inl (ErrNew ''service is shutting down'')" "w' = w\<lparr>dw_limiter := dw_limiter w\<rparr>"
          using b w' by (auto simp: body)
        then show ?thesis by (rule that(1)) simp
      next
        case 2
        then have "res = Inl e" "w' = w\<lparr>dw_limiter := dw_limiter w\<rparr>" using b w' by (auto simp: body)
        moreover have "\<not> errors_is e t" if "is_sentinel t" for t
          using 2(2) that by (auto simp: validate_def split: if_splits)
        ultimately show ?thesis by (intro that(1) [of e "dw_limiter w"]) simp_all
      next
        case 3
        then have "res = Inl (ErrNew ''sending too fast, please wait'')" "w' = w\<lparr>dw_limiter := rl\<rparr>"
          using b w' by (auto simp: body)
        then show ?thesis by (rule that(1)) simp
      qed
    qed
  qed
qed

end
