(* ===== verification/Sending.thy ===== *)
theory Sending
  imports DanmakuService
begin

text \<open>
  What the sending of a danmaku guarantees: the conditions and effects of \<open>CreateDanmaku\<close>, the
  moderation gate over the memory stores, the identity that \<open>HandleMessage\<close> enforces, and the
  agreement of what clients show with the statuses that sending, draining and moderation leave.
\<close>

section \<open>Lemmas\<close>

text \<open>The place a danmaku would go to accepts it.\<close>

definition accepts ::
  "('u, 'd, 'p, 'a, 'm, 'r) danmaku_service \<Rightarrow> danmaku \<Rightarrow> ('u, 'd, 'p, 'a, 'm, 'r) dm_world \<Rightarrow> bool" where
  "accepts sv dm w = (case ds_produce sv of
       Some produce \<Rightarrow> produce dm = None
     | None \<Rightarrow> (case ds_chan_cap sv of
         Some cap \<Rightarrow> length (dw_chan w) < cap
       | None \<Rightarrow> fst (st_Add (ds_store sv) dm (mw_danmaku (dw_mod w))) = None))"

definition verdict_status :: "bool \<Rightarrow> string" where
  "verdict_status flagged = (if flagged then DanmakuStatusFlagged else DanmakuStatusApproved)"

text \<open>The danmaku a request turns into, and the conditions under which it is let through.\<close>

definition let_through ::
  "('u, 'd, 'p, 'a, 'm, 'r) danmaku_service \<Rightarrow> (nat \<Rightarrow> time) \<Rightarrow> create_request
   \<Rightarrow> ('u, 'd, 'p, 'a, 'm, 'r) dm_world \<Rightarrow> bool \<Rightarrow> bool" where
  "let_through sv clk req w flagged \<longleftrightarrow> dw_accepting w \<and> validate req = None \<and>
     (ds_limited sv \<longrightarrow> fst (Allow (clk 0) (cr_user_id req) (dw_limiter w))) \<and>
     passes sv (clk 1) req w flagged"

definition sent_danmaku :: "string \<Rightarrow> time \<Rightarrow> create_request \<Rightarrow> bool \<Rightarrow> danmaku" where
  "sent_danmaku new_id now req flagged = (buildDanmaku new_id now req)\<lparr>d_status := verdict_status flagged\<rparr>"

lemma sent_danmaku_simps [simp]:
  "d_id (sent_danmaku i t req f) = i" "d_user_id (sent_danmaku i t req f) = cr_user_id req"
  "d_room_id (sent_danmaku i t req f) = cr_room_id req" "d_content (sent_danmaku i t req f) = cr_content req"
  "d_status (sent_danmaku i t req f) = verdict_status f"
  by (simp_all add: sent_danmaku_def buildDanmaku_def)

lemma verdict_status_iff [simp]:
  "verdict_status f = DanmakuStatusFlagged \<longleftrightarrow> f" "verdict_status f = DanmakuStatusApproved \<longleftrightarrow> \<not> f"
  "verdict_status f \<noteq> ''''"
  by (simp_all add: verdict_status_def)

definition sent_to :: "string \<Rightarrow> danmaku \<Rightarrow> bool \<Rightarrow> (string \<times> envelope) list" where
  "sent_to room dm flagged = (if flagged then [] else [(room, MsgBroadcast dm)])"

text \<open>The outcome of \<open>createAndBroadcast\<close>: taken over and announced, or nothing at all.\<close>

definition send_outcome ::
  "('u, 'd, 'p, 'a, 'm, 'r) danmaku_service \<Rightarrow> string \<Rightarrow> (nat \<Rightarrow> time) \<Rightarrow> create_request
   \<Rightarrow> ('u, 'd, 'p, 'a, 'm, 'r) dm_world \<Rightarrow> danmaku option \<Rightarrow> ('u, 'd, 'p, 'a, 'm, 'r) dm_world \<Rightarrow> bool" where
  "send_outcome sv new_id clk req w result w' \<longleftrightarrow> same_frame w w' \<and>
     (case result of
        None \<Rightarrow> not_taken sv w w'
      | Some dm \<Rightarrow> \<exists>flagged. let_through sv clk req w flagged \<and>
          dm = sent_danmaku new_id (clk 2) req flagged \<and> taken sv dm w w' \<and>
          mw_sent (dw_mod w') = mw_sent (dw_mod w) @ sent_to (cr_room_id req) dm flagged)"

lemma same_frame_refl [simp]: "same_frame w w" "same_frame w (w\<lparr>dw_limiter := rl\<rparr>)"
  by (simp_all add: same_frame_def)

lemma not_taken_refl [simp]: "not_taken sv w w" "not_taken sv w (w\<lparr>dw_limiter := rl\<rparr>)"
  by (simp_all add: not_taken_def)

lemma createAndBroadcast_outcome:
  assumes "createAndBroadcast sv new_id clk req w = Some (res, w')"
  shows "send_outcome sv new_id clk req w (case res of Inl e \<Rightarrow> None | Inr (dm, p) \<Rightarrow> Some dm) w'"
  using assms
proof (cases rule: createAndBroadcast_cases)
  case (1 rl e)
  then show ?thesis by (simp add: send_outcome_def)
next
  case (2 flagged rl w1)
  let ?w = "w\<lparr>dw_inflight := dw_inflight w + 1, dw_limiter := rl\<rparr>"
  note eff = persist_and_send_effect [OF 2(5)]
  have fr: "same_frame w w'" using eff 2(6) by (simp add: same_frame_def)
  show ?thesis
  proof (cases res)
    case (Inl e)
    have "not_taken sv ?w w1" using eff Inl by simp
    then have "not_taken sv w w'" using 2(6) by (simp add: not_taken_def)
    with fr Inl show ?thesis by (simp add: send_outcome_def)
  next
    case (Inr dp)
    obtain dm p where dp: "dp = (dm, p)" by fastforce
    have dm: "dm = sent_danmaku new_id (clk 2) req flagged" and "taken sv dm ?w w1"
      and s: "mw_sent (dw_mod w1) = mw_sent (dw_mod ?w) @ (if flagged then [] else [(d_room_id dm, MsgBroadcast dm)])"
      using eff Inr dp unfolding sent_danmaku_def verdict_status_def by auto
    have "taken sv dm w w'"
      using \<open>taken sv dm ?w w1\<close> 2(6) by (auto simp: taken_def split: option.splits if_splits)
    moreover have "mw_sent (dw_mod w') = mw_sent (dw_mod w) @ sent_to (cr_room_id req) dm flagged"
      using s 2(6) dm by (simp add: sent_to_def)
    moreover have "let_through sv clk req w flagged"
      using 2(1-4) by (simp add: let_through_def)
    ultimately show ?thesis using fr dm Inr dp by (auto simp: send_outcome_def)
  qed
qed

lemma persistDanmaku_accepts:
  "accepts sv dm w \<Longrightarrow> \<exists>p w'. persistDanmaku sv dm w = (Inr p, w')"
  by (auto simp: accepts_def persistDanmaku_def split: option.splits prod.splits)

lemma createAndBroadcast_succeeds:
  assumes "let_through sv clk req w flagged"
    and "accepts sv (sent_danmaku new_id (clk 2) req flagged) w"
  shows "\<exists>p w'. createAndBroadcast sv new_id clk req w =
    Some (Inr (sent_danmaku new_id (clk 2) req flagged, p), w')"
proof -
  let ?w = "w\<lparr>dw_inflight := dw_inflight w + 1\<rparr>"
  obtain ok rl where al: "(if ds_limited sv then Allow (clk 0) (cr_user_id req) (dw_limiter ?w)
      else (True, dw_limiter ?w)) = (ok, rl)" by fastforce
  then have ok: ok using assms(1) by (auto simp: let_through_def split: if_splits)
  have v: "(case ds_moderation sv of None \<Rightarrow> Some (Inr False)
      | Some ms \<Rightarrow> moderation_verdict ms (clk 1) req (dw_mod w)) = Some (Inr flagged)"
    using assms(1) by (auto simp: let_through_def passes_def split: option.splits)
  let ?dm = "sent_danmaku new_id (clk 2) req flagged"
  have "accepts sv ?dm (?w\<lparr>dw_limiter := rl\<rparr>)"
    using assms(2) by (simp add: accepts_def split: option.splits)
  from persistDanmaku_accepts [OF this] obtain p w1 where
    p: "persistDanmaku sv ?dm (?w\<lparr>dw_limiter := rl\<rparr>) = (Inr p, w1)" by blast
  then have "persist_and_send sv flagged (buildDanmaku new_id (clk 2) req) (?w\<lparr>dw_limiter := rl\<rparr>) =
      (Inr (?dm, p), if flagged then w1 else broadcast_new ?dm w1)"
    by (simp add: persist_and_send_def sent_danmaku_def verdict_status_def Let_def)
  moreover have "dw_accepting w" "validate req = None" using assms(1) by (simp_all add: let_through_def)
  ultimately have "create_body sv new_id clk req ?w =
      Some (Inr (?dm, p), if flagged then w1 else broadcast_new ?dm w1)"
    unfolding create_body_def al using ok v by (cases "ds_moderation sv") (auto simp: Let_def)
  then show ?thesis by (simp add: createAndBroadcast_def)
qed

lemma CreateDanmaku_sends:
  assumes "CreateDanmaku sv new_id clk req w = Some (res, w')"
  shows "send_outcome sv new_id clk req w (case res of Inl e \<Rightarrow> None | Inr dm \<Rightarrow> Some dm) w'"
    and "case res of Inl e \<Rightarrow> True | Inr dm \<Rightarrow> validateRoomForSend sv (cr_room_id req) (dw_rooms w) = None"
proof -
  have "send_outcome sv new_id clk req w (case res of Inl e \<Rightarrow> None | Inr dm \<Rightarrow> Some dm) w' \<and>
    (case res of Inl e \<Rightarrow> True | Inr dm \<Rightarrow> validateRoomForSend sv (cr_room_id req) (dw_rooms w) = None)"
  proof (cases "validateRoomForSend sv (cr_room_id req) (dw_rooms w)")
    case (Some e)
    then have "res = Inl e" "w' = w" using assms by (simp_all add: CreateDanmaku_def)
    then show ?thesis by (simp add: send_outcome_def)
  next
    case None
    with assms obtain r w1 where c: "createAndBroadcast sv new_id clk req w = Some (r, w1)"
      and r: "res = (case r of Inl e \<Rightarrow> Inl e | Inr (dm, p) \<Rightarrow> Inr dm)" "w' = w1"
      by (auto simp: CreateDanmaku_def split: option.splits sum.splits prod.splits)
    from createAndBroadcast_outcome [OF c] None show ?thesis
      unfolding r by (auto split: sum.split prod.split)
  qed
  then show "send_outcome sv new_id clk req w (case res of Inl e \<Rightarrow> None | Inr dm \<Rightarrow> Some dm) w'"
    and "case res of Inl e \<Rightarrow> True | Inr dm \<Rightarrow> validateRoomForSend sv (cr_room_id req) (dw_rooms w) = None"
    by blast+
qed

text \<open>What a verdict of the memory stores' moderation service says.\<close>

lemma moderation_verdict_mem:
  assumes "moderation_verdict (mem_service srt rsrt mord hub marshals tx aca ar fc) now req w = Some (Inr flagged)"
  shows "\<And>u. user_map (mw_users w) (cr_user_id req) = Some u \<Longrightarrow> \<not> u_banned u"
    and "\<And>m. mute_in_force (mw_mutes w) (cr_user_id req, cr_room_id req) = Some m \<Longrightarrow> \<not> IsActive now m"
    and "\<exists>c. CheckContent tx aca ar (cr_content req) = Some c \<and> \<not> cc_blocked c \<and> cc_flagged c = flagged"
proof -
  let ?ms = "mem_service srt rsrt mord hub marshals tx aca ar fc"
  have b: "CheckUserBan ?ms (cr_user_id req) w = Inr False"
    and m: "CheckMute ?ms now (cr_user_id req) (cr_room_id req) w = Inr False"
    and c: "\<exists>c. CheckContent tx aca ar (cr_content req) = Some c \<and> \<not> cc_blocked c \<and> cc_flagged c = flagged"
    using assms
    by (auto simp: moderation_verdict_def mem_service_def CheckUserBan_def CheckMute_def Let_def
        memory_user_ops_def memory_mute_ops_def UserStore.FindByID_def FindActiveByUserAndRoom_def
        split: option.splits if_splits sum.splits)
  show "\<not> u_banned u" if "user_map (mw_users w) (cr_user_id req) = Some u" for u
    using b that by (auto simp: CheckUserBan_def mem_service_def memory_user_ops_def UserStore.FindByID_def
        user_map_def split: option.splits if_splits)
  show "\<not> IsActive now x" if "mute_in_force (mw_mutes w) (cr_user_id req, cr_room_id req) = Some x" for x
    using m that by (auto simp: CheckMute_def mem_service_def memory_mute_ops_def FindActiveByUserAndRoom_def
        mute_in_force_def split: option.splits if_splits)
  show "\<exists>c. CheckContent tx aca ar (cr_content req) = Some c \<and> \<not> cc_blocked c \<and> cc_flagged c = flagged"
    by (rule c)
qed

lemma validate_content: "validate req = None \<Longrightarrow> cr_content req \<noteq> ''''"
  by (auto simp: validate_def TrimSpace_def trim_segs_def split: if_splits)

lemma validate_room: "validate req = None \<Longrightarrow> cr_room_id req \<noteq> ''''"
  by (auto simp: validate_def TrimSpace_def trim_segs_def split: if_splits)

section \<open>What clients show\<close>

text \<open>
  The danmaku the memory-backed service has taken over: those of the store, then those still
  buffered. A step is a sending by HTTP or by WebSocket, a turn of the consumer, a call of the
  moderation service, a change of the rooms, or the start of a shutdown; the identifier a
  sending draws is not in use.
\<close>

type_synonym 'r mem_service_rec =
  "(user_mem, memory_store, report_mem, audit_mem, mute_mem, 'r) danmaku_service"
type_synonym 'r mem_dm_world = "(user_mem, memory_store, report_mem, audit_mem, mute_mem, 'r) dm_world"

definition all_danmaku :: "'r mem_dm_world \<Rightarrow> danmaku list" where
  "all_danmaku w = danmakus (mw_danmaku (dw_mod w)) @ dw_chan w"

definition known :: "'r mem_dm_world \<Rightarrow> string \<rightharpoonup> danmaku" where
  "known w i = find (\<lambda>d. d_id d = i) (all_danmaku w)"

inductive dm_step :: "json_decoder \<Rightarrow> 'r mem_service_rec \<Rightarrow> 'r mem_dm_world \<Rightarrow> 'r mem_dm_world \<Rightarrow> bool"
  for jd sv where
  step_create: "known w new_id = None \<Longrightarrow> CreateDanmaku sv new_id clk req w = Some (res, w') \<Longrightarrow>
    dm_step jd sv w w'"
| step_message: "known w new_id = None \<Longrightarrow>
    HandleMessage jd sv new_id clk room actor data w = Some (r, w') \<Longrightarrow> dm_step jd sv w w'"
| step_drain: "w' = danmakuConsumer sv w \<Longrightarrow> dm_step jd sv w w'"
| step_moderate: "ds_moderation sv = Some ms \<Longrightarrow> mod_step ms (dw_mod w) m \<Longrightarrow>
    dm_step jd sv w (w\<lparr>dw_mod := m\<rparr>)"
| step_rooms: "dm_step jd sv w (w\<lparr>dw_rooms := rs\<rparr>)"
| step_stop: "dm_step jd sv w (w\<lparr>dw_accepting := False\<rparr>)"

definition unseen :: "(string \<rightharpoonup> danmaku) \<Rightarrow> (string \<times> envelope) list \<Rightarrow> bool" where
  "unseen dm ms \<longleftrightarrow> (\<forall>i. dm i = None \<longrightarrow> \<not> shown i ms)"

definition dm_good :: "'r mem_dm_world \<Rightarrow> bool" where
  "dm_good w \<longleftrightarrow> mem_good (dw_mod w) \<and> distinct (map d_id (all_danmaku w)) \<and>
     (\<forall>d \<in> set (dw_chan w). d_status d \<noteq> '''')"

definition screens_agree :: "'r mem_dm_world \<Rightarrow> bool" where
  "screens_agree w \<longleftrightarrow> in_step (known w) (mw_sent (dw_mod w)) \<and> unseen (known w) (mw_sent (dw_mod w))"

lemma find_append: "find P (xs @ ys) = (case find P xs of None \<Rightarrow> find P ys | Some x \<Rightarrow> Some x)"
  by (induction xs) auto

lemma known_stored:
  "known w i = (case stored (mw_danmaku (dw_mod w)) i of Some d \<Rightarrow> Some d
     | None \<Rightarrow> find (\<lambda>d. d_id d = i) (dw_chan w))"
  by (simp add: known_def all_danmaku_def find_append stored_def split: option.split)

lemma known_None: "known w i = None \<longleftrightarrow> i \<notin> d_id ` set (all_danmaku w)"
  by (auto simp: known_def find_None_iff)

lemma find_id_mset:
  assumes "distinct (map d_id xs)" and "mset xs = mset ys"
  shows "find (\<lambda>d. d_id d = i) xs = find (\<lambda>d. d_id d = i) ys"
proof -
  have d: "distinct (map d_id ys)"
    using assms by (metis mset_map mset_eq_imp_distinct_iff)
  have s: "set xs = set ys" using assms(2) by (rule mset_eq_setD)
  show ?thesis
  proof (cases "find (\<lambda>d. d_id d = i) xs")
    case None
    then have "find (\<lambda>d. d_id d = i) ys = None" using s by (simp add: find_None_iff)
    with None show ?thesis by simp
  next
    case (Some x)
    with find_id [OF assms(1), of i x] find_id [OF d, of i x] s show ?thesis by simp
  qed
qed

text \<open>Taking a danmaku over adds it to the known ones, wherever it goes.\<close>

lemma taken_mem:
  assumes "ds_produce sv = None" and "ds_store sv = memory_store_ops srt" and "taken sv dm w w'"
    and "d_status dm \<noteq> ''''"
  shows "mset (all_danmaku w') = mset (all_danmaku w @ [dm])"
    and "set (dw_chan w') \<subseteq> insert dm (set (dw_chan w))"
    and "mw_danmaku (dw_mod w') = mw_danmaku (dw_mod w) \<or>
      danmakus (mw_danmaku (dw_mod w')) = danmakus (mw_danmaku (dw_mod w)) @ [dm]"
  using assms
  by (auto simp: taken_def all_danmaku_def memory_store_ops_def Add_def
      dest!: sym [of _ "mw_danmaku (dw_mod w')"] split: option.splits)

lemma known_taken:
  assumes "distinct (map d_id (all_danmaku w))" and "known w (d_id dm) = None"
    and "mset (all_danmaku w') = mset (all_danmaku w @ [dm])"
  shows "distinct (map d_id (all_danmaku w'))" and "known w' = (known w)(d_id dm \<mapsto> dm)"
proof -
  have d: "distinct (map d_id (all_danmaku w @ [dm]))"
    using assms(1,2) by (simp add: known_None)
  then show d': "distinct (map d_id (all_danmaku w'))"
    using assms(3) by (metis mset_map mset_eq_imp_distinct_iff)
  have "known w' i = find (\<lambda>d. d_id d = i) (all_danmaku w @ [dm])" for i
    unfolding known_def by (rule find_id_mset [OF d' assms(3)])
  then show "known w' = (known w)(d_id dm \<mapsto> dm)"
    using assms(2) by (auto simp: fun_eq_iff find_append known_def split: option.split)
qed

lemma shown_new_iff:
  "shown i (ms @ sent_to room dm flagged) = (if \<not> flagged \<and> d_id dm = i then True else shown i ms)"
  by (simp add: sent_to_def shown_append show_message_def)

lemma screens_sent:
  assumes "in_step dm ms" and "unseen dm ms" and "dm (d_id d) = None" and "d_room_id d \<noteq> ''''"
    and "d_status d = verdict_status flagged"
  shows "in_step (dm(d_id d \<mapsto> d)) (ms @ sent_to room d flagged)"
    and "unseen (dm(d_id d \<mapsto> d)) (ms @ sent_to room d flagged)"
  using assms by (auto simp: in_step_def unseen_def shown_new_iff)

lemma send_keeps:
  assumes "ds_produce sv = None" and "ds_store sv = memory_store_ops srt"
    and "send_outcome sv new_id clk req w r w'" and "known w new_id = None"
    and "dm_good w" and "screens_agree w"
  shows "dm_good w' \<and> screens_agree w'"
proof (cases r)
  case None
  then have n: "not_taken sv w w'" "same_frame w w'" using assms(3) by (simp_all add: send_outcome_def)
  then have "all_danmaku w' = all_danmaku w" "dw_chan w' = dw_chan w"
    "mw_sent (dw_mod w') = mw_sent (dw_mod w)" "mw_danmaku (dw_mod w') = mw_danmaku (dw_mod w)"
    using assms(2) by (auto simp: not_taken_def all_danmaku_def memory_store_ops_def Add_def Let_def)
  with n(2) assms(5,6) show ?thesis
    by (simp add: dm_good_def screens_agree_def known_def [abs_def] mem_good_def same_frame_def)
next
  case (Some dm)
  then obtain flagged where l: "let_through sv clk req w flagged" and fr: "same_frame w w'"
    and dm: "dm = sent_danmaku new_id (clk 2) req flagged" and t: "taken sv dm w w'"
    and s: "mw_sent (dw_mod w') = mw_sent (dw_mod w) @ sent_to (cr_room_id req) dm flagged"
    using assms(3) by (auto simp: send_outcome_def)
  have ne: "d_status dm \<noteq> ''''" "d_id dm = new_id" and st: "d_status dm = verdict_status flagged"
    using dm by simp_all
  have room: "d_room_id dm \<noteq> ''''"
    using l validate_room dm by (simp add: let_through_def)
  have g: "mem_good (dw_mod w)" "distinct (map d_id (all_danmaku w))" "\<forall>d \<in> set (dw_chan w). d_status d \<noteq> ''''"
    using assms(5) by (simp_all add: dm_good_def)
  note tk = taken_mem [OF assms(1,2) t ne(1)]
  have kn: "known w (d_id dm) = None" using assms(4) ne by simp
  note kt = known_taken [OF g(2) kn tk(1)]
  have "store_good (mw_danmaku (dw_mod w'))"
    using kt(1) by (simp add: store_good_def all_danmaku_def)
  then have "mem_good (dw_mod w')"
    using g(1) fr by (simp add: mem_good_def same_frame_def)
  then have "dm_good w'" using kt(1) g(3) tk(2) ne(1) by (auto simp: dm_good_def)
  moreover have "screens_agree w'"
    using screens_sent [of "known w" "mw_sent (dw_mod w)", OF _ _ kn room st] assms(6)
    by (simp add: screens_agree_def kt(2) s)
  ultimately show ?thesis by simp
qed

lemma HandleMessage_sends:
  assumes "HandleMessage jd sv new_id clk room actor data w = Some (r, w')"
  obtains "\<not> hr_ok r" "hr_data r = None" "hr_error_code r \<noteq> ''''" "w' = w"
  | req res where "a_authenticated actor" "cr_room_id req = room" "cr_user_id req = a_user_id actor"
      "validateRoomForSend sv room (dw_rooms w) = None"
      "createAndBroadcast sv new_id clk req w = Some (res, w')"
      "case res of Inl e \<Rightarrow> \<not> hr_ok r \<and> hr_data r = None \<and> hr_error_code r = roomSendErrorCode e
       | Inr (dm, p) \<Rightarrow> hr_ok r \<and> hr_data r = Some dm \<and> hr_message_id r = d_id dm \<and> hr_error_code r = '''' \<and>
           hr_persistence r = p"
proof -
  let ?data = "case jd_envelope jd data of Some (ty, payload) \<Rightarrow> if ty = ''danmaku'' then payload else data
    | None \<Rightarrow> data"
  let ?parsed = "(fst (jd_request jd ?data empty_request))\<lparr>cr_room_id := room\<rparr>"
  obtain req e where rq: "jd_request jd ?data ?parsed = (req, e)" by fastforce
  let ?req = "req\<lparr>cr_room_id := room, cr_user_id := a_user_id actor\<rparr>"
  have code: "roomSendErrorCode x \<noteq> ''''" for x by (simp add: roomSendErrorCode_def)
  have h: "HandleMessage jd sv new_id clk room actor data w =
    (if \<not> a_authenticated actor
     then Some (failed_result (cr_request_id ?parsed) ''unauthorized'' ''authentication required'', w)
     else case validateRoomForSend sv room (dw_rooms w) of
       Some e \<Rightarrow> Some (failed_result (cr_request_id ?parsed) (roomSendErrorCode e) (error_text e), w)
     | None \<Rightarrow> (case e of
         Some e \<Rightarrow> Some (failed_result (cr_request_id req) ''validation_error'' (''invalid JSON: '' @ error_text e), w)
       | None \<Rightarrow> (case createAndBroadcast sv new_id clk ?req w of
           None \<Rightarrow> None
         | Some (Inl e, w) \<Rightarrow> Some (failed_result (cr_request_id ?req) (roomSendErrorCode e) (error_text e), w)
         | Some (Inr (dm, p), w) \<Rightarrow> Some (\<lparr>hr_request_id = cr_request_id ?req, hr_message_id = d_id dm,
             hr_ok = True, hr_error_code = '''', hr_reason = '''', hr_persistence = p, hr_data = Some dm\<rparr>, w))))"
    unfolding HandleMessage_def Let_def rq prod.case by (rule refl)
  show ?thesis
  proof (cases "a_authenticated actor \<and> validateRoomForSend sv room (dw_rooms w) = None \<and> e = None")
    case False
    then have "\<not> hr_ok r \<and> hr_data r = None \<and> hr_error_code r \<noteq> '''' \<and> w' = w"
      using assms unfolding h by (auto simp: failed_result_def code split: if_splits option.splits)
    then show ?thesis using that(1) by blast
  next
    case True
    with assms obtain res where c: "createAndBroadcast sv new_id clk ?req w = Some (res, w')"
      and "case res of Inl e \<Rightarrow> \<not> hr_ok r \<and> hr_data r = None \<and> hr_error_code r = roomSendErrorCode e
       | Inr (dm, p) \<Rightarrow> hr_ok r \<and> hr_data r = Some dm \<and> hr_message_id r = d_id dm \<and> hr_error_code r = '''' \<and>
           hr_persistence r = p"
      unfolding h by (auto simp: failed_result_def split: option.splits sum.splits prod.splits)
    with True that(2) [of ?req res] show ?thesis by simp
  qed
qed

lemma HandleMessage_keeps:
  assumes "ds_produce sv = None" and "ds_store sv = memory_store_ops srt"
    and "HandleMessage jd sv new_id clk room actor data w = Some (r, w')" and "known w new_id = None"
    and "dm_good w" and "screens_agree w"
  shows "dm_good w' \<and> screens_agree w'"
  using assms(3)
proof (cases rule: HandleMessage_sends)
  case 1
  with assms(5,6) show ?thesis by simp
next
  case (2 req res)
  show ?thesis by (rule send_keeps [OF assms(1,2) createAndBroadcast_outcome [OF 2(5)] assms(4-6)])
qed

lemma known_alter:
  assumes "stored (mw_danmaku m) = alter i f (stored (mw_danmaku (dw_mod w)))"
    and "stored (mw_danmaku (dw_mod w)) i = Some d"
  shows "known (w\<lparr>dw_mod := m\<rparr>) = alter i f (known w)" and "known w i = Some d"
proof -
  show "known w i = Some d" using assms(2) by (simp add: known_stored)
  show "known (w\<lparr>dw_mod := m\<rparr>) = alter i f (known w)"
  proof
    fix j
    show "known (w\<lparr>dw_mod := m\<rparr>) j = alter i f (known w) j"
      using assms by (cases "j = i") (simp_all add: known_stored split: option.split)
  qed
qed

lemma ids_stored: "d_id ` set (danmakus s) = dom (stored s)"
  by (force simp: stored_def find_None_iff dom_def)

lemma moderate_keeps:
  assumes "mod_step (mem_service srt rsrt mord True (\<lambda>m. True) tx aca ar fc) (dw_mod w) m"
    and "dm_good w" and "screens_agree w"
  shows "dm_good (w\<lparr>dw_mod := m\<rparr>) \<and> screens_agree (w\<lparr>dw_mod := m\<rparr>)"
proof -
  let ?ms = "mem_service srt rsrt mord True (\<lambda>m. True) tx aca ar fc"
  have g0: "mem_mod.mod_good (dw_mod w)" using assms(2) by (simp add: dm_good_def mem_good_iff)
  have g: "mem_good m" using mem_mod.step_effect(1) [OF assms(1) g0] by (simp add: mem_good_iff)
  have rm: "review_moves ?ms stored (dw_mod w) m" by (rule mem_mod.step_effect(2) [OF assms(1) g0])
  have dom: "dom (stored (mw_danmaku m)) = dom (stored (mw_danmaku (dw_mod w)))"
    using rm unfolding review_moves_def by (elim disjE exE conjE) simp_all
  have "distinct (map d_id (danmakus (mw_danmaku m)))" using g by (simp add: mem_good_def store_good_def)
  then have "distinct (map d_id (all_danmaku (w\<lparr>dw_mod := m\<rparr>)))"
    using assms(2) ids_stored [of "mw_danmaku m"] ids_stored [of "mw_danmaku (dw_mod w)"] dom
    by (simp add: dm_good_def all_danmaku_def)
  with g assms(2) have dg: "dm_good (w\<lparr>dw_mod := m\<rparr>)" by (simp add: dm_good_def)
  from rm show ?thesis
    unfolding review_moves_def
  proof (elim disjE exE conjE)
    assume "stored (mw_danmaku m) = stored (mw_danmaku (dw_mod w))" and s: "mw_sent m = mw_sent (dw_mod w)"
    then have "known (w\<lparr>dw_mod := m\<rparr>) = known w"
      by (simp add: fun_eq_iff known_stored split: option.split)
    with dg s assms(3) show ?thesis by (simp add: screens_agree_def)
  next
    fix i d st reviewer reason now
    assume d: "stored (mw_danmaku (dw_mod w)) i = Some d" and t: "d_status d \<noteq> st" "valid_transition (d_status d) st"
      and upd: "stored (mw_danmaku m) = alter i (reviewed st reviewer reason now) (stored (mw_danmaku (dw_mod w)))"
      and s: "mw_sent m = mw_sent (dw_mod w) @
        sent_notice ?ms (d_room_id d) (review_notice ?ms d reviewer st reason now)"
    note k = known_alter [OF upd d]
    have st: "in_step (known w) (mw_sent (dw_mod w))" "unseen (known w) (mw_sent (dw_mod w))"
      using assms(3) by (simp_all add: screens_agree_def)
    have id: "d_id d = i"
      using mem_danmaku.key_is_id [OF _ d] assms(2) by (simp add: dm_good_def mem_good_def)
    have room: "d_room_id d \<noteq> ''''" using st(1) k(2) by (simp add: in_step_def)
    have sh: "shown j (mw_sent m) = (if j = i then st = DanmakuStatusApproved else shown j (mw_sent (dw_mod w)))" for j
    proof -
      have h: "ms_hub ?ms" "\<And>e. ms_marshals ?ms e" by (simp_all add: mem_service_def)
      show ?thesis unfolding s review_sent [OF h(1) room t h(2)] by (rule shown_review [OF st(1) k(2) id t])
    qed
    have "in_step (known (w\<lparr>dw_mod := m\<rparr>)) (mw_sent m)"
      unfolding in_step_def k(1) sh using st(1) by (auto simp: in_step_def alter_apply split: if_splits)
    moreover have "unseen (known (w\<lparr>dw_mod := m\<rparr>)) (mw_sent m)"
      unfolding unseen_def k(1) sh using st(2) k(2) by (auto simp: unseen_def alter_apply split: if_splits)
    ultimately show ?thesis using dg by (simp add: screens_agree_def)
  qed
qed

lemma drain_all:
  assumes "ds_store sv = memory_store_ops srt" and "\<forall>d \<in> set (dw_chan w). d_status d \<noteq> ''''"
  shows "all_danmaku (danmakuConsumer sv w) = all_danmaku w"
    and "set (dw_chan (danmakuConsumer sv w)) \<subseteq> set (dw_chan w)"
    and "mw_sent (dw_mod (danmakuConsumer sv w)) = mw_sent (dw_mod w)"
    and "mw_users (dw_mod (danmakuConsumer sv w)) = mw_users (dw_mod w)"
    and "mw_reports (dw_mod (danmakuConsumer sv w)) = mw_reports (dw_mod w)"
  using assms
  by (auto simp: danmakuConsumer_def all_danmaku_def memory_store_ops_def Add_def Let_def split: list.splits)

lemma drain_keeps:
  assumes "ds_store sv = memory_store_ops srt" and "dm_good w" and "screens_agree w"
  shows "dm_good (danmakuConsumer sv w) \<and> screens_agree (danmakuConsumer sv w)"
proof -
  have "\<forall>d \<in> set (dw_chan w). d_status d \<noteq> ''''" using assms(2) by (simp add: dm_good_def)
  note a = drain_all [OF assms(1) this]
  have "distinct (map d_id (all_danmaku (danmakuConsumer sv w)))"
    using assms(2) by (simp add: a(1) dm_good_def)
  then have "store_good (mw_danmaku (dw_mod (danmakuConsumer sv w)))"
    by (simp add: all_danmaku_def store_good_def)
  then have "dm_good (danmakuConsumer sv w)"
    using assms(2) a(2) by (auto simp: dm_good_def mem_good_def a(1,4,5))
  moreover have "screens_agree (danmakuConsumer sv w)"
    using assms(3) by (simp add: screens_agree_def known_def [abs_def] a(1,3))
  ultimately show ?thesis by simp
qed

lemma dm_step_keeps:
  assumes "ds_produce sv = None" and "ds_store sv = memory_store_ops srt"
    and "ds_moderation sv = Some (mem_service srt rsrt mord True (\<lambda>m. True) tx aca ar fc)"
    and "dm_step jd sv w w'" and "dm_good w \<and> screens_agree w"
  shows "dm_good w' \<and> screens_agree w'"
  using assms(4)
proof (cases rule: dm_step.cases)
  case (step_create new_id clk req res)
  from send_keeps [OF assms(1,2) CreateDanmaku_sends(1) [OF step_create(2)] step_create(1)] assms(5)
  show ?thesis by simp
next
  case (step_message new_id clk room actor data r)
  from HandleMessage_keeps [OF assms(1,2) step_message(2,1)] assms(5) show ?thesis by simp
next
  case step_drain
  with drain_keeps [OF assms(2)] assms(5) show ?thesis by simp
next
  case (step_moderate ms m)
  with moderate_keeps [of srt rsrt mord tx aca ar fc w m] assms(3,5) show ?thesis by simp
next
  case (step_rooms rs)
  then show ?thesis using assms(5)
    by (simp add: dm_good_def screens_agree_def known_def [abs_def] all_danmaku_def)
next
  case step_stop
  then show ?thesis using assms(5)
    by (simp add: dm_good_def screens_agree_def known_def [abs_def] all_danmaku_def)
qed

section \<open>Properties\<close>

text \<open>
  Property C1 (what a request does). \<open>CreateDanmaku\<close> that returns a danmaku was called while the
  service accepted, with a valid request, within the rate limit, for a room one may send to, and
  was let through by moderation; the danmaku carries the new identifier, the request's content,
  user and room and the status of the verdict; exactly one of Kafka, the buffer and the store has
  taken it over; and the room is sent it exactly when it is not flagged. One that returns an
  error has left the store, the buffer and Kafka without a new danmaku and has sent nothing.
  Users, rooms, reports, mutes, the audit log and the count of requests in flight are as before.
\<close>

theorem create_danmaku_outcome:
  assumes "CreateDanmaku sv new_id clk req w = Some (res, w')"
  shows "same_frame w w' \<and> (case res of
      Inl e \<Rightarrow> not_taken sv w w'
    | Inr dm \<Rightarrow> validateRoomForSend sv (cr_room_id req) (dw_rooms w) = None \<and>
        dw_accepting w \<and> validate req = None \<and>
        (ds_limited sv \<longrightarrow> fst (Allow (clk 0) (cr_user_id req) (dw_limiter w))) \<and>
        (\<exists>flagged. passes sv (clk 1) req w flagged \<and>
           dm = (buildDanmaku new_id (clk 2) req)\<lparr>d_status :=
             (if flagged then DanmakuStatusFlagged else DanmakuStatusApproved)\<rparr> \<and>
           taken sv dm w w' \<and>
           mw_sent (dw_mod w') = mw_sent (dw_mod w) @
             (if flagged then [] else [(cr_room_id req, MsgBroadcast dm)])))"
  using CreateDanmaku_sends [OF assms]
  by (cases res)
    (auto simp: send_outcome_def let_through_def sent_danmaku_def verdict_status_def sent_to_def)

text \<open>
  Corollary (a good request is not refused). While the service accepts, a valid request within
  the rate limit, for a room one may send to, that moderation lets through and whose danmaku
  Kafka, the buffer or the store accepts, is answered with that danmaku.
\<close>

theorem good_request_sent:
  assumes "validateRoomForSend sv (cr_room_id req) (dw_rooms w) = None" and "dw_accepting w"
    and "validate req = None"
    and "ds_limited sv \<longrightarrow> fst (Allow (clk 0) (cr_user_id req) (dw_limiter w))"
    and "passes sv (clk 1) req w flagged"
    and "accepts sv (sent_danmaku new_id (clk 2) req flagged) w"
  shows "\<exists>w'. CreateDanmaku sv new_id clk req w = Some (Inr (sent_danmaku new_id (clk 2) req flagged), w')"
proof -
  have "let_through sv clk req w flagged" using assms(2-5) by (simp add: let_through_def)
  from createAndBroadcast_succeeds [OF this assms(6)] assms(1) show ?thesis
    by (auto simp: CreateDanmaku_def)
qed

text \<open>
  Property C2 (the moderation gate, end to end). Over the memory stores, with the automaton built
  from the loaded blocklist: a danmaku that is accepted is by a user who is not banned and has no
  mute in force in the room. It is flagged, instead of approved and broadcast, exactly when the
  normal form of some configured text occurs in the normal form of its content; with
  \<open>auto_reject\<close> set no such content is accepted at all.
\<close>

theorem moderation_gate:
  assumes "any_order ord" and "buildACA ord (loadBlocklist tx open_file ws path) = Some ns"
    and "ds_moderation sv = Some (mem_service srt rsrt mord hub marshals tx (Some ns) ar fc)"
    and "CreateDanmaku sv new_id clk req w = Some (Inr dm, w')"
  shows "(\<forall>u. user_map (mw_users (dw_mod w)) (cr_user_id req) = Some u \<longrightarrow> \<not> u_banned u) \<and>
    (\<forall>m. mute_in_force (mw_mutes (dw_mod w)) (cr_user_id req, cr_room_id req) = Some m \<longrightarrow>
       \<not> IsActive (clk 1) m) \<and>
    (let hit = (\<exists>t \<in> configured open_file ws path. normalizeContent tx t \<noteq> '''' \<and>
         sublist (runes (normalizeContent tx t)) (runes (normalizeContent tx (cr_content req))))
     in d_status dm = (if hit then DanmakuStatusFlagged else DanmakuStatusApproved) \<and> (hit \<longrightarrow> \<not> ar))"
proof -
  from CreateDanmaku_sends(1) [OF assms(4)] obtain flagged where
    l: "let_through sv clk req w flagged" and dm: "dm = sent_danmaku new_id (clk 2) req flagged"
    by (auto simp: send_outcome_def)
  have v: "moderation_verdict (mem_service srt rsrt mord hub marshals tx (Some ns) ar fc) (clk 1) req (dw_mod w) =
      Some (Inr flagged)"
    using l assms(3) by (simp add: let_through_def passes_def)
  note mv = moderation_verdict_mem [OF v]
  have ne: "cr_content req \<noteq> ''''" using l validate_content by (simp add: let_through_def)
  obtain c where c: "CheckContent tx (Some ns) ar (cr_content req) = Some c" "\<not> cc_blocked c" "cc_flagged c = flagged"
    using mv(3) by blast
  let ?n = "normalizeContent tx (cr_content req)" and ?ws = "loadBlocklist tx open_file ws path"
  have "Match ns ?n = Some (naive ?ws ?n)"
    using Match_naive [OF assms(1), of ?ws] assms(2) by auto
  then have "flagged \<longleftrightarrow> naive ?ws ?n \<noteq> '''' \<and> \<not> ar" and "naive ?ws ?n \<noteq> '''' \<longrightarrow> \<not> ar"
    using c ne by (auto simp: CheckContent_def split: if_splits)
  then have f: "flagged \<longleftrightarrow> naive ?ws ?n \<noteq> ''''" and r: "naive ?ws ?n \<noteq> '''' \<longrightarrow> \<not> ar" by blast+
  from mv(1,2) f r show ?thesis
    unfolding naive_loaded by (simp add: dm verdict_status_def Let_def)
qed

text \<open>
  Property C26 (identity is not the client's to choose). Whatever the JSON decoder makes of a
  message, a danmaku that \<open>HandleMessage\<close> accepts bears the new identifier, the user of the
  authenticated connection and the room of the connection; it is the danmaku that was taken over
  and, unless flagged, sent to that room. A message that is refused gets a non-empty error code
  and adds no danmaku anywhere; without authentication every message is refused.
\<close>

theorem message_identity:
  assumes "HandleMessage jd sv new_id clk room actor data w = Some (r, w')"
  shows "same_frame w w' \<and> (\<not> a_authenticated actor \<longrightarrow> \<not> hr_ok r) \<and>
    (if hr_ok r
     then \<exists>dm. hr_data r = Some dm \<and> hr_message_id r = new_id \<and> d_id dm = new_id \<and>
       d_user_id dm = a_user_id actor \<and> d_room_id dm = room \<and> hr_error_code r = '''' \<and> taken sv dm w w' \<and>
       mw_sent (dw_mod w') = mw_sent (dw_mod w) @
         (if d_status dm = DanmakuStatusFlagged then [] else [(room, MsgBroadcast dm)])
     else hr_data r = None \<and> hr_error_code r \<noteq> '''' \<and> not_taken sv w w')"
  using assms
proof (cases rule: HandleMessage_sends)
  case 1
  then show ?thesis by simp
next
  case (2 req res)
  note o = createAndBroadcast_outcome [OF 2(5)]
  show ?thesis
  proof (cases res)
    case (Inl e)
    with 2 o show ?thesis by (simp add: send_outcome_def roomSendErrorCode_def)
  next
    case (Inr dp)
    obtain dm p where dp: "dp = (dm, p)" by fastforce
    have "send_outcome sv new_id clk req w (Some dm) w'" using o Inr dp by simp
    then show ?thesis using 2 Inr dp by (auto simp: send_outcome_def sent_to_def)
  qed
qed

text \<open>
  Property C3 (screens follow statuses). Without Kafka, over the memory stores, with or without
  the buffer: if the clients of the rooms show exactly the approved ones of the danmaku that are
  stored or buffered, and nothing that is neither, then they still do after any sequence of
  sendings by either way, turns of the consumer, moderation calls, changes of rooms and the start
  of a shutdown.
\<close>

theorem screens_follow_status:
  assumes "ds_produce sv = None" and "ds_store sv = memory_store_ops srt"
    and "ds_moderation sv = Some (mem_service srt rsrt mord True (\<lambda>m. True) tx aca ar fc)"
    and "(dm_step jd sv)\<^sup>*\<^sup>* w w'" and "dm_good w" and "screens_agree w"
  shows "dm_good w' \<and> screens_agree w'"
  using assms(4)
proof (induction rule: rtranclp_induct)
  case (step v u)
  then show ?case using dm_step_keeps [OF assms(1-3)] by blast
qed (use assms(5,6) in simp)

section \<open>Witnesses\<close>

definition sample_sender ::
  "(user_mem, memory_store, report_mem, audit_mem, mute_mem) mod_service \<Rightarrow> nat option \<Rightarrow> room_mem mem_service_rec"
where
  "sample_sender ms cap = \<lparr>ds_store = memory_store_ops insertion_sort, ds_chan_cap = cap, ds_limited = False,
     ds_produce = None, ds_status = Some (GetStatus (memory_room_ops (\<lambda>s. []))), ds_moderation = Some ms\<rparr>"

definition sample_dm_world :: "room_mem mem_dm_world" where
  "sample_dm_world = \<lparr>dw_mod = sample_world, dw_rooms = sample_rooms, dw_chan = [], dw_produced = [],
     dw_limiter = newRateLimiter 0, dw_accepting = True, dw_inflight = 0\<rparr>"

definition sample_request :: "string \<Rightarrow> create_request" where
  "sample_request content = empty_request\<lparr>cr_content := content, cr_user_id := ''2'', cr_room_id := ''a''\<rparr>"

lemma sample_request_valid:
  "validate (sample_request ''so Bad!'') = None" "validate (sample_request ''so'') = None"
  by (simp_all add: validate_def sample_request_def empty_request_def TrimSpace_def segments_ascii
      is_ascii_def trim_segs_def is_space_def byte_of_def)

lemma sample_room_open: "validateRoomForSend (sample_sender ms cap) ''a'' (dw_rooms sample_dm_world) = None"
  by (simp add: validateRoomForSend_def sample_sender_def GetStatus_def memory_room_ops_def
      RoomStore.FindByID_def sample_dm_world_def sample_rooms_def sample_room_def)

lemma sample_user_free:
  "CheckUserBan (mem_service srt rsrt mord hub mar tx aca ar fc) ''2'' sample_world = Inr False"
  "CheckMute (mem_service srt rsrt mord hub mar tx aca ar fc) now ''2'' ''a'' sample_world = Inr False"
  by (simp_all add: CheckUserBan_def CheckMute_def mem_service_def memory_user_ops_def memory_mute_ops_def
      UserStore.FindByID_def FindActiveByUserAndRoom_def sample_world_def NewMemoryMuteStore_def
      sample_users_def UserStore.BanUser_def write_byid_def UserStore.Create_def NewMemoryUserStore_def
      sample_user_def deref_def)

lemma sample_accepts: "accepts (sample_sender ms None) dm sample_dm_world"
  by (simp add: accepts_def sample_sender_def memory_store_ops_def Add_def)

lemma sample_passes: "passes (sample_sender sample_service cap) now (sample_request ''so'') sample_dm_world False"
  by (simp add: passes_def sample_sender_def moderation_verdict_def sample_service_def sample_user_free
      sample_dm_world_def sample_request_def CheckContent_def mem_service_def Let_def
      sample_user_free [unfolded mem_service_def])

theorem good_request_sent_witness:
  "\<exists>w'. CreateDanmaku (sample_sender sample_service None) ''n'' (\<lambda>k. 5) (sample_request ''so'') sample_dm_world =
     Some (Inr (sent_danmaku ''n'' 5 (sample_request ''so'') False), w')"
proof -
  have r: "validateRoomForSend (sample_sender sample_service None) (cr_room_id (sample_request ''so''))
      (dw_rooms sample_dm_world) = None"
    using sample_room_open by (simp add: sample_request_def)
  have a: "dw_accepting sample_dm_world" by (simp add: sample_dm_world_def)
  have l: "ds_limited (sample_sender sample_service None) \<longrightarrow>
      fst (Allow ((\<lambda>k. 5) 0) (cr_user_id (sample_request ''so'')) (dw_limiter sample_dm_world))"
    by (simp add: sample_sender_def)
  from good_request_sent [OF r a sample_request_valid(2) l sample_passes sample_accepts] show ?thesis .
qed

lemma sample_created:
  "\<exists>w'. CreateDanmaku (sample_sender sample_service None) ''n'' (\<lambda>k. 5) (sample_request ''so'') sample_dm_world =
     Some (Inr (sent_danmaku ''n'' 5 (sample_request ''so'') False), w')"
proof -
  have "let_through (sample_sender sample_service None) (\<lambda>k. 5) (sample_request ''so'') sample_dm_world False"
    using sample_passes sample_request_valid(2)
    by (simp add: let_through_def sample_dm_world_def sample_sender_def)
  from createAndBroadcast_succeeds [OF this sample_accepts, of "''n''"] show ?thesis
    using sample_room_open by (auto simp: CreateDanmaku_def sample_request_def)
qed

theorem create_danmaku_outcome_witness:
  "\<exists>dm w'. CreateDanmaku (sample_sender sample_service None) ''n'' (\<lambda>k. 5) (sample_request ''so'') sample_dm_world =
     Some (Inr dm, w') \<and> taken (sample_sender sample_service None) dm sample_dm_world w' \<and> d_id dm = ''n''"
proof -
  obtain w' where c: "CreateDanmaku (sample_sender sample_service None) ''n'' (\<lambda>k. 5) (sample_request ''so'')
      sample_dm_world = Some (Inr (sent_danmaku ''n'' 5 (sample_request ''so'') False), w')"
    using sample_created by blast
  have "taken (sample_sender sample_service None) (sent_danmaku ''n'' 5 (sample_request ''so'') False) sample_dm_world w'"
    using create_danmaku_outcome [OF c] by (auto split: if_splits)
  with c show ?thesis by fastforce
qed

theorem moderation_gate_witness:
  "\<exists>ns dm w'. buildACA (\<lambda>i cs. cs) (loadBlocklist plain_tables (\<lambda>p. None) [''BAD''] '''') = Some ns \<and>
    CreateDanmaku (sample_sender (mem_service insertion_sort insertion_sort (\<lambda>s. []) True (\<lambda>m. True)
      plain_tables (Some ns) False True) None) ''n'' (\<lambda>k. 5) (sample_request ''so Bad!'') sample_dm_world =
      Some (Inr dm, w') \<and> d_status dm = DanmakuStatusFlagged"
proof -
  have o: "any_order (\<lambda>i cs. cs)" by (simp add: any_order_def)
  let ?ws = "loadBlocklist plain_tables (\<lambda>p. None) [''BAD''] ''''"
  from Match_naive [OF o, of ?ws] obtain ns where b: "buildACA (\<lambda>i cs. cs) ?ws = Some ns"
    and m: "\<And>c. Match ns c = Some (naive ?ws c)" by blast
  let ?ms = "mem_service insertion_sort insertion_sort (\<lambda>s. []) True (\<lambda>m. True) plain_tables (Some ns) False True"
  have n: "naive ?ws (normalizeContent plain_tables ''so Bad!'') \<noteq> ''''"
    unfolding naive_loaded by (rule sample_hit)
  have c: "\<exists>c. CheckContent plain_tables (Some ns) False ''so Bad!'' = Some c \<and> \<not> cc_blocked c \<and> cc_flagged c"
    using n by (simp add: CheckContent_def m)
  have "moderation_verdict ?ms 5 (sample_request ''so Bad!'') sample_world = Some (Inr True)"
    using c by (auto simp: moderation_verdict_def sample_user_free sample_request_def Let_def)
      (auto simp: mem_service_def)
  then have "let_through (sample_sender ?ms None) (\<lambda>k. 5) (sample_request ''so Bad!'') sample_dm_world True"
    using sample_request_valid(1)
    by (simp add: let_through_def passes_def sample_dm_world_def sample_sender_def)
  from createAndBroadcast_succeeds [OF this sample_accepts, of "''n''"] obtain dm w' where
    cr: "CreateDanmaku (sample_sender ?ms None) ''n'' (\<lambda>k. 5) (sample_request ''so Bad!'') sample_dm_world =
      Some (Inr dm, w')"
    using sample_room_open by (fastforce simp: CreateDanmaku_def sample_request_def)
  have s: "ds_moderation (sample_sender ?ms None) = Some ?ms" by (simp add: sample_sender_def)
  have "cr_content (sample_request ''so Bad!'') = ''so Bad!''" by (simp add: sample_request_def)
  with moderation_gate [OF o b s cr] sample_hit have "d_status dm = DanmakuStatusFlagged"
    by (simp only: Let_def if_True)
  with b cr show ?thesis by blast
qed

definition sample_decoder :: json_decoder where
  "sample_decoder = \<lparr>jd_envelope = (\<lambda>s. None),
     jd_request = (\<lambda>s r. (r\<lparr>cr_content := s, cr_user_id := ''forged'', cr_room_id := ''b''\<rparr>, None))\<rparr>"

definition sample_actor :: actor where
  "sample_actor = \<lparr>a_user_id = ''2'', a_username = ''u'', a_nickname = ''n'', a_role = RoleUser, a_authenticated = True\<rparr>"

lemma sample_message:
  "\<exists>r w'. HandleMessage sample_decoder (sample_sender sample_service None) ''n'' (\<lambda>k. 5) ''a'' sample_actor ''so''
     sample_dm_world = Some (r, w') \<and> hr_ok r"
proof -
  have "let_through (sample_sender sample_service None) (\<lambda>k. 5) (sample_request ''so'') sample_dm_world False"
    using sample_passes sample_request_valid(2)
    by (simp add: let_through_def sample_dm_world_def sample_sender_def)
  from createAndBroadcast_succeeds [OF this sample_accepts, of "''n''"] show ?thesis
    using sample_room_open
    by (auto simp: HandleMessage_def sample_decoder_def sample_actor_def sample_request_def empty_request_def)
qed

theorem message_identity_witness:
  "\<exists>r w' dm. HandleMessage sample_decoder (sample_sender sample_service None) ''n'' (\<lambda>k. 5) ''a'' sample_actor ''so''
     sample_dm_world = Some (r, w') \<and> hr_data r = Some dm \<and> d_user_id dm = ''2'' \<and> d_room_id dm = ''a''"
proof -
  obtain r w' where h: "HandleMessage sample_decoder (sample_sender sample_service None) ''n'' (\<lambda>k. 5) ''a''
      sample_actor ''so'' sample_dm_world = Some (r, w')" and ok: "hr_ok r"
    using sample_message by blast
  from message_identity [OF h] ok have "\<exists>dm. hr_data r = Some dm \<and> d_user_id dm = ''2'' \<and> d_room_id dm = ''a''"
    by (auto simp: sample_actor_def)
  with h show ?thesis by blast
qed

lemma sample_dm_world_ok: "dm_good sample_dm_world" "screens_agree sample_dm_world"
proof -
  have k: "known sample_dm_world = stored (mw_danmaku sample_world)"
    by (simp add: fun_eq_iff known_def stored_def all_danmaku_def sample_dm_world_def)
  show "dm_good sample_dm_world"
    using sample_world_good
    by (simp add: dm_good_def all_danmaku_def sample_dm_world_def mem_good_def store_good_def)
  have "unseen (stored (mw_danmaku sample_world)) (mw_sent sample_world)"
    by (auto simp: unseen_def stored_def sample_world_def sample_store_def shown_def show_message_def
        sample_danmaku_def split: if_splits)
  then show "screens_agree sample_dm_world"
    using sample_world_in_step by (simp add: screens_agree_def k) (simp add: sample_dm_world_def)
qed

theorem screens_follow_status_witness:
  "\<exists>w'. CreateDanmaku (sample_sender sample_service None) ''n'' (\<lambda>k. 5) (sample_request ''so'') sample_dm_world =
     Some (Inr (sent_danmaku ''n'' 5 (sample_request ''so'') False), w') \<and> screens_agree w'"
proof -
  let ?sv = "sample_sender sample_service None"
  obtain w' where c: "CreateDanmaku ?sv ''n'' (\<lambda>k. 5) (sample_request ''so'')
      sample_dm_world = Some (Inr (sent_danmaku ''n'' 5 (sample_request ''so'') False), w')"
    using sample_created by blast
  have "known sample_dm_world ''n'' = None"
    by (simp add: known_def all_danmaku_def sample_dm_world_def sample_world_def sample_store_def sample_danmaku_def)
  then have "(dm_step sample_decoder ?sv)\<^sup>*\<^sup>* sample_dm_world w'"
    using step_create [OF _ c] by blast
  from screens_follow_status [OF _ _ _ this sample_dm_world_ok] have "screens_agree w'"
    by (simp add: sample_sender_def sample_service_def)
  with c show ?thesis by blast
qed

end
