(* ===== verification/ShutdownProtocol.thy ===== *)
theory ShutdownProtocol
  imports Entities
begin

text \<open>
  \<open>service/danmaku.go\<close> as concurrent goroutines: any number of calls of \<open>createAndBroadcast\<close>, any
  number of calls of \<open>Shutdown\<close> and the one \<open>danmakuConsumer\<close>, interleaved at their atomic
  operations: the additions to \<open>inflight\<close>, the loads and stores of \<open>accepting\<close>, the compare and
  swap of \<open>closed\<close>, the non-blocking send, the receive and the close of \<open>danmakuChan\<close>, the calls
  of the Kafka producer. A send on a closed channel, a second close of it and a \<open>Produce\<close> on a
  closed producer set \<open>p_panic\<close>. What happens between admission and persistence (validation, rate
  limit, moderation) is \<open>DanmakuService\<close>; here it either rejects or goes on. \<open>Produce\<close> and
  \<open>store.Add\<close> may fail at any call: a request whose own call fails answers an error, the consumer
  logs the failure of a write and goes on to the next danmaku.
\<close>

datatype request_pc = R_idle | R_entered | R_admitted | R_leaving | R_done

datatype shutdown_pc =
    S_idle | S_polling | S_quiet | S_swap | S_close | S_wait
  | S_drained | S_nil | S_error

record proto =
  p_kafka :: bool
  p_cap :: "nat option"
  p_accepting :: bool
  p_inflight :: int
  p_closed :: bool
  p_producer_closed :: bool
  p_chan :: "danmaku list"
  p_chan_closed :: bool
  p_consumer_done :: bool
  p_produced :: "danmaku list"
  p_writes :: "(danmaku \<times> bool) list"
  p_acked :: "danmaku list"
  p_req :: "nat \<Rightarrow> request_pc"
  p_shut :: "nat \<Rightarrow> shutdown_pc"
  p_panic :: bool

text \<open>
  The start: \<open>accepting\<close> is set, nobody runs. \<open>p_cap\<close> is the capacity of the channel, created
  only without Kafka. \<open>p_acked\<close> records what calls have answered as persisted or buffered,
  \<open>p_produced\<close> the calls of \<open>Produce\<close> that returned no error, \<open>p_writes\<close> the calls of \<open>store.Add\<close>, each
  with whether it returned no error.
\<close>

definition start_proto :: "bool \<Rightarrow> nat option \<Rightarrow> proto" where
  "start_proto kafka cap = \<lparr>p_kafka = kafka, p_cap = (if kafka then None else cap), p_accepting = True,
     p_inflight = 0, p_closed = False, p_producer_closed = False, p_chan = [], p_chan_closed = False,
     p_consumer_done = False, p_produced = [], p_writes = [], p_acked = [], p_req = (\<lambda>t. R_idle),
     p_shut = (\<lambda>k. S_idle), p_panic = False\<rparr>"

text \<open>What the writes have stored, and what they have lost: the danmaku whose write returned an error.\<close>

definition p_stored :: "proto \<Rightarrow> danmaku list" where
  "p_stored s = map fst (filter snd (p_writes s))"

definition p_lost :: "proto \<Rightarrow> danmaku list" where
  "p_lost s = map fst (filter (Not \<circ> snd) (p_writes s))"

lemma stored_and_lost: "mset (p_stored s) + mset (p_lost s) = mset (map fst (p_writes s))"
proof -
  have "mset (map fst (filter snd ws)) + mset (map fst (filter (Not \<circ> snd) ws)) = mset (map fst ws)"
    for ws :: "(danmaku \<times> bool) list" by (induction ws) auto
  then show ?thesis by (simp add: p_stored_def p_lost_def)
qed

lemma nothing_lost: "p_lost s = [] \<Longrightarrow> p_stored s = map fst (p_writes s)"
  by (simp add: p_stored_def p_lost_def filter_empty_conv)

section \<open>The operations of a request\<close>

definition req_enter :: "nat \<Rightarrow> proto \<Rightarrow> proto" where
  "req_enter t s = s\<lparr>p_inflight := p_inflight s + 1, p_req := (p_req s)(t := R_entered)\<rparr>"

definition req_check :: "nat \<Rightarrow> proto \<Rightarrow> proto" where
  "req_check t s = s\<lparr>p_req := (p_req s)(t := (if p_accepting s then R_admitted else R_leaving))\<rparr>"

definition req_reject :: "nat \<Rightarrow> proto \<Rightarrow> proto" where
  "req_reject t s = s\<lparr>p_req := (p_req s)(t := R_leaving)\<rparr>"

text \<open>\<open>ok\<close>: the call of \<open>Produce\<close> or \<open>store.Add\<close> returns no error. The send on the channel has no such result.\<close>

definition req_persist :: "nat \<Rightarrow> bool \<Rightarrow> danmaku \<Rightarrow> proto \<Rightarrow> proto" where
  "req_persist t ok dm s =
     (let s = s\<lparr>p_req := (p_req s)(t := R_leaving)\<rparr> in
      if p_kafka s
      then (if p_producer_closed s then s\<lparr>p_panic := True\<rparr>
            else if ok then s\<lparr>p_produced := p_produced s @ [dm], p_acked := p_acked s @ [dm]\<rparr>
            else s)
      else case p_cap s of
        Some cap \<Rightarrow>
          if p_chan_closed s then s\<lparr>p_panic := True\<rparr>
          else if length (p_chan s) < cap
          then s\<lparr>p_chan := p_chan s @ [dm], p_acked := p_acked s @ [dm]\<rparr>
          else s
      | None \<Rightarrow>
          if ok then s\<lparr>p_writes := p_writes s @ [(dm, True)], p_acked := p_acked s @ [dm]\<rparr>
          else s\<lparr>p_writes := p_writes s @ [(dm, False)]\<rparr>)"

definition req_leave :: "nat \<Rightarrow> proto \<Rightarrow> proto" where
  "req_leave t s = s\<lparr>p_inflight := p_inflight s - 1, p_req := (p_req s)(t := R_done)\<rparr>"

section \<open>The operations of a shutdown and of the consumer\<close>

definition shut_stop :: "nat \<Rightarrow> proto \<Rightarrow> proto" where
  "shut_stop k s = s\<lparr>p_accepting := False, p_shut := (p_shut s)(k := S_polling)\<rparr>"

text \<open>One turn of the polling loop; \<open>expired\<close>: the context of the poll is done.\<close>

definition shut_poll :: "nat \<Rightarrow> bool \<Rightarrow> proto \<Rightarrow> proto" where
  "shut_poll k expired s =
     (if 0 < p_inflight s
      then (if expired then s\<lparr>p_shut := (p_shut s)(k := S_error)\<rparr> else s)
      else s\<lparr>p_shut := (p_shut s)(k := S_quiet)\<rparr>)"

definition shut_producer :: "nat \<Rightarrow> proto \<Rightarrow> proto" where
  "shut_producer k s = s\<lparr>p_producer_closed := (p_kafka s \<or> p_producer_closed s),
     p_shut := (p_shut s)(k := S_swap)\<rparr>"

definition shut_swap :: "nat \<Rightarrow> proto \<Rightarrow> proto" where
  "shut_swap k s =
     (if p_closed s then s\<lparr>p_shut := (p_shut s)(k := S_nil)\<rparr>
      else if p_cap s = None then s\<lparr>p_closed := True, p_shut := (p_shut s)(k := S_nil)\<rparr>
      else s\<lparr>p_closed := True, p_shut := (p_shut s)(k := S_close)\<rparr>)"

definition shut_close :: "nat \<Rightarrow> proto \<Rightarrow> proto" where
  "shut_close k s =
     (let s = s\<lparr>p_shut := (p_shut s)(k := S_wait)\<rparr> in
      if p_chan_closed s then s\<lparr>p_panic := True\<rparr> else s\<lparr>p_chan_closed := True\<rparr>)"

definition shut_wait :: "nat \<Rightarrow> bool \<Rightarrow> proto \<Rightarrow> proto" where
  "shut_wait k expired s =
     (if p_consumer_done s then s\<lparr>p_shut := (p_shut s)(k := S_drained)\<rparr>
      else if expired then s\<lparr>p_shut := (p_shut s)(k := S_error)\<rparr>
      else s)"

text \<open>
  One turn of the consumer; \<open>ok\<close>: its call of \<open>store.Add\<close> returns no error. If it does, the error is
  logged and the danmaku is in no list any more but that of the writes.
\<close>

definition consume :: "bool \<Rightarrow> proto \<Rightarrow> proto" where
  "consume ok s =
     (if p_consumer_done s \<or> p_cap s = None then s
      else case p_chan s of
        dm # rest \<Rightarrow> s\<lparr>p_chan := rest, p_writes := p_writes s @ [(dm, ok)]\<rparr>
      | [] \<Rightarrow> if p_chan_closed s then s\<lparr>p_consumer_done := True\<rparr> else s)"

inductive proto_step :: "proto \<Rightarrow> proto \<Rightarrow> bool" where
  p_enter: "p_req s t = R_idle \<Longrightarrow> proto_step s (req_enter t s)"
| p_check: "p_req s t = R_entered \<Longrightarrow> proto_step s (req_check t s)"
| p_reject: "p_req s t = R_admitted \<Longrightarrow> proto_step s (req_reject t s)"
| p_persist: "p_req s t = R_admitted \<Longrightarrow> proto_step s (req_persist t ok dm s)"
| p_leave: "p_req s t = R_leaving \<Longrightarrow> proto_step s (req_leave t s)"
| p_stop: "p_shut s k = S_idle \<Longrightarrow> proto_step s (shut_stop k s)"
| p_poll: "p_shut s k = S_polling \<Longrightarrow> proto_step s (shut_poll k expired s)"
| p_producer: "p_shut s k = S_quiet \<Longrightarrow> proto_step s (shut_producer k s)"
| p_swap: "p_shut s k = S_swap \<Longrightarrow> proto_step s (shut_swap k s)"
| p_close: "p_shut s k = S_close \<Longrightarrow> proto_step s (shut_close k s)"
| p_wait: "p_shut s k = S_wait \<Longrightarrow> proto_step s (shut_wait k expired s)"
| p_consume: "proto_step s (consume ok s)"

inductive_cases proto_stepE: "proto_step s s'"

section \<open>The invariant\<close>

definition in_flight :: "request_pc \<Rightarrow> bool" where
  "in_flight pc \<longleftrightarrow> pc = R_entered \<or> pc = R_admitted \<or> pc = R_leaving"

definition past_poll :: "shutdown_pc \<Rightarrow> bool" where
  "past_poll pc \<longleftrightarrow> pc \<noteq> S_idle \<and> pc \<noteq> S_polling \<and> pc \<noteq> S_error"

text \<open>Somebody has gone past the poll: then admission is over for good.\<close>

definition sealed :: "proto \<Rightarrow> bool" where
  "sealed s \<longleftrightarrow> p_closed s \<or> p_producer_closed s \<or> p_chan_closed s \<or> (\<exists>k. past_poll (p_shut s k))"

definition busy :: "(nat \<Rightarrow> request_pc) \<Rightarrow> nat set" where
  "busy f = {t. in_flight (f t)}"

definition count_inv :: "proto \<Rightarrow> bool" where
  "count_inv s \<longleftrightarrow> finite (busy (p_req s)) \<and> p_inflight s = int (card (busy (p_req s)))"

definition gate_inv :: "proto \<Rightarrow> bool" where
  "gate_inv s \<longleftrightarrow> ((\<exists>k. p_shut s k \<noteq> S_idle) \<longrightarrow> \<not> p_accepting s) \<and>
     (sealed s \<longrightarrow> \<not> p_accepting s \<and> (\<forall>t. p_req s t \<noteq> R_admitted))"

definition close_inv :: "proto \<Rightarrow> bool" where
  "close_inv s \<longleftrightarrow> (\<forall>k. p_shut s k = S_close \<longrightarrow> p_closed s \<and> \<not> p_chan_closed s \<and> p_cap s \<noteq> None) \<and>
     (\<forall>k j. p_shut s k = S_close \<and> p_shut s j = S_close \<longrightarrow> k = j) \<and>
     (p_chan_closed s \<longrightarrow> p_closed s \<and> p_cap s \<noteq> None) \<and> (\<forall>k. p_shut s k = S_wait \<longrightarrow> p_chan_closed s) \<and>
     (\<forall>k. p_shut s k = S_drained \<longrightarrow> p_consumer_done s)"

definition data_inv :: "proto \<Rightarrow> bool" where
  "data_inv s \<longleftrightarrow> (p_consumer_done s \<longrightarrow> p_chan s = [] \<and> p_chan_closed s) \<and>
     (p_kafka s \<longrightarrow> p_acked s = p_produced s \<and> p_cap s = None) \<and>
     (\<not> p_kafka s \<longrightarrow> p_acked s =
        (if p_cap s = None then p_stored s else map fst (p_writes s) @ p_chan s)) \<and>
     (\<forall>cap. p_cap s = Some cap \<longrightarrow> length (p_chan s) \<le> cap) \<and> (p_cap s = None \<longrightarrow> p_chan s = [])"

definition proto_inv :: "proto \<Rightarrow> bool" where
  "proto_inv s \<longleftrightarrow> count_inv s \<and> gate_inv s \<and> close_inv s \<and> data_inv s \<and> \<not> p_panic s"

lemmas request_defs = req_enter_def req_check_def req_reject_def req_persist_def req_leave_def
lemmas shutdown_defs = shut_stop_def shut_poll_def shut_producer_def shut_swap_def shut_close_def
  shut_wait_def consume_def
lemmas proto_defs = request_defs shutdown_defs

lemma start_inv: "proto_inv (start_proto kafka cap)"
  by (auto simp: proto_inv_def start_proto_def count_inv_def gate_inv_def close_inv_def data_inv_def
      busy_def in_flight_def sealed_def past_poll_def p_stored_def split: option.split)

text \<open>The counter counts the calls between its two updates.\<close>

lemma in_flight_simps [simp]:
  "\<not> in_flight R_idle" "in_flight R_entered" "in_flight R_admitted" "in_flight R_leaving" "\<not> in_flight R_done"
  by (simp_all add: in_flight_def)

lemma busy_upd:
  "busy (f(t := pc)) = (if in_flight pc then insert t (busy f) else busy f - {t})"
  by (auto simp: busy_def)

lemma busy_stays: "in_flight (f t) \<Longrightarrow> insert t (busy f) = busy f"
  by (auto simp: busy_def)

lemma count_step:
  assumes "proto_step s s'" and "count_inv s"
  shows "count_inv s'"
  using assms(1)
proof (cases rule: proto_step.cases)
  case (p_enter t)
  then have "t \<notin> busy (p_req s)" by (simp add: busy_def)
  then show ?thesis using assms(2) p_enter(1) by (simp add: count_inv_def req_enter_def busy_upd)
next
  case (p_leave t)
  then have t: "t \<in> busy (p_req s)" by (simp add: busy_def)
  then have "0 < card (busy (p_req s))" using assms(2) by (auto simp: count_inv_def card_gt_0_iff)
  with t show ?thesis using assms(2) p_leave(1) by (simp add: count_inv_def req_leave_def busy_upd of_nat_diff)
next
  case (p_check t)
  then show ?thesis using assms(2) by (simp add: count_inv_def req_check_def busy_upd busy_stays)
next
  case (p_reject t)
  then show ?thesis using assms(2) by (simp add: count_inv_def req_reject_def busy_upd busy_stays)
next
  case (p_persist t ok dm)
  have "p_req (req_persist t ok dm s) = (p_req s)(t := R_leaving)" "p_inflight (req_persist t ok dm s) = p_inflight s"
    by (simp_all add: req_persist_def Let_def split: option.split)
  then show ?thesis using assms(2) p_persist by (simp add: count_inv_def busy_upd busy_stays)
qed (use assms(2) in \<open>simp_all add: count_inv_def shutdown_defs Let_def split: list.split\<close>)

text \<open>Which steps can lead into a sealed state, and what they do to admission.\<close>

lemma req_fields:
  "sealed (req_enter t s) = sealed s" "sealed (req_check t s) = sealed s" "sealed (req_reject t s) = sealed s"
  "sealed (req_persist t ok dm s) = sealed s" "sealed (req_leave t s) = sealed s" "sealed (consume ok s) = sealed s"
  by (simp_all add: sealed_def request_defs consume_def Let_def split: option.split list.split)

lemma past_poll_simps [simp]:
  "\<not> past_poll S_idle" "\<not> past_poll S_polling" "\<not> past_poll S_error" "past_poll S_quiet"
  "past_poll S_swap" "past_poll S_close" "past_poll S_wait" "past_poll S_drained" "past_poll S_nil"
  by (simp_all add: past_poll_def)

lemma sealedI: "past_poll (p_shut s k) \<Longrightarrow> sealed s"
  by (auto simp: sealed_def)

lemma sealed_back:
  assumes "proto_step s s'" and "sealed s'"
  shows "sealed s \<or> (\<not> 0 < p_inflight s \<and> p_req s' = p_req s \<and> p_accepting s' = p_accepting s \<and>
    (\<exists>k. p_shut s k \<noteq> S_idle))"
  using assms(1)
proof (cases rule: proto_step.cases)
  case (p_stop k)
  then have "past_poll (p_shut s' j) \<Longrightarrow> past_poll (p_shut s j)" for j
    by (auto simp: shut_stop_def past_poll_def split: if_splits)
  then show ?thesis using assms(2) p_stop by (auto simp: sealed_def shut_stop_def)
next
  case (p_poll k expired)
  show ?thesis
  proof (cases "0 < p_inflight s")
    case True
    then have "past_poll (p_shut s' j) \<Longrightarrow> past_poll (p_shut s j)" for j
      using p_poll by (auto simp: shut_poll_def past_poll_def split: if_splits)
    then show ?thesis using assms(2) p_poll True
      by (simp add: sealed_def shut_poll_def split: if_splits) blast
  next
    case False
    then show ?thesis using p_poll by (intro disjI2) (auto simp: shut_poll_def intro: exI [of _ k])
  qed
next
  case (p_producer k) then have "past_poll (p_shut s k)" by (simp add: past_poll_def)
  then show ?thesis using sealedI by blast
next
  case (p_swap k) then have "past_poll (p_shut s k)" by (simp add: past_poll_def)
  then show ?thesis using sealedI by blast
next
  case (p_close k) then have "past_poll (p_shut s k)" by (simp add: past_poll_def)
  then show ?thesis using sealedI by blast
next
  case (p_wait k expired) then have "past_poll (p_shut s k)" by (simp add: past_poll_def)
  then show ?thesis using sealedI by blast
qed (use assms(2) in \<open>simp_all add: req_fields\<close>)

lemma admitted_back:
  assumes "proto_step s s'" and "p_req s' t = R_admitted"
  shows "p_req s t = R_admitted \<or> p_accepting s"
  using assms
  by (cases rule: proto_step.cases)
    (auto simp: proto_defs Let_def split: if_splits option.splits list.splits)

lemma accepting_back: "proto_step s s' \<Longrightarrow> p_accepting s' \<Longrightarrow> p_accepting s"
  by (cases rule: proto_step.cases)
    (auto simp: proto_defs Let_def split: if_splits option.splits list.splits)

lemma started_back:
  assumes "proto_step s s'" and "p_shut s' k \<noteq> S_idle"
  shows "(\<exists>j. p_shut s j \<noteq> S_idle) \<or> \<not> p_accepting s'"
  using assms
proof (cases rule: proto_step.cases)
  case (p_stop j) then show ?thesis by (simp add: shut_stop_def)
next
  case (p_poll j e) then have "p_shut s j \<noteq> S_idle" by simp then show ?thesis by blast
next
  case (p_producer j) then have "p_shut s j \<noteq> S_idle" by simp then show ?thesis by blast
next
  case (p_swap j) then have "p_shut s j \<noteq> S_idle" by simp then show ?thesis by blast
next
  case (p_close j) then have "p_shut s j \<noteq> S_idle" by simp then show ?thesis by blast
next
  case (p_wait j e) then have "p_shut s j \<noteq> S_idle" by simp then show ?thesis by blast
qed (use assms(2) in \<open>auto simp: request_defs consume_def Let_def split: if_splits option.splits list.splits\<close>)

lemma gate_step:
  assumes st: "proto_step s s'" and "count_inv s" and g: "gate_inv s"
  shows "gate_inv s'"
proof -
  have quiet: "p_req s t \<noteq> R_admitted" if "\<not> 0 < p_inflight s" for t
  proof -
    have "busy (p_req s) = {}" using assms(2) that by (simp add: count_inv_def)
    then have "\<not> in_flight (p_req s t)" by (auto simp: busy_def)
    then show ?thesis by auto
  qed
  have stopped: "\<not> p_accepting s'" if "p_shut s' k \<noteq> S_idle" for k
    using started_back [OF st that] g accepting_back [OF st] by (auto simp: gate_inv_def)
  have "\<not> p_accepting s' \<and> (\<forall>t. p_req s' t \<noteq> R_admitted)" if "sealed s'"
    using sealed_back [OF st that]
  proof (elim disjE conjE)
    assume "sealed s"
    with g have "\<not> p_accepting s" "\<And>t. p_req s t \<noteq> R_admitted" by (simp_all add: gate_inv_def)
    with admitted_back [OF st] accepting_back [OF st] show ?thesis by blast
  next
    assume "\<not> 0 < p_inflight s" "p_req s' = p_req s" "p_accepting s' = p_accepting s"
      "\<exists>k. p_shut s k \<noteq> S_idle"
    with quiet g show ?thesis by (simp add: gate_inv_def)
  qed
  with stopped show ?thesis by (auto simp: gate_inv_def)
qed

lemma req_persist_frame:
  "p_shut (req_persist t ok dm s) = p_shut s" "p_closed (req_persist t ok dm s) = p_closed s"
  "p_chan_closed (req_persist t ok dm s) = p_chan_closed s" "p_cap (req_persist t ok dm s) = p_cap s"
  "p_consumer_done (req_persist t ok dm s) = p_consumer_done s"
  by (simp_all add: req_persist_def Let_def split: option.split)

lemma close_step:
  assumes "proto_step s s'" and "close_inv s"
  shows "close_inv s'"
  using assms(1)
proof (cases rule: proto_step.cases)
  case (p_stop k)
  with assms(2) show ?thesis by (simp add: close_inv_def shut_stop_def) blast
next
  case (p_poll k e)
  with assms(2) show ?thesis by (simp add: close_inv_def shut_poll_def) blast
next
  case (p_producer k)
  with assms(2) show ?thesis by (simp add: close_inv_def shut_producer_def) blast
next
  case (p_swap k)
  show ?thesis
  proof (cases "p_closed s")
    case True
    with assms(2) p_swap show ?thesis by (simp add: close_inv_def shut_swap_def) blast
  next
    case False
    with assms(2) have "\<And>j. p_shut s j \<noteq> S_close" "\<not> p_chan_closed s" by (auto simp: close_inv_def)
    with assms(2) p_swap False show ?thesis by (auto simp: close_inv_def shut_swap_def)
  qed
next
  case (p_close k)
  with assms(2) have o: "\<not> p_chan_closed s" "p_closed s" "p_cap s \<noteq> None"
    and only: "\<And>j. p_shut s j = S_close \<Longrightarrow> j = k"
    unfolding close_inv_def by blast+
  then have s': "s' = s\<lparr>p_shut := (p_shut s)(k := S_wait), p_chan_closed := True\<rparr>"
    using p_close(1) by (simp add: shut_close_def Let_def)
  have "p_shut s' j \<noteq> S_close" for j using only s' by auto
  moreover have "p_consumer_done s'" if "p_shut s' j = S_drained" for j
    using that s' assms(2) by (auto simp: close_inv_def split: if_splits)
  moreover have "p_chan_closed s'" "p_closed s'" "p_cap s' \<noteq> None" using s' o by simp_all
  ultimately show ?thesis unfolding close_inv_def by blast
next
  case (p_wait k e)
  with assms(2) show ?thesis by (simp add: close_inv_def shut_wait_def) blast
next
  case p_consume
  then show ?thesis using assms(2) by (auto simp: close_inv_def consume_def split: list.splits)
qed (use assms(2) in \<open>simp_all add: close_inv_def req_persist_frame req_enter_def req_check_def req_reject_def req_leave_def\<close>)

text \<open>An admitted request finds the producer and the channel open.\<close>

lemma admitted_open:
  "gate_inv s \<Longrightarrow> p_req s t = R_admitted \<Longrightarrow> \<not> p_producer_closed s \<and> \<not> p_chan_closed s"
  by (auto simp: gate_inv_def sealed_def)

lemma data_step:
  assumes "proto_step s s'" and "gate_inv s" and "close_inv s" and "data_inv s" and "\<not> p_panic s"
  shows "data_inv s' \<and> \<not> p_panic s'"
  using assms(1)
proof (cases rule: proto_step.cases)
  case (p_persist t ok dm)
  note o = admitted_open [OF assms(2) p_persist(2)]
  show ?thesis
    using assms(4,5) o p_persist(1)
    by (auto simp: data_inv_def p_stored_def req_persist_def Let_def split: option.splits if_splits)
next
  case p_consume
  with assms(4,5) show ?thesis
    by (auto simp: data_inv_def p_stored_def consume_def split: list.splits option.splits if_splits)
next
  case (p_close k)
  then have "\<not> p_chan_closed s" using assms(3) unfolding close_inv_def by blast
  with assms(4,5) p_close show ?thesis
    by (auto simp: data_inv_def p_stored_def shut_close_def Let_def split: option.splits if_splits)
qed (use assms(4,5) in \<open>simp_all add: data_inv_def p_stored_def proto_defs\<close>)

lemma proto_step_inv:
  assumes "proto_step s s'" and "proto_inv s"
  shows "proto_inv s'"
  using assms count_step gate_step close_step data_step unfolding proto_inv_def by blast

lemma proto_reach_inv:
  assumes "proto_step\<^sup>*\<^sup>* (start_proto kafka cap) s"
  shows "proto_inv s"
  using assms
  by (induction rule: rtranclp_induct) (use start_inv proto_step_inv in blast)+

section \<open>After the channel is closed\<close>

lemma closed_final:
  assumes "proto_step\<^sup>*\<^sup>* s s'" and "proto_inv s" and "p_chan_closed s"
  shows "p_acked s' = p_acked s \<and> p_chan_closed s' \<and> proto_inv s' \<and>
    (p_consumer_done s \<longrightarrow> p_consumer_done s' \<and> p_writes s' = p_writes s)"
  using assms(1)
proof (induction rule: rtranclp_induct)
  case (step v u)
  have inv: "proto_inv u" using step proto_step_inv by blast
  have na: "p_req v t \<noteq> R_admitted" for t
    using step.IH by (auto simp: proto_inv_def gate_inv_def sealed_def)
  from step.hyps(2) have "p_acked u = p_acked v \<and> p_chan_closed u \<and>
      (p_consumer_done v \<longrightarrow> p_consumer_done u \<and> p_writes u = p_writes v)"
    using step.IH na by (cases rule: proto_step.cases) (auto simp: proto_defs Let_def split: list.splits)
  with step.IH inv show ?case by simp
qed (use assms in simp)

text \<open>As many turns as there are buffered danmaku, with any outcomes, and one more end the consumer.\<close>

lemma consume_drains:
  assumes "p_cap s \<noteq> None" and "p_chan_closed s" and "\<not> p_consumer_done s"
    and "length oks = length (p_chan s)"
  shows "fold consume (oks @ [ok]) s =
      s\<lparr>p_chan := [], p_writes := p_writes s @ zip (p_chan s) oks, p_consumer_done := True\<rparr> \<and>
    proto_step\<^sup>*\<^sup>* s (fold consume (oks @ [ok]) s)"
  using assms
proof (induction oks arbitrary: s)
  case Nil
  then have "consume ok s = s\<lparr>p_consumer_done := True\<rparr>" by (simp add: consume_def)
  with Nil p_consume [of s ok] show ?case by auto
next
  case (Cons b oks)
  then obtain dm rest where ch: "p_chan s = dm # rest" by (cases "p_chan s") auto
  let ?c = "s\<lparr>p_chan := rest, p_writes := p_writes s @ [(dm, b)]\<rparr>"
  have c: "consume b s = ?c" using Cons.prems ch by (simp add: consume_def)
  have "fold consume (oks @ [ok]) ?c =
      ?c\<lparr>p_chan := [], p_writes := p_writes ?c @ zip (p_chan ?c) oks, p_consumer_done := True\<rparr> \<and>
    proto_step\<^sup>*\<^sup>* ?c (fold consume (oks @ [ok]) ?c)"
    by (rule Cons.IH) (use Cons.prems ch in simp_all)
  with p_consume [of s b] show ?case
    using c ch by (auto intro: converse_rtranclp_into_rtranclp)
qed

section \<open>Properties\<close>

text \<open>
  Property C4 (no send on a closed channel). However the calls of \<open>createAndBroadcast\<close> and of
  \<open>Shutdown\<close>, also several of them, and the consumer interleave: no danmaku is sent on the closed
  channel or produced with the closed producer, and the channel is not closed twice. It rests on
  the order of the code: a request counts itself before it looks at \<open>accepting\<close>, a shutdown clears
  \<open>accepting\<close> before it reads the counter.
\<close>

theorem no_send_after_close:
  assumes "proto_step\<^sup>*\<^sup>* (start_proto kafka cap) s"
  shows "\<not> p_panic s"
  using proto_reach_inv [OF assms] by (simp add: proto_inv_def)

text \<open>
  Property C5 (a drained shutdown has written everything once). When a \<open>Shutdown\<close> has returned because
  the consumer finished, every danmaku that any request was told is buffered has been handed to
  \<open>store.Add\<close> exactly once, in the order of the answers. What is stored are those whose write returned no
  error, the others are lost (the consumer only logs the error); if no write failed, everything that was
  acknowledged is stored, in order. And nothing is taken over or written any more.
\<close>

theorem drained_is_stored:
  assumes "proto_step\<^sup>*\<^sup>* (start_proto kafka cap) s" and "p_shut s k = S_drained"
    and "proto_step\<^sup>*\<^sup>* s s'" and "\<not> kafka"
  shows "map fst (p_writes s) = p_acked s \<and> mset (p_stored s) + mset (p_lost s) = mset (p_acked s) \<and>
    (p_lost s = [] \<longrightarrow> p_stored s = p_acked s) \<and> p_acked s' = p_acked s \<and> p_writes s' = p_writes s"
proof -
  have inv: "proto_inv s" by (rule proto_reach_inv [OF assms(1)])
  have "p_kafka s = kafka"
    using assms(1)
  proof (induction rule: rtranclp_induct)
    case (step v u)
    from step.hyps(2) have "p_kafka u = p_kafka v"
      by (cases rule: proto_step.cases)
        (auto simp: proto_defs Let_def split: if_splits option.splits list.splits)
    with step.IH show ?case by simp
  qed (simp add: start_proto_def)
  moreover have fin: "p_consumer_done s" using inv assms(2) by (auto simp: proto_inv_def close_inv_def)
  moreover from this inv have "p_chan s = []" "p_chan_closed s" by (simp_all add: proto_inv_def data_inv_def)
  moreover from this inv have "p_cap s \<noteq> None" by (simp add: proto_inv_def close_inv_def)
  ultimately have w: "map fst (p_writes s) = p_acked s"
    using inv assms(4) by (auto simp: proto_inv_def data_inv_def)
  then show ?thesis
    using closed_final [OF assms(3) inv] fin \<open>p_chan_closed s\<close> stored_and_lost [of s] nothing_lost [of s] by simp
qed

text \<open>
  Corollary (the count is exact and the buffer bounded). In every reachable state \<open>inflight\<close> is
  the number of requests between its two updates, never negative, the buffer holds at most its
  capacity, and without Kafka what has been acknowledged is, in order, what was handed to the store, then
  what is buffered; without a buffer it is what the store has taken.
\<close>

theorem counter_exact:
  assumes "proto_step\<^sup>*\<^sup>* (start_proto kafka cap) s"
  shows "p_inflight s = int (card {t. in_flight (p_req s t)}) \<and>
    (case p_cap s of Some n \<Rightarrow> length (p_chan s) \<le> n | None \<Rightarrow> p_chan s = []) \<and>
    (\<not> p_kafka s \<longrightarrow> p_acked s =
      (if p_cap s = None then p_stored s else map fst (p_writes s) @ p_chan s))"
  using proto_reach_inv [OF assms]
  by (auto simp: proto_inv_def count_inv_def data_inv_def busy_def split: option.split)

text \<open>
  Corollary (a shutdown that waits can finish). From every reachable state in which a shutdown
  waits for the consumer, as many turns of the consumer as there are buffered danmaku and one more, however
  their writes end, lead to a state where its next look finds the consumer done; every buffered danmaku has
  then been handed to the store.
\<close>

theorem waiting_shutdown_finishes:
  assumes "proto_step\<^sup>*\<^sup>* (start_proto kafka cap) s" and "p_shut s k = S_wait" and "\<not> p_consumer_done s"
    and "length oks = length (p_chan s)" and "s' = shut_wait k expired (fold consume (oks @ [ok]) s)"
  shows "proto_step\<^sup>*\<^sup>* s s' \<and> p_shut s' k = S_drained \<and> p_writes s' = p_writes s @ zip (p_chan s) oks"
proof -
  have inv: "proto_inv s" by (rule proto_reach_inv [OF assms(1)])
  then have cl: "p_chan_closed s" using assms(2) by (auto simp: proto_inv_def close_inv_def)
  have cap: "p_cap s \<noteq> None" using inv cl by (simp add: proto_inv_def close_inv_def)
  note d = consume_drains [OF cap cl assms(3,4)]
  let ?u = "fold consume (oks @ [ok]) s"
  have "proto_step ?u (shut_wait k expired ?u)" by (rule p_wait) (use d assms(2) in simp)
  with d assms(5) have "proto_step\<^sup>*\<^sup>* s s'" by (blast intro: rtranclp.rtrancl_into_rtrancl)
  then show ?thesis using d assms(5) by (simp add: shut_wait_def)
qed

section \<open>Witnesses, and a retry that hides a timeout\<close>

definition sample_msg :: danmaku where
  "sample_msg = \<lparr>d_id = ''n'', d_content = ''hi'', d_color = ''#ffffff'', d_type = ''scroll'', d_font_size = 25,
     d_room_id = ''r'', d_timestamp = 1, d_user_id = ''u'', d_status = DanmakuStatusApproved,
     d_reviewed_by = '''', d_reviewed_at = None, d_review_reason = ''''\<rparr>"

definition one_sent :: proto where
  "one_sent = req_leave 0 (req_persist 0 True sample_msg (req_check 0 (req_enter 0 (start_proto False (Some 2)))))"

definition one_waiting :: proto where
  "one_waiting = shut_close 0 (shut_swap 0 (shut_producer 0 (shut_poll 0 False (shut_stop 0 one_sent))))"

lemmas sample_run_defs = one_sent_def one_waiting_def start_proto_def proto_defs

lemma four_steps: "r a b \<Longrightarrow> r b c \<Longrightarrow> r c d \<Longrightarrow> r d e \<Longrightarrow> r\<^sup>*\<^sup>* a e"
  by (rule converse_rtranclp_into_rtranclp, assumption)+ (rule rtranclp.rtrancl_refl)

lemma one_sent_reach: "proto_step\<^sup>*\<^sup>* (start_proto False (Some 2)) one_sent"
proof -
  let ?s1 = "req_enter 0 (start_proto False (Some 2))"
  let ?s2 = "req_check 0 ?s1" and ?s3 = "req_persist 0 True sample_msg (req_check 0 ?s1)"
  have "proto_step (start_proto False (Some 2)) ?s1" by (rule p_enter) (simp add: start_proto_def)
  moreover have "proto_step ?s1 ?s2" by (rule p_check) (simp add: sample_run_defs)
  moreover have "proto_step ?s2 ?s3" by (rule p_persist) (simp add: sample_run_defs)
  moreover have "proto_step ?s3 one_sent"
    unfolding one_sent_def by (rule p_leave) (simp add: sample_run_defs)
  ultimately show ?thesis by (rule four_steps)
qed

lemma one_waiting_reach: "proto_step\<^sup>*\<^sup>* (start_proto False (Some 2)) one_waiting"
proof -
  let ?s1 = "shut_stop 0 one_sent"
  let ?s2 = "shut_poll 0 False ?s1"
  let ?s3 = "shut_producer 0 ?s2"
  let ?s4 = "shut_swap 0 ?s3"
  have "proto_step one_sent ?s1" by (rule p_stop) (simp add: sample_run_defs)
  moreover have "proto_step ?s1 ?s2" by (rule p_poll) (simp add: sample_run_defs)
  moreover have "proto_step ?s2 ?s3" by (rule p_producer) (simp add: sample_run_defs)
  moreover have "proto_step ?s3 ?s4" by (rule p_swap) (simp add: sample_run_defs)
  moreover have "proto_step ?s4 one_waiting"
    unfolding one_waiting_def by (rule p_close) (simp add: sample_run_defs)
  ultimately have "proto_step\<^sup>*\<^sup>* one_sent one_waiting"
    by (intro rtranclp.rtrancl_into_rtrancl [OF four_steps])
  with one_sent_reach show ?thesis by (rule rtranclp_trans)
qed

theorem no_send_after_close_witness: "\<not> p_panic one_waiting"
  by (rule no_send_after_close [OF one_waiting_reach])

theorem counter_exact_witness: "p_acked one_waiting = [sample_msg]"
  using counter_exact [OF one_waiting_reach] by (simp add: sample_run_defs)

theorem waiting_shutdown_finishes_witness:
  "p_writes (shut_wait 0 False (fold consume ([True] @ [True]) one_waiting)) = [(sample_msg, True)]"
proof -
  have w: "p_shut one_waiting 0 = S_wait" "\<not> p_consumer_done one_waiting"
    "length [True] = length (p_chan one_waiting)" "p_chan one_waiting = [sample_msg]" "p_writes one_waiting = []"
    by (simp_all add: sample_run_defs)
  from waiting_shutdown_finishes [OF one_waiting_reach w(1-3) refl, of False True] w(4,5) show ?thesis by simp
qed

theorem drained_is_stored_witness:
  "p_stored (shut_wait 0 False (consume True (consume True one_waiting))) = [sample_msg] \<and>
   p_stored (shut_wait 0 False (consume True (consume False one_waiting))) = [] \<and>
   mset (p_lost (shut_wait 0 False (consume True (consume False one_waiting)))) = {#sample_msg#}"
proof -
  let ?s = "\<lambda>b. shut_wait 0 False (consume True (consume b one_waiting))"
  have r: "proto_step\<^sup>*\<^sup>* (start_proto False (Some 2)) (?s b)" for b
  proof -
    have "proto_step (consume True (consume b one_waiting)) (?s b)"
      by (rule p_wait) (simp add: sample_run_defs)
    with p_consume [of one_waiting b] p_consume [of "consume b one_waiting" True]
    show ?thesis using one_waiting_reach by (meson rtranclp.rtrancl_into_rtrancl)
  qed
  have k: "p_shut (?s b) 0 = S_drained" and a: "p_acked (?s b) = [sample_msg]"
    and w: "p_writes (?s b) = [(sample_msg, b)]" for b
    by (simp_all add: sample_run_defs)
  have "p_lost (?s True) = []" "p_stored (?s False) = []" by (simp_all add: p_lost_def p_stored_def w)
  with drained_is_stored [OF r k rtranclp.rtrancl_refl, of True] drained_is_stored [OF r k rtranclp.rtrancl_refl, of False] a
  show ?thesis by simp
qed

text \<open>
  Corollary (a retry hides the timeout). After a shutdown that timed out waiting for the
  consumer, a second call of \<open>Shutdown\<close> returns without an error at once, with an acknowledged
  danmaku still in the buffer and not in the store: only the caller that closed the channel waits.
\<close>

theorem retry_returns_undrained:
  "\<exists>s. proto_step\<^sup>*\<^sup>* (start_proto False (Some 2)) s \<and> p_shut s 0 = S_error \<and> p_shut s 1 = S_nil \<and>
     p_acked s \<noteq> p_stored s"
proof -
  let ?s0 = "shut_wait 0 True one_waiting"
  let ?s1 = "shut_stop 1 ?s0"
  let ?s2 = "shut_poll 1 False ?s1"
  let ?s3 = "shut_producer 1 ?s2"
  let ?s4 = "shut_swap 1 ?s3"
  have "proto_step one_waiting ?s0" by (rule p_wait) (simp add: sample_run_defs)
  moreover have "proto_step ?s0 ?s1" by (rule p_stop) (simp add: sample_run_defs)
  moreover have "proto_step ?s1 ?s2" by (rule p_poll) (simp add: sample_run_defs)
  moreover have "proto_step ?s2 ?s3" by (rule p_producer) (simp add: sample_run_defs)
  moreover have "proto_step ?s3 ?s4" by (rule p_swap) (simp add: sample_run_defs)
  ultimately have "proto_step\<^sup>*\<^sup>* one_waiting ?s4"
    by (intro rtranclp.rtrancl_into_rtrancl [OF four_steps])
  with one_waiting_reach have "proto_step\<^sup>*\<^sup>* (start_proto False (Some 2)) ?s4" by (rule rtranclp_trans)
  moreover have "p_shut ?s4 0 = S_error \<and> p_shut ?s4 1 = S_nil \<and> p_acked ?s4 \<noteq> p_stored ?s4"
    by (simp add: sample_run_defs p_stored_def)
  ultimately show ?thesis by blast
qed

end
