(* ===== verification/Hub.thy ===== *)
theory Hub
  imports Interfaces
begin

text \<open>
  \<open>websocket/hub.go\<close> and \<open>websocket/client.go\<close>: the hub with its rooms and connection quotas, the
  event loop of a room, and the life of a connection. Rooms and clients are objects of a heap,
  named by numbers; the hub's map holds room pointers. What the goroutines do is a list of
  events, in any order; an event whose goroutine is not at that point has no effect. The
  broadcast buffer of a room is taken to have room for at least one message (the default
  is 256); the counters stay far below 2 ^ 63.
\<close>

section \<open>Configuration and state\<close>

record ws_config =
  ws_write_wait :: int
  ws_pong_wait :: int
  ws_max_message :: int
  ws_broadcast_buffer :: int
  ws_send_buffer :: int
  ws_max_per_room :: int
  ws_max_per_ip :: int
  ws_origins :: "string list"

definition default_config :: ws_config where
  "default_config = \<lparr>ws_write_wait = 10, ws_pong_wait = 60, ws_max_message = 512,
     ws_broadcast_buffer = 256, ws_send_buffer = 256, ws_max_per_room = 0, ws_max_per_ip = 0, ws_origins = []\<rparr>"

definition writeWait :: "ws_config \<Rightarrow> duration" where
  "writeWait cfg = i64 (ws_write_wait cfg * Second)"

definition pongWait :: "ws_config \<Rightarrow> duration" where
  "pongWait cfg = i64 (ws_pong_wait cfg * Second)"

text \<open>Go's integer division truncates towards zero.\<close>

definition go_div :: "int \<Rightarrow> int \<Rightarrow> int" where
  "go_div a b = (if (a < 0) = (b < 0) then \<bar>a\<bar> div \<bar>b\<bar> else - (\<bar>a\<bar> div \<bar>b\<bar>))"

definition pingPeriod :: "ws_config \<Rightarrow> duration" where
  "pingPeriod cfg = i64 (go_div (i64 (ws_pong_wait cfg * 9)) 10 * Second)"

definition maxMessageSize :: "ws_config \<Rightarrow> int" where
  "maxMessageSize cfg = (if ws_max_message cfg \<le> 0 then 512 else ws_max_message cfg)"

definition sendBufferSize :: "ws_config \<Rightarrow> int" where
  "sendBufferSize cfg = (if ws_send_buffer cfg \<le> 0 then 256 else ws_send_buffer cfg)"

text \<open>
  A connection first holds its quota, passes the shutdown check of \<open>GetOrCreateRoom\<close>, has its
  room, is registered and its pumps run; or its set-up has failed and the quota is given back.
\<close>

datatype phase = C_acquired | C_checked | C_waiting nat | C_open nat | C_failed

record client =
  wc_phase :: phase
  wc_ip :: string
  wc_room_id :: string
  wc_send :: "envelope list"
  wc_done :: bool

record ws_room =
  wr_id :: string
  wr_clients :: "nat set"
  wr_queue :: "envelope list"
  wr_count :: int
  wr_stop :: bool
  wr_done :: bool

record hub =
  hb_cfg :: ws_config
  hb_rooms :: "string \<rightharpoonup> nat"
  hb_room :: "nat \<rightharpoonup> ws_room"
  hb_next_room :: nat
  hb_client :: "nat \<rightharpoonup> client"
  hb_next_client :: nat
  hb_conn :: "string \<rightharpoonup> int"
  hb_room_conn :: "string \<rightharpoonup> int"
  hb_shutting :: bool
  hb_swept :: bool
  hb_publish :: "(string \<times> envelope) list option"
  hb_pub_drops :: int

definition NewHubWithConfig :: "ws_config \<Rightarrow> bool \<Rightarrow> hub" where
  "NewHubWithConfig cfg redis = \<lparr>hb_cfg = cfg, hb_rooms = Map.empty, hb_room = Map.empty, hb_next_room = 0,
     hb_client = Map.empty, hb_next_client = 0, hb_conn = Map.empty, hb_room_conn = Map.empty,
     hb_shutting = False, hb_swept = False, hb_publish = (if redis then Some [] else None), hb_pub_drops = 0\<rparr>"

definition NewHub :: hub where
  "NewHub = NewHubWithConfig default_config False"

definition NewRoom :: "string \<Rightarrow> ws_room" where
  "NewRoom room_id = \<lparr>wr_id = room_id, wr_clients = {}, wr_queue = [], wr_count = 0, wr_stop = False, wr_done = False\<rparr>"

section \<open>Quotas\<close>

definition counter :: "(string \<rightharpoonup> int) \<Rightarrow> string \<Rightarrow> int" where
  "counter m k = (case m k of None \<Rightarrow> 0 | Some n \<Rightarrow> n)"

definition count_up :: "string \<Rightarrow> (string \<rightharpoonup> int) \<Rightarrow> (string \<rightharpoonup> int)" where
  "count_up k m = m(k \<mapsto> counter m k + 1)"

definition count_down :: "string \<Rightarrow> (string \<rightharpoonup> int) \<Rightarrow> (string \<rightharpoonup> int)" where
  "count_down k m = (let n = counter m k - 1 in if n \<le> 0 then m(k := None) else m(k \<mapsto> n))"

definition TryAcquireConn :: "string \<Rightarrow> string \<Rightarrow> hub \<Rightarrow> bool \<times> hub" where
  "TryAcquireConn ip room_id h =
     (if 0 < ws_max_per_ip (hb_cfg h) \<and> ws_max_per_ip (hb_cfg h) \<le> counter (hb_conn h) ip then (False, h)
      else if 0 < ws_max_per_room (hb_cfg h) \<and> ws_max_per_room (hb_cfg h) \<le> counter (hb_room_conn h) room_id
      then (False, h)
      else (True, h\<lparr>hb_conn := count_up ip (hb_conn h), hb_room_conn := count_up room_id (hb_room_conn h)\<rparr>))"

definition release_conn :: "string \<Rightarrow> string \<Rightarrow> hub \<Rightarrow> hub" where
  "release_conn ip room_id h =
     h\<lparr>hb_conn := count_down ip (hb_conn h), hb_room_conn := count_down room_id (hb_room_conn h)\<rparr>"

definition GetRoomConnCount :: "string \<Rightarrow> hub \<Rightarrow> int" where
  "GetRoomConnCount room_id h = counter (hb_room_conn h) room_id"

section \<open>Clients\<close>

definition put_client :: "nat \<Rightarrow> client \<Rightarrow> hub \<Rightarrow> hub" where
  "put_client c cl h = h\<lparr>hb_client := (hb_client h)(c \<mapsto> cl)\<rparr>"

text \<open>\<open>stop\<close>: the first call closes \<open>done\<close> and gives the quota back, later ones do nothing.\<close>

definition client_stop :: "nat \<Rightarrow> hub \<Rightarrow> hub" where
  "client_stop c h =
     (case hb_client h c of
        None \<Rightarrow> h
      | Some cl \<Rightarrow> if wc_done cl then h
                   else release_conn (wc_ip cl) (wc_room_id cl) (put_client c (cl\<lparr>wc_done := True\<rparr>) h))"

definition enqueue :: "int \<Rightarrow> envelope \<Rightarrow> client \<Rightarrow> bool \<times> client" where
  "enqueue cap data cl =
     (if wc_done cl then (False, cl)
      else if int (length (wc_send cl)) < cap then (True, cl\<lparr>wc_send := wc_send cl @ [data]\<rparr>)
      else (False, cl))"

section \<open>Rooms\<close>

definition put_room :: "nat \<Rightarrow> ws_room \<Rightarrow> hub \<Rightarrow> hub" where
  "put_room p r h = h\<lparr>hb_room := (hb_room h)(p \<mapsto> r)\<rparr>"

text \<open>The order in which a \<open>range\<close> over the client map visits it: any enumeration.\<close>

definition visit_order :: "(nat set \<Rightarrow> nat list) \<Rightarrow> nat set \<Rightarrow> nat list" where
  "visit_order f S = (if set (f S) = S \<and> distinct (f S) then f S else sorted_list_of_set S)"

definition drop_client :: "nat \<Rightarrow> nat \<Rightarrow> hub \<Rightarrow> hub" where
  "drop_client p c h =
     (case hb_room h p of
        None \<Rightarrow> h
      | Some r \<Rightarrow> put_room p (r\<lparr>wr_clients := wr_clients r - {c}, wr_count := wr_count r - 1\<rparr>) h)"

definition deliver_one :: "nat \<Rightarrow> envelope \<Rightarrow> nat \<Rightarrow> hub \<Rightarrow> hub" where
  "deliver_one p msg c h =
     (case hb_client h c of
        None \<Rightarrow> h
      | Some cl \<Rightarrow>
          if int (length (wc_send cl)) < sendBufferSize (hb_cfg h)
          then put_client c (cl\<lparr>wc_send := wc_send cl @ [msg]\<rparr>) h
          else drop_client p c (client_stop c h))"

definition broadcastToClients :: "(nat set \<Rightarrow> nat list) \<Rightarrow> nat \<Rightarrow> envelope \<Rightarrow> hub \<Rightarrow> hub" where
  "broadcastToClients f p msg h =
     (case hb_room h p of
        None \<Rightarrow> h
      | Some r \<Rightarrow> fold (deliver_one p msg) (visit_order f (wr_clients r)) h)"

definition RemoveRoomIfSame :: "string \<Rightarrow> nat \<Rightarrow> hub \<Rightarrow> hub" where
  "RemoveRoomIfSame room_id p h =
     (if hb_rooms h room_id = Some p then h\<lparr>hb_rooms := (hb_rooms h)(room_id := None)\<rparr> else h)"

definition room_register :: "nat \<Rightarrow> nat \<Rightarrow> client \<Rightarrow> ws_room \<Rightarrow> hub \<Rightarrow> hub" where
  "room_register p c cl r h =
     put_room p (r\<lparr>wr_clients := insert c (wr_clients r), wr_count := wr_count r + 1\<rparr>)
       (put_client c (cl\<lparr>wc_phase := C_open p\<rparr>) h)"

definition room_unregister :: "nat \<Rightarrow> nat \<Rightarrow> ws_room \<Rightarrow> hub \<Rightarrow> hub" where
  "room_unregister p c r h =
     (if c \<in> wr_clients r
      then let h = client_stop c (drop_client p c h)
           in if wr_count r - 1 = 0 then RemoveRoomIfSame (wr_id r) p h else h
      else h)"

definition room_next :: "(nat set \<Rightarrow> nat list) \<Rightarrow> nat \<Rightarrow> ws_room \<Rightarrow> hub \<Rightarrow> hub" where
  "room_next f p r h =
     (case wr_queue r of
        [] \<Rightarrow> h
      | msg # rest \<Rightarrow> broadcastToClients f p msg (put_room p (r\<lparr>wr_queue := rest\<rparr>) h))"

text \<open>The deferred functions of \<open>Run\<close>: drain the queue, stop every client, close \<open>done\<close>.\<close>

definition room_finish :: "(nat set \<Rightarrow> nat list) \<Rightarrow> nat \<Rightarrow> ws_room \<Rightarrow> hub \<Rightarrow> hub" where
  "room_finish f p r h =
     (let h = fold (broadcastToClients f p) (wr_queue r) (put_room p (r\<lparr>wr_queue := []\<rparr>) h) in
      case hb_room h p of
        None \<Rightarrow> h
      | Some r \<Rightarrow> put_room p (r\<lparr>wr_clients := {}, wr_count := 0, wr_done := True\<rparr>)
                    (fold client_stop (visit_order f (wr_clients r)) h))"

section \<open>The hub\<close>

definition GetRoom :: "string \<Rightarrow> hub \<Rightarrow> nat option" where
  "GetRoom room_id h = hb_rooms h room_id"

definition BroadcastToRoomLocal :: "string \<Rightarrow> envelope \<Rightarrow> hub \<Rightarrow> hub" where
  "BroadcastToRoomLocal room_id data h =
     (if hb_shutting h then h
      else case GetRoom room_id h of
        None \<Rightarrow> h
      | Some p \<Rightarrow>
          (case hb_room h p of
             None \<Rightarrow> h
           | Some r \<Rightarrow>
               if int (length (wr_queue r)) < ws_broadcast_buffer (hb_cfg h)
               then put_room p (r\<lparr>wr_queue := wr_queue r @ [data]\<rparr>) h
               else h))"

definition redisPubChanSize :: nat where
  "redisPubChanSize = 256"

definition BroadcastToRoom :: "string \<Rightarrow> envelope \<Rightarrow> hub \<Rightarrow> hub" where
  "BroadcastToRoom room_id data h =
     (if hb_shutting h then h
      else let h = BroadcastToRoomLocal room_id data h in
        case hb_publish h of
          None \<Rightarrow> h
        | Some jobs \<Rightarrow>
            if length jobs < redisPubChanSize then h\<lparr>hb_publish := Some (jobs @ [(room_id, data)])\<rparr>
            else h\<lparr>hb_pub_drops := hb_pub_drops h + 1\<rparr>)"

text \<open>\<open>GetOrCreateRoom\<close> after its shutdown check, under the lock.\<close>

definition find_or_create :: "string \<Rightarrow> hub \<Rightarrow> nat \<times> hub" where
  "find_or_create room_id h =
     (case hb_rooms h room_id of
        Some p \<Rightarrow> (p, h)
      | None \<Rightarrow> (hb_next_room h, put_room (hb_next_room h) (NewRoom room_id)
          (h\<lparr>hb_rooms := (hb_rooms h)(room_id \<mapsto> hb_next_room h), hb_next_room := hb_next_room h + 1\<rparr>)))"

definition GetOrCreateRoom :: "string \<Rightarrow> hub \<Rightarrow> nat option \<times> hub" where
  "GetOrCreateRoom room_id h =
     (if hb_shutting h then (None, h) else let (p, h) = find_or_create room_id h in (Some p, h))"

definition RoomCount :: "hub \<Rightarrow> nat" where
  "RoomCount h = card (dom (hb_rooms h))"

text \<open>\<open>Shutdown\<close> sets the flag, then, once, closes \<open>stop\<close> of every room it finds in the map.\<close>

definition stop_rooms :: "hub \<Rightarrow> hub" where
  "stop_rooms h = h\<lparr>hb_swept := True, hb_room := (\<lambda>p. map_option (\<lambda>r. if p \<in> ran (hb_rooms h) then r\<lparr>wr_stop := True\<rparr> else r)
     (hb_room h p))\<rparr>"

section \<open>Events\<close>

datatype hub_event =
    Accept string string
  | Upgrade_fails nat
  | Check_shutdown nat
  | Look_up nat
  | Register nat
  | Sees_stop nat
  | Pump_ends nat
  | Unregister nat
  | Reply nat envelope
  | Write_out nat
  | Broadcast string envelope
  | Broadcast_local string envelope
  | Room_next nat "nat set \<Rightarrow> nat list"
  | Room_finish nat "nat set \<Rightarrow> nat list"
  | Publish_next
  | Shutdown_flag
  | Shutdown_rooms

text \<open>A path of \<open>ServeWs\<close> that ends before the pumps start gives the quota back itself.\<close>

definition fail_setup :: "nat \<Rightarrow> client \<Rightarrow> hub \<Rightarrow> hub" where
  "fail_setup c cl h = release_conn (wc_ip cl) (wc_room_id cl) (put_client c (cl\<lparr>wc_phase := C_failed\<rparr>) h)"

definition with_client :: "nat \<Rightarrow> (client \<Rightarrow> hub \<Rightarrow> hub) \<Rightarrow> hub \<Rightarrow> hub" where
  "with_client c f h = (case hb_client h c of None \<Rightarrow> h | Some cl \<Rightarrow> f cl h)"

definition with_room :: "nat \<Rightarrow> (ws_room \<Rightarrow> hub \<Rightarrow> hub) \<Rightarrow> hub \<Rightarrow> hub" where
  "with_room p f h = (case hb_room h p of None \<Rightarrow> h | Some r \<Rightarrow> if wr_done r then h else f r h)"

primrec hub_exec :: "hub_event \<Rightarrow> hub \<Rightarrow> hub" where
  "hub_exec (Accept ip room_id) h =
     (let (ok, h) = TryAcquireConn ip room_id h in
      if ok then put_client (hb_next_client h) \<lparr>wc_phase = C_acquired, wc_ip = ip, wc_room_id = room_id,
          wc_send = [], wc_done = False\<rparr> (h\<lparr>hb_next_client := hb_next_client h + 1\<rparr>)
      else h)"
| "hub_exec (Upgrade_fails c) h =
     with_client c (\<lambda>cl h. if wc_phase cl = C_acquired then fail_setup c cl h else h) h"
| "hub_exec (Check_shutdown c) h =
     with_client c (\<lambda>cl h. if wc_phase cl \<noteq> C_acquired then h
       else if hb_shutting h then fail_setup c cl h else put_client c (cl\<lparr>wc_phase := C_checked\<rparr>) h) h"
| "hub_exec (Look_up c) h =
     with_client c (\<lambda>cl h. if wc_phase cl \<noteq> C_checked then h
       else let (p, h) = find_or_create (wc_room_id cl) h in put_client c (cl\<lparr>wc_phase := C_waiting p\<rparr>) h) h"
| "hub_exec (Register c) h =
     with_client c (\<lambda>cl h. case wc_phase cl of
         C_waiting p \<Rightarrow> with_room p (room_register p c cl) h
       | _ \<Rightarrow> h) h"
| "hub_exec (Sees_stop c) h =
     with_client c (\<lambda>cl h. case wc_phase cl of
         C_waiting p \<Rightarrow> (case hb_room h p of
             None \<Rightarrow> h | Some r \<Rightarrow> if wr_stop r then fail_setup c cl h else h)
       | _ \<Rightarrow> h) h"
| "hub_exec (Pump_ends c) h =
     with_client c (\<lambda>cl h. case wc_phase cl of C_open p \<Rightarrow> client_stop c h | _ \<Rightarrow> h) h"
| "hub_exec (Unregister c) h =
     with_client c (\<lambda>cl h. case wc_phase cl of C_open p \<Rightarrow> with_room p (room_unregister p c) h | _ \<Rightarrow> h) h"
| "hub_exec (Reply c data) h =
     with_client c (\<lambda>cl h. case wc_phase cl of
         C_open p \<Rightarrow> put_client c (snd (enqueue (sendBufferSize (hb_cfg h)) data cl)) h | _ \<Rightarrow> h) h"
| "hub_exec (Write_out c) h = with_client c (\<lambda>cl h. put_client c (cl\<lparr>wc_send := tl (wc_send cl)\<rparr>) h) h"
| "hub_exec (Broadcast room_id data) h = BroadcastToRoom room_id data h"
| "hub_exec (Broadcast_local room_id data) h = BroadcastToRoomLocal room_id data h"
| "hub_exec (Room_next p f) h = with_room p (room_next f p) h"
| "hub_exec (Room_finish p f) h = with_room p (\<lambda>r h. if wr_stop r then room_finish f p r h else h) h"
| "hub_exec Publish_next h = h\<lparr>hb_publish := map_option tl (hb_publish h)\<rparr>"
| "hub_exec Shutdown_flag h = h\<lparr>hb_shutting := True\<rparr>"
| "hub_exec Shutdown_rooms h = (if hb_shutting h \<and> \<not> hb_swept h then stop_rooms h else h)"

definition hub_run :: "hub_event list \<Rightarrow> hub \<Rightarrow> hub" where
  "hub_run es h = fold hub_exec es h"

section \<open>Quotas count the connections that hold them\<close>

definition holding :: "client \<Rightarrow> bool" where
  "holding cl \<longleftrightarrow> wc_phase cl \<noteq> C_failed \<and> \<not> wc_done cl"

definition holders :: "(client \<Rightarrow> string) \<Rightarrow> string \<Rightarrow> (nat \<rightharpoonup> client) \<Rightarrow> nat set" where
  "holders g k m = {c. \<exists>cl. m c = Some cl \<and> holding cl \<and> g cl = k}"

definition tally :: "nat \<Rightarrow> int option" where
  "tally n = (if n = 0 then None else Some (int n))"

definition counts_ok :: "(client \<Rightarrow> string) \<Rightarrow> (string \<rightharpoonup> int) \<Rightarrow> (nat \<rightharpoonup> client) \<Rightarrow> bool" where
  "counts_ok g cnt m \<longleftrightarrow> finite (dom m) \<and> (\<forall>k. cnt k = tally (card (holders g k m)))"

lemma counter_tally: "counts_ok g cnt m \<Longrightarrow> counter cnt k = int (card (holders g k m))"
  by (simp add: counts_ok_def counter_def tally_def)

lemma finite_holders: "finite (dom m) \<Longrightarrow> finite (holders g k m)"
  by (rule finite_subset [of _ "dom m"]) (auto simp: holders_def)

lemma holders_upd:
  "holders g k (m(c \<mapsto> cl)) =
     (if holding cl \<and> g cl = k then insert c (holders g k m) else holders g k m - {c})"
  by (auto simp: holders_def)

lemma counts_same:
  assumes "counts_ok g cnt m" and "m c = Some cl" and "holding cl' = holding cl" and "g cl' = g cl"
  shows "counts_ok g cnt (m(c \<mapsto> cl'))"
proof -
  have "holders g k (m(c \<mapsto> cl')) = holders g k m" for k
  proof (cases "holding cl \<and> g cl = k")
    case True
    then have "c \<in> holders g k m" using assms(2) by (simp add: holders_def)
    then show ?thesis using True assms(3,4) by (simp add: holders_upd insert_absorb)
  next
    case False
    then have "c \<notin> holders g k m" using assms(2) by (simp add: holders_def)
    moreover have "\<not> (holding cl' \<and> g cl' = k)" using False assms(3,4) by simp
    ultimately show ?thesis by (simp only: holders_upd if_False Diff_insert0 Diff_empty simp_thms)
  qed
  with assms(1) show ?thesis by (simp add: counts_ok_def)
qed

lemma counts_acquire:
  assumes "counts_ok g cnt m" and "m c = None" and "holding cl"
  shows "counts_ok g (count_up (g cl) cnt) (m(c \<mapsto> cl))"
proof -
  have n: "c \<notin> holders g k m" for k using assms(2) by (simp add: holders_def)
  have f: "finite (holders g k m)" for k using assms(1) by (simp add: counts_ok_def finite_holders)
  have "count_up (g cl) cnt k = tally (card (holders g k (m(c \<mapsto> cl))))" for k
  proof (cases "k = g cl")
    case True
    have "counter cnt k = int (card (holders g k m))" by (rule counter_tally [OF assms(1)])
    moreover have "card (insert c (holders g k m)) = Suc (card (holders g k m))" using n f by simp
    ultimately show ?thesis using True assms(3) by (simp add: count_up_def holders_upd tally_def)
  next
    case False
    then show ?thesis using assms(1) n by (simp add: count_up_def holders_upd counts_ok_def)
  qed
  then show ?thesis using assms(1) by (simp add: counts_ok_def)
qed

lemma counts_release:
  assumes "counts_ok g cnt m" and "m c = Some cl" and "holding cl" and "\<not> holding cl'"
  shows "counts_ok g (count_down (g cl) cnt) (m(c \<mapsto> cl'))"
proof -
  have f: "finite (holders g k m)" for k using assms(1) by (simp add: counts_ok_def finite_holders)
  have u: "holders g k (m(c \<mapsto> cl')) = holders g k m - {c}" for k
    using assms(4) by (simp add: holders_upd)
  have "count_down (g cl) cnt k = tally (card (holders g k m - {c}))" for k
  proof (cases "k = g cl")
    case True
    then have c: "c \<in> holders g k m" using assms(2,3) by (simp add: holders_def)
    have "counter cnt k = int (card (holders g k m))" by (rule counter_tally [OF assms(1)])
    moreover have "card (holders g k m) = Suc (card (holders g k m - {c}))"
      by (rule card.remove [OF f c])
    ultimately have n: "counter cnt k - 1 = int (card (holders g k m - {c}))" by simp
    show ?thesis unfolding count_down_def True [symmetric] n by (simp add: tally_def Let_def)
  next
    case False
    then have "c \<notin> holders g k m" using assms(2) by (simp add: holders_def)
    moreover have "count_down (g cl) cnt k = cnt k" using False by (simp add: count_down_def Let_def)
    ultimately show ?thesis using assms(1) by (simp add: counts_ok_def)
  qed
  then show ?thesis using assms(1) unfolding counts_ok_def u by simp
qed

definition quota_ok :: "hub \<Rightarrow> bool" where
  "quota_ok h \<longleftrightarrow> counts_ok wc_ip (hb_conn h) (hb_client h) \<and> counts_ok wc_room_id (hb_room_conn h) (hb_client h)"

definition limit_ok :: "hub \<Rightarrow> bool" where
  "limit_ok h \<longleftrightarrow> (\<forall>k. (0 < ws_max_per_ip (hb_cfg h) \<longrightarrow> counter (hb_conn h) k \<le> ws_max_per_ip (hb_cfg h)) \<and>
     (0 < ws_max_per_room (hb_cfg h) \<longrightarrow> counter (hb_room_conn h) k \<le> ws_max_per_room (hb_cfg h)))"

text \<open>A client that is done has run; the heaps are used up to their counters; the map names its rooms.\<close>

definition client_ok :: "client \<Rightarrow> bool" where
  "client_ok cl \<longleftrightarrow> (wc_done cl \<longrightarrow> (\<exists>p. wc_phase cl = C_open p))"

definition heap_ok :: "hub \<Rightarrow> bool" where
  "heap_ok h \<longleftrightarrow> (\<forall>c. pred_option client_ok (hb_client h c)) \<and>
     (\<forall>c \<ge> hb_next_client h. hb_client h c = None) \<and> (\<forall>p \<ge> hb_next_room h. hb_room h p = None) \<and>
     (\<forall>k p. hb_rooms h k = Some p \<longrightarrow> map_option wr_id (hb_room h p) = Some k)"

definition open_in :: "hub \<Rightarrow> nat \<Rightarrow> nat \<Rightarrow> bool" where
  "open_in h c p \<longleftrightarrow> (\<exists>cl. hb_client h c = Some cl \<and> wc_phase cl = C_open p)"

definition room_ok :: "hub \<Rightarrow> nat \<Rightarrow> ws_room \<Rightarrow> bool" where
  "room_ok h p r \<longleftrightarrow> finite (wr_clients r) \<and> wr_count r = int (card (wr_clients r)) \<and>
     (\<forall>c \<in> wr_clients r. open_in h c p) \<and> (wr_done r \<longrightarrow> wr_clients r = {})"

definition rooms_ok :: "hub \<Rightarrow> bool" where
  "rooms_ok h \<longleftrightarrow> (\<forall>p. pred_option (room_ok h p) (hb_room h p))"

definition hub_inv :: "hub \<Rightarrow> bool" where
  "hub_inv h \<longleftrightarrow> quota_ok h \<and> limit_ok h \<and> heap_ok h \<and> rooms_ok h"

lemma new_hub_inv: "hub_inv (NewHubWithConfig cfg redis)"
  by (simp add: hub_inv_def quota_ok_def counts_ok_def holders_def tally_def limit_ok_def counter_def heap_ok_def
      rooms_ok_def NewHubWithConfig_def)

text \<open>Updates of one client.\<close>

lemma counter_down:
  "counter (count_down j m) k = (if k = j then max 0 (counter m j - 1) else counter m k)"
  by (simp add: counter_def count_down_def Let_def)

lemma counter_up: "counter (count_up j m) k = (if k = j then counter m j + 1 else counter m k)"
  by (simp add: counter_def count_up_def)

lemma counter_down_le: "0 < n \<Longrightarrow> (\<And>k. counter m k \<le> n) \<Longrightarrow> counter (count_down j m) k \<le> n"
  using counter_down [of j m k] by (smt (verit))

text \<open>What the rooms' part of the invariant depends on.\<close>

lemma room_ok_mono:
  assumes "room_ok h p r" and "\<And>c. open_in h c p \<Longrightarrow> open_in h' c p"
  shows "room_ok h' p r"
  using assms unfolding room_ok_def by simp

lemma rooms_ok_mono:
  assumes "rooms_ok h" and "hb_room h' = hb_room h" and "\<And>c p. open_in h c p \<Longrightarrow> open_in h' c p"
  shows "rooms_ok h'"
  unfolding rooms_ok_def
proof
  fix p
  have "pred_option (room_ok h p) (hb_room h' p)" using assms(1,2) by (simp add: rooms_ok_def)
  then show "pred_option (room_ok h' p) (hb_room h' p)"
    using room_ok_mono [OF _ assms(3)] by (cases "hb_room h' p") simp_all
qed

lemma open_in_upd:
  assumes "hb_client h c = Some cl" and "hb_client h' = (hb_client h)(c \<mapsto> cl')"
    and "\<And>p. wc_phase cl = C_open p \<Longrightarrow> wc_phase cl' = C_open p"
    and "open_in h d p"
  shows "open_in h' d p"
  using assms by (cases "d = c") (simp_all add: open_in_def)

lemma heap_ok_upd:
  assumes "heap_ok h" and "hb_client h c = Some cl" and "hb_client h' = (hb_client h)(c \<mapsto> cl')"
    and "client_ok cl'" and "hb_room h' = hb_room h" and "hb_rooms h' = hb_rooms h"
    and "hb_next_client h' = hb_next_client h" and "hb_next_room h' = hb_next_room h"
  shows "heap_ok h'"
proof -
  have "c < hb_next_client h"
  proof (rule ccontr)
    assume "\<not> c < hb_next_client h"
    then have "hb_client h c = None" using assms(1) by (simp add: heap_ok_def)
    then show False using assms(2) by simp
  qed
  then show ?thesis using assms unfolding heap_ok_def by simp
qed

lemma put_same_inv:
  assumes "hub_inv h" and "hb_client h c = Some cl" and "holding cl' = holding cl"
    and "wc_ip cl' = wc_ip cl" and "wc_room_id cl' = wc_room_id cl"
    and "\<And>p. wc_phase cl = C_open p \<Longrightarrow> wc_phase cl' = C_open p"
    and "client_ok cl'"
  shows "hub_inv (put_client c cl' h)"
proof -
  have i: "quota_ok h" "limit_ok h" "heap_ok h" "rooms_ok h" using assms(1) by (simp_all add: hub_inv_def)
  let ?h = "put_client c cl' h"
  have u: "hb_client ?h = (hb_client h)(c \<mapsto> cl')" by (simp add: put_client_def)
  have "quota_ok ?h"
    using i(1) assms(2-5) by (simp add: quota_ok_def put_client_def counts_same)
  moreover have "heap_ok ?h"
    by (rule heap_ok_upd [OF i(3) assms(2) u assms(7)]) (simp_all add: put_client_def)
  moreover have "rooms_ok ?h"
    by (rule rooms_ok_mono [OF i(4) _ open_in_upd [OF assms(2) u assms(6)]]) (simp_all add: put_client_def)
  moreover have "limit_ok ?h" using i(2) by (simp add: limit_ok_def put_client_def)
  ultimately show ?thesis by (simp add: hub_inv_def)
qed

lemma release_inv:
  assumes "hub_inv h" and "hb_client h c = Some cl" and "holding cl" and "\<not> holding cl'"
    and "\<And>p. wc_phase cl = C_open p \<Longrightarrow> wc_phase cl' = C_open p"
    and "client_ok cl'"
  shows "hub_inv (release_conn (wc_ip cl) (wc_room_id cl) (put_client c cl' h))"
proof -
  have i: "quota_ok h" "limit_ok h" "heap_ok h" "rooms_ok h" using assms(1) by (simp_all add: hub_inv_def)
  let ?h = "release_conn (wc_ip cl) (wc_room_id cl) (put_client c cl' h)"
  have u: "hb_client ?h = (hb_client h)(c \<mapsto> cl')" by (simp add: put_client_def release_conn_def)
  have "quota_ok ?h"
    using i(1) assms(2-4) by (simp add: quota_ok_def put_client_def release_conn_def counts_release)
  moreover have "heap_ok ?h"
    by (rule heap_ok_upd [OF i(3) assms(2) u assms(6)]) (simp_all add: put_client_def release_conn_def)
  moreover have "rooms_ok ?h"
    by (rule rooms_ok_mono [OF i(4) _ open_in_upd [OF assms(2) u assms(5)]])
      (simp_all add: put_client_def release_conn_def)
  moreover have "limit_ok ?h"
    using i(2) by (simp add: limit_ok_def put_client_def release_conn_def counter_down_le)
  ultimately show ?thesis by (simp add: hub_inv_def)
qed

lemma hub_invD:
  assumes "hub_inv h"
  shows "quota_ok h" and "limit_ok h" and "heap_ok h" and "rooms_ok h"
  using assms by (simp_all add: hub_inv_def)

lemma room_at:
  assumes "hub_inv h" and "hb_room h p = Some r"
  shows "room_ok h p r" and "p < hb_next_room h"
proof -
  have "pred_option (room_ok h p) (hb_room h p)" using hub_invD(4) [OF assms(1)] by (simp add: rooms_ok_def)
  then show "room_ok h p r" using assms(2) by simp
  show "p < hb_next_room h"
  proof (rule ccontr)
    assume "\<not> p < hb_next_room h"
    then have "hb_room h p = None" using hub_invD(3) [OF assms(1)] by (simp add: heap_ok_def)
    then show False using assms(2) by simp
  qed
qed

lemma stop_inv:
  assumes "hub_inv h" and "open_in h c p"
  shows "hub_inv (client_stop c h)"
proof -
  obtain cl where cl: "hb_client h c = Some cl" "wc_phase cl = C_open p"
    using assms(2) by (auto simp: open_in_def)
  show ?thesis
  proof (cases "wc_done cl")
    case True
    then show ?thesis using assms(1) cl by (simp add: client_stop_def)
  next
    case False
    then have "hub_inv (release_conn (wc_ip cl) (wc_room_id cl) (put_client c (cl\<lparr>wc_done := True\<rparr>) h))"
      using cl(2) by (intro release_inv [OF assms(1) cl(1)]) (simp_all add: holding_def client_ok_def)
    then show ?thesis using False cl(1) by (simp add: client_stop_def)
  qed
qed

lemma stop_frame [simp]:
  "hb_room (client_stop c h) = hb_room h" "hb_rooms (client_stop c h) = hb_rooms h"
  "hb_cfg (client_stop c h) = hb_cfg h" "hb_shutting (client_stop c h) = hb_shutting h"
  by (simp_all add: client_stop_def release_conn_def put_client_def split: option.split)

lemma stop_client:
  "hb_client (client_stop c h) d =
     (if d = c then map_option (wc_done_update (\<lambda>_. True)) (hb_client h c) else hb_client h d)"
  by (cases "hb_client h c") (simp_all add: client_stop_def release_conn_def put_client_def)

lemma stop_open [simp]: "open_in (client_stop c h) d p = open_in h d p"
  by (auto simp: open_in_def stop_client)

lemma put_room_inv:
  assumes "hub_inv h" and "hb_room h p = Some r" and "wr_id r' = wr_id r" and "room_ok h p r'"
  shows "hub_inv (put_room p r' h)"
proof -
  note i = hub_invD [OF assms(1)]
  have o: "open_in (put_room p r' h) c q = open_in h c q" for c q
    by (simp add: open_in_def put_room_def)
  have r: "room_ok (put_room p r' h) q x = room_ok h q x" for q x
    by (simp add: room_ok_def o)
  have n: "map_option wr_id (hb_room (put_room p r' h) q) = map_option wr_id (hb_room h q)" for q
    using assms(2,3) by (simp add: put_room_def)
  have "heap_ok (put_room p r' h)"
    using i(3) room_at(2) [OF assms(1,2)] unfolding heap_ok_def n by (simp add: put_room_def)
  moreover have "rooms_ok (put_room p r' h)"
    unfolding rooms_ok_def r using i(4) assms(4) by (simp add: rooms_ok_def put_room_def)
  moreover have "quota_ok (put_room p r' h)" using i(1) by (simp add: quota_ok_def put_room_def)
  moreover have "limit_ok (put_room p r' h)" using i(2) by (simp add: limit_ok_def put_room_def)
  ultimately show ?thesis by (simp add: hub_inv_def)
qed

lemma drop_inv:
  assumes "hub_inv h" and "hb_room h p = Some r" and "c \<in> wr_clients r"
  shows "hub_inv (drop_client p c h)"
proof -
  have "room_ok h p r" by (rule room_at [OF assms(1,2)])
  then have "room_ok h p (r\<lparr>wr_clients := wr_clients r - {c}, wr_count := wr_count r - 1\<rparr>)"
    using assms(3) card_gt_0_iff [of "wr_clients r"] by (auto simp: room_ok_def of_nat_diff)
  then show ?thesis using put_room_inv [OF assms(1,2)] assms(2) by (simp add: drop_client_def)
qed

lemma stop_room_at: "hb_room (client_stop c h) p = hb_room h p"
  by simp

section \<open>A broadcast in a room\<close>

definition after_send :: "int \<Rightarrow> envelope \<Rightarrow> client \<Rightarrow> client" where
  "after_send cap msg cl = (if int (length (wc_send cl)) < cap then cl\<lparr>wc_send := wc_send cl @ [msg]\<rparr>
     else cl\<lparr>wc_done := True\<rparr>)"

definition fits :: "hub \<Rightarrow> nat \<Rightarrow> bool" where
  "fits h c \<longleftrightarrow> (case hb_client h c of None \<Rightarrow> False
     | Some cl \<Rightarrow> int (length (wc_send cl)) < sendBufferSize (hb_cfg h))"

definition keep :: "ws_room \<Rightarrow> nat set \<Rightarrow> ws_room" where
  "keep r S = r\<lparr>wr_clients := S, wr_count := int (card S)\<rparr>"

lemma keep_simps [simp]: "wr_clients (keep r S) = S" "wr_id (keep r S) = wr_id r"
  "wr_queue (keep r S) = wr_queue r" "wr_stop (keep r S) = wr_stop r" "wr_done (keep r S) = wr_done r"
  "keep (keep r S) T = keep r T"
  by (simp_all add: keep_def)

lemma keep_all: "room_ok h p r \<Longrightarrow> keep r (wr_clients r) = r"
  by (simp add: keep_def room_ok_def)

lemma keep_less: "room_ok h p r \<Longrightarrow> c \<in> wr_clients r \<Longrightarrow>
  r\<lparr>wr_clients := wr_clients r - {c}, wr_count := wr_count r - 1\<rparr> = keep r (wr_clients r - {c})"
  using card_gt_0_iff [of "wr_clients r"] by (auto simp: keep_def room_ok_def of_nat_diff)

lemma deliver_one_result:
  assumes "hub_inv h" and "hb_room h p = Some r" and "c \<in> wr_clients r"
  shows "hub_inv (deliver_one p msg c h)"
    and "hb_client (deliver_one p msg c h) =
      (hb_client h)(c := map_option (after_send (sendBufferSize (hb_cfg h)) msg) (hb_client h c))"
    and "hb_room (deliver_one p msg c h) =
      (hb_room h)(p \<mapsto> keep r (if fits h c then wr_clients r else wr_clients r - {c}))"
proof -
  have r: "room_ok h p r" by (rule room_at [OF assms(1,2)])
  then have o: "open_in h c p" using assms(3) by (simp add: room_ok_def)
  then obtain cl where cl: "hb_client h c = Some cl" "wc_phase cl = C_open p" by (auto simp: open_in_def)
  have ok: "client_ok cl" using hub_invD(3) [OF assms(1)] cl(1) unfolding heap_ok_def by (metis option.pred_inject(2))
  have "hub_inv (deliver_one p msg c h) \<and> hb_client (deliver_one p msg c h) =
      (hb_client h)(c := map_option (after_send (sendBufferSize (hb_cfg h)) msg) (hb_client h c)) \<and>
    hb_room (deliver_one p msg c h) =
      (hb_room h)(p \<mapsto> keep r (if fits h c then wr_clients r else wr_clients r - {c}))"
  proof (cases "fits h c")
    case True
    then have f: "int (length (wc_send cl)) < sendBufferSize (hb_cfg h)" using cl by (simp add: fits_def)
    then have d: "deliver_one p msg c h = put_client c (cl\<lparr>wc_send := wc_send cl @ [msg]\<rparr>) h"
      using cl by (simp add: deliver_one_def)
    have "hub_inv (put_client c (cl\<lparr>wc_send := wc_send cl @ [msg]\<rparr>) h)"
      using ok by (intro put_same_inv [OF assms(1) cl(1)]) (simp_all add: holding_def client_ok_def)
    then show ?thesis unfolding d using f cl True keep_all [OF r] assms(2)
      by (simp add: put_client_def after_send_def fun_upd_idem)
  next
    case False
    then have f: "\<not> int (length (wc_send cl)) < sendBufferSize (hb_cfg h)" using cl by (simp add: fits_def)
    then have d: "deliver_one p msg c h = drop_client p c (client_stop c h)"
      using cl by (simp add: deliver_one_def)
    have "hub_inv (drop_client p c (client_stop c h))"
      using assms(2,3) by (intro drop_inv [OF stop_inv [OF assms(1) o]]) simp_all
    moreover have "hb_client (drop_client p c (client_stop c h)) d = hb_client (client_stop c h) d" for d
      by (simp add: drop_client_def put_room_def split: option.split)
    ultimately show ?thesis unfolding d using f cl False keep_less [OF r assms(3)] assms(2)
      by (auto simp: stop_client after_send_def drop_client_def put_room_def)
  qed
  then show "hub_inv (deliver_one p msg c h)"
    and "hb_client (deliver_one p msg c h) =
      (hb_client h)(c := map_option (after_send (sendBufferSize (hb_cfg h)) msg) (hb_client h c))"
    and "hb_room (deliver_one p msg c h) =
      (hb_room h)(p \<mapsto> keep r (if fits h c then wr_clients r else wr_clients r - {c}))"
    by simp_all
qed

lemma deliver_one_frame [simp]:
  "hb_rooms (deliver_one p msg c h) = hb_rooms h" "hb_cfg (deliver_one p msg c h) = hb_cfg h"
  "hb_shutting (deliver_one p msg c h) = hb_shutting h"
  by (simp_all add: deliver_one_def put_client_def drop_client_def put_room_def split: option.split)

lemma deliver_all_result:
  assumes "hub_inv h" and "hb_room h p = Some r" and "distinct ks" and "set ks \<subseteq> wr_clients r"
  shows "hub_inv (fold (deliver_one p msg) ks h) \<and>
    hb_client (fold (deliver_one p msg) ks h) = (\<lambda>c. if c \<in> set ks
      then map_option (after_send (sendBufferSize (hb_cfg h)) msg) (hb_client h c) else hb_client h c) \<and>
    hb_room (fold (deliver_one p msg) ks h) =
      (hb_room h)(p \<mapsto> keep r {c \<in> wr_clients r. c \<in> set ks \<longrightarrow> fits h c})"
  using assms
proof (induction ks arbitrary: h r)
  case Nil
  have "keep r (wr_clients r) = r" by (rule keep_all [OF room_at(1) [OF Nil.prems(1,2)]])
  then show ?case using Nil by (simp add: fun_upd_idem)
next
  case (Cons k ks)
  let ?h = "deliver_one p msg k h"
  let ?r = "keep r (if fits h k then wr_clients r else wr_clients r - {k})"
  have k: "k \<in> wr_clients r" using Cons.prems(4) by simp
  note res = deliver_one_result [OF Cons.prems(1,2) k, of msg]
  have fit: "c \<noteq> k \<Longrightarrow> fits ?h c = fits h c" for c by (simp add: fits_def res(2) split: option.split)
  have "set ks \<subseteq> wr_clients ?r" using Cons.prems(3,4) by auto
  moreover have "hb_room ?h p = Some ?r" "distinct ks" using Cons.prems(3) by (simp_all add: res(3))
  ultimately have ih: "hub_inv (fold (deliver_one p msg) ks ?h)"
    "hb_client (fold (deliver_one p msg) ks ?h) = (\<lambda>c. if c \<in> set ks
      then map_option (after_send (sendBufferSize (hb_cfg h)) msg) (hb_client ?h c) else hb_client ?h c)"
    "hb_room (fold (deliver_one p msg) ks ?h) =
      (hb_room ?h)(p \<mapsto> keep ?r {c \<in> wr_clients ?r. c \<in> set ks \<longrightarrow> fits ?h c})"
    using Cons.IH [OF res(1), unfolded deliver_one_frame] by blast+
  have s: "{c \<in> wr_clients ?r. c \<in> set ks \<longrightarrow> fits ?h c} = {c \<in> wr_clients r. c \<in> set (k # ks) \<longrightarrow> fits h c}"
  proof -
    have "c \<in> set ks \<Longrightarrow> fits ?h c = fits h c" for c
      by (rule fit) (use Cons.prems(3) in auto)
    then show ?thesis using k Cons.prems(3) by auto
  qed
  have "hb_client (fold (deliver_one p msg) ks ?h) c = (if c \<in> set (k # ks)
      then map_option (after_send (sendBufferSize (hb_cfg h)) msg) (hb_client h c) else hb_client h c)" for c
    unfolding ih(2) res(2) using Cons.prems(3) by simp
  moreover have "hb_room (fold (deliver_one p msg) ks ?h) =
      (hb_room h)(p \<mapsto> keep r {c \<in> wr_clients r. c \<in> set (k # ks) \<longrightarrow> fits h c})"
    unfolding ih(3) res(3) s by simp
  ultimately show ?case using ih(1) by (simp add: fun_eq_iff)
qed

lemma visit_order_set: "finite S \<Longrightarrow> set (visit_order f S) = S"
  and visit_order_distinct: "finite S \<Longrightarrow> distinct (visit_order f S)"
  by (simp_all add: visit_order_def)

lemma broadcast_result:
  assumes "hub_inv h" and "hb_room h p = Some r"
  shows "hub_inv (broadcastToClients f p msg h)"
    and "hb_client (broadcastToClients f p msg h) = (\<lambda>c. if c \<in> wr_clients r
      then map_option (after_send (sendBufferSize (hb_cfg h)) msg) (hb_client h c) else hb_client h c)"
    and "hb_room (broadcastToClients f p msg h) = (hb_room h)(p \<mapsto> keep r {c \<in> wr_clients r. fits h c})"
proof -
  have f: "finite (wr_clients r)" using room_at(1) [OF assms] by (simp add: room_ok_def)
  note v = visit_order_set [OF f, of f] visit_order_distinct [OF f, of f]
  note d = deliver_all_result [OF assms v(2), of msg, unfolded v(1), OF order_refl]
  have "{c \<in> wr_clients r. c \<in> wr_clients r \<longrightarrow> fits h c} = {c \<in> wr_clients r. fits h c}" by blast
  then show "hub_inv (broadcastToClients f p msg h)"
    and "hb_client (broadcastToClients f p msg h) = (\<lambda>c. if c \<in> wr_clients r
      then map_option (after_send (sendBufferSize (hb_cfg h)) msg) (hb_client h c) else hb_client h c)"
    and "hb_room (broadcastToClients f p msg h) = (hb_room h)(p \<mapsto> keep r {c \<in> wr_clients r. fits h c})"
    using d assms(2) by (simp_all add: broadcastToClients_def)
qed

lemma fold_frame:
  assumes "\<And>x h. x \<in> set xs \<Longrightarrow> g (f x h) = g h"
  shows "g (fold f xs h) = g h"
  using assms by (induction xs arbitrary: h) simp_all

lemma hub_broadcast_frame [simp]:
  "hb_rooms (broadcastToClients f p msg h) = hb_rooms h"
  "hb_cfg (broadcastToClients f p msg h) = hb_cfg h"
  "hb_shutting (broadcastToClients f p msg h) = hb_shutting h"
  by (simp_all add: broadcastToClients_def fold_frame split: option.split)

section \<open>Every event keeps the invariant\<close>

lemma drain_inv:
  assumes "hub_inv h" and "hb_room h p = Some r"
  shows "\<exists>r'. hub_inv (fold (broadcastToClients f p) msgs h) \<and>
    hb_room (fold (broadcastToClients f p) msgs h) p = Some r' \<and> wr_id r' = wr_id r \<and>
    wr_done r' = wr_done r"
  using assms
proof (induction msgs arbitrary: h r)
  case Nil
  then show ?case by simp
next
  case (Cons m msgs)
  note b = broadcast_result [OF Cons.prems, of f m]
  have "hb_room (broadcastToClients f p m h) p = Some (keep r {c \<in> wr_clients r. fits h c})"
    by (simp add: b(3))
  from Cons.IH [OF b(1) this] show ?case by simp
qed

lemma stop_all_inv:
  assumes "hub_inv h" and "\<forall>c \<in> set cs. open_in h c p"
  shows "hub_inv (fold client_stop cs h)"
  using assms
proof (induction cs arbitrary: h)
  case Nil
  then show ?case by simp
next
  case (Cons c cs)
  then have "hub_inv (client_stop c h)" by (auto intro: stop_inv)
  then show ?case using Cons.IH [of "client_stop c h"] Cons.prems(2) by simp
qed

lemma stop_all_frame [simp]:
  "hb_room (fold client_stop cs h) = hb_room h" "hb_rooms (fold client_stop cs h) = hb_rooms h"
  by (simp_all add: fold_frame)

lemma queue_inv:
  assumes "hub_inv h" and "hb_room h p = Some r"
  shows "hub_inv (put_room p (r\<lparr>wr_queue := q\<rparr>) h)"
  using room_at(1) [OF assms] by (intro put_room_inv [OF assms]) (simp_all add: room_ok_def)

lemma put_room_at [simp]: "hb_room (put_room p r h) p = Some r"
  by (simp add: put_room_def)

lemma room_next_inv:
  assumes "hub_inv h" and "hb_room h p = Some r"
  shows "hub_inv (room_next f p r h)"
proof (cases "wr_queue r")
  case (Cons m rest)
  show ?thesis using broadcast_result(1) [OF queue_inv [OF assms, of rest] put_room_at, of f m]
    by (simp add: room_next_def Cons)
qed (use assms in \<open>simp add: room_next_def\<close>)

lemma room_finish_inv:
  assumes "hub_inv h" and "hb_room h p = Some r"
  shows "hub_inv (room_finish f p r h)"
proof -
  let ?h = "fold (broadcastToClients f p) (wr_queue r) (put_room p (r\<lparr>wr_queue := []\<rparr>) h)"
  from drain_inv [OF queue_inv [OF assms, of "[]"] put_room_at, of f "wr_queue r"]
  obtain r' where i: "hub_inv ?h" and r': "hb_room ?h p = Some r'" by blast
  have ok: "room_ok ?h p r'" by (rule room_at [OF i r'])
  let ?cs = "visit_order f (wr_clients r')"
  have "\<forall>c \<in> set ?cs. open_in ?h c p" using ok by (simp add: room_ok_def visit_order_set)
  then have j: "hub_inv (fold client_stop ?cs ?h)" by (rule stop_all_inv [OF i])
  have "hub_inv (put_room p (r'\<lparr>wr_clients := {}, wr_count := 0, wr_done := True\<rparr>) (fold client_stop ?cs ?h))"
    by (rule put_room_inv [OF j]) (simp_all add: r' room_ok_def)
  then show ?thesis by (simp add: room_finish_def Let_def r')
qed

lemma hub_inv_same:
  assumes "hub_inv h" and "hb_client h' = hb_client h" and "hb_room h' = hb_room h"
    and "hb_conn h' = hb_conn h" and "hb_room_conn h' = hb_room_conn h" and "hb_cfg h' = hb_cfg h"
    and "hb_next_client h' = hb_next_client h" and "hb_next_room h' = hb_next_room h"
    and "\<And>k p. hb_rooms h' k = Some p \<Longrightarrow> hb_rooms h k = Some p"
  shows "hub_inv h'"
proof -
  note i = hub_invD [OF assms(1)]
  have "quota_ok h'" using i(1) assms(2-8) by (simp add: quota_ok_def)
  moreover have "limit_ok h'" using i(2) assms(2-8) by (simp add: limit_ok_def)
  moreover have "heap_ok h'" using i(3) assms(2-9) by (simp add: heap_ok_def)
  moreover have "rooms_ok h'"
    by (rule rooms_ok_mono [OF i(4) assms(3)]) (simp add: open_in_def assms(2))
  ultimately show ?thesis by (simp add: hub_inv_def)
qed

lemma remove_room_inv: "hub_inv h \<Longrightarrow> hub_inv (RemoveRoomIfSame k p h)"
  by (erule hub_inv_same) (auto simp: RemoveRoomIfSame_def split: if_splits)

lemma room_unregister_inv:
  assumes "hub_inv h" and "hb_room h p = Some r"
  shows "hub_inv (room_unregister p c r h)"
proof (cases "c \<in> wr_clients r")
  case True
  have "open_in h c p" using room_at(1) [OF assms] True by (simp add: room_ok_def)
  then have "open_in (drop_client p c h) c p"
    by (simp add: open_in_def drop_client_def put_room_def split: option.split)
  then have "hub_inv (client_stop c (drop_client p c h))"
    by (rule stop_inv [OF drop_inv [OF assms True]])
  then show ?thesis by (simp add: room_unregister_def True Let_def remove_room_inv)
qed (use assms in \<open>simp add: room_unregister_def\<close>)

lemma find_or_create_inv:
  assumes "hub_inv h"
  shows "hub_inv (snd (find_or_create k h))"
proof (cases "hb_rooms h k")
  case None
  note i = hub_invD [OF assms]
  let ?p = "hb_next_room h"
  let ?h = "snd (find_or_create k h)"
  have h: "?h = put_room ?p (NewRoom k) (h\<lparr>hb_rooms := (hb_rooms h)(k \<mapsto> ?p), hb_next_room := ?p + 1\<rparr>)"
    by (simp add: find_or_create_def None)
  have new: "hb_room h ?p = None" using i(3) by (simp add: heap_ok_def)
  have o: "open_in ?h c q = open_in h c q" for c q unfolding h by (simp add: open_in_def put_room_def)
  have q: "room_ok ?h q = room_ok h q" for q by (rule ext) (simp add: room_ok_def o)
  have "room_ok h ?p (NewRoom k)" by (simp add: room_ok_def NewRoom_def)
  then have "pred_option (room_ok h j) (hb_room ?h j)" for j
    using i(4) unfolding h by (simp add: rooms_ok_def put_room_def)
  then have "rooms_ok ?h" unfolding rooms_ok_def q by blast
  moreover have "heap_ok ?h"
  proof -
    have "q \<noteq> ?p" if "hb_rooms h j = Some q" for j q
    proof
      assume "q = ?p"
      moreover have "map_option wr_id (hb_room h q) = Some j" using i(3) that unfolding heap_ok_def by blast
      ultimately show False using new by simp
    qed
    then show ?thesis using i(3) unfolding heap_ok_def h by (simp add: put_room_def NewRoom_def)
  qed
  moreover have "quota_ok ?h" using i(1) unfolding h by (simp add: quota_ok_def put_room_def)
  moreover have "limit_ok ?h" using i(2) unfolding h by (simp add: limit_ok_def put_room_def)
  ultimately show ?thesis by (simp add: hub_inv_def)
qed (use assms in \<open>simp add: find_or_create_def\<close>)

lemma room_register_inv:
  assumes "hub_inv h" and "hb_client h c = Some cl" and "wc_phase cl = C_waiting p"
    and "hb_room h p = Some r" and "\<not> wr_done r"
  shows "hub_inv (room_register p c cl r h)"
proof -
  let ?h = "put_client c (cl\<lparr>wc_phase := C_open p\<rparr>) h"
  have i: "hub_inv ?h" using assms(3) by (intro put_same_inv [OF assms(1,2)]) (simp_all add: holding_def client_ok_def)
  have r: "hb_room ?h p = Some r" using assms(4) by (simp add: put_client_def)
  have ok: "room_ok ?h p r" by (rule room_at [OF i r])
  have "c \<notin> wr_clients r"
  proof
    assume "c \<in> wr_clients r"
    then have "open_in h c p" using room_at(1) [OF assms(1,4)] by (simp add: room_ok_def)
    then show False using assms(2,3) by (simp add: open_in_def)
  qed
  moreover have "open_in ?h c p" by (simp add: open_in_def put_client_def)
  ultimately have "room_ok ?h p (r\<lparr>wr_clients := insert c (wr_clients r), wr_count := wr_count r + 1\<rparr>)"
    using ok assms(5) by (simp add: room_ok_def)
  then show ?thesis unfolding room_register_def by (intro put_room_inv [OF i r]) simp_all
qed

lemma fail_setup_inv:
  assumes "hub_inv h" and "hb_client h c = Some cl" and "wc_phase cl \<noteq> C_failed"
    and "\<And>p. wc_phase cl \<noteq> C_open p"
  shows "hub_inv (fail_setup c cl h)"
proof -
  have "client_ok cl"
    using hub_invD(3) [OF assms(1)] assms(2) unfolding heap_ok_def by (metis option.pred_inject(2))
  then have "\<not> wc_done cl" using assms(4) by (simp add: client_ok_def)
  then show ?thesis unfolding fail_setup_def
    by (intro release_inv [OF assms(1,2)]) (use assms(3,4) in \<open>simp_all add: holding_def client_ok_def\<close>)
qed

lemma accept_inv:
  assumes "hub_inv h"
  shows "hub_inv (hub_exec (Accept ip k) h)"
proof (cases "fst (TryAcquireConn ip k h)")
  case False
  then have "TryAcquireConn ip k h = (False, h)" by (auto simp: TryAcquireConn_def split: if_splits)
  then show ?thesis using assms by simp
next
  case True
  note i = hub_invD [OF assms]
  let ?c = "hb_next_client h"
  let ?cl = "\<lparr>wc_phase = C_acquired, wc_ip = ip, wc_room_id = k, wc_send = [], wc_done = False\<rparr>"
  let ?h = "h\<lparr>hb_conn := count_up ip (hb_conn h), hb_room_conn := count_up k (hb_room_conn h),
    hb_next_client := ?c + 1, hb_client := (hb_client h)(?c \<mapsto> ?cl)\<rparr>"
  have e: "hub_exec (Accept ip k) h = ?h" using True
    by (auto simp: TryAcquireConn_def put_client_def split: if_splits)
  have new: "hb_client h ?c = None" using i(3) by (simp add: heap_ok_def)
  have "quota_ok ?h"
    using i(1) counts_acquire [where cl = ?cl and g = wc_ip and c = ?c and m = "hb_client h"]
      counts_acquire [where cl = ?cl and g = wc_room_id and c = ?c and m = "hb_client h"]
    by (simp add: quota_ok_def holding_def new)
  moreover have "limit_ok ?h" using i(2) True
    by (auto simp: limit_ok_def counter_up TryAcquireConn_def split: if_splits)
  moreover have "heap_ok ?h" using i(3) unfolding heap_ok_def by (simp add: client_ok_def)
  moreover have "rooms_ok ?h"
    by (rule rooms_ok_mono [OF i(4)]) (use new in \<open>auto simp: open_in_def\<close>)
  ultimately show ?thesis unfolding e by (simp add: hub_inv_def)
qed

lemma with_client_inv:
  assumes "hub_inv h" and "\<And>cl. hb_client h c = Some cl \<Longrightarrow> hub_inv (f cl h)"
  shows "hub_inv (with_client c f h)"
  using assms by (simp add: with_client_def split: option.split)

lemma with_room_inv:
  assumes "hub_inv h" and "\<And>r. hb_room h p = Some r \<Longrightarrow> \<not> wr_done r \<Longrightarrow> hub_inv (f r h)"
  shows "hub_inv (with_room p f h)"
  using assms by (simp add: with_room_def split: option.split)

lemma local_broadcast_inv: "hub_inv h \<Longrightarrow> hub_inv (BroadcastToRoomLocal k data h)"
  by (auto simp: BroadcastToRoomLocal_def intro: queue_inv split: option.split)

lemma broadcast_inv:
  assumes "hub_inv h"
  shows "hub_inv (BroadcastToRoom k data h)"
  using local_broadcast_inv [OF assms, of k data]
  by (auto simp: BroadcastToRoom_def assms Let_def split: option.split elim: hub_inv_same)

lemma stop_rooms_inv:
  assumes "hub_inv h"
  shows "hub_inv (stop_rooms h)"
proof -
  note i = hub_invD [OF assms]
  let ?s = "\<lambda>p r. if p \<in> ran (hb_rooms h) then r\<lparr>wr_stop := True\<rparr> else r"
  have r: "hb_room (stop_rooms h) p = map_option (?s p) (hb_room h p)" for p by (simp add: stop_rooms_def)
  have n: "map_option wr_id (hb_room (stop_rooms h) p) = map_option wr_id (hb_room h p)" for p
    by (simp add: r option.map_comp comp_def if_distrib cong: if_cong)
  have z: "hb_room (stop_rooms h) p = None \<longleftrightarrow> hb_room h p = None" for p by (simp add: r)
  have "heap_ok (stop_rooms h)" using i(3) unfolding heap_ok_def n z by (simp add: stop_rooms_def)
  moreover have "room_ok (stop_rooms h) p (?s p x) = room_ok h p x" for p x
    by (simp add: room_ok_def open_in_def stop_rooms_def)
  then have "pred_option (room_ok (stop_rooms h) p) (hb_room (stop_rooms h) p)" for p
    using i(4) unfolding r rooms_ok_def by (cases "hb_room h p") (simp_all, metis option.pred_inject(2))
  then have "rooms_ok (stop_rooms h)" by (simp add: rooms_ok_def)
  moreover have "quota_ok (stop_rooms h)" using i(1) by (simp add: quota_ok_def stop_rooms_def)
  moreover have "limit_ok (stop_rooms h)" using i(2) by (simp add: limit_ok_def stop_rooms_def)
  ultimately show ?thesis by (simp add: hub_inv_def)
qed

lemma client_at: "hub_inv h \<Longrightarrow> hb_client h c = Some cl \<Longrightarrow> client_ok cl"
  using hub_invD(3) [of h] unfolding heap_ok_def by (metis option.pred_inject(2))

lemma look_up_inv:
  assumes "hub_inv h"
  shows "hub_inv (hub_exec (Look_up c) h)"
proof -
  have "hub_inv (put_client c (cl\<lparr>wc_phase := C_waiting (fst (find_or_create k h))\<rparr>) (snd (find_or_create k h)))"
    if cl: "hb_client h c = Some cl" "wc_phase cl = C_checked" for cl k
  proof (rule put_same_inv [OF find_or_create_inv [OF assms]])
    show "hb_client (snd (find_or_create k h)) c = Some cl"
      using cl(1) by (simp add: find_or_create_def put_room_def split: option.split)
  qed (use cl client_at [OF assms cl(1)] in \<open>simp_all add: holding_def client_ok_def\<close>)
  then show ?thesis using assms by (simp add: with_client_def Let_def case_prod_beta split: option.split)
qed

lemma register_inv:
  assumes "hub_inv h"
  shows "hub_inv (hub_exec (Register c) h)"
  unfolding hub_exec.simps
proof (rule with_client_inv [OF assms])
  fix cl assume cl: "hb_client h c = Some cl"
  show "hub_inv (case wc_phase cl of C_waiting p \<Rightarrow> with_room p (room_register p c cl) h | _ \<Rightarrow> h)"
    using assms cl by (auto split: phase.split intro: with_room_inv room_register_inv)
qed

lemma sees_stop_inv:
  assumes "hub_inv h"
  shows "hub_inv (hub_exec (Sees_stop c) h)"
  unfolding hub_exec.simps
proof (rule with_client_inv [OF assms])
  fix cl assume cl: "hb_client h c = Some cl"
  have "hub_inv (fail_setup c cl h)" if "wc_phase cl = C_waiting p" for p
    by (rule fail_setup_inv [OF assms cl]) (simp_all add: that)
  then show "hub_inv (case wc_phase cl of C_waiting p \<Rightarrow> (case hb_room h p of
      None \<Rightarrow> h | Some r \<Rightarrow> if wr_stop r then fail_setup c cl h else h) | _ \<Rightarrow> h)"
    using assms by (auto split: phase.split option.split)
qed

lemma reply_inv:
  assumes "hub_inv h"
  shows "hub_inv (hub_exec (Reply c data) h)"
  unfolding hub_exec.simps
proof (rule with_client_inv [OF assms])
  fix cl assume cl: "hb_client h c = Some cl"
  have "hub_inv (put_client c (snd (enqueue n data cl)) h)" for n
    by (rule put_same_inv [OF assms cl])
      (use client_at [OF assms cl] in \<open>simp_all add: enqueue_def holding_def client_ok_def\<close>)
  then show "hub_inv (case wc_phase cl of
         C_open p \<Rightarrow> put_client c (snd (enqueue (sendBufferSize (hb_cfg h)) data cl)) h | _ \<Rightarrow> h)"
    using assms by (simp split: phase.split)
qed

lemma open_inI: "hb_client h c = Some cl \<Longrightarrow> wc_phase cl = C_open p \<Longrightarrow> open_in h c p"
  by (simp add: open_in_def)

lemma exec_inv:
  assumes "hub_inv h"
  shows "hub_inv (hub_exec e h)"
proof (cases e)
  case (Accept ip k)
  then show ?thesis using accept_inv [OF assms] by simp
next
  case (Look_up c)
  then show ?thesis using look_up_inv [OF assms] by simp
next
  case (Register c)
  then show ?thesis using register_inv [OF assms] by simp
next
  case (Sees_stop c)
  then show ?thesis using sees_stop_inv [OF assms] by simp
next
  case (Reply c d)
  then show ?thesis using reply_inv [OF assms] by simp
next
  case (Upgrade_fails c)
  then show ?thesis unfolding Upgrade_fails hub_exec.simps
    by (intro with_client_inv [OF assms]) (simp add: assms fail_setup_inv)
next
  case (Check_shutdown c)
  have "hub_inv (put_client c (cl\<lparr>wc_phase := C_checked\<rparr>) h)"
    if "hb_client h c = Some cl" "wc_phase cl = C_acquired" for cl
    by (rule put_same_inv [OF assms that(1)])
      (use that(2) client_at [OF assms that(1)] in \<open>simp_all add: holding_def client_ok_def\<close>)
  then show ?thesis unfolding Check_shutdown hub_exec.simps
    by (intro with_client_inv [OF assms]) (simp add: assms fail_setup_inv)
next
  case (Pump_ends c)
  show ?thesis unfolding Pump_ends hub_exec.simps
    by (intro with_client_inv [OF assms]) (auto split: phase.split simp: assms intro: stop_inv open_inI)
next
  case (Unregister c)
  show ?thesis unfolding Unregister hub_exec.simps
    by (intro with_client_inv [OF assms])
      (auto split: phase.split simp: assms intro: with_room_inv [OF assms] room_unregister_inv [OF assms])
next
  case (Write_out c)
  have "hub_inv (put_client c (cl\<lparr>wc_send := tl (wc_send cl)\<rparr>) h)" if "hb_client h c = Some cl" for cl
    by (rule put_same_inv [OF assms that])
      (use client_at [OF assms that] in \<open>simp_all add: holding_def client_ok_def\<close>)
  then show ?thesis unfolding Write_out hub_exec.simps by (intro with_client_inv [OF assms])
next
  case (Broadcast k d)
  then show ?thesis using broadcast_inv [OF assms] by simp
next
  case (Broadcast_local k d)
  then show ?thesis using local_broadcast_inv [OF assms] by simp
next
  case (Room_next p f)
  show ?thesis unfolding Room_next hub_exec.simps
    by (intro with_room_inv [OF assms] room_next_inv [OF assms])
next
  case (Room_finish p f)
  show ?thesis unfolding Room_finish hub_exec.simps
    by (intro with_room_inv [OF assms]) (simp add: assms room_finish_inv)
next
  case Publish_next
  show ?thesis unfolding Publish_next hub_exec.simps by (rule hub_inv_same [OF assms]) simp_all
next
  case Shutdown_flag
  show ?thesis unfolding Shutdown_flag hub_exec.simps by (rule hub_inv_same [OF assms]) simp_all
next
  case Shutdown_rooms
  show ?thesis unfolding Shutdown_rooms hub_exec.simps by (simp add: assms stop_rooms_inv)
qed

lemma run_inv: "hub_inv h \<Longrightarrow> hub_inv (hub_run es h)"
  unfolding hub_run_def by (induction es arbitrary: h) (simp_all add: exec_inv del: hub_exec.simps)

lemma exec_cfg: "hb_cfg (hub_exec e h) = hb_cfg h"
  by (cases e)
    (simp_all add: with_client_def with_room_def TryAcquireConn_def put_client_def fail_setup_def
      release_conn_def find_or_create_def put_room_def room_register_def room_unregister_def Let_def
      drop_client_def RemoveRoomIfSame_def BroadcastToRoom_def BroadcastToRoomLocal_def room_next_def
      room_finish_def stop_rooms_def fold_frame split: option.split phase.split list.split)

lemma run_cfg: "hb_cfg (hub_run es h) = hb_cfg h"
  unfolding hub_run_def by (rule fold_frame) (rule exec_cfg)

section \<open>Properties\<close>

text \<open>
  Property C6 (the quotas are exact). Whatever the connections, rooms, broadcasts and the shutdown
  do and in whatever order, the counter of an address and of a room is the number of connections that
  hold a quota for it (accepted, set-up not failed, not stopped): each is given back exactly once,
  by whichever path ends the connection first. A configured limit is never exceeded.
\<close>

theorem quotas_exact:
  "\<forall>es cfg redis ip room_id. let h = hub_run es (NewHubWithConfig cfg redis) in
     counter (hb_conn h) ip = int (card {c. \<exists>cl. hb_client h c = Some cl \<and> holding cl \<and> wc_ip cl = ip}) \<and>
     GetRoomConnCount room_id h =
       int (card {c. \<exists>cl. hb_client h c = Some cl \<and> holding cl \<and> wc_room_id cl = room_id}) \<and>
     (ws_max_per_ip cfg \<le> 0 \<or> counter (hb_conn h) ip \<le> ws_max_per_ip cfg) \<and>
     (ws_max_per_room cfg \<le> 0 \<or> GetRoomConnCount room_id h \<le> ws_max_per_room cfg)"
proof (intro allI, unfold Let_def)
  fix es cfg redis ip room_id
  let ?h = "hub_run es (NewHubWithConfig cfg redis)"
  have i: "hub_inv ?h" by (rule run_inv [OF new_hub_inv])
  have c: "hb_cfg ?h = cfg" by (simp add: run_cfg NewHubWithConfig_def)
  note q = hub_invD(1) [OF i] and l = hub_invD(2) [OF i]
  have "counter (hb_conn ?h) ip = int (card (holders wc_ip ip (hb_client ?h)))"
    and "counter (hb_room_conn ?h) room_id = int (card (holders wc_room_id room_id (hb_client ?h)))"
    using q by (simp_all add: quota_ok_def counter_tally)
  moreover have "ws_max_per_ip cfg \<le> 0 \<or> counter (hb_conn ?h) ip \<le> ws_max_per_ip cfg"
    "ws_max_per_room cfg \<le> 0 \<or> counter (hb_room_conn ?h) room_id \<le> ws_max_per_room cfg"
    using l unfolding limit_ok_def c by (meson not_le)+
  ultimately show "counter (hb_conn ?h) ip =
       int (card {c. \<exists>cl. hb_client ?h c = Some cl \<and> holding cl \<and> wc_ip cl = ip}) \<and>
     GetRoomConnCount room_id ?h =
       int (card {c. \<exists>cl. hb_client ?h c = Some cl \<and> holding cl \<and> wc_room_id cl = room_id}) \<and>
     (ws_max_per_ip cfg \<le> 0 \<or> counter (hb_conn ?h) ip \<le> ws_max_per_ip cfg) \<and>
     (ws_max_per_room cfg \<le> 0 \<or> GetRoomConnCount room_id ?h \<le> ws_max_per_room cfg)"
    by (simp add: GetRoomConnCount_def holders_def)
qed

text \<open>
  Property C9 (the online count). In every reachable state the count of a room is the number of
  the clients it holds, each of them has been registered in this very room, and a room whose
  event loop has ended holds none.
\<close>

theorem online_count_exact:
  assumes "hb_room (hub_run es (NewHubWithConfig cfg redis)) p = Some r"
  shows "wr_count r = int (card (wr_clients r)) \<and> finite (wr_clients r) \<and>
    (\<forall>c \<in> wr_clients r. \<exists>cl. hb_client (hub_run es (NewHubWithConfig cfg redis)) c = Some cl \<and>
       wc_phase cl = C_open p) \<and>
    (wr_done r \<longrightarrow> wr_clients r = {})"
  using room_at(1) [OF run_inv [OF new_hub_inv] assms] by (simp add: room_ok_def open_in_def)

definition one_client :: "hub_event list" where
  "one_client = [Accept ''1.2.3.4'' ''r'', Check_shutdown 0, Look_up 0, Register 0]"

definition one_room :: ws_room where
  "one_room = \<lparr>wr_id = ''r'', wr_clients = {0}, wr_queue = [], wr_count = 1, wr_stop = False, wr_done = False\<rparr>"

lemmas hub_eval = TryAcquireConn_def counter_def count_up_def put_client_def with_client_def find_or_create_def
  put_room_def NewRoom_def with_room_def room_register_def

lemma one_client_state:
  "hub_run one_client NewHub =
     \<lparr>hb_cfg = default_config, hb_rooms = [''r'' \<mapsto> 0], hb_room = [0 \<mapsto> one_room], hb_next_room = 1,
      hb_client = [0 \<mapsto> \<lparr>wc_phase = C_open 0, wc_ip = ''1.2.3.4'', wc_room_id = ''r'', wc_send = [], wc_done = False\<rparr>],
      hb_next_client = 1, hb_conn = [''1.2.3.4'' \<mapsto> 1], hb_room_conn = [''r'' \<mapsto> 1],
      hb_shutting = False, hb_swept = False, hb_publish = None, hb_pub_drops = 0\<rparr>"
  by (simp add: hub_run_def one_client_def NewHub_def NewHubWithConfig_def default_config_def hub_eval one_room_def)

theorem online_count_exact_witness:
  "wr_count one_room = int (card {0::nat})"
  using online_count_exact [of one_client default_config False 0 one_room]
  by (simp add: one_client_state [unfolded NewHub_def] one_room_def)

text \<open>
  Property C7 (a broadcast in a room). One turn of a room's event loop takes the oldest message of
  the room's queue and puts it, once, behind whatever waits in the send buffer of every client of
  the room that has space. A client without space is stopped and leaves the room; nobody else
  changes and no other room does. The order in which the map of clients is visited does not matter.
\<close>

theorem broadcast_reaches_room:
  assumes "h = hub_run es (NewHubWithConfig cfg redis)" and "hb_room h p = Some r" and "\<not> wr_done r"
    and "wr_queue r = msg # rest"
  shows "let h' = hub_exec (Room_next p f) h; space = (\<lambda>cl. int (length (wc_send cl)) < sendBufferSize cfg) in
    (\<forall>c. hb_client h' c = map_option (\<lambda>cl. if c \<notin> wr_clients r then cl
        else if space cl then cl\<lparr>wc_send := wc_send cl @ [msg]\<rparr> else cl\<lparr>wc_done := True\<rparr>) (hb_client h c)) \<and>
    hb_room h' = (hb_room h)(p \<mapsto> keep (r\<lparr>wr_queue := rest\<rparr>)
      {c \<in> wr_clients r. \<exists>cl. hb_client h c = Some cl \<and> space cl})"
proof -
  have i: "hub_inv h" unfolding assms(1) by (rule run_inv [OF new_hub_inv])
  have c: "hb_cfg h = cfg" unfolding assms(1) by (simp add: run_cfg NewHubWithConfig_def)
  let ?h = "put_room p (r\<lparr>wr_queue := rest\<rparr>) h"
  note b = broadcast_result [OF queue_inv [OF i assms(2), of rest] put_room_at, of f msg]
  have e: "hub_exec (Room_next p f) h = broadcastToClients f p msg ?h"
    using assms(2-4) by (simp add: with_room_def room_next_def)
  have "fits ?h d = (\<exists>cl. hb_client h d = Some cl \<and> int (length (wc_send cl)) < sendBufferSize cfg)" for d
    by (simp add: fits_def put_room_def c split: option.split)
  then have "hb_room (hub_exec (Room_next p f) h) = (hb_room h)(p \<mapsto> keep (r\<lparr>wr_queue := rest\<rparr>)
      {d \<in> wr_clients r. \<exists>cl. hb_client h d = Some cl \<and> int (length (wc_send cl)) < sendBufferSize cfg})"
    unfolding e b(3) by (simp add: put_room_def)
  moreover have "hb_client (hub_exec (Room_next p f) h) d = map_option (\<lambda>cl. if d \<notin> wr_clients r then cl
      else if int (length (wc_send cl)) < sendBufferSize cfg then cl\<lparr>wc_send := wc_send cl @ [msg]\<rparr>
      else cl\<lparr>wc_done := True\<rparr>) (hb_client h d)" for d
    unfolding e b(2) by (simp add: put_room_def c after_send_def [abs_def] option.map_ident)
  ultimately show ?thesis by (simp add: Let_def)
qed

definition some_message :: envelope where
  "some_message = MsgRetract ''r'' ''d''"

abbreviation (input) told_room :: ws_room where
  "told_room \<equiv> one_room\<lparr>wr_queue := [some_message]\<rparr>"

lemma told_state:
  "hub_run (one_client @ [Broadcast ''r'' some_message]) NewHub =
     (hub_run one_client NewHub)\<lparr>hb_room := [0 \<mapsto> told_room]\<rparr>"
proof -
  have "hub_run (one_client @ [Broadcast ''r'' some_message]) NewHub =
      hub_exec (Broadcast ''r'' some_message) (hub_run one_client NewHub)"
    by (simp add: hub_run_def)
  then show ?thesis unfolding one_client_state
    by (simp add: BroadcastToRoom_def BroadcastToRoomLocal_def GetRoom_def put_room_def
        default_config_def one_room_def)
qed

lemma told_hub:
  assumes "h = hub_run (one_client @ [Broadcast ''r'' some_message]) NewHub"
  shows "hb_room h 0 = Some told_room" and "map_option wc_send (hb_client h 0) = Some []"
  using assms by (simp_all add: told_state one_client_state)

lemma default_send_buffer: "sendBufferSize default_config = 256"
  by (simp add: sendBufferSize_def default_config_def)

theorem broadcast_reaches_room_witness:
  "map_option wc_send (hb_client (hub_exec (Room_next 0 (\<lambda>S. []))
     (hub_run (one_client @ [Broadcast ''r'' some_message]) NewHub)) 0) = Some [some_message]"
proof -
  define h where "h = hub_run (one_client @ [Broadcast ''r'' some_message]) NewHub"
  note t = told_hub [OF h_def]
  from t(2) obtain cl where cl: "hb_client h 0 = Some cl" "wc_send cl = []" by blast
  have "h = hub_run (one_client @ [Broadcast ''r'' some_message]) (NewHubWithConfig default_config False)"
    by (simp only: h_def NewHub_def)
  from broadcast_reaches_room [OF this t(1), of some_message "[]" "\<lambda>S. []"]
  have "hb_client (hub_exec (Room_next 0 (\<lambda>S. [])) h) 0 = Some (cl\<lparr>wc_send := [some_message]\<rparr>)"
    unfolding Let_def default_send_buffer by (simp add: one_room_def cl)
  then show ?thesis by (simp add: h_def)
qed

text \<open>What draining a queue does to one client of the room.\<close>

definition after_drain :: "int \<Rightarrow> envelope list \<Rightarrow> client \<Rightarrow> client" where
  "after_drain cap msgs cl = (let n = nat (cap - int (length (wc_send cl))) in
     cl\<lparr>wc_send := wc_send cl @ take n msgs, wc_done := wc_done cl \<or> n < length msgs\<rparr>)"

lemma after_drain_Cons:
  "after_drain cap (m # msgs) cl =
     (if int (length (wc_send cl)) < cap then after_drain cap msgs (after_send cap m cl) else after_send cap m cl)"
proof (cases "int (length (wc_send cl)) < cap")
  case True
  then have "nat (cap - int (length (wc_send cl))) = Suc (nat (cap - int (length (wc_send cl)) - 1))" by simp
  then show ?thesis using True
    by (simp add: after_drain_def after_send_def Let_def algebra_simps)
next
  case False
  then show ?thesis by (simp add: after_drain_def after_send_def Let_def)
qed

lemma drain_result:
  assumes "hub_inv h" and "hb_room h p = Some r"
  shows "hb_client (fold (broadcastToClients f p) msgs h) c =
      (if c \<in> wr_clients r then map_option (after_drain (sendBufferSize (hb_cfg h)) msgs) (hb_client h c)
       else hb_client h c)"
  using assms
proof (induction msgs arbitrary: h r)
  case Nil
  have "after_drain n [] cl = cl" for n cl by (simp add: after_drain_def)
  then show ?case by (simp add: option.map_ident)
next
  case (Cons m msgs)
  note b = broadcast_result [OF Cons.prems, of f m]
  let ?h = "broadcastToClients f p m h"
  have "hb_room ?h p = Some (keep r {c \<in> wr_clients r. fits h c})" by (simp add: b(3))
  note ih = Cons.IH [OF b(1) this, unfolded hub_broadcast_frame]
  show ?case
  proof (cases "c \<in> wr_clients r")
    case True
    then show ?thesis using ih
      by (cases "hb_client h c") (simp_all add: b(2) fits_def after_drain_Cons)
  next
    case False
    then show ?thesis using ih by (simp add: b(2))
  qed
qed

lemma drain_members:
  assumes "hub_inv h" and "hb_room h p = Some r" and "c \<in> wr_clients r"
  shows "\<exists>r'. hb_room (fold (broadcastToClients f p) msgs h) p = Some r' \<and> (c \<in> wr_clients r' \<or>
    (\<exists>cl. hb_client (fold (broadcastToClients f p) msgs h) c = Some cl \<and> wc_done cl))"
  using assms
proof (induction msgs arbitrary: h r)
  case Nil
  then show ?case by simp
next
  case (Cons m msgs)
  note b = broadcast_result [OF Cons.prems(1,2), of f m]
  let ?h = "broadcastToClients f p m h"
  have r: "hb_room ?h p = Some (keep r {c \<in> wr_clients r. fits h c})" by (simp add: b(3))
  show ?case
  proof (cases "fits h c")
    case True
    then show ?thesis using Cons.IH [OF b(1) r] Cons.prems(3) by simp
  next
    case False
    have "open_in h c p" using room_at(1) [OF Cons.prems(1,2)] Cons.prems(3) by (simp add: room_ok_def)
    then obtain cl where cl: "hb_client h c = Some cl" by (auto simp: open_in_def)
    have "hb_client ?h c = Some (cl\<lparr>wc_done := True\<rparr>)"
      using False cl Cons.prems(3) by (simp add: b(2) fits_def after_send_def)
    moreover have "hb_client (fold (broadcastToClients f p) msgs ?h) c = hb_client ?h c"
      using drain_result [OF b(1) r, of f msgs c] False by simp
    ultimately show ?thesis using drain_inv [OF b(1) r, of f msgs] by auto
  qed
qed

lemma drain_members_sub:
  assumes "hub_inv h" and "hb_room h p = Some r"
  shows "\<exists>r'. hb_room (fold (broadcastToClients f p) msgs h) p = Some r' \<and> wr_clients r' \<subseteq> wr_clients r"
  using assms
proof (induction msgs arbitrary: h r)
  case Nil
  then show ?case by simp
next
  case (Cons m msgs)
  note b = broadcast_result [OF Cons.prems, of f m]
  have "hb_room (broadcastToClients f p m h) p = Some (keep r {c \<in> wr_clients r. fits h c})"
    by (simp add: b(3))
  from Cons.IH [OF b(1) this] show ?case by auto
qed

lemma stop_all_client:
  "hb_client (fold client_stop cs h) c =
     (if c \<in> set cs then map_option (wc_done_update (\<lambda>_. True)) (hb_client h c) else hb_client h c)"
  by (induction cs arbitrary: h) (auto simp: stop_client option.map_comp comp_def)

lemma finish_client:
  fixes f p r h
  defines "g \<equiv> put_room p (r\<lparr>wr_queue := []\<rparr>) h"
  defines "d \<equiv> fold (broadcastToClients f p) (wr_queue r) g"
  assumes "hub_inv h" and "hb_room h p = Some r" and "hb_room d p = Some r'" and "hub_inv d"
  shows "hb_client (fold client_stop (visit_order f (wr_clients r')) d) k = map_option (\<lambda>cl. if k \<notin> wr_clients r then cl
       else cl\<lparr>wc_send := wc_send cl @ take (nat (sendBufferSize (hb_cfg h) - int (length (wc_send cl)))) (wr_queue r),
               wc_done := True\<rparr>) (hb_client h k)"
proof -
  note q = queue_inv [OF assms(3,4), of "[]"] put_room_at [of p "r\<lparr>wr_queue := []\<rparr>" h]
  have fin: "finite (wr_clients r')" using room_at(1) [OF assms(6,5)] by (simp add: room_ok_def)
  have dr: "hb_client d k = (if k \<in> wr_clients r
      then map_option (after_drain (sendBufferSize (hb_cfg h)) (wr_queue r)) (hb_client h k) else hb_client h k)"
    using drain_result [OF q, of f "wr_queue r" k] by (simp add: put_room_def d_def g_def)
  have sub: "wr_clients r' \<subseteq> wr_clients r"
    using drain_members_sub [OF q, where f = f and msgs = "wr_queue r"] assms(5) by (simp add: d_def g_def)
  have k: "hb_client (fold client_stop (visit_order f (wr_clients r')) d) k = (if k \<in> wr_clients r'
      then map_option (wc_done_update (\<lambda>_. True)) (hb_client d k) else hb_client d k)"
    by (simp add: stop_all_client visit_order_set [OF fin])
  show ?thesis
  proof (cases "k \<in> wr_clients r")
    case False
    then have "k \<notin> wr_clients r'" using sub by blast
    then show ?thesis unfolding k dr using False by (simp add: option.map_ident)
  next
    case True
    then have "k \<in> wr_clients r' \<or> (\<exists>cl. hb_client d k = Some cl \<and> wc_done cl)"
      using drain_members [OF q, where c = k and f = f and msgs = "wr_queue r"] assms(5) by (simp add: d_def g_def)
    then have "k \<in> wr_clients r' \<or> (\<exists>cl. hb_client h k = Some cl \<and>
        wc_done (after_drain (sendBufferSize (hb_cfg h)) (wr_queue r) cl))"
      using True unfolding dr by auto
    then show ?thesis unfolding k dr using True
      by (cases "hb_client h k") (auto simp: after_drain_def Let_def)
  qed
qed

text \<open>
  Property C8 (a room that ends). When the event loop of a stopped room returns, the messages that
  wait in its queue are put, in their order, in every client's buffer as far as it has space, every
  client of the room is stopped, and the room is empty; no other client changes. With the
  exact quotas this means that all of the room's connections have given their quota back.
\<close>

theorem room_end_drains_and_stops:
  assumes "h = hub_run es (NewHubWithConfig cfg redis)" and "hb_room h p = Some r"
    and "\<not> wr_done r" and "wr_stop r"
  shows "let h' = hub_exec (Room_finish p f) h in
    (\<forall>c. hb_client h' c = map_option (\<lambda>cl. if c \<notin> wr_clients r then cl
       else cl\<lparr>wc_send := wc_send cl @ take (nat (sendBufferSize cfg - int (length (wc_send cl)))) (wr_queue r),
               wc_done := True\<rparr>) (hb_client h c)) \<and>
    (\<exists>r'. hb_room h' p = Some r' \<and> wr_clients r' = {} \<and> wr_count r' = 0 \<and> wr_done r') \<and>
    hub_inv h'"
proof -
  have i: "hub_inv h" unfolding assms(1) by (rule run_inv [OF new_hub_inv])
  have c: "hb_cfg h = cfg" unfolding assms(1) by (simp add: run_cfg NewHubWithConfig_def)
  let ?g = "put_room p (r\<lparr>wr_queue := []\<rparr>) h"
  let ?h = "fold (broadcastToClients f p) (wr_queue r) ?g"
  note q = queue_inv [OF i assms(2), of "[]"] put_room_at [of p "r\<lparr>wr_queue := []\<rparr>" h]
  from drain_inv [OF q, of f "wr_queue r"]
  obtain r' where j: "hub_inv ?h" and r': "hb_room ?h p = Some r'" by blast
  have e: "hub_exec (Room_finish p f) h = room_finish f p r h"
    using assms(2-4) by (simp add: with_room_def)
  have d: "hub_exec (Room_finish p f) h =
      put_room p (r'\<lparr>wr_clients := {}, wr_count := 0, wr_done := True\<rparr>)
        (fold client_stop (visit_order f (wr_clients r')) ?h)"
    unfolding e room_finish_def by (simp add: Let_def r')
  have "hb_client (hub_exec (Room_finish p f) h) k = map_option (\<lambda>cl. if k \<notin> wr_clients r then cl
       else cl\<lparr>wc_send := wc_send cl @ take (nat (sendBufferSize cfg - int (length (wc_send cl)))) (wr_queue r),
               wc_done := True\<rparr>) (hb_client h k)" for k
    using finish_client [OF i assms(2) r' j, of k]
    unfolding d c by (simp add: put_room_def [of _ _ "fold _ _ _"])
  moreover have "hub_inv (hub_exec (Room_finish p f) h)" by (rule exec_inv [OF i])
  moreover have "\<exists>r'. hb_room (hub_exec (Room_finish p f) h) p = Some r' \<and> wr_clients r' = {} \<and>
      wr_count r' = 0 \<and> wr_done r'"
    unfolding d by simp
  ultimately show ?thesis unfolding Let_def by blast
qed

definition closing :: "hub_event list" where
  "closing = one_client @ [Broadcast ''r'' some_message] @ [Shutdown_flag, Shutdown_rooms]"

lemma closing_state:
  "hub_run closing NewHub = (hub_run one_client NewHub)\<lparr>hb_shutting := True, hb_swept := True,
     hb_room := [0 \<mapsto> told_room\<lparr>wr_stop := True\<rparr>]\<rparr>"
proof -
  have "hub_run closing NewHub = hub_exec Shutdown_rooms (hub_exec Shutdown_flag
      (hub_run (one_client @ [Broadcast ''r'' some_message]) NewHub))"
    by (simp add: hub_run_def closing_def)
  then show ?thesis unfolding told_state one_client_state by (simp add: stop_rooms_def fun_eq_iff)
qed

theorem room_end_drains_and_stops_witness:
  "map_option wc_send (hb_client (hub_exec (Room_finish 0 (\<lambda>S. [])) (hub_run closing NewHub)) 0) =
     Some [some_message]"
proof -
  define h where "h = hub_run closing NewHub"
  have r: "hb_room h 0 = Some (told_room\<lparr>wr_stop := True\<rparr>)" by (simp add: h_def closing_state)
  have c: "map_option wc_send (hb_client h 0) = Some []" by (simp add: h_def closing_state one_client_state)
  from c obtain cl where cl: "hb_client h 0 = Some cl" "wc_send cl = []" by blast
  have "h = hub_run closing (NewHubWithConfig default_config False)" by (simp only: h_def NewHub_def)
  from room_end_drains_and_stops [OF this r, where f = "\<lambda>S. []"]
  have "hb_client (hub_exec (Room_finish 0 (\<lambda>S. [])) h) 0 =
      Some (cl\<lparr>wc_send := [some_message], wc_done := True\<rparr>)"
    unfolding Let_def default_send_buffer by (simp add: one_room_def cl)
  then show ?thesis by (simp add: h_def)
qed

text \<open>
  Corollary (a connection can miss every broadcast). A client may be registered in a room that
  has left the hub's map: it looked the room up, the last other client left, the room removed itself, and
  its event loop, which nothing has stopped, still accepts the registration. The client is open and
  counted, and no broadcast reaches it.
\<close>

theorem orphan_room_misses_broadcasts:
  "\<exists>es. let h = hub_run es NewHub in
     open_in h 1 0 \<and> (\<exists>r. hb_room h 0 = Some r \<and> 1 \<in> wr_clients r \<and> \<not> wr_stop r) \<and>
     (\<exists>cl. hb_client h 1 = Some cl \<and> holding cl \<and> wc_room_id cl = ''r'') \<and> GetRoom ''r'' h = None \<and>
     (\<forall>data. BroadcastToRoom ''r'' data h = h)"
proof (rule exI [of _ "one_client @ [Accept ''5.6.7.8'' ''r'', Check_shutdown 1, Look_up 1, Unregister 0, Register 1]"])
  define h where "h = hub_run (one_client @ [Accept ''5.6.7.8'' ''r'', Check_shutdown 1, Look_up 1,
    Unregister 0, Register 1]) NewHub"
  have "h = fold hub_exec [Accept ''5.6.7.8'' ''r'', Check_shutdown 1, Look_up 1, Unregister 0, Register 1]
      (hub_run one_client NewHub)"
    by (simp add: h_def hub_run_def)
  then have "hb_room h = [0 \<mapsto> one_room\<lparr>wr_clients := {1}\<rparr>] \<and> hb_rooms h = Map.empty \<and>
      map_option (\<lambda>cl. (wc_phase cl, wc_done cl, wc_room_id cl)) (hb_client h 1) = Some (C_open 0, False, ''r'') \<and>
      hb_publish h = None"
    unfolding one_client_state
    by (simp add: hub_eval default_config_def one_room_def room_unregister_def drop_client_def client_stop_def
        release_conn_def count_down_def RemoveRoomIfSame_def fun_eq_iff)
  then have r: "hb_room h 0 = Some (one_room\<lparr>wr_clients := {1}\<rparr>)" and g: "hb_rooms h ''r'' = None"
    and c: "map_option (\<lambda>cl. (wc_phase cl, wc_done cl, wc_room_id cl)) (hb_client h 1) = Some (C_open 0, False, ''r'')"
    and p: "hb_publish h = None"
    by simp_all
  from c have "\<exists>cl. hb_client h 1 = Some cl \<and> wc_phase cl = C_open 0 \<and> holding cl \<and> wc_room_id cl = ''r''"
    by (auto simp: holding_def)
  moreover have "BroadcastToRoom ''r'' data h = h" for data
    by (simp add: BroadcastToRoom_def BroadcastToRoomLocal_def GetRoom_def g p)
  ultimately show "let h = hub_run (one_client @ [Accept ''5.6.7.8'' ''r'', Check_shutdown 1, Look_up 1,
      Unregister 0, Register 1]) NewHub in
     open_in h 1 0 \<and> (\<exists>r. hb_room h 0 = Some r \<and> 1 \<in> wr_clients r \<and> \<not> wr_stop r) \<and>
     (\<exists>cl. hb_client h 1 = Some cl \<and> holding cl \<and> wc_room_id cl = ''r'') \<and> GetRoom ''r'' h = None \<and>
     (\<forall>data. BroadcastToRoom ''r'' data h = h)"
    using r unfolding h_def [symmetric] Let_def open_in_def GetRoom_def g by (auto simp: one_room_def)
qed

text \<open>
  Corollary (a room made after the sweep). A request that passed the check of the flag before
  \<open>Shutdown\<close> set it may create its room after \<open>Shutdown\<close> has stopped the rooms: the room is not
  stopped, its client is open, and what is left of \<open>Shutdown\<close> does nothing more.
\<close>

theorem room_after_shutdown:
  "\<exists>es. let h = hub_run es NewHub in
     hb_shutting h \<and> (\<exists>r. hb_room h 0 = Some r \<and> \<not> wr_stop r \<and> wr_clients r = {0}) \<and> open_in h 0 0 \<and>
     hub_exec Shutdown_flag h = h \<and> hub_exec Shutdown_rooms h = h"
proof (rule exI [of _ "[Accept ''1.2.3.4'' ''r'', Check_shutdown 0, Shutdown_flag, Shutdown_rooms, Look_up 0, Register 0]"])
  define h where "h = hub_run [Accept ''1.2.3.4'' ''r'', Check_shutdown 0, Shutdown_flag, Shutdown_rooms,
    Look_up 0, Register 0] NewHub"
  have "hb_room h 0 = Some one_room \<and> open_in h 0 0 \<and> hb_shutting h \<and> hb_swept h"
    by (simp add: h_def hub_run_def NewHub_def NewHubWithConfig_def default_config_def hub_eval stop_rooms_def
        open_in_def one_room_def)
  then show "let h = hub_run [Accept ''1.2.3.4'' ''r'', Check_shutdown 0, Shutdown_flag, Shutdown_rooms,
      Look_up 0, Register 0] NewHub in
     hb_shutting h \<and> (\<exists>r. hb_room h 0 = Some r \<and> \<not> wr_stop r \<and> wr_clients r = {0}) \<and> open_in h 0 0 \<and>
     hub_exec Shutdown_flag h = h \<and> hub_exec Shutdown_rooms h = h"
    unfolding h_def [symmetric] Let_def by (simp add: one_room_def)
qed

end
