(* ===== verification/WsHandler.thy ===== *)
theory WsHandler
  imports Sending RoomService AuthService Hub
begin

text \<open>
  \<open>websocket/handler.go\<close> and the reply of \<open>websocket/client.go\<close>: the checks of a handshake, the
  connection it opens in the hub, the answer to a message, and the replay of missed danmaku
  after a reconnect. The authentication, the room status, \<open>time.Parse\<close>, \<open>time.Format\<close> and
  \<open>strings.EqualFold\<close> are arguments, as the hub holds them.
\<close>

section \<open>The handshake\<close>

text \<open>A reply is the status and the fields of the JSON body.\<close>

type_synonym reply = "nat \<times> (string \<times> string) list"

record ws_query =
  wq_room_id :: string
  wq_since_time :: string
  wq_last_message_id :: string
  wq_token :: string
  wq_origin :: string
  wq_client_ip :: string

record ws_guard =
  wg_parse_time :: "string \<Rightarrow> time option"
  wg_validate :: "(string \<Rightarrow> go_error + actor) option"
  wg_rooms :: "((string \<Rightarrow> go_error + bool) \<times> (string \<Rightarrow> go_error + string)) option"

fun isOriginAllowed :: "(string \<Rightarrow> string \<Rightarrow> bool) \<Rightarrow> string \<Rightarrow> string list \<Rightarrow> bool" where
  "isOriginAllowed fold_eq origin [] = False"
| "isOriginAllowed fold_eq origin (a # allowed) =
     (if a = ''*'' \<or> fold_eq origin a then True else isOriginAllowed fold_eq origin allowed)"

definition buildCheckOrigin :: "(string \<Rightarrow> string \<Rightarrow> bool) \<Rightarrow> string list \<Rightarrow> string \<Rightarrow> bool" where
  "buildCheckOrigin fold_eq allowed origin =
     (if allowed = [] then True else origin = '''' \<or> isOriginAllowed fold_eq origin allowed)"

definition room_gate :: "((string \<Rightarrow> go_error + bool) \<times> (string \<Rightarrow> go_error + string)) option \<Rightarrow> string \<Rightarrow> reply option" where
  "room_gate getter room_id =
     (case getter of
        None \<Rightarrow> None
      | Some (exists, get_status) \<Rightarrow>
          (case exists room_id of
             Inl e \<Rightarrow> Some (500, [(''error'', ''internal error'')])
           | Inr False \<Rightarrow> Some (404, [(''error'', ''room not found'')])
           | Inr True \<Rightarrow>
               (case get_status room_id of
                  Inl e \<Rightarrow> Some (500, [(''error'', ''internal error'')])
                | Inr status \<Rightarrow>
                    if status = RoomStatusBanned then Some (403, [(''error'', ''room is banned'')])
                    else if status = RoomStatusPending \<or> status = RoomStatusEnded
                    then Some (409, [(''error'', ''room is not live''), (''status'', status)])
                    else None)))"

definition token_gate :: "(string \<Rightarrow> go_error + actor) option \<Rightarrow> string \<Rightarrow> reply + actor" where
  "token_gate validator token =
     (case validator of
        None \<Rightarrow> Inr anonymous
      | Some vt \<Rightarrow>
          if token = '''' then Inr anonymous
          else case vt token of
            Inl e \<Rightarrow> Inl (401, [(''error'', ''invalid token'')])
          | Inr claims \<Rightarrow> Inr claims)"

definition ws_checks :: "ws_guard \<Rightarrow> ws_query \<Rightarrow> reply + actor" where
  "ws_checks g q =
     (if wq_room_id q = '''' then Inl (400, [(''error'', ''room parameter is required'')])
      else if wq_since_time q \<noteq> '''' \<and> wg_parse_time g (wq_since_time q) = None
      then Inl (400, [(''error'', ''invalid since_time'')])
      else case token_gate (wg_validate g) (wq_token q) of
        Inl r \<Rightarrow> Inl r
      | Inr actor \<Rightarrow>
          (case room_gate (wg_rooms g) (wq_room_id q) of
             Some r \<Rightarrow> Inl r
           | None \<Rightarrow> Inr actor))"

text \<open>
  \<open>ServeWs\<close> up to the history. The upgrade is the library's: it fails when the origin check does
  and may fail by itself. What follows are events of the hub, here without others between them; a
  room that no longer accepts a registration has been stopped.
\<close>

definition setup_events :: "bool \<Rightarrow> nat \<Rightarrow> hub_event list" where
  "setup_events upgraded c = (if upgraded then [Check_shutdown c, Look_up c, Register c, Sees_stop c]
     else [Upgrade_fails c])"

definition ServeWs ::
  "(string \<Rightarrow> string \<Rightarrow> bool) \<Rightarrow> ws_guard \<Rightarrow> bool \<Rightarrow> ws_query \<Rightarrow> hub \<Rightarrow> (reply + actor) \<times> hub" where
  "ServeWs fold_eq g upgrade_works q h =
     (case ws_checks g q of
        Inl r \<Rightarrow> (Inl r, h)
      | Inr actor \<Rightarrow>
          if \<not> fst (TryAcquireConn (wq_client_ip q) (wq_room_id q) h)
          then (Inl (429, [(''error'', ''connection limit reached'')]), h)
          else (Inr actor, hub_run (Accept (wq_client_ip q) (wq_room_id q) # setup_events
            (upgrade_works \<and> buildCheckOrigin fold_eq (ws_origins (hb_cfg h)) (wq_origin q)) (hb_next_client h)) h))"

section \<open>Replies to messages\<close>

definition sendResult :: "handle_result \<Rightarrow> envelope" where
  "sendResult result =
     (if \<not> hr_ok result
      then MsgError \<lparr>err_request_id = hr_request_id result, err_code = hr_error_code result,
             err_message = hr_reason result\<rparr>
      else MsgAck \<lparr>ack_request_id = hr_request_id result, ack_message_id = hr_message_id result, ack_ok = True,
             ack_persistence = hr_persistence result, ack_error_code = '''', ack_reason = ''''\<rparr>)"

section \<open>The history after a reconnect\<close>

text \<open>
  The loop, page by page. \<open>query k\<close> is \<open>QueryHistory\<close> as it answers the \<open>k\<close>-th page (the store may
  have changed since the last one), \<open>room_for k\<close> tells if the client's queue takes the \<open>k\<close>-th message.
  The result is the list of messages that were queued.
\<close>

definition pageSize :: nat where "pageSize = 100"

definition maxReplay :: nat where "maxReplay = 1000"

type_synonym history_query = "string \<Rightarrow> time \<Rightarrow> string \<Rightarrow> int \<Rightarrow> go_error + danmaku list"

definition page_of :: "(time \<Rightarrow> string) \<Rightarrow> string \<Rightarrow> danmaku list \<Rightarrow> history_payload" where
  "page_of fmt room_id dms =
     (let hasMore = pageSize < length dms;
          dms = (if hasMore then take pageSize dms else dms);
          final = last dms
      in \<lparr>h_danmaku = dms, h_room_id = room_id, h_has_more = hasMore, h_next_time = fmt (d_timestamp final),
          h_next_message_id = d_id final\<rparr>)"

function replay :: "(nat \<Rightarrow> history_query) \<Rightarrow> (nat \<Rightarrow> bool) \<Rightarrow> (time \<Rightarrow> string) \<Rightarrow> string \<Rightarrow> nat \<Rightarrow> time \<Rightarrow> string
  \<Rightarrow> nat \<Rightarrow> history_payload list" where
  "replay query room_for fmt room_id k since_time last_id replayed =
     (if replayed < maxReplay then
        (case query k room_id since_time last_id (int pageSize + 1) of
           Inl e \<Rightarrow> []
         | Inr dms \<Rightarrow>
             if dms = [] then []
             else let page = page_of fmt room_id dms in
               if \<not> room_for k then []
               else if \<not> h_has_more page then [page]
               else page # replay query room_for fmt room_id (k + 1) (d_timestamp (last (h_danmaku page)))
                      (d_id (last (h_danmaku page))) (replayed + length (h_danmaku page)))
      else [])"
  by pat_completeness auto
termination
  by (relation "measure (\<lambda>(query, room_for, fmt, room_id, k, since_time, last_id, replayed). maxReplay - replayed)")
    (auto simp: page_of_def pageSize_def Let_def split: if_splits)

declare replay.simps [simp del]

definition sendHistoryOnReconnect :: "(nat \<Rightarrow> history_query) \<Rightarrow> (nat \<Rightarrow> bool) \<Rightarrow> (string \<Rightarrow> time option) \<Rightarrow> (time \<Rightarrow> string)
  \<Rightarrow> ws_query \<Rightarrow> history_payload list" where
  "sendHistoryOnReconnect query room_for parse fmt q =
     (if wq_since_time q = '''' then []
      else case parse (wq_since_time q) of
        None \<Rightarrow> []
      | Some since_time \<Rightarrow> replay query room_for fmt (wq_room_id q) 0 since_time (wq_last_message_id q) 0)"

section \<open>Lemmas\<close>

definition store_query :: "danmaku sorter \<Rightarrow> memory_store \<Rightarrow> history_query" where
  "store_query srt s = (\<lambda>room_id t i limit. ListSince srt room_id t i limit s)"

lemma page_of_le:
  "length dms \<le> 100 \<Longrightarrow> h_danmaku (page_of fmt r dms) = dms \<and> \<not> h_has_more (page_of fmt r dms)"
  by (simp add: page_of_def pageSize_def Let_def)

lemma page_of_gt:
  "100 < length dms \<Longrightarrow> h_danmaku (page_of fmt r dms) = take 100 dms \<and> h_has_more (page_of fmt r dms)"
  by (simp add: page_of_def pageSize_def Let_def)

lemma page_of_last: "h_next_message_id (page_of fmt r dms) = d_id (last (h_danmaku (page_of fmt r dms)))"
  "h_next_time (page_of fmt r dms) = fmt (d_timestamp (last (h_danmaku (page_of fmt r dms))))"
  "h_room_id (page_of fmt r dms) = r"
  by (simp_all add: page_of_def Let_def)

text \<open>One page, read from a store at a cursor.\<close>

lemma replay_page:
  assumes "sort_slice_spec srt" and "cursors_distinct (st k)" and "H = history (st k) r (Cursor t i)"
    and "n < 1000"
  shows "replay (\<lambda>k. store_query srt (st k)) room_for fmt r k t i n =
    (if H = [] then []
     else if \<not> room_for k then []
     else if length H \<le> 100 then [page_of fmt r H]
     else page_of fmt r (take 101 H) # replay (\<lambda>k. store_query srt (st k)) room_for fmt r (k + 1)
       (d_timestamp (H ! 99)) (d_id (H ! 99)) (n + 100))"
proof -
  have q: "store_query srt (st k) r t i (int pageSize + 1) = Inr (take 101 H)"
    using assms(1-3) by (simp add: store_query_def ListSince_eq cut_limit_take pageSize_def)
  show ?thesis
  proof (cases "length H \<le> 100")
    case True
    then have "take 101 H = H" by simp
    then show ?thesis using assms(4) q True page_of_le [where fmt = fmt and r = r, OF True]
      by (subst replay.simps) (simp add: maxReplay_def Let_def)
  next
    case False
    then have p: "h_danmaku (page_of fmt r (take 101 H)) = take 100 H" "h_has_more (page_of fmt r (take 101 H))"
      using page_of_gt [where dms = "take 101 H" and fmt = fmt and r = r] by simp_all
    have "H \<noteq> []" "length (take 100 H) = 100" "take 100 H \<noteq> []" using False by auto
    then have l: "last (take 100 H) = H ! 99" by (simp add: last_conv_nth)
    note n = \<open>H \<noteq> []\<close> \<open>length (take 100 H) = 100\<close>
    show ?thesis using assms(4) q False p l n
      by (subst replay.simps) (simp add: maxReplay_def Let_def)
  qed
qed

lemma replay_end: "\<not> n < 1000 \<Longrightarrow> replay query room_for fmt r k t i n = []"
  by (subst replay.simps) (simp add: maxReplay_def)

lemma danmaku_cursor_eta: "Cursor (d_timestamp d) (d_id d) = danmaku_cursor d"
  by (simp add: danmaku_cursor_def)

text \<open>A store that does not change meanwhile: no gap, no repetition, at most a thousand.\<close>

lemma replay_exact:
  assumes "sort_slice_spec srt" and "cursors_distinct s"
  shows "concat (map h_danmaku (replay (\<lambda>k. store_query srt s) (\<lambda>k. True) fmt r k t i (100 * j))) =
      take (1000 - 100 * j) (history s r (Cursor t i))"
proof (induction "10 - j" arbitrary: j k t i)
  case 0
  then show ?case by (simp add: replay_end)
next
  case (Suc m)
  let ?H = "history s r (Cursor t i)"
  have j: "100 * j < 1000" using Suc.hyps(2) by simp
  note page = replay_page [where st = "\<lambda>k. s" and room_for = "\<lambda>k. True" and fmt = fmt and k = k,
      OF assms(1,2) refl j]
  show ?case
  proof (cases "length ?H \<le> 100")
    case True
    then have "length ?H \<le> 1000 - 100 * j" using Suc.hyps(2) by simp
    then show ?thesis using True page page_of_le [OF True] by simp
  next
    case False
    then have "?H \<noteq> []" by auto
    have "Cursor (d_timestamp (?H ! 99)) (d_id (?H ! 99)) = danmaku_cursor (?H ! 99)"
      by (rule danmaku_cursor_eta)
    then have "history s r (Cursor (d_timestamp (?H ! 99)) (d_id (?H ! 99))) = drop 100 ?H"
      using history_resume [OF assms(2), of 99 r "Cursor t i"] False by simp
    moreover have "m = 10 - Suc j" using Suc.hyps(2) by simp
    ultimately have "concat (map h_danmaku (replay (\<lambda>k. store_query srt s) (\<lambda>k. True) fmt r (k + 1)
        (d_timestamp (?H ! 99)) (d_id (?H ! 99)) (100 * j + 100))) = take (1000 - 100 * Suc j) (drop 100 ?H)"
      using Suc.hyps(1) [of "Suc j" "k + 1" "d_timestamp (?H ! 99)" "d_id (?H ! 99)"]
      by (simp add: add.commute)
    moreover have "1000 - 100 * j = 100 + (1000 - 100 * Suc j)" using Suc.hyps(2) by simp
    moreover have "h_danmaku (page_of fmt r (take 101 ?H)) = take 100 ?H"
      using page_of_gt [where dms = "take 101 ?H" and fmt = fmt and r = r] False by simp
    ultimately show ?thesis unfolding page using False \<open>?H \<noteq> []\<close>
      by (simp only: if_False if_True simp_thms list.map concat.simps take_add [symmetric] list.simps)
  qed
qed

text \<open>A store that changes from page to page: still in order, still no repetition.\<close>

lemma history_props:
  assumes "cursors_distinct s"
  shows "sorted_wrt (<) (map danmaku_cursor (history s r c))"
    and "d \<in> set (history s r c) \<Longrightarrow> in_room r d \<and> c < danmaku_cursor d"
  using history_strict [OF assms] set_history by auto

lemma replay_ordered:
  assumes "sort_slice_spec srt" and "\<forall>k. cursors_distinct (st k)"
  shows "sorted_wrt (<) (map danmaku_cursor (concat (map h_danmaku
      (replay (\<lambda>k. store_query srt (st k)) room_for fmt r k t i n)))) \<and>
    (\<forall>d \<in> set (concat (map h_danmaku (replay (\<lambda>k. store_query srt (st k)) room_for fmt r k t i n))).
       in_room r d \<and> Cursor t i < danmaku_cursor d)"
proof (induction "1000 - n" arbitrary: n k t i rule: less_induct)
  case less
  let ?H = "history (st k) r (Cursor t i)"
  let ?rest = "replay (\<lambda>k. store_query srt (st k)) room_for fmt r (k + 1) (d_timestamp (?H ! 99)) (d_id (?H ! 99)) (n + 100)"
  have d: "cursors_distinct (st k)" using assms(2) by blast
  note hp = history_props [where r = r and c = "Cursor t i", OF d]
  show ?case
  proof (cases "n < 1000 \<and> 100 < length ?H \<and> room_for k")
    case False
    then consider "\<not> n < 1000" | "n < 1000" "length ?H \<le> 100" | "n < 1000" "\<not> room_for k" by force
    then show ?thesis
    proof cases
      case 1
      then show ?thesis by (simp add: replay_end)
    next
      case 2
      then show ?thesis using replay_page [where st = st, OF assms(1) d refl 2(1)] hp page_of_le [where fmt = fmt and r = r, OF 2(2)]
        by (cases "?H = [] \<or> \<not> room_for k") auto
    next
      case 3
      then show ?thesis using replay_page [where st = st, OF assms(1) d refl 3(1)] by simp
    qed
  next
    case True
    then have "?H \<noteq> []" by auto
    then have e: "replay (\<lambda>k. store_query srt (st k)) room_for fmt r k t i n =
        page_of fmt r (take 101 ?H) # ?rest"
      using replay_page [where st = st and n = n, OF assms(1) d refl] True by simp
    have p: "h_danmaku (page_of fmt r (take 101 ?H)) = take 100 ?H"
      using page_of_gt [where dms = "take 101 ?H" and fmt = fmt and r = r] True by simp
    have c: "Cursor (d_timestamp (?H ! 99)) (d_id (?H ! 99)) = danmaku_cursor (?H ! 99)"
      by (rule danmaku_cursor_eta)
    have lt: "1000 - (n + 100) < 1000 - n" using True by linarith
    have ih: "sorted_wrt (<) (map danmaku_cursor (concat (map h_danmaku ?rest))) \<and>
        (\<forall>d \<in> set (concat (map h_danmaku ?rest)). in_room r d \<and> danmaku_cursor (?H ! 99) < danmaku_cursor d)"
      using less [OF lt, where k = "k + 1" and t = "d_timestamp (?H ! 99)" and i = "d_id (?H ! 99)"] unfolding c .
    have up: "danmaku_cursor x \<le> danmaku_cursor (?H ! 99)" if x: "x \<in> set (take 100 ?H)" for x
    proof -
      obtain m where m: "m < 100" "x = ?H ! m" using x by (auto simp: in_set_conv_nth)
      show ?thesis
      proof (cases "m = 99")
        case False
        then have "danmaku_cursor (?H ! m) < danmaku_cursor (?H ! 99)"
          using hp(1) m(1) True by (simp add: sorted_wrt_iff_nth_less)
        then show ?thesis using m(2) by simp
      qed (use m in simp)
    qed
    have "Cursor t i < danmaku_cursor (?H ! 99)" using hp(2) [of "?H ! 99"] True by simp
    then have "\<forall>d \<in> set (concat (map h_danmaku ?rest)). Cursor t i < danmaku_cursor d"
      using ih by (auto dest: less_trans)
    moreover have "sorted_wrt (<) (map danmaku_cursor (take 100 ?H))"
      using hp(1) by (metis sorted_wrt_take take_map)
    moreover have "\<forall>x \<in> set (take 100 ?H). in_room r x \<and> Cursor t i < danmaku_cursor x"
      using hp(2) by (auto dest: in_set_takeD)
    moreover have "\<forall>x \<in> set (take 100 ?H). \<forall>y \<in> set (concat (map h_danmaku ?rest)). danmaku_cursor x < danmaku_cursor y"
      using ih up le_less_trans by blast
    ultimately show ?thesis using ih
      unfolding e list.map concat.simps p map_append set_append sorted_wrt_append set_map by blast
  qed
qed

section \<open>Properties\<close>

text \<open>
  Property C12 (the replay is complete). A client that reconnects with the time and the identifier of the
  last danmaku it saw is sent, when its queue has space and the store does not change meanwhile, exactly
  the approved danmaku of the room after that point, in the order of time and identifier, without a
  gap and without a repetition over the page boundaries, up to the limit of a thousand.
\<close>

theorem replay_is_the_history:
  assumes "ds_store sv = memory_store_ops srt" and "sort_slice_spec srt"
    and "cursors_distinct (mw_danmaku (dw_mod w))"
    and "wq_since_time q \<noteq> ''''" and "parse (wq_since_time q) = Some t"
  shows "concat (map h_danmaku (sendHistoryOnReconnect
      (\<lambda>k room_id t i limit. QueryHistory sv room_id t i limit w) (\<lambda>k. True) parse fmt q)) =
    take 1000 (history (mw_danmaku (dw_mod w)) (wq_room_id q) (Cursor t (wq_last_message_id q)))"
proof -
  have "(\<lambda>k room_id t i limit. QueryHistory sv room_id t i limit w) =
      (\<lambda>k::nat. store_query srt (mw_danmaku (dw_mod w)))"
    by (simp add: fun_eq_iff QueryHistory_def assms(1) memory_store_ops_def store_query_def)
  then show ?thesis
    using replay_exact [OF assms(2,3), where j = 0] assms(4,5) by (simp add: sendHistoryOnReconnect_def)
qed

text \<open>
  Corollary (the replay in a changing store). Danmaku may be stored, reviewed or retracted between the pages,
  and the queue may fill up at any page: what is sent is in strictly increasing order of time and
  identifier, so nothing is sent twice, all of it is later than what the client has seen, and
  all of it is of this room and was approved when its page was read.
\<close>

theorem replay_in_order:
  assumes "ds_store sv = memory_store_ops srt" and "sort_slice_spec srt"
    and "\<forall>k. cursors_distinct (mw_danmaku (dw_mod (w k)))"
    and "parse (wq_since_time q) = Some t"
  shows "let sent = concat (map h_danmaku (sendHistoryOnReconnect
      (\<lambda>k room_id t i limit. QueryHistory sv room_id t i limit (w k)) room_for parse fmt q)) in
    sorted_wrt (<) (map danmaku_cursor sent) \<and>
    (\<forall>d \<in> set sent. d_room_id d = wq_room_id q \<and> d_status d = DanmakuStatusApproved \<and>
       Cursor t (wq_last_message_id q) < danmaku_cursor d)"
proof -
  have "(\<lambda>k room_id t i limit. QueryHistory sv room_id t i limit (w k)) =
      (\<lambda>k. store_query srt (mw_danmaku (dw_mod (w k))))"
    by (simp add: fun_eq_iff QueryHistory_def assms(1) memory_store_ops_def store_query_def)
  then show ?thesis
    using replay_ordered [OF assms(2,3), where k = 0 and n = 0 and t = t and r = "wq_room_id q"
      and i = "wq_last_message_id q" and room_for = room_for and fmt = fmt] assms(4)
    unfolding in_room_def by (simp add: sendHistoryOnReconnect_def)
qed

text \<open>
  Property C15 (a handshake). With the memory room store and the authentication service behind it: a
  request that is refused, for whatever reason, leaves the hub as it was; one that is admitted names a
  room that exists and is neither pending, ended nor banned, and its token is empty or valid. An
  invalid token is refused: it is not taken for an anonymous visitor.
\<close>

theorem handshake_guards:
  assumes "wg_rooms g = Some (\<lambda>i. Exists (memory_room_ops ord) i rs, \<lambda>i. GetStatus (memory_room_ops ord) i rs)"
    and "wg_validate g = Some (ValidateToken jl au now)"
  shows "case ServeWs fold_eq g upgrade_works q h of
      (Inl (status, body), h') \<Rightarrow> h' = h \<and> status \<in> {400, 401, 403, 404, 409, 429}
    | (Inr actor, h') \<Rightarrow>
        (\<exists>r. rm_rooms rs (wq_room_id q) = Some r \<and> r_status r \<notin> {RoomStatusPending, RoomStatusEnded, RoomStatusBanned}) \<and>
        (if wq_token q = '''' then actor = anonymous else ValidateToken jl au now (wq_token q) = Inr actor)"
proof -
  have gate: "room_gate (wg_rooms g) i = (case rm_rooms rs i of
        None \<Rightarrow> Some (404, [(''error'', ''room not found'')])
      | Some r \<Rightarrow> if r_status r = RoomStatusBanned then Some (403, [(''error'', ''room is banned'')])
          else if r_status r = RoomStatusPending \<or> r_status r = RoomStatusEnded
          then Some (409, [(''error'', ''room is not live''), (''status'', r_status r)]) else None)" for i
    by (simp add: room_gate_def assms(1) Exists_def GetStatus_def memory_room_ops_def RoomStore.FindByID_def
        split: option.split)
  have token: "token_gate (wg_validate g) t = (if t = '''' then Inr anonymous else case ValidateToken jl au now t of
        Inl e \<Rightarrow> Inl (401, [(''error'', ''invalid token'')]) | Inr claims \<Rightarrow> Inr claims)" for t
    by (simp add: token_gate_def assms(2))
  have checks: "case ws_checks g q of
      Inl (status, body) \<Rightarrow> status \<in> {400, 401, 403, 404, 409}
    | Inr actor \<Rightarrow>
        (\<exists>r. rm_rooms rs (wq_room_id q) = Some r \<and> r_status r \<notin> {RoomStatusPending, RoomStatusEnded, RoomStatusBanned}) \<and>
        (if wq_token q = '''' then actor = anonymous else ValidateToken jl au now (wq_token q) = Inr actor)"
    by (cases "ValidateToken jl au now (wq_token q)"; cases "rm_rooms rs (wq_room_id q)")
      (simp_all add: ws_checks_def gate token)
  show ?thesis
    using checks unfolding ServeWs_def
    by (cases "ws_checks g q"; cases "fst (TryAcquireConn (wq_client_ip q) (wq_room_id q) h)")
      (auto simp: case_prod_beta)
qed

section \<open>Witnesses\<close>

definition sample_query :: ws_query where
  "sample_query = \<lparr>wq_room_id = ''r'', wq_since_time = ''t'', wq_last_message_id = ''d'', wq_token = '''',
     wq_origin = '''', wq_client_ip = ''1.2.3.4''\<rparr>"

definition reader_world :: "room_mem mem_dm_world" where
  "reader_world = put_store sample_store sample_dm_world"

lemma sample_cursors: "cursors_distinct sample_store"
  by (simp add: cursors_distinct_def sample_store_def sample_danmaku_def danmaku_cursor_def)

lemma sample_history: "history sample_store ''r'' (Cursor 1 ''d'') =
    [sample_danmaku ''a'' ''r'' 2, sample_danmaku ''b'' ''r'' 2]"
  by (simp add: history_def sample_store_def sample_danmaku_def danmaku_cursor_def in_room_def
      less_cursor_def less_eq_cursor_def)

theorem replay_is_the_history_witness:
  "concat (map h_danmaku (sendHistoryOnReconnect
      (\<lambda>k room_id t i limit. QueryHistory (sample_sender sample_service None) room_id t i limit reader_world)
      (\<lambda>k. True) (\<lambda>x. Some 1) (\<lambda>t. '''') sample_query)) =
    [sample_danmaku ''a'' ''r'' 2, sample_danmaku ''b'' ''r'' 2]"
  using replay_is_the_history [of "sample_sender sample_service None" insertion_sort reader_world sample_query
      "\<lambda>x. Some 1" 1 "\<lambda>t. ''''"] sample_history insertion_sort_spec sample_cursors
  by (simp add: sample_sender_def reader_world_def sample_query_def)

theorem replay_in_order_witness:
  "let sent = concat (map h_danmaku (sendHistoryOnReconnect
      (\<lambda>k room_id t i limit. QueryHistory (sample_sender sample_service None) room_id t i limit reader_world)
      (\<lambda>k. k = 0) (\<lambda>x. Some 1) (\<lambda>t. '''') sample_query)) in
    sorted_wrt (<) (map danmaku_cursor sent)"
proof -
  have s: "ds_store (sample_sender sample_service None) = memory_store_ops insertion_sort"
    by (simp add: sample_sender_def)
  have "\<forall>k::nat. cursors_distinct (mw_danmaku (dw_mod reader_world))"
    by (simp add: reader_world_def sample_cursors)
  from replay_in_order [OF s insertion_sort_spec this, of "\<lambda>x. Some 1" sample_query 1 "\<lambda>k. k = 0" "\<lambda>t. ''''"]
  show ?thesis unfolding Let_def by blast
qed

text \<open>A token that does not parse is refused, at a live room too.\<close>

definition sample_guard :: ws_guard where
  "sample_guard = \<lparr>wg_parse_time = (\<lambda>x. Some 1),
     wg_validate = Some (ValidateToken \<lparr>jl_sign = (\<lambda>k c. Inr ''''), jl_alg = (\<lambda>t. ''HS256''),
       jl_parse = (\<lambda>now kf t. Inl (ErrNew ''malformed''))\<rparr> \<lparr>au_secret = ''k'', au_expiry_hours = 1\<rparr> 0),
     wg_rooms = Some (\<lambda>i. Exists (memory_room_ops (\<lambda>s. [])) i sample_rooms,
       \<lambda>i. GetStatus (memory_room_ops (\<lambda>s. [])) i sample_rooms)\<rparr>"

theorem handshake_guards_witness:
  "snd (ServeWs (=) sample_guard True (sample_query\<lparr>wq_room_id := ''a'', wq_token := ''x''\<rparr>) NewHub) = NewHub"
proof -
  let ?q = "sample_query\<lparr>wq_room_id := ''a'', wq_token := ''x''\<rparr>"
  have t: "token_gate (wg_validate sample_guard) ''x'' = Inl (401, [(''error'', ''invalid token'')])"
    by (simp add: token_gate_def sample_guard_def ValidateToken_def)
  have "ws_checks sample_guard ?q = Inl (401, [(''error'', ''invalid token'')])"
    by (simp add: ws_checks_def sample_query_def t) (simp add: sample_guard_def)
  then have r: "fst (ServeWs (=) sample_guard True ?q NewHub) = Inl (401, [(''error'', ''invalid token'')])"
    by (simp add: ServeWs_def)
  have g: "wg_rooms sample_guard = Some (\<lambda>i. Exists (memory_room_ops (\<lambda>s. [])) i sample_rooms,
       \<lambda>i. GetStatus (memory_room_ops (\<lambda>s. [])) i sample_rooms)"
    "wg_validate sample_guard = Some (ValidateToken \<lparr>jl_sign = (\<lambda>k c. Inr ''''), jl_alg = (\<lambda>t. ''HS256''),
       jl_parse = (\<lambda>now kf t. Inl (ErrNew ''malformed''))\<rparr> \<lparr>au_secret = ''k'', au_expiry_hours = 1\<rparr> 0)"
    by (simp_all add: sample_guard_def)
  from handshake_guards [OF g, where fold_eq = "(=)" and upgrade_works = True and q = ?q and h = NewHub] r
  show ?thesis by (cases "ServeWs (=) sample_guard True ?q NewHub") simp
qed

end
