(* ===== verification/Kafka.thy ===== *)
theory Kafka
  imports Sending
begin

text \<open>
  \<open>service/kafka.go\<close>: the event a danmaku travels in, the producer, and the consumer that writes
  events into a table keyed by the danmaku's identifier. JSON, Kafka and the database are arguments:
  \<open>enc\<close> and \<open>dec\<close> marshal and unmarshal an event, \<open>send\<close> is the library's \<open>SendMessage\<close>, \<open>add\<close> the
  store's \<open>Add\<close>, and \<open>lower\<close> the case table of \<open>unicode\<close>.
\<close>

section \<open>Events\<close>

definition SchemaVersion :: int where "SchemaVersion = 2"

record danmaku_event =
  ev_event_id :: string
  ev_danmaku_id :: string
  ev_room_id :: string
  ev_user_id :: string
  ev_content :: string
  ev_color :: string
  ev_type :: string
  ev_font_size :: int
  ev_timestamp :: time
  ev_instance_id :: string
  ev_schema_version :: int
  ev_status :: string
  ev_reviewed_by :: string
  ev_reviewed_at :: "time option"
  ev_review_reason :: string

definition eventFromDanmaku :: "danmaku \<Rightarrow> string \<Rightarrow> danmaku_event" where
  "eventFromDanmaku dm instance_id = \<lparr>ev_event_id = d_id dm, ev_danmaku_id = d_id dm, ev_room_id = d_room_id dm,
     ev_user_id = d_user_id dm, ev_content = d_content dm, ev_color = d_color dm, ev_type = d_type dm,
     ev_font_size = d_font_size dm, ev_timestamp = d_timestamp dm, ev_instance_id = instance_id,
     ev_schema_version = SchemaVersion, ev_status = d_status dm, ev_reviewed_by = d_reviewed_by dm,
     ev_reviewed_at = d_reviewed_at dm, ev_review_reason = d_review_reason dm\<rparr>"

definition danmaku_of_event :: "danmaku_event \<Rightarrow> danmaku" where
  "danmaku_of_event ev = \<lparr>d_id = ev_danmaku_id ev, d_content = ev_content ev, d_color = ev_color ev,
     d_type = ev_type ev, d_font_size = ev_font_size ev, d_room_id = ev_room_id ev, d_timestamp = ev_timestamp ev,
     d_user_id = ev_user_id ev, d_status = (if ev_status ev = '''' then DanmakuStatusApproved else ev_status ev),
     d_reviewed_by = ev_reviewed_by ev, d_reviewed_at = ev_reviewed_at ev, d_review_reason = ev_review_reason ev\<rparr>"

section \<open>Producing\<close>

record kafka_message =
  km_topic :: string
  km_key :: string
  km_value :: string


section \<open>Consuming\<close>

definition isDuplicateKeyError :: "(rune \<Rightarrow> rune) \<Rightarrow> go_error option \<Rightarrow> bool" where
  "isDuplicateKeyError lower err =
     (case err of None \<Rightarrow> False | Some e \<Rightarrow> Contains (ToLower lower (error_text e)) ''duplicate entry'')"

text \<open>
  The calls of \<open>Add\<close> after a first one that failed with \<open>e\<close>: at most three. The result is the error
  that \<open>processMessage\<close> returns, that of the first call when all fail.
\<close>

fun retry_add :: "(rune \<Rightarrow> rune) \<Rightarrow> (danmaku \<Rightarrow> 's \<Rightarrow> go_error option \<times> 's) \<Rightarrow> danmaku \<Rightarrow> go_error \<Rightarrow> nat \<Rightarrow> 's
  \<Rightarrow> go_error option \<times> 's" where
  "retry_add lower add dm e 0 s = (Some e, s)"
| "retry_add lower add dm e (Suc n) s =
     (case add dm s of
        (None, s) \<Rightarrow> (None, s)
      | (Some e', s) \<Rightarrow> if isDuplicateKeyError lower (Some e') then (None, s) else retry_add lower add dm e n s)"

text \<open>Every path marks the message; \<open>marked\<close> is the list of marked messages.\<close>

definition processMessage :: "(rune \<Rightarrow> rune) \<Rightarrow> (string \<Rightarrow> danmaku_event option) \<Rightarrow> (danmaku \<Rightarrow> 's \<Rightarrow> go_error option \<times> 's)
  \<Rightarrow> kafka_message \<Rightarrow> 's \<times> kafka_message list \<Rightarrow> go_error option \<times> 's \<times> kafka_message list" where
  "processMessage lower dec add msg st =
     (case st of (s, marked) \<Rightarrow>
        case dec (km_value msg) of
          None \<Rightarrow> (None, s, marked @ [msg])
        | Some ev \<Rightarrow>
            (let dm = danmaku_of_event ev in
             case add dm s of
               (None, s) \<Rightarrow> (None, s, marked @ [msg])
             | (Some e, s) \<Rightarrow>
                 if isDuplicateKeyError lower (Some e) then (None, s, marked @ [msg])
                 else let (err, s) = retry_add lower add dm e 3 s in (err, s, marked @ [msg])))"

definition ConsumeClaim :: "(rune \<Rightarrow> rune) \<Rightarrow> (string \<Rightarrow> danmaku_event option) \<Rightarrow> (danmaku \<Rightarrow> 's \<Rightarrow> go_error option \<times> 's)
  \<Rightarrow> kafka_message list \<Rightarrow> 's \<times> kafka_message list \<Rightarrow> 's \<times> kafka_message list" where
  "ConsumeClaim lower dec add msgs st = fold (\<lambda>msg st. snd (processMessage lower dec add msg st)) msgs st"

text \<open>
  \<open>Setup\<close> closes the channel \<open>ready\<close>, which the consumer has made once; closing a closed channel panics
  (\<open>None\<close>). \<open>Start\<close> hands the same handler to every session, and a session ends at each
  rebalance of the group.
\<close>

definition Setup :: "bool \<Rightarrow> bool option" where
  "Setup ready_closed = (if ready_closed then None else Some True)"

fun sessions :: "nat \<Rightarrow> bool \<Rightarrow> bool option" where
  "sessions 0 ready_closed = Some ready_closed"
| "sessions (Suc n) ready_closed = (case Setup ready_closed of None \<Rightarrow> None | Some r \<Rightarrow> sessions n r)"

section \<open>A keyed table\<close>

text \<open>
  What MySQL and GORM document of an insert into a table with a primary key, \<open>rows\<close> being the table. A key is
  what the collation makes of the identifier, its weight \<open>w\<close>; one that ignores case makes the same of capital and small letters. An
  insert that succeeds has added the row, and a row is never replaced; a duplicate is reported by the
  text \<open>Error 1062: Duplicate entry\<close>; an insert that fails for another reason, a lost connection
  say, may have happened or not.
\<close>

definition mysql_insert :: "(string \<Rightarrow> string) \<Rightarrow> (rune \<Rightarrow> rune) \<Rightarrow> (danmaku \<Rightarrow> 's \<Rightarrow> go_error option \<times> 's) \<Rightarrow> ('s \<Rightarrow> string \<rightharpoonup> danmaku) \<Rightarrow> bool" where
  "mysql_insert w lower add rows \<longleftrightarrow> (\<forall>d s. let (e, s') = add d s; inserted = (rows s)(w (d_id d) \<mapsto> d) in
     case rows s (w (d_id d)) of
       Some d' \<Rightarrow> e \<noteq> None \<and> rows s' = rows s
     | None \<Rightarrow> (if e = None then rows s' = inserted
         else \<not> isDuplicateKeyError lower e \<and> (rows s' = rows s \<or> rows s' = inserted)))"

lemma mysql_insert_dup:
  assumes "mysql_insert w lower add rows" and "add d s = (e, s')" and "rows s (w (d_id d)) = Some x"
  shows "e \<noteq> None \<and> rows s' = rows s"
  using assms(1) [unfolded mysql_insert_def, rule_format, of d s] assms(2,3) by (simp add: Let_def)

lemma mysql_insert_new:
  assumes "mysql_insert w lower add rows" and "add d s = (e, s')" and "rows s (w (d_id d)) = None"
  shows "if e = None then rows s' = (rows s)(w (d_id d) \<mapsto> d)
    else \<not> isDuplicateKeyError lower e \<and> (rows s' = rows s \<or> rows s' = (rows s)(w (d_id d) \<mapsto> d))"
  using assms(1) [unfolded mysql_insert_def, rule_format, of d s] assms(2,3) by (simp add: Let_def)

text \<open>\<open>put_once w d m\<close>: the row of \<open>d\<close>, unless there is one with its key.\<close>

definition put_once :: "(string \<Rightarrow> string) \<Rightarrow> danmaku \<Rightarrow> (string \<rightharpoonup> danmaku) \<Rightarrow> (string \<rightharpoonup> danmaku)" where
  "put_once w d m = (if m (w (d_id d)) = None then m(w (d_id d) \<mapsto> d) else m)"

lemma put_once_twice [simp]: "put_once w d (put_once w d m) = put_once w d m"
  by (simp add: put_once_def)

lemma one_add:
  assumes "mysql_insert w lower add rows" and "add d s = (e, s')"
  shows "rows s' = rows s \<or> rows s' = put_once w d (rows s)"
    and "e = None \<or> isDuplicateKeyError lower e \<Longrightarrow> rows s' = put_once w d (rows s)"
proof -
  have "(rows s' = rows s \<or> rows s' = put_once w d (rows s)) \<and>
      (e = None \<or> isDuplicateKeyError lower e \<longrightarrow> rows s' = put_once w d (rows s))"
  proof (cases "rows s (w (d_id d))")
    case None
    then show ?thesis using mysql_insert_new [OF assms None] by (auto simp: put_once_def split: if_splits)
  next
    case (Some x)
    then show ?thesis using mysql_insert_dup [OF assms Some] by (simp add: put_once_def)
  qed
  then show "rows s' = rows s \<or> rows s' = put_once w d (rows s)"
    and "e = None \<or> isDuplicateKeyError lower e \<Longrightarrow> rows s' = put_once w d (rows s)" by blast+
qed

lemma retry_add_rows:
  assumes "mysql_insert w lower add rows" and "retry_add lower add d e n s = (err, s')"
  shows "(rows s' = rows s \<or> rows s' = put_once w d (rows s)) \<and> (err = None \<longrightarrow> rows s' = put_once w d (rows s))"
  using assms(2)
proof (induction n arbitrary: s)
  case 0
  then show ?case by auto
next
  case (Suc n)
  obtain e1 s1 where a: "add d s = (e1, s1)" by (cases "add d s")
  note o = one_add [OF assms(1) a]
  show ?case
  proof (cases "e1 = None \<or> isDuplicateKeyError lower e1")
    case True
    then have "err = None \<and> s' = s1" using Suc.prems a by (auto split: option.splits)
    then show ?thesis using o(2) [OF True] by simp
  next
    case False
    then have "retry_add lower add d e n s1 = (err, s')" using Suc.prems a by (auto split: option.splits)
    from Suc.IH [OF this] show ?thesis using o(1) by auto
  qed
qed

section \<open>Messages in the table\<close>

text \<open>What a message asks for: the row of its event, nothing when it does not decode.\<close>

definition put_message :: "(string \<Rightarrow> string) \<Rightarrow> (string \<Rightarrow> danmaku_event option) \<Rightarrow> kafka_message \<Rightarrow> (string \<rightharpoonup> danmaku) \<Rightarrow> (string \<rightharpoonup> danmaku)" where
  "put_message w dec msg m = (case dec (km_value msg) of None \<Rightarrow> m | Some ev \<Rightarrow> put_once w (danmaku_of_event ev) m)"

lemma processMessage_rows:
  assumes "mysql_insert w lower add rows" and "processMessage lower dec add msg (s, marked) = (err, s', marked')"
  shows "(rows s' = rows s \<or> rows s' = put_message w dec msg (rows s)) \<and>
    (err = None \<longrightarrow> rows s' = put_message w dec msg (rows s)) \<and> marked' = marked @ [msg]"
proof (cases "dec (km_value msg)")
  case None
  then show ?thesis using assms(2) by (simp add: processMessage_def put_message_def)
next
  case (Some ev)
  let ?d = "danmaku_of_event ev"
  have p: "put_message w dec msg m = put_once w ?d m" for m using Some by (simp add: put_message_def)
  obtain e1 s1 where a: "add ?d s = (e1, s1)" by (cases "add ?d s")
  note o = one_add [OF assms(1) a]
  show ?thesis
  proof (cases "e1 = None \<or> isDuplicateKeyError lower e1")
    case True
    then have "err = None \<and> s' = s1 \<and> marked' = marked @ [msg]" using assms(2) a Some
      by (auto simp: processMessage_def split: option.splits)
    then show ?thesis using o(2) [OF True] p by simp
  next
    case False
    then obtain e where e: "e1 = Some e" "\<not> isDuplicateKeyError lower (Some e)" by auto
    obtain r2 s2 where r: "retry_add lower add ?d e 3 s1 = (r2, s2)" by (cases "retry_add lower add ?d e 3 s1")
    have "err = r2 \<and> s' = s2 \<and> marked' = marked @ [msg]"
      using assms(2) a Some e r by (simp add: processMessage_def)
    then show ?thesis using retry_add_rows [OF assms(1) r] o(1) p by auto
  qed
qed

lemma ConsumeClaim_Cons:
  "ConsumeClaim lower dec add (m # ms) st = ConsumeClaim lower dec add ms (snd (processMessage lower dec add m st))"
  by (simp add: ConsumeClaim_def)

lemma ConsumeClaim_append:
  "ConsumeClaim lower dec add (ms @ ns) st = ConsumeClaim lower dec add ns (ConsumeClaim lower dec add ms st)"
  by (simp add: ConsumeClaim_def)

text \<open>Every message of the claim was processed without an error, at the first try or at a later one.\<close>

fun all_processed :: "(rune \<Rightarrow> rune) \<Rightarrow> (string \<Rightarrow> danmaku_event option) \<Rightarrow> (danmaku \<Rightarrow> 's \<Rightarrow> go_error option \<times> 's)
  \<Rightarrow> kafka_message list \<Rightarrow> 's \<times> kafka_message list \<Rightarrow> bool" where
  "all_processed lower dec add [] st = True"
| "all_processed lower dec add (m # ms) st =
     (fst (processMessage lower dec add m st) = None \<and> all_processed lower dec add ms (snd (processMessage lower dec add m st)))"

lemma ConsumeClaim_rows:
  assumes "mysql_insert w lower add rows" and "all_processed lower dec add msgs st"
  shows "rows (fst (ConsumeClaim lower dec add msgs st)) = fold (put_message w dec) msgs (rows (fst st)) \<and>
    snd (ConsumeClaim lower dec add msgs st) = snd st @ msgs"
  using assms(2)
proof (induction msgs arbitrary: st)
  case Nil
  then show ?case by (simp add: ConsumeClaim_def)
next
  case (Cons m ms)
  obtain err s' mk' where p: "processMessage lower dec add m (fst st, snd st) = (err, s', mk')"
    by (cases "processMessage lower dec add m (fst st, snd st)") auto
  then have "err = None" "all_processed lower dec add ms (s', mk')" using Cons.prems by simp_all
  then show ?case using Cons.IH [of "(s', mk')"] processMessage_rows [OF assms(1) p] p
    by (simp add: ConsumeClaim_Cons)
qed

text \<open>
  The messages of a claim, each with whether \<open>processMessage\<close> returned no error. It returns an error only when the
  insert failed four times for another reason than a duplicate: the message is given up, and marked like the others.
\<close>

fun outcomes :: "(rune \<Rightarrow> rune) \<Rightarrow> (string \<Rightarrow> danmaku_event option) \<Rightarrow> (danmaku \<Rightarrow> 's \<Rightarrow> go_error option \<times> 's)
  \<Rightarrow> kafka_message list \<Rightarrow> 's \<times> kafka_message list \<Rightarrow> (kafka_message \<times> bool) list" where
  "outcomes lower dec add [] st = []"
| "outcomes lower dec add (m # ms) st =
     (m, fst (processMessage lower dec add m st) = None) # outcomes lower dec add ms (snd (processMessage lower dec add m st))"

definition processed :: "(rune \<Rightarrow> rune) \<Rightarrow> (string \<Rightarrow> danmaku_event option) \<Rightarrow> (danmaku \<Rightarrow> 's \<Rightarrow> go_error option \<times> 's)
  \<Rightarrow> kafka_message list \<Rightarrow> 's \<times> kafka_message list \<Rightarrow> kafka_message list" where
  "processed lower dec add msgs st = map fst (filter snd (outcomes lower dec add msgs st))"

definition given_up :: "(rune \<Rightarrow> rune) \<Rightarrow> (string \<Rightarrow> danmaku_event option) \<Rightarrow> (danmaku \<Rightarrow> 's \<Rightarrow> go_error option \<times> 's)
  \<Rightarrow> kafka_message list \<Rightarrow> 's \<times> kafka_message list \<Rightarrow> kafka_message list" where
  "given_up lower dec add msgs st = map fst (filter (Not \<circ> snd) (outcomes lower dec add msgs st))"



lemma subseq_set_subset: "subseq xs ys \<Longrightarrow> set xs \<subseteq> set ys"
  by (auto dest: list_emb_set)

lemma none_given_up: "given_up lower dec add msgs st = [] \<Longrightarrow> all_processed lower dec add msgs st"
  by (induction msgs arbitrary: st) (auto simp: given_up_def split: if_splits)

text \<open>
  Any claim: the table is that of a part of the messages, in order, to which every processed one belongs; a message
  that was given up belongs to it or not. Every message is marked.
\<close>

lemma claim_rows:
  assumes "mysql_insert w lower add rows"
  shows "(\<exists>written. subseq (processed lower dec add msgs st) written \<and> subseq written msgs \<and>
      rows (fst (ConsumeClaim lower dec add msgs st)) = fold (put_message w dec) written (rows (fst st))) \<and>
    snd (ConsumeClaim lower dec add msgs st) = snd st @ msgs"
proof (induction msgs arbitrary: st)
  case Nil
  show ?case by (auto simp: ConsumeClaim_def processed_def intro: exI [of _ "[]"])
next
  case (Cons m ms)
  obtain err s' mk' where p: "processMessage lower dec add m (fst st, snd st) = (err, s', mk')"
    by (cases "processMessage lower dec add m (fst st, snd st)") auto
  note r = processMessage_rows [OF assms p]
  obtain written where w: "subseq (processed lower dec add ms (s', mk')) written" "subseq written ms"
    "rows (fst (ConsumeClaim lower dec add ms (s', mk'))) = fold (put_message w dec) written (rows s')"
    "snd (ConsumeClaim lower dec add ms (s', mk')) = mk' @ ms"
    using Cons.IH [of "(s', mk')"] by auto
  have pr: "processed lower dec add (m # ms) st =
      (if err = None then m # processed lower dec add ms (s', mk') else processed lower dec add ms (s', mk'))"
    using p by (simp add: processed_def)
  have mk: "snd (ConsumeClaim lower dec add (m # ms) st) = snd st @ m # ms"
    using p r w(4) by (simp add: ConsumeClaim_Cons)
  have tab: "rows (fst (ConsumeClaim lower dec add (m # ms) st)) = fold (put_message w dec) written (rows s')"
    using p w(3) by (simp add: ConsumeClaim_Cons)
  have "\<exists>written'. subseq (processed lower dec add (m # ms) st) written' \<and> subseq written' (m # ms) \<and>
      fold (put_message w dec) written (rows s') = fold (put_message w dec) written' (rows (fst st))"
  proof (cases "rows s' = put_message w dec m (rows (fst st))")
    case True
    then show ?thesis using w(1,2) pr by (intro exI [of _ "m # written"]) (auto intro: list_emb_Cons)
  next
    case False
    then have "rows s' = rows (fst st)" "err \<noteq> None" using r by auto
    then show ?thesis using w(1,2) pr by (intro exI [of _ written]) (auto intro: list_emb_Cons)
  qed
  then show ?case using mk tab by simp
qed

text \<open>A message whose row exists changes nothing, whatever the database answers.\<close>

lemma seen_rows:
  assumes "mysql_insert w lower add rows"
    and "\<forall>msg \<in> set msgs. put_message w dec msg (rows (fst st)) = rows (fst st)"
  shows "rows (fst (ConsumeClaim lower dec add msgs st)) = rows (fst st)"
  using assms(2)
proof (induction msgs arbitrary: st)
  case Nil
  then show ?case by (simp add: ConsumeClaim_def)
next
  case (Cons m ms)
  obtain err s' mk' where p: "processMessage lower dec add m (fst st, snd st) = (err, s', mk')"
    by (cases "processMessage lower dec add m (fst st, snd st)") auto
  have "rows s' = rows (fst st)" using processMessage_rows [OF assms(1) p] Cons.prems by auto
  then show ?case using Cons.IH [of "(s', mk')"] Cons.prems p by (simp add: ConsumeClaim_Cons)
qed

lemma put_message_stable:
  "m (w (d_id d)) \<noteq> None \<Longrightarrow> put_message w dec msg m (w (d_id d)) = m (w (d_id d))"
  by (auto simp: put_message_def put_once_def split: option.split)

lemma fold_put_stable: "m i = Some d \<Longrightarrow> fold (put_message w dec) msgs m i = Some d"
proof (induction msgs arbitrary: m)
  case (Cons x xs)
  have "put_message w dec x m i = Some d" using Cons.prems by (auto simp: put_message_def put_once_def split: option.split)
  then show ?case using Cons.IH by simp
qed simp

lemma fold_put_done:
  "msg \<in> set msgs \<Longrightarrow> put_message w dec msg (fold (put_message w dec) msgs m) = fold (put_message w dec) msgs m"
proof (induction msgs arbitrary: m)
  case (Cons x xs)
  show ?case
  proof (cases "msg = x")
    case True
    show ?thesis
    proof (cases "dec (km_value x)")
      case (Some ev)
      let ?d = "danmaku_of_event ev"
      have "put_message w dec x m (w (d_id ?d)) \<noteq> None" using Some by (simp add: put_message_def put_once_def)
      then obtain y where "put_message w dec x m (w (d_id ?d)) = Some y" by blast
      then have "fold (put_message w dec) xs (put_message w dec x m) (w (d_id ?d)) = Some y" by (rule fold_put_stable)
      then show ?thesis using True Some by (simp add: put_message_def [of w dec x] put_once_def)
    qed (simp add: True put_message_def)
  next
    case False
    then show ?thesis using Cons by simp
  qed
qed simp

section \<open>Properties\<close>

text \<open>
  Property C16 (redelivery). Whatever the database answers, consuming a claim marks every message and writes, in the
  order of the claim, the messages that were processed and possibly some of those that were given up because their
  four inserts failed (a failed insert may have happened): for each identifier the first of them that bears it, and
  no row is replaced. If no message was given up, the table is that of the whole claim. Kafka may deliver again any of
  the processed messages, in any order and any number of times: the table stays as it is, also when the database then
  answers with other errors. A message that was given up gets no such guarantee, its mark notwithstanding.
\<close>

theorem redelivery_is_harmless:
  assumes "mysql_insert w lower add rows" and "set again \<subseteq> set (processed lower dec add msgs st)"
  shows "(\<exists>written. subseq (processed lower dec add msgs st) written \<and> subseq written msgs \<and>
      rows (fst (ConsumeClaim lower dec add msgs st)) = fold (put_message w dec) written (rows (fst st))) \<and>
    (given_up lower dec add msgs st = [] \<longrightarrow>
      rows (fst (ConsumeClaim lower dec add msgs st)) = fold (put_message w dec) msgs (rows (fst st))) \<and>
    snd (ConsumeClaim lower dec add msgs st) = snd st @ msgs \<and>
    rows (fst (ConsumeClaim lower dec add (msgs @ again) st)) = rows (fst (ConsumeClaim lower dec add msgs st))"
proof -
  obtain written where w: "subseq (processed lower dec add msgs st) written" "subseq written msgs"
    and c: "rows (fst (ConsumeClaim lower dec add msgs st)) = fold (put_message w dec) written (rows (fst st))"
    using claim_rows [OF assms(1)] by metis
  have "set again \<subseteq> set written" using assms(2) subseq_set_subset [OF w(1)] by blast
  then have "\<forall>msg \<in> set again. put_message w dec msg (rows (fst (ConsumeClaim lower dec add msgs st))) =
      rows (fst (ConsumeClaim lower dec add msgs st))"
    using c fold_put_done [of _ written w dec "rows (fst st)"] by auto
  from seen_rows [OF assms(1) this]
  have "rows (fst (ConsumeClaim lower dec add (msgs @ again) st)) = rows (fst (ConsumeClaim lower dec add msgs st))"
    by (simp add: ConsumeClaim_append)
  with w c claim_rows [OF assms(1), of dec msgs st] ConsumeClaim_rows [OF assms(1) none_given_up, of dec msgs st]
  show ?thesis by blast
qed


lemma event_roundtrip: "d_status dm \<noteq> '''' \<Longrightarrow> danmaku_of_event (eventFromDanmaku dm i) = dm"
  by (simp add: danmaku_of_event_def eventFromDanmaku_def)







section \<open>Witnesses\<close>

definition sample_add :: "danmaku \<Rightarrow> (string \<rightharpoonup> danmaku) \<Rightarrow> go_error option \<times> (string \<rightharpoonup> danmaku)" where
  "sample_add d m = (if m (d_id d) = None then (None, m(d_id d \<mapsto> d))
     else (Some (ErrNew ''Error 1062 (23000): Duplicate entry''), m))"

lemma sample_add_mysql: "mysql_insert id id sample_add id"
  by (auto simp: mysql_insert_def sample_add_def Let_def split: option.split)

definition flagged_danmaku :: danmaku where
  "flagged_danmaku = (sample_danmaku ''d'' ''r'' 1)\<lparr>d_status := DanmakuStatusFlagged\<rparr>"


definition sample_dec :: "string \<Rightarrow> danmaku_event option" where
  "sample_dec v = (if v = ''d'' then Some (eventFromDanmaku flagged_danmaku ''i'') else None)"

lemma flagged_fields: "d_id flagged_danmaku = ''d''" "d_status flagged_danmaku = ''flagged''"
  by (simp_all add: flagged_danmaku_def sample_danmaku_def)


lemma sample_processed:
  "all_processed id sample_dec sample_add [\<lparr>km_topic = ''t'', km_key = ''d'', km_value = ''d''\<rparr>] (Map.empty, [])"
  by (simp add: processMessage_def sample_dec_def sample_add_def Let_def)

lemma sample_given_up:
  "given_up id sample_dec sample_add [\<lparr>km_topic = ''t'', km_key = ''d'', km_value = ''d''\<rparr>] (Map.empty, []) = []"
  "processed id sample_dec sample_add [\<lparr>km_topic = ''t'', km_key = ''d'', km_value = ''d''\<rparr>] (Map.empty, []) =
    [\<lparr>km_topic = ''t'', km_key = ''d'', km_value = ''d''\<rparr>]"
  by (simp_all add: given_up_def processed_def processMessage_def sample_dec_def sample_add_def Let_def)

theorem redelivery_is_harmless_witness:
  "fst (ConsumeClaim id sample_dec sample_add
     ([\<lparr>km_topic = ''t'', km_key = ''d'', km_value = ''d''\<rparr>] @ [\<lparr>km_topic = ''t'', km_key = ''d'', km_value = ''d''\<rparr>])
     (Map.empty, [])) = [''d'' \<mapsto> flagged_danmaku]"
  using redelivery_is_harmless [OF sample_add_mysql, of "[\<lparr>km_topic = ''t'', km_key = ''d'', km_value = ''d''\<rparr>]" sample_dec
    "[\<lparr>km_topic = ''t'', km_key = ''d'', km_value = ''d''\<rparr>]" "(Map.empty, [])"]
  by (simp add: sample_given_up put_message_def put_once_def sample_dec_def event_roundtrip flagged_fields)


text \<open>
  Corollary (the second session). The first session closes the channel \<open>ready\<close>; the next one, after any rebalance, closes
  it again and panics.
\<close>

theorem second_session_panics: "sessions 1 False = Some True" "sessions (Suc (Suc n)) False = None"
  by (simp_all add: Setup_def)

end
