(* ===== verification/GoNumbers.thy ===== *)
theory GoNumbers
  imports GoText
begin

text \<open>
  The parts of \<open>strconv\<close>, \<open>fmt\<close> and \<open>strings\<close> that read query parameters and environment
  variables: decimal numbers with their range, booleans and comma separated lists; and \<open>%d\<close>, which prints numbers.
\<close>

section \<open>Numbers\<close>

definition digit_of :: "char \<Rightarrow> nat option" where
  "digit_of c = (let b = byte_of c in if 48 \<le> b \<and> b \<le> 57 then Some (b - 48) else None)"

text \<open>The longest run of digits, as its value, its length and the rest.\<close>

fun read_digits :: "nat \<Rightarrow> nat \<Rightarrow> string \<Rightarrow> nat \<times> nat \<times> string" where
  "read_digits n k [] = (n, k, [])"
| "read_digits n k (c # cs) =
     (case digit_of c of None \<Rightarrow> (n, k, c # cs) | Some d \<Rightarrow> read_digits (10 * n + d) (k + 1) cs)"

definition read_sign :: "string \<Rightarrow> bool \<times> string" where
  "read_sign s = (case s of [] \<Rightarrow> (False, [])
     | c # cs \<Rightarrow> if c = CHR ''-'' then (True, cs) else if c = CHR ''+'' then (False, cs) else (False, s))"

text \<open>\<open>strconv.Atoi\<close>: zero on a syntax error, the nearest 64 bit value out of range; and if there was an error.\<close>

definition Atoi :: "string \<Rightarrow> int \<times> bool" where
  "Atoi s =
     (let (neg, ds) = read_sign s; (n, k, rest) = read_digits 0 0 ds in
      if k = 0 \<or> rest \<noteq> [] then (0, True)
      else if neg then (if n > 2 ^ 63 then (- (2 ^ 63), True) else (- int n, False))
      else (if n \<ge> 2 ^ 63 then (2 ^ 63 - 1, True) else (int n, False)))"

text \<open>
  \<open>fmt.Sscanf\<close> with the format \<open>%d\<close>: leading spaces are skipped, a line feed is an error, what
  follows the digits is ignored.
\<close>

definition Sscanf_d :: "string \<Rightarrow> int option" where
  "Sscanf_d s =
     (let (neg, ds) = read_sign (concat (map snd (dropWhile (\<lambda>x. is_space (fst x) \<and> fst x \<noteq> 10) (segments s))));
          (n, k, rest) = read_digits 0 0 ds in
      if k = 0 then None
      else if neg then (if n > 2 ^ 63 then None else Some (- int n))
      else (if n \<ge> 2 ^ 63 then None else Some (int n)))"

section \<open>Booleans and lists\<close>

text \<open>\<open>strconv.ParseBool\<close>: \<open>None\<close> is the syntax error.\<close>

definition ParseBool :: "string \<Rightarrow> bool option" where
  "ParseBool s =
     (if s \<in> {''1'', ''t'', ''T'', ''TRUE'', ''true'', ''True''} then Some True
      else if s \<in> {''0'', ''f'', ''F'', ''FALSE'', ''false'', ''False''} then Some False
      else None)"

text \<open>\<open>strings.Split\<close> with a separator of one byte.\<close>

fun Split :: "string \<Rightarrow> char \<Rightarrow> string list" where
  "Split [] sep = [[]]"
| "Split (c # cs) sep =
     (if c = sep then [] # Split cs sep
      else case Split cs sep of [] \<Rightarrow> [[c]] | s # ss \<Rightarrow> (c # s) # ss)"

fun Join :: "string list \<Rightarrow> char \<Rightarrow> string" where
  "Join [] sep = []"
| "Join [s] sep = s"
| "Join (s # t # ss) sep = s @ sep # Join (t # ss) sep"

lemma Split_nonempty [simp]: "Split s sep \<noteq> []"
  by (induction s) (auto split: list.split)

lemma Join_Cons: "ss \<noteq> [] \<Longrightarrow> Join (s # ss) sep = s @ sep # Join ss sep"
  by (cases ss) auto

lemma Join_Split: "Join (Split s sep) sep = s"
proof (induction s)
  case (Cons c cs)
  then show ?case
    by (cases "Split cs sep"; cases "tl (Split cs sep)") (auto simp: Join_Cons)
qed simp

lemma Split_parts: "t \<in> set (Split s sep) \<Longrightarrow> sep \<notin> set t"
  by (induction s arbitrary: t) (auto split: list.splits if_splits)

lemma Split_free: "sep \<notin> set s \<Longrightarrow> Split s sep = [s]"
  by (induction s) auto

lemma Split_append: "sep \<notin> set s \<Longrightarrow> Split (s @ sep # t) sep = s # Split t sep"
  by (induction s) (auto split: list.split)

lemma Split_Join:
  assumes "ss \<noteq> []" and "\<And>s. s \<in> set ss \<Longrightarrow> sep \<notin> set s"
  shows "Split (Join ss sep) sep = ss"
  using assms by (induction ss sep rule: Join.induct) (auto simp: Split_free Split_append)


section \<open>Printing\<close>

text \<open>The verb \<open>%d\<close> of \<open>fmt.Sprintf\<close>.\<close>

definition digit :: "nat \<Rightarrow> char" where
  "digit d = char_of (48 + d)"

fun digits_of :: "nat \<Rightarrow> string" where
  "digits_of n = (if n < 10 then [digit n] else digits_of (n div 10) @ [digit (n mod 10)])"

declare digits_of.simps [simp del]

definition Sprintf_d :: "int \<Rightarrow> string" where
  "Sprintf_d n = (if n < 0 then CHR ''-'' # digits_of (nat (- n)) else digits_of (nat n))"

lemma digit_of_char: "d < 10 \<Longrightarrow> digit_of (digit d) = Some d"
  by (simp add: digit_of_def byte_of_def digit_def)

lemma digits_of_digits: "c \<in> set (digits_of n) \<Longrightarrow> \<exists>d < 10. c = digit d"
proof (induction n rule: digits_of.induct)
  case (1 n)
  show ?case
  proof (cases "n < 10")
    case True
    with 1(2) show ?thesis by (auto simp: digits_of.simps [of n])
  next
    case False
    then have "c \<in> set (digits_of (n div 10)) \<or> c = digit (n mod 10)"
      using 1(2) by (auto simp: digits_of.simps [of n])
    moreover have "n mod 10 < 10" by simp
    ultimately show ?thesis using 1(1) [OF False] by blast
  qed
qed

lemma digits_of_nonempty [simp]: "digits_of n \<noteq> []"
  by (subst digits_of.simps) simp

lemma read_digits_append:
  "read_digits m k (digits_of n @ rest) = read_digits (m * 10 ^ length (digits_of n) + n) (k + length (digits_of n)) rest"
proof (induction n arbitrary: m k rest rule: digits_of.induct)
  case (1 n)
  show ?case
  proof (cases "n < 10")
    case True
    then show ?thesis by (simp add: digits_of.simps [of n] digit_of_char algebra_simps)
  next
    case False
    let ?h = "digits_of (n div 10)"
    have d: "digits_of n = ?h @ [digit (n mod 10)]" using False by (simp add: digits_of.simps [of n])
    have s: "10 * (m * 10 ^ length ?h + n div 10) + n mod 10 = m * 10 ^ length (digits_of n) + n"
      by (simp add: d algebra_simps)
    have "read_digits m k (digits_of n @ rest) =
        read_digits (m * 10 ^ length ?h + n div 10) (k + length ?h) (digit (n mod 10) # rest)"
      unfolding d using 1 [OF False, of m k] by simp
    also have "\<dots> = read_digits (10 * (m * 10 ^ length ?h + n div 10) + n mod 10) (k + length ?h + 1) rest"
      by (simp add: digit_of_char)
    finally show ?thesis unfolding s by (simp add: d)
  qed
qed

lemma read_sign_digits: "read_sign (digits_of n @ rest) = (False, digits_of n @ rest)"
proof -
  obtain c cs where d: "digits_of n = c # cs" by (cases "digits_of n") simp_all
  then obtain k where "k < 10" "c = digit k" using digits_of_digits [of c n] by auto
  then have "digit_of c = Some k" by (simp add: digit_of_char)
  moreover have "digit_of (CHR ''-'') = None" "digit_of (CHR ''+'') = None"
    by (simp_all add: digit_of_def byte_of_def)
  ultimately have "c \<noteq> CHR ''-''" "c \<noteq> CHR ''+''" by auto
  with d show ?thesis by (simp add: read_sign_def)
qed

lemma Atoi_Sprintf: "- (2 ^ 63) \<le> n \<Longrightarrow> n < 2 ^ 63 \<Longrightarrow> Atoi (Sprintf_d n) = (n, False)"
  using read_digits_append [of 0 0 "nat n" "[]"] read_digits_append [of 0 0 "nat (- n)" "[]"]
    read_sign_digits [of "nat n" "[]"]
  by (auto simp: Atoi_def Sprintf_d_def read_sign_def nat_less_iff)

end
