(* ===== verification/Handlers.thy ===== *)
theory Handlers
  imports GoNumbers Sending RoomService AdminService AuthService
begin

text \<open>
  The package \<open>handler\<close>: the middlewares, the handlers and what they answer. A request holds its
  headers, its query and its path parameters; what \<open>ShouldBindJSON\<close> makes of the body is an argument of
  the handler: an error or the bound value. A handler maps the context that the middlewares
  filled and the world to a reply and the new world, \<open>None\<close> being a panic. Identifiers and instants that
  a call draws are counted by \<open>ids\<close> and \<open>clk\<close>.
\<close>

section \<open>Requests and replies\<close>

record http_request =
  hq_authorization :: string
  hq_query :: "string \<rightharpoonup> string"
  hq_param :: "string \<Rightarrow> string"

record gin_context =
  gc_user_id :: "string option"
  gc_username :: "string option"
  gc_nickname :: "string option"
  gc_role :: "string option"
  gc_user_role :: "string option"

definition no_context :: gin_context where
  "no_context = \<lparr>gc_user_id = None, gc_username = None, gc_nickname = None, gc_role = None, gc_user_role = None\<rparr>"

record room_response =
  rs_id :: string
  rs_title :: string
  rs_owner_id :: string
  rs_status :: string
  rs_started_at :: "string option"
  rs_ended_at :: "string option"
  rs_created_at :: string

datatype json_body =
    J_error string
  | J_coded string string
  | J_fields "(string \<times> string) list"
  | J_auth string user
  | J_me "string option" "string option" "string option"
  | J_danmaku danmaku
  | J_danmaku_list "danmaku list"
  | J_room room_response
  | J_rooms "room_response list"
  | J_reports "report list"
  | J_logs "audit_log list"
  | J_review review_result
  | J_resolve resolve_result

type_synonym http_reply = "nat \<times> json_body"

definition Query :: "string \<Rightarrow> http_request \<Rightarrow> string" where
  "Query k rq = (case hq_query rq k of None \<Rightarrow> '''' | Some v \<Rightarrow> v)"

definition DefaultQuery :: "string \<Rightarrow> string \<Rightarrow> http_request \<Rightarrow> string" where
  "DefaultQuery k d rq = (case hq_query rq k of None \<Rightarrow> d | Some v \<Rightarrow> v)"

text \<open>The services behind the handlers.\<close>

record ('u, 'd, 'p, 'a, 'm, 'r) app =
  ap_danmaku :: "('u, 'd, 'p, 'a, 'm, 'r) danmaku_service"
  ap_moderation :: "('u, 'd, 'p, 'a, 'm) mod_service"
  ap_users :: "'u user_ops"
  ap_list_users :: "('u \<Rightarrow> go_error + user list) option"
  ap_audit :: "'a audit_ops"
  ap_rooms :: "'r room_ops"
  ap_jwt :: "string jwt_lib"
  ap_bcrypt :: bcrypt_lib
  ap_auth :: auth_service
  ap_list_limit :: int
  ap_format :: "time \<Rightarrow> string"

type_synonym ('u, 'd, 'p, 'a, 'm, 'r) handler =
  "gin_context \<Rightarrow> ('u, 'd, 'p, 'a, 'm, 'r) dm_world \<Rightarrow> (http_reply \<times> ('u, 'd, 'p, 'a, 'm, 'r) dm_world) option"

definition put_mod :: "('u, 'd, 'p, 'a, 'm) mod_world \<Rightarrow> ('u, 'd, 'p, 'a, 'm, 'r) dm_world \<Rightarrow> ('u, 'd, 'p, 'a, 'm, 'r) dm_world" where
  "put_mod m w = w\<lparr>dw_mod := m\<rparr>"

definition put_users :: "'u \<times> 'a \<Rightarrow> ('u, 'd, 'p, 'a, 'm, 'r) dm_world \<Rightarrow> ('u, 'd, 'p, 'a, 'm, 'r) dm_world" where
  "put_users ua w = w\<lparr>dw_mod := (dw_mod w)\<lparr>mw_users := fst ua, mw_audit := snd ua\<rparr>\<rparr>"

definition put_rooms :: "'r \<Rightarrow> ('u, 'd, 'p, 'a, 'm, 'r) dm_world \<Rightarrow> ('u, 'd, 'p, 'a, 'm, 'r) dm_world" where
  "put_rooms r w = w\<lparr>dw_rooms := r\<rparr>"

section \<open>handler/auth.go\<close>

record register_request =
  rg_username :: string
  rg_password :: string
  rg_nickname :: string

record login_request =
  lg_username :: string
  lg_password :: string

definition Auth_Register :: "('u, 'd, 'p, 'a, 'm, 'r) app \<Rightarrow> (nat \<Rightarrow> string) \<Rightarrow> (nat \<Rightarrow> time) \<Rightarrow> go_error + register_request
  \<Rightarrow> ('u, 'd, 'p, 'a, 'm, 'r) handler" where
  "Auth_Register ap ids clk body ctx w =
     (case body of
        Inl e \<Rightarrow> Some ((400, J_error (error_text e)), w)
      | Inr req \<Rightarrow>
          (let (res, u) = AuthService.Register (ap_users ap) (ap_jwt ap) (ap_bcrypt ap) (ap_auth ap) (ids 0) (clk 0)
                 (rg_username req) (rg_password req) (rg_nickname req) (mw_users (dw_mod w));
               w = put_users (u, mw_audit (dw_mod w)) w
           in case res of
             Inl e \<Rightarrow>
               if errors_is e ErrUsernameTaken then Some ((409, J_error (error_text e)), w)
               else if errors_is e ErrInvalidUsername \<or> errors_is e ErrWeakPassword
               then Some ((400, J_error (error_text e)), w)
               else Some ((500, J_error ''registration failed''), w)
           | Inr (user, token) \<Rightarrow> Some ((201, J_auth token user), w)))"

definition Auth_Login :: "('u, 'd, 'p, 'a, 'm, 'r) app \<Rightarrow> (nat \<Rightarrow> time) \<Rightarrow> go_error + login_request
  \<Rightarrow> ('u, 'd, 'p, 'a, 'm, 'r) handler" where
  "Auth_Login ap clk body ctx w =
     (case body of
        Inl e \<Rightarrow> Some ((400, J_error (error_text e)), w)
      | Inr req \<Rightarrow>
          (case Login (ap_users ap) (ap_jwt ap) (ap_bcrypt ap) (ap_auth ap) (clk 0) (lg_username req)
                  (lg_password req) (mw_users (dw_mod w)) of
             Inl e \<Rightarrow>
               if errors_is e ErrInvalidCreds then Some ((401, J_error (error_text e)), w)
               else Some ((500, J_error ''login failed''), w)
           | Inr (user, token) \<Rightarrow> Some ((200, J_auth token user), w)))"

definition Auth_Me :: "('u, 'd, 'p, 'a, 'm, 'r) handler" where
  "Auth_Me ctx w = Some ((200, J_me (gc_user_id ctx) (gc_username ctx) (gc_nickname ctx)), w)"

definition extractBearerToken :: "http_request \<Rightarrow> string" where
  "extractBearerToken rq = (case Cut (hq_authorization rq) ''Bearer '' of Some (before, token) \<Rightarrow> token | None \<Rightarrow> '''')"

definition set_actor :: "actor \<Rightarrow> gin_context \<Rightarrow> gin_context" where
  "set_actor a ctx = ctx\<lparr>gc_user_id := Some (a_user_id a), gc_username := Some (a_username a),
     gc_nickname := Some (a_nickname a), gc_role := Some (a_role a)\<rparr>"

definition AuthMiddleware :: "('u, 'd, 'p, 'a, 'm, 'r) app \<Rightarrow> time \<Rightarrow> http_request \<Rightarrow> ('u, 'd, 'p, 'a, 'm, 'r) handler
  \<Rightarrow> ('u, 'd, 'p, 'a, 'm, 'r) handler" where
  "AuthMiddleware ap now rq next ctx w =
     (let token = extractBearerToken rq in
      if token = '''' then Some ((401, J_error ''missing authorization token''), w)
      else case ValidateToken (ap_jwt ap) (ap_auth ap) now token of
        Inl e \<Rightarrow> Some ((401, J_error (error_text e)), w)
      | Inr actor \<Rightarrow> next (set_actor actor ctx) w)"

definition OptionalAuthMiddleware :: "('u, 'd, 'p, 'a, 'm, 'r) app \<Rightarrow> time \<Rightarrow> http_request \<Rightarrow> ('u, 'd, 'p, 'a, 'm, 'r) handler
  \<Rightarrow> ('u, 'd, 'p, 'a, 'm, 'r) handler" where
  "OptionalAuthMiddleware ap now rq next ctx w =
     (let token = extractBearerToken rq; token = (if token = '''' then Query ''token'' rq else token) in
      if token = '''' then next ctx w
      else case ValidateToken (ap_jwt ap) (ap_auth ap) now token of
        Inl e \<Rightarrow> next ctx w
      | Inr actor \<Rightarrow> next (set_actor actor ctx) w)"

definition RequireRole :: "('u, 'd, 'p, 'a, 'm, 'r) app \<Rightarrow> string list \<Rightarrow> ('u, 'd, 'p, 'a, 'm, 'r) handler
  \<Rightarrow> ('u, 'd, 'p, 'a, 'm, 'r) handler" where
  "RequireRole ap roles next ctx w =
     (case gc_user_id ctx of
        None \<Rightarrow> Some ((401, J_error ''authentication required''), w)
      | Some uid \<Rightarrow>
          if uid = '''' then Some ((401, J_error ''authentication required''), w)
          else case GetUser (ap_users ap) uid (mw_users (dw_mod w)) of
            Inl e \<Rightarrow> Some ((401, J_error ''user not found''), w)
          | Inr None \<Rightarrow> Some ((401, J_error ''user not found''), w)
          | Inr (Some user) \<Rightarrow>
              if u_role user \<in> set roles then next (ctx\<lparr>gc_user_role := Some (u_role user)\<rparr>) w
              else Some ((403, J_error ''insufficient permissions''), w))"

section \<open>handler/room.go\<close>

definition toRoomResponse :: "(time \<Rightarrow> string) \<Rightarrow> room \<Rightarrow> room_response" where
  "toRoomResponse fmt r = \<lparr>rs_id = r_id r, rs_title = r_title r, rs_owner_id = r_owner_id r, rs_status = r_status r,
     rs_started_at = map_option fmt (r_started_at r), rs_ended_at = map_option fmt (r_ended_at r),
     rs_created_at = fmt (r_created_at r)\<rparr>"

definition domainErrorToHTTP :: "go_error \<Rightarrow> http_reply" where
  "domainErrorToHTTP err =
     (if errors_is err ErrRoomNotFound then (404, J_error (error_text err))
      else if errors_is err ErrRoomForbidden then (403, J_error (error_text err))
      else if errors_is err ErrRoomInvalidTransition then (409, J_error (error_text err))
      else if errors_is err ErrRoomAlreadyEnded then (409, J_error (error_text err))
      else if errors_is err ErrRoomBanned then (403, J_error (error_text err))
      else (500, J_error ''internal error''))"

definition with_user :: "(string \<Rightarrow> ('u, 'd, 'p, 'a, 'm, 'r) handler) \<Rightarrow> ('u, 'd, 'p, 'a, 'm, 'r) handler" where
  "with_user f ctx w =
     (case gc_user_id ctx of
        None \<Rightarrow> Some ((401, J_error ''authentication required''), w)
      | Some uid \<Rightarrow> if uid = '''' then Some ((401, J_error ''authentication required''), w) else f uid ctx w)"

definition Room_Create :: "('u, 'd, 'p, 'a, 'm, 'r) app \<Rightarrow> (nat \<Rightarrow> string) \<Rightarrow> (nat \<Rightarrow> time) \<Rightarrow> go_error + string
  \<Rightarrow> ('u, 'd, 'p, 'a, 'm, 'r) handler" where
  "Room_Create ap ids clk body = with_user (\<lambda>uid ctx w.
     case body of
       Inl e \<Rightarrow> Some ((400, J_error ''title is required''), w)
     | Inr title \<Rightarrow>
         (case RoomService.Create (ap_rooms ap) (ids 0) (clk 0) uid title (dw_rooms w) of
            (Inl e, r) \<Rightarrow> Some (domainErrorToHTTP e, put_rooms r w)
          | (Inr room, r) \<Rightarrow> Some ((201, J_room (toRoomResponse (ap_format ap) room)), put_rooms r w)))"

definition Room_GetRoom :: "('u, 'd, 'p, 'a, 'm, 'r) app \<Rightarrow> http_request \<Rightarrow> ('u, 'd, 'p, 'a, 'm, 'r) handler" where
  "Room_GetRoom ap rq ctx w =
     (let room_id = hq_param rq ''room_id'' in
      if room_id = '''' then Some ((400, J_error ''room_id is required''), w)
      else case GetRoom (ap_rooms ap) room_id (dw_rooms w) of
        Inl e \<Rightarrow> Some (domainErrorToHTTP e, w)
      | Inr room \<Rightarrow> Some ((200, J_room (toRoomResponse (ap_format ap) room)), w))"

definition room_limit :: "http_request \<Rightarrow> int" where
  "room_limit rq = (case Sscanf_d (DefaultQuery ''limit'' ''20'' rq) of
     None \<Rightarrow> 20 | Some limit \<Rightarrow> if limit \<le> 0 then 20 else limit)"

definition Room_ListByStatus :: "('u, 'd, 'p, 'a, 'm, 'r) app \<Rightarrow> http_request \<Rightarrow> ('u, 'd, 'p, 'a, 'm, 'r) handler" where
  "Room_ListByStatus ap rq ctx w =
     (let status = DefaultQuery ''status'' ''live'' rq in
      if status \<noteq> RoomStatusPending \<and> status \<noteq> RoomStatusLive \<and> status \<noteq> RoomStatusEnded \<and> status \<noteq> RoomStatusBanned
      then Some ((400, J_error ''invalid status, must be one of: pending, live, ended, banned''), w)
      else case RoomService.ListByStatus (ap_rooms ap) status (room_limit rq) (dw_rooms w) of
        None \<Rightarrow> None
      | Some (Inl e) \<Rightarrow> Some (domainErrorToHTTP e, w)
      | Some (Inr rooms) \<Rightarrow> Some ((200, J_rooms (map (toRoomResponse (ap_format ap)) rooms)), w))"

definition Room_Start :: "('u, 'd, 'p, 'a, 'm, 'r) app \<Rightarrow> (nat \<Rightarrow> time) \<Rightarrow> http_request \<Rightarrow> ('u, 'd, 'p, 'a, 'm, 'r) handler" where
  "Room_Start ap clk rq = with_user (\<lambda>uid ctx w.
     let room_id = hq_param rq ''room_id'' in
     if room_id = '''' then Some ((400, J_error ''room_id is required''), w)
     else case StartRoom (ap_rooms ap) (clk 0) room_id uid (dw_rooms w) of
       (Some e, r) \<Rightarrow> Some (domainErrorToHTTP e, put_rooms r w)
     | (None, r) \<Rightarrow> Some ((200, J_fields [(''status'', ''started'')]), put_rooms r w))"

definition Room_End :: "('u, 'd, 'p, 'a, 'm, 'r) app \<Rightarrow> (nat \<Rightarrow> time) \<Rightarrow> http_request \<Rightarrow> ('u, 'd, 'p, 'a, 'm, 'r) handler" where
  "Room_End ap clk rq = with_user (\<lambda>uid ctx w.
     let room_id = hq_param rq ''room_id'' in
     if room_id = '''' then Some ((400, J_error ''room_id is required''), w)
     else case EndRoom (ap_rooms ap) (clk 0) room_id uid (dw_rooms w) of
       (Some e, r) \<Rightarrow> Some (domainErrorToHTTP e, put_rooms r w)
     | (None, r) \<Rightarrow> Some ((200, J_fields [(''status'', ''ended'')]), put_rooms r w))"

section \<open>handler/danmaku.go\<close>

definition danmakuErrorResponse :: "go_error \<Rightarrow> nat \<times> string" where
  "danmakuErrorResponse err =
     (if errors_is err ErrRoomNotFound then (404, ''room_not_found'')
      else if errors_is err ErrRoomBanned then (403, ''room_banned'')
      else if errors_is err ErrRoomNotLive then (409, ''room_not_live'')
      else if errors_is err ErrPersistenceQueueFull \<or> errors_is err ErrPersistenceFailed
      then (503, ''persistence_unavailable'')
      else if errors_is err ErrContentBlocked then (400, ''content_blocked'')
      else if errors_is err ErrMuted then (403, ''muted'')
      else if errors_is err ErrUserBanned then (403, ''user_banned'')
      else (400, ''validation_error''))"

definition Danmaku_Create :: "('u, 'd, 'p, 'a, 'm, 'r) app \<Rightarrow> (nat \<Rightarrow> string) \<Rightarrow> (nat \<Rightarrow> time) \<Rightarrow> http_request
  \<Rightarrow> go_error + create_request \<Rightarrow> ('u, 'd, 'p, 'a, 'm, 'r) handler" where
  "Danmaku_Create ap ids clk rq body ctx w =
     (case body of
        Inl e \<Rightarrow> Some ((400, J_error (error_text e)), w)
      | Inr req \<Rightarrow>
          (let req = req\<lparr>cr_room_id := hq_param rq ''room_id''\<rparr>;
               req = (case gc_user_id ctx of
                 None \<Rightarrow> req | Some uid \<Rightarrow> if uid \<noteq> '''' then req\<lparr>cr_user_id := uid\<rparr> else req)
           in case CreateDanmaku (ap_danmaku ap) (ids 0) clk req w of
             None \<Rightarrow> None
           | Some (Inl e, w) \<Rightarrow>
               Some ((fst (danmakuErrorResponse e), J_coded (snd (danmakuErrorResponse e)) (error_text e)), w)
           | Some (Inr dm, w) \<Rightarrow> Some ((201, J_danmaku dm), w)))"

definition Danmaku_List :: "('u, 'd, 'p, 'a, 'm, 'r) app \<Rightarrow> http_request \<Rightarrow> ('u, 'd, 'p, 'a, 'm, 'r) handler" where
  "Danmaku_List ap rq ctx w =
     (let room_id = hq_param rq ''room_id'' in
      if room_id = '''' then Some ((400, J_error ''room_id is required''), w)
      else case DanmakuService.ListByRoom (ap_danmaku ap) room_id (ap_list_limit ap) w of
        None \<Rightarrow> None
      | Some ds \<Rightarrow> Some ((200, J_danmaku_list ds), w))"

text \<open>
  \<open>Readyz\<close>: the answer of each dependency, \<open>None\<close> when it is not configured; a ping that takes
  more than two seconds is a timeout.
\<close>

datatype ping = Up | Down | Timeout

fun ping_text :: "ping option \<Rightarrow> string" where
  "ping_text None = ''disabled''"
| "ping_text (Some Up) = ''up''"
| "ping_text (Some Down) = ''down''"
| "ping_text (Some Timeout) = ''timeout''"

definition degrade :: "ping option \<Rightarrow> string \<Rightarrow> string" where
  "degrade p overall = (if (p = Some Down \<or> p = Some Timeout) \<and> overall = ''ok'' then ''degraded'' else overall)"

definition Readyz :: "ping option \<Rightarrow> ping option \<Rightarrow> ping option \<Rightarrow> nat \<times> string \<times> (string \<times> string) list" where
  "Readyz mysql redis kafka =
     (let (overall, status) = (if mysql = Some Down \<or> mysql = Some Timeout then (''not_ready'', 503) else (''ok'', 200));
          overall = degrade redis overall;
          overall = degrade kafka overall
      in (status, overall, [(''mysql'', ping_text mysql), (''redis'', ping_text redis), (''kafka'', ping_text kafka)]))"

section \<open>handler/report.go\<close>

record report_request =
  rq_danmaku_id :: string
  rq_reason :: string

definition Report :: "('u, 'd, 'p, 'a, 'm, 'r) app \<Rightarrow> (nat \<Rightarrow> string) \<Rightarrow> http_request \<Rightarrow> go_error + report_request
  \<Rightarrow> ('u, 'd, 'p, 'a, 'm, 'r) handler" where
  "Report ap ids rq body ctx w =
     (case body of
        Inl e \<Rightarrow> Some ((400, J_error (error_text e)), w)
      | Inr req \<Rightarrow>
          (let reason = TrimSpace (rq_reason req) in
           if reason = '''' \<or> 500 < length (runes reason)
           then Some ((400, J_error ''reason must be 1-500 characters''), w)
           else case gc_user_id ctx of
             None \<Rightarrow> Some ((401, J_error ''authentication required''), w)
           | Some uid \<Rightarrow>
               (case ReportDanmaku (ap_moderation ap) (ids 0) (rq_danmaku_id req) (hq_param rq ''room_id'') uid reason (dw_mod w) of
                  (None, m) \<Rightarrow> Some ((201, J_fields [(''status'', ''ok'')]), put_mod m w)
                | (Some e, m) \<Rightarrow> Some (
                    if errors_is e ErrDanmakuNotFound then (404, J_error ''danmaku not found'')
                    else if errors_is e ErrDuplicateReport then (409, J_error ''already reported'')
                    else if errors_is e ErrBannedUserReport then (403, J_error (error_text e))
                    else if errors_is e ErrDanmakuRoomMismatch then (400, J_error (error_text e))
                    else (500, J_error (error_text e)), put_mod m w))))"

section \<open>handler/admin.go\<close>

text \<open>The assertion \<open>actorID.(string)\<close> panics when no middleware has set the user.\<close>

definition asserted :: "string option \<Rightarrow> (string \<Rightarrow> ('x \<times> 'w) option) \<Rightarrow> ('x \<times> 'w) option" where
  "asserted v f = (case v of None \<Rightarrow> None | Some s \<Rightarrow> f s)"

definition admin_limit :: "string \<Rightarrow> http_request \<Rightarrow> int" where
  "admin_limit d rq = (let limit = fst (Atoi (DefaultQuery ''limit'' d rq)) in
     if limit \<le> 0 \<or> 200 < limit then 50 else limit)"

definition ListReports :: "('u, 'd, 'p, 'a, 'm, 'r) app \<Rightarrow> http_request \<Rightarrow> ('u, 'd, 'p, 'a, 'm, 'r) handler" where
  "ListReports ap rq ctx w =
     (case GetPendingReports (ap_moderation ap) (DefaultQuery ''status'' ReportStatusPending rq)
             (admin_limit ''50'' rq) (dw_mod w) of
        Inl e \<Rightarrow> Some ((500, J_error (error_text e)), w)
      | Inr reports \<Rightarrow> Some ((200, J_reports reports), w))"

record resolve_request =
  rv_decision :: string
  rv_act :: string
  rv_reason :: string
  rv_mute_minutes :: int

definition Admin_ResolveReport :: "('u, 'd, 'p, 'a, 'm, 'r) app \<Rightarrow> (nat \<Rightarrow> string) \<Rightarrow> (nat \<Rightarrow> time) \<Rightarrow> http_request
  \<Rightarrow> go_error + resolve_request \<Rightarrow> ('u, 'd, 'p, 'a, 'm, 'r) handler" where
  "Admin_ResolveReport ap ids clk rq body ctx w =
     (case body of
        Inl e \<Rightarrow> Some ((400, J_error (error_text e)), w)
      | Inr req \<Rightarrow>
          if rv_decision req \<noteq> ''confirmed'' \<and> rv_decision req \<noteq> ''dismissed''
          then Some ((400, J_error (''decision must be 'confirmed' or 'dismissed'' @ [CHR 0x27])), w)
          else asserted (gc_user_id ctx) (\<lambda>actor_id. asserted (gc_user_role ctx) (\<lambda>actor_role.
            case ResolveReportWithAction (ap_moderation ap) ids clk (hq_param rq ''id'') actor_id actor_role
                   (rv_decision req) (rv_act req) (rv_reason req) (rv_mute_minutes req) (dw_mod w) of
              (Inl e, m) \<Rightarrow> Some (
                if errors_is e ErrReportNotFound then (404, J_error ''report not found'')
                else if errors_is e ErrReportClosed then (409, J_error (error_text e))
                else if errors_is e ErrInsufficientRole then (403, J_error (error_text e))
                else (500, J_error (error_text e)), put_mod m w)
            | (Inr result, m) \<Rightarrow> Some ((200, J_resolve result), put_mod m w))))"

record review_request =
  rw_status :: string
  rw_reason :: string

definition Admin_ReviewDanmaku :: "('u, 'd, 'p, 'a, 'm, 'r) app \<Rightarrow> (nat \<Rightarrow> string) \<Rightarrow> (nat \<Rightarrow> time) \<Rightarrow> http_request
  \<Rightarrow> go_error + review_request \<Rightarrow> ('u, 'd, 'p, 'a, 'm, 'r) handler" where
  "Admin_ReviewDanmaku ap ids clk rq body ctx w =
     (case body of
        Inl e \<Rightarrow> Some ((400, J_error (error_text e)), w)
      | Inr req \<Rightarrow>
          if rw_status req \<noteq> DanmakuStatusApproved \<and> rw_status req \<noteq> DanmakuStatusRejected \<and>
             rw_status req \<noteq> DanmakuStatusFlagged
          then Some ((400, J_error (''status must be 'approved', 'rejected', or 'flagged'' @ [CHR 0x27])), w)
          else asserted (gc_user_id ctx) (\<lambda>actor_id.
            case ReviewDanmaku (ap_moderation ap) (ids 0) (clk 0) (hq_param rq ''id'') actor_id (rw_status req)
                   (rw_reason req) (DefaultQuery ''room_id'' '''' rq) (dw_mod w) of
              (Inl e, m) \<Rightarrow> Some (
                if errors_is e ErrDanmakuNotFound then (404, J_error ''danmaku not found'')
                else if errors_is e ErrForbiddenTransition then (409, J_error (error_text e))
                else (500, J_error (error_text e)), put_mod m w)
            | (Inr result, m) \<Rightarrow> Some ((200, J_review result), put_mod m w)))"

definition status_ok :: json_body where
  "status_ok = J_fields [(''status'', ''ok'')]"

definition Admin_BanUser :: "('u, 'd, 'p, 'a, 'm, 'r) app \<Rightarrow> (nat \<Rightarrow> string) \<Rightarrow> (nat \<Rightarrow> time) \<Rightarrow> http_request
  \<Rightarrow> go_error + string \<Rightarrow> ('u, 'd, 'p, 'a, 'm, 'r) handler" where
  "Admin_BanUser ap ids clk rq body ctx w =
     (case body of
        Inl e \<Rightarrow> Some ((400, J_error (error_text e)), w)
      | Inr reason \<Rightarrow> asserted (gc_user_id ctx) (\<lambda>actor_id.
          case AdminService.BanUser (ap_users ap) (ap_audit ap) (ids 0) (clk 0) actor_id (hq_param rq ''id'') reason
                 (mw_users (dw_mod w), mw_audit (dw_mod w)) of
            (None, ua) \<Rightarrow> Some ((200, status_ok), put_users ua w)
          | (Some e, ua) \<Rightarrow> Some (
              if errors_is e ErrTargetUserNotFound then (404, J_error (error_text e))
              else if errors_is e ErrCannotBanAdmin \<or> errors_is e ErrCannotBanSelf \<or> errors_is e ErrInsufficientRole
              then (403, J_error (error_text e))
              else (400, J_error (error_text e)), put_users ua w)))"

definition Admin_UnbanUser :: "('u, 'd, 'p, 'a, 'm, 'r) app \<Rightarrow> (nat \<Rightarrow> string) \<Rightarrow> http_request
  \<Rightarrow> ('u, 'd, 'p, 'a, 'm, 'r) handler" where
  "Admin_UnbanUser ap ids rq ctx w = asserted (gc_user_id ctx) (\<lambda>actor_id.
     case AdminService.UnbanUser (ap_users ap) (ap_audit ap) (ids 0) actor_id (hq_param rq ''id'')
            (mw_users (dw_mod w), mw_audit (dw_mod w)) of
       (None, ua) \<Rightarrow> Some ((200, status_ok), put_users ua w)
     | (Some e, ua) \<Rightarrow> Some (
         if errors_is e ErrInsufficientRole \<or> errors_is e ErrCannotBanSelf then (403, J_error (error_text e))
         else (500, J_error (error_text e)), put_users ua w))"

definition Admin_SetUserRole :: "('u, 'd, 'p, 'a, 'm, 'r) app \<Rightarrow> (nat \<Rightarrow> string) \<Rightarrow> http_request
  \<Rightarrow> go_error + string \<Rightarrow> ('u, 'd, 'p, 'a, 'm, 'r) handler" where
  "Admin_SetUserRole ap ids rq body ctx w =
     (case body of
        Inl e \<Rightarrow> Some ((400, J_error (error_text e)), w)
      | Inr role \<Rightarrow> asserted (gc_user_id ctx) (\<lambda>actor_id.
          case SetUserRole (ap_users ap) (ap_list_users ap) (ap_audit ap) (ids 0) actor_id (hq_param rq ''id'') role
                 (mw_users (dw_mod w), mw_audit (dw_mod w)) of
            (None, ua) \<Rightarrow> Some ((200, status_ok), put_users ua w)
          | (Some e, ua) \<Rightarrow> Some (
              if errors_is e ErrTargetUserNotFound then (404, J_error (error_text e))
              else if errors_is e ErrInsufficientRole \<or> errors_is e ErrCannotChangeOwnRole \<or> errors_is e ErrLastAdmin
              then (403, J_error (error_text e))
              else if errors_is e ErrInvalidRole then (400, J_error (error_text e))
              else (500, J_error (error_text e)), put_users ua w)))"

definition audit_offset :: "http_request \<Rightarrow> int" where
  "audit_offset rq = (let offset = fst (Atoi (DefaultQuery ''offset'' ''0'' rq)) in if offset < 0 then 0 else offset)"

definition GetAuditLog :: "('u, 'd, 'p, 'a, 'm, 'r) app \<Rightarrow> http_request \<Rightarrow> ('u, 'd, 'p, 'a, 'm, 'r) handler" where
  "GetAuditLog ap rq ctx w =
     (case GetAuditLogs (ap_moderation ap) (admin_limit ''50'' rq) (audit_offset rq) (dw_mod w) of
        None \<Rightarrow> None
      | Some (Inl e) \<Rightarrow> Some ((500, J_error (error_text e)), w)
      | Some (Inr logs) \<Rightarrow> Some ((200, J_logs logs), w))"

definition Admin_GetFlaggedDanmaku :: "('u, 'd, 'p, 'a, 'm, 'r) app \<Rightarrow> http_request \<Rightarrow> ('u, 'd, 'p, 'a, 'm, 'r) handler" where
  "Admin_GetFlaggedDanmaku ap rq ctx w =
     (case GetFlaggedDanmaku (ap_moderation ap) (DefaultQuery ''room_id'' '''' rq) (admin_limit ''50'' rq) (dw_mod w) of
        Inl e \<Rightarrow> Some ((500, J_error (error_text e)), w)
      | Inr ds \<Rightarrow> Some ((200, J_danmaku_list ds), w))"

record mute_request =
  mq_user_id :: string
  mq_duration_minutes :: int
  mq_reason :: string

definition mute_duration :: "int \<Rightarrow> duration" where
  "mute_duration minutes = (let d = i64 (minutes * Minute) in if d \<le> 0 then 30 * Minute else d)"

definition Admin_MuteUser :: "('u, 'd, 'p, 'a, 'm, 'r) app \<Rightarrow> (nat \<Rightarrow> string) \<Rightarrow> (nat \<Rightarrow> time) \<Rightarrow> http_request
  \<Rightarrow> go_error + mute_request \<Rightarrow> ('u, 'd, 'p, 'a, 'm, 'r) handler" where
  "Admin_MuteUser ap ids clk rq body ctx w =
     (case body of
        Inl e \<Rightarrow> Some ((400, J_error (error_text e)), w)
      | Inr req \<Rightarrow> asserted (gc_user_id ctx) (\<lambda>actor_id.
          case MuteUser (ap_moderation ap) (ids 0) (ids 1) (clk 0) (mq_user_id req) (hq_param rq ''room_id'') actor_id
                 (mute_duration (mq_duration_minutes req)) (mq_reason req) (dw_mod w) of
            (Some e, m) \<Rightarrow> Some ((500, J_error (error_text e)), put_mod m w)
          | (None, m) \<Rightarrow> Some ((200, status_ok), put_mod m w)))"

definition Admin_UnmuteUser :: "('u, 'd, 'p, 'a, 'm, 'r) app \<Rightarrow> (nat \<Rightarrow> string) \<Rightarrow> http_request
  \<Rightarrow> go_error + string \<Rightarrow> ('u, 'd, 'p, 'a, 'm, 'r) handler" where
  "Admin_UnmuteUser ap ids rq body ctx w =
     (case body of
        Inl e \<Rightarrow> Some ((400, J_error (error_text e)), w)
      | Inr user_id \<Rightarrow> asserted (gc_user_id ctx) (\<lambda>actor_id.
          case UnmuteUser (ap_moderation ap) (ids 0) user_id (hq_param rq ''room_id'') actor_id (dw_mod w) of
            (Some e, m) \<Rightarrow> Some ((500, J_error (error_text e)), put_mod m w)
          | (None, m) \<Rightarrow> Some ((200, status_ok), put_mod m w)))"

end
