(* ===== verification/Routes.thy ===== *)
theory Routes
  imports Handlers
begin

text \<open>
  The routes with their middlewares, as \<open>RegisterAdminRoutes\<close>, \<open>RegisterRoomRoutes\<close>, \<open>RegisterAuthRoutes\<close>,
  \<open>RegisterRoutes\<close> and \<open>main.go\<close> register them, and what holds of a request from the header to the
  stores. A route that reads a body bears what \<open>ShouldBindJSON\<close> made of it. \<open>now\<close> is the instant
  of the token's check.
\<close>

section \<open>Routes\<close>

datatype governance_route =
    GET_reports
  | POST_resolve "go_error + resolve_request"
  | POST_review "go_error + review_request"
  | GET_audit_log
  | GET_flagged
  | POST_mute "go_error + mute_request"
  | POST_unmute "go_error + string"
  | POST_ban "go_error + string"
  | POST_unban
  | POST_role "go_error + string"

definition admin_only :: "governance_route \<Rightarrow> bool" where
  "admin_only r \<longleftrightarrow> (case r of POST_ban body \<Rightarrow> True | POST_unban \<Rightarrow> True | POST_role body \<Rightarrow> True | _ \<Rightarrow> False)"

fun governance_handler :: "('u, 'd, 'p, 'a, 'm, 'r) app \<Rightarrow> (nat \<Rightarrow> string) \<Rightarrow> (nat \<Rightarrow> time) \<Rightarrow> http_request \<Rightarrow> governance_route
  \<Rightarrow> ('u, 'd, 'p, 'a, 'm, 'r) handler" where
  "governance_handler ap ids clk rq GET_reports = ListReports ap rq"
| "governance_handler ap ids clk rq (POST_resolve body) = Admin_ResolveReport ap ids clk rq body"
| "governance_handler ap ids clk rq (POST_review body) = Admin_ReviewDanmaku ap ids clk rq body"
| "governance_handler ap ids clk rq GET_audit_log = GetAuditLog ap rq"
| "governance_handler ap ids clk rq GET_flagged = Admin_GetFlaggedDanmaku ap rq"
| "governance_handler ap ids clk rq (POST_mute body) = Admin_MuteUser ap ids clk rq body"
| "governance_handler ap ids clk rq (POST_unmute body) = Admin_UnmuteUser ap ids rq body"
| "governance_handler ap ids clk rq (POST_ban body) = Admin_BanUser ap ids clk rq body"
| "governance_handler ap ids clk rq POST_unban = Admin_UnbanUser ap ids rq"
| "governance_handler ap ids clk rq (POST_role body) = Admin_SetUserRole ap ids rq body"

definition RegisterAdminRoutes :: "('u, 'd, 'p, 'a, 'm, 'r) app \<Rightarrow> (nat \<Rightarrow> string) \<Rightarrow> (nat \<Rightarrow> time) \<Rightarrow> time \<Rightarrow> http_request
  \<Rightarrow> governance_route \<Rightarrow> ('u, 'd, 'p, 'a, 'm, 'r) dm_world \<Rightarrow> (http_reply \<times> ('u, 'd, 'p, 'a, 'm, 'r) dm_world) option" where
  "RegisterAdminRoutes ap ids clk now rq route w =
     AuthMiddleware ap now rq
       (RequireRole ap (if admin_only route then [RoleAdmin] else [RoleAdmin, RoleModerator])
         (governance_handler ap ids clk rq route)) no_context w"

datatype user_route =
    GET_me
  | POST_room "go_error + string"
  | POST_start
  | POST_end
  | POST_danmaku "go_error + create_request"
  | POST_report "go_error + report_request"

fun user_handler :: "('u, 'd, 'p, 'a, 'm, 'r) app \<Rightarrow> (nat \<Rightarrow> string) \<Rightarrow> (nat \<Rightarrow> time) \<Rightarrow> http_request \<Rightarrow> user_route
  \<Rightarrow> ('u, 'd, 'p, 'a, 'm, 'r) handler" where
  "user_handler ap ids clk rq GET_me = Auth_Me"
| "user_handler ap ids clk rq (POST_room body) = Room_Create ap ids clk body"
| "user_handler ap ids clk rq POST_start = Room_Start ap clk rq"
| "user_handler ap ids clk rq POST_end = Room_End ap clk rq"
| "user_handler ap ids clk rq (POST_danmaku body) = Danmaku_Create ap ids clk rq body"
| "user_handler ap ids clk rq (POST_report body) = Report ap ids rq body"

definition user_request :: "('u, 'd, 'p, 'a, 'm, 'r) app \<Rightarrow> (nat \<Rightarrow> string) \<Rightarrow> (nat \<Rightarrow> time) \<Rightarrow> time \<Rightarrow> http_request
  \<Rightarrow> user_route \<Rightarrow> ('u, 'd, 'p, 'a, 'm, 'r) dm_world \<Rightarrow> (http_reply \<times> ('u, 'd, 'p, 'a, 'm, 'r) dm_world) option" where
  "user_request ap ids clk now rq route w = AuthMiddleware ap now rq (user_handler ap ids clk rq route) no_context w"

section \<open>Lemmas\<close>

lemma set_actor_simps [simp]: "gc_user_id (set_actor a ctx) = Some (a_user_id a)"
  by (simp add: set_actor_def)

lemma auth_middleware_cases:
  obtains (refused) body where "AuthMiddleware ap now rq nxt ctx w = Some ((401, body), w)"
  | (passed) a where "ValidateToken (ap_jwt ap) (ap_auth ap) now (extractBearerToken rq) = Inr a"
      and "AuthMiddleware ap now rq nxt ctx w = nxt (set_actor a ctx) w"
proof (cases "ValidateToken (ap_jwt ap) (ap_auth ap) now (extractBearerToken rq)")
  case (Inl e)
  then have "\<exists>body. AuthMiddleware ap now rq nxt ctx w = Some ((401, body), w)"
    by (simp add: AuthMiddleware_def Let_def)
  then show ?thesis using refused by blast
next
  case (Inr a)
  show ?thesis
  proof (cases "extractBearerToken rq = ''''")
    case True
    then have "AuthMiddleware ap now rq nxt ctx w = Some ((401, J_error ''missing authorization token''), w)"
      by (simp add: AuthMiddleware_def)
    then show ?thesis by (rule refused)
  next
    case False
    with Inr have "AuthMiddleware ap now rq nxt ctx w = nxt (set_actor a ctx) w"
      by (simp add: AuthMiddleware_def Let_def)
    with Inr show ?thesis by (rule passed)
  qed
qed

lemma require_role_cases:
  assumes "gc_user_id ctx = Some uid"
  obtains (refused) code body where "RequireRole ap roles nxt ctx w = Some ((code, body), w)" and "code \<in> {401, 403}"
  | (passed) u where "GetUser (ap_users ap) uid (mw_users (dw_mod w)) = Inr (Some u)" and "u_role u \<in> set roles"
      and "uid \<noteq> ''''" and "RequireRole ap roles nxt ctx w = nxt (ctx\<lparr>gc_user_role := Some (u_role u)\<rparr>) w"
proof (cases "uid = ''''")
  case True
  then show ?thesis using assms refused by (simp add: RequireRole_def)
next
  case uid: False
  show ?thesis
  proof (cases "GetUser (ap_users ap) uid (mw_users (dw_mod w))")
    case (Inl e)
    then show ?thesis using assms refused uid by (simp add: RequireRole_def)
  next
    case (Inr found)
    show ?thesis
    proof (cases found)
      case None
      then show ?thesis using assms refused uid Inr by (simp add: RequireRole_def)
    next
      case (Some u)
      then show ?thesis using assms refused passed uid Inr by (cases "u_role u \<in> set roles") (simp_all add: RequireRole_def)
    qed
  qed
qed

lemma governance_cases:
  "(\<exists>code body. RegisterAdminRoutes ap ids clk now rq route w = Some ((code, body), w) \<and> code \<in> {401, 403}) \<or>
   (\<exists>a u. ValidateToken (ap_jwt ap) (ap_auth ap) now (extractBearerToken rq) = Inr a \<and> a_user_id a \<noteq> '''' \<and>
      uo_FindByID (ap_users ap) (a_user_id a) (mw_users (dw_mod w)) = Inr (Some u) \<and>
      (u_role u = RoleAdmin \<or> (u_role u = RoleModerator \<and> \<not> admin_only route)) \<and>
      RegisterAdminRoutes ap ids clk now rq route w =
        governance_handler ap ids clk rq route ((set_actor a no_context)\<lparr>gc_user_role := Some (u_role u)\<rparr>) w)"
proof -
  let ?roles = "if admin_only route then [RoleAdmin] else [RoleAdmin, RoleModerator]"
  let ?h = "RequireRole ap ?roles (governance_handler ap ids clk rq route)"
  show ?thesis
  proof (cases rule: auth_middleware_cases [of ap now rq ?h no_context w])
    case (refused body)
    then show ?thesis unfolding RegisterAdminRoutes_def by blast
  next
    case (passed a)
    note auth = this
    have "gc_user_id (set_actor a no_context) = Some (a_user_id a)" by simp
    then show ?thesis
    proof (cases rule: require_role_cases [where ap = ap and roles = ?roles and w = w
          and nxt = "governance_handler ap ids clk rq route"])
      case (refused code body)
      then show ?thesis using auth(2) unfolding RegisterAdminRoutes_def by auto
    next
      case (passed u)
      have "u_role u = RoleAdmin \<or> (u_role u = RoleModerator \<and> \<not> admin_only route)"
        using passed(2) by (auto split: if_splits)
      then show ?thesis using passed auth unfolding RegisterAdminRoutes_def GetUser_def by metis
    qed
  qed
qed

lemma governance_handler_returns:
  assumes "gc_user_id ctx = Some uid" and "gc_user_role ctx = Some role"
    and "ms_audit (ap_moderation ap) = memory_audit_ops" and "length (am_entries (mw_audit (dw_mod w))) < 2 ^ 62"
  shows "governance_handler ap ids clk rq route ctx w \<noteq> None"
proof (cases route)
  case GET_audit_log
  let ?o = "audit_offset rq" and ?l = "admin_limit ''50'' rq"
  have l: "0 < ?l" "?l \<le> 200" by (auto simp: admin_limit_def Let_def)
  have o: "0 \<le> ?o" by (simp add: audit_offset_def Let_def)
  have "\<exists>xs. ListEntries ?l ?o (mw_audit (dw_mod w)) = Some (Inr xs)"
  proof (cases "int (length (am_entries (mw_audit (dw_mod w)))) \<le> ?o")
    case True
    then show ?thesis by (simp add: ListEntries_def Let_def)
  next
    case False
    then have "?o + ?l < 2 ^ 63" using l assms(4) by simp
    then show ?thesis using ListEntries_page [OF o l(1)] by blast
  qed
  then show ?thesis using assms(3) GET_audit_log
    by (auto simp: GetAuditLog_def GetAuditLogs_def memory_audit_ops_def)
qed (use assms(1,2) in \<open>auto simp: ListReports_def Admin_ResolveReport_def Admin_ReviewDanmaku_def
    Admin_GetFlaggedDanmaku_def Admin_MuteUser_def Admin_UnmuteUser_def Admin_BanUser_def Admin_UnbanUser_def
    Admin_SetUserRole_def asserted_def split: sum.split prod.split option.split\<close>)

section \<open>Properties\<close>

text \<open>
  Property C10 (governance needs its role). A request to a governance route either is refused with 401 or 403 and changes
  nothing, or its token is valid and the user store, asked at the time of the request, says that the
  token's user is an administrator or, except for bans, unbans and roles, a moderator; only then does
  the handler run, with that identity and that role.
\<close>

theorem governance_needs_role:
  "(\<exists>code body. RegisterAdminRoutes ap ids clk now rq route w = Some ((code, body), w) \<and> code \<in> {401, 403}) \<or>
   (\<exists>a u. ValidateToken (ap_jwt ap) (ap_auth ap) now (extractBearerToken rq) = Inr a \<and> a_user_id a \<noteq> '''' \<and>
      uo_FindByID (ap_users ap) (a_user_id a) (mw_users (dw_mod w)) = Inr (Some u) \<and>
      (u_role u = RoleAdmin \<or> (u_role u = RoleModerator \<and> \<not> admin_only route)) \<and>
      RegisterAdminRoutes ap ids clk now rq route w =
        governance_handler ap ids clk rq route ((set_actor a no_context)\<lparr>gc_user_role := Some (u_role u)\<rparr>) w)"
  by (rule governance_cases)

text \<open>
  Corollary (no governance request panics). Over the memory audit log, no request to a governance route makes a handler
  panic, whatever its parameters: the type assertions on the context find what the middlewares have set, and
  the offset of the audit log, which the store does not check, has been made non-negative.
\<close>

theorem governance_never_panics:
  assumes "ms_audit (ap_moderation ap) = memory_audit_ops"
    and "length (am_entries (mw_audit (dw_mod w))) < 2 ^ 62"
  shows "RegisterAdminRoutes ap ids clk now rq route w \<noteq> None"
proof -
  have "governance_handler ap ids clk rq route ((set_actor a no_context)\<lparr>gc_user_role := Some r\<rparr>) w \<noteq> None" for a r
    by (rule governance_handler_returns [OF _ _ assms]) simp_all
  then show ?thesis using governance_cases [of ap ids clk now rq route w] by auto
qed

section \<open>Requests of users\<close>

lemma user_request_auth:
  assumes "ValidateToken (ap_jwt ap) (ap_auth ap) now (extractBearerToken rq) = Inr a"
    and "extractBearerToken rq \<noteq> ''''"
  shows "user_request ap ids clk now rq route w = user_handler ap ids clk rq route (set_actor a no_context) w"
  using assms by (simp add: user_request_def AuthMiddleware_def Let_def)

lemma start_room_memory:
  "StartRoom (memory_room_ops ord) now i uid s =
     (case rm_rooms s i of
        None \<Rightarrow> (Some ErrRoomNotFound, s)
      | Some r \<Rightarrow>
          if r_owner_id r \<noteq> uid then (Some ErrRoomForbidden, s)
          else if r_status r = RoomStatusBanned then (Some ErrRoomBanned, s)
          else if r_status r \<noteq> RoomStatusPending then (Some ErrRoomInvalidTransition, s)
          else (None, s\<lparr>rm_rooms := (rm_rooms s)(i \<mapsto> room_moved now RoomStatusLive now r)\<rparr>))"
  by (simp add: StartRoom_def memory_room_ops_def RoomStore.FindByID_def move_check_def move_commit_def
      RoomStore.UpdateStatus_def split: option.split)

lemma end_room_memory:
  "EndRoom (memory_room_ops ord) now i uid s =
     (case rm_rooms s i of
        None \<Rightarrow> (Some ErrRoomNotFound, s)
      | Some r \<Rightarrow>
          if r_owner_id r \<noteq> uid then (Some ErrRoomForbidden, s)
          else if r_status r = RoomStatusBanned then (Some ErrRoomBanned, s)
          else if r_status r \<noteq> RoomStatusLive then (Some ErrRoomInvalidTransition, s)
          else (None, s\<lparr>rm_rooms := (rm_rooms s)(i \<mapsto> room_moved now RoomStatusEnded now r)\<rparr>))"
  by (simp add: EndRoom_def memory_room_ops_def RoomStore.FindByID_def move_check_def move_commit_def
      RoomStore.UpdateStatus_def split: option.split)

lemma put_rooms_same [simp]: "put_rooms (dw_rooms w) w = w"
  by (simp add: put_rooms_def)

text \<open>
  Corollary (opening and closing a room over HTTP). With a valid token, the answer to a start or an end of a room, and
  what it does to the memory store, is a function of the stored room: 404 for none, 403 for another's or
  a banned one, 409 for one that is not in the status the move starts from, else 200 and the room
  has moved; only 200 changes anything.
\<close>

theorem room_move_http:
  assumes "ValidateToken (ap_jwt ap) (ap_auth ap) now (extractBearerToken rq) = Inr a"
    and "extractBearerToken rq \<noteq> ''''" and "a_user_id a \<noteq> ''''" and "hq_param rq ''room_id'' \<noteq> ''''"
    and "ap_rooms ap = memory_room_ops ord"
    and "(route, from, to) \<in> {(POST_start, RoomStatusPending, RoomStatusLive), (POST_end, RoomStatusLive, RoomStatusEnded)}"
  shows "\<exists>code body w'. user_request ap ids clk now rq route w = Some ((code, body), w') \<and>
    (case rm_rooms (dw_rooms w) (hq_param rq ''room_id'') of
       None \<Rightarrow> code = 404 \<and> w' = w
     | Some r \<Rightarrow>
         if r_owner_id r \<noteq> a_user_id a \<or> r_status r = RoomStatusBanned then code = 403 \<and> w' = w
         else if r_status r \<noteq> from then code = 409 \<and> w' = w
         else code = 200 \<and> w' = put_rooms ((dw_rooms w)\<lparr>rm_rooms := (rm_rooms (dw_rooms w))(hq_param rq ''room_id''
           \<mapsto> room_moved (clk 0) to (clk 0) r)\<rparr>) w)"
proof -
  let ?i = "hq_param rq ''room_id''"
  note u = user_request_auth [OF assms(1,2)]
  have id: "gc_user_id (set_actor a no_context) = Some (a_user_id a)" by simp
  from assms(6) consider "route = POST_start" "from = RoomStatusPending" "to = RoomStatusLive"
    | "route = POST_end" "from = RoomStatusLive" "to = RoomStatusEnded" by auto
  then show ?thesis
  proof cases
    case 1
    then show ?thesis unfolding u using assms(3-5) id
      by (cases "rm_rooms (dw_rooms w) ?i")
        (auto simp: Room_Start_def with_user_def start_room_memory domainErrorToHTTP_def Let_def)
  next
    case 2
    then show ?thesis unfolding u using assms(3-5) id
      by (cases "rm_rooms (dw_rooms w) ?i")
        (auto simp: Room_End_def with_user_def end_room_memory domainErrorToHTTP_def Let_def)
  qed
qed

text \<open>
  Corollary (who sends a danmaku over HTTP). A danmaku that a POST creates bears the user of the token and the room of the path,
  whatever user and room the body claims; an answer other than 201 has left no danmaku behind, neither
  stored nor buffered nor produced nor sent.
\<close>

theorem danmaku_http_identity:
  assumes "ValidateToken (ap_jwt ap) (ap_auth ap) now (extractBearerToken rq) = Inr a"
    and "extractBearerToken rq \<noteq> ''''" and "a_user_id a \<noteq> ''''"
    and "user_request ap ids clk now rq (POST_danmaku body) w = Some ((code, reply), w')"
  shows "if code = 201
    then \<exists>dm. reply = J_danmaku dm \<and> d_user_id dm = a_user_id a \<and> d_room_id dm = hq_param rq ''room_id'' \<and>
      taken (ap_danmaku ap) dm w w'
    else w' = w \<or> not_taken (ap_danmaku ap) w w'"
proof -
  note u = user_request_auth [OF assms(1,2), of ids clk "POST_danmaku body" w]
  show ?thesis
  proof (cases body)
    case (Inl e)
    then show ?thesis using assms(4) unfolding u by (auto simp: Danmaku_Create_def)
  next
    case (Inr b)
    let ?req = "b\<lparr>cr_room_id := hq_param rq ''room_id'', cr_user_id := a_user_id a\<rparr>"
    have h: "user_handler ap ids clk rq (POST_danmaku body) (set_actor a no_context) w =
        (case CreateDanmaku (ap_danmaku ap) (ids 0) clk ?req w of
           None \<Rightarrow> None
         | Some (Inl e, w) \<Rightarrow>
             Some ((fst (danmakuErrorResponse e), J_coded (snd (danmakuErrorResponse e)) (error_text e)), w)
         | Some (Inr dm, w) \<Rightarrow> Some ((201, J_danmaku dm), w))"
      using Inr assms(3) by (simp add: Danmaku_Create_def)
    then obtain res where c: "CreateDanmaku (ap_danmaku ap) (ids 0) clk ?req w = Some (res, w')"
      using assms(4) unfolding u by (auto split: option.splits sum.splits prod.splits)
    note out = CreateDanmaku_sends(1) [OF c]
    show ?thesis
    proof (cases res)
      case (Inl e)
      then have "code = fst (danmakuErrorResponse e)" using assms(4) c unfolding u h by simp
      then have "code \<noteq> 201" by (simp add: danmakuErrorResponse_def)
      then show ?thesis using out Inl by (auto simp: send_outcome_def)
    next
      case (Inr dm)
      then have "code = 201" "reply = J_danmaku dm" using assms(4) c unfolding u h by simp_all
      then show ?thesis using out Inr
        by (auto simp: send_outcome_def sent_danmaku_def buildDanmaku_def)
    qed
  qed
qed

lemma http_and_ws_codes: "snd (danmakuErrorResponse e) = roomSendErrorCode e"
  by (simp add: danmakuErrorResponse_def roomSendErrorCode_def)

text \<open>
  Corollary (how long a mute lasts). Whatever number of minutes a request asks for, the mute it makes ends later than it
  begins; up to 153722867 minutes it lasts as long as asked. Beyond, the product does not fit 64 bits.
\<close>

theorem mute_duration_bounds:
  "0 < mute_duration minutes \<and> mute_duration minutes < 2 ^ 63 \<and>
   (minutes < 1 \<or> 153722867 < minutes \<or> mute_duration minutes = minutes * Minute)"
proof -
  let ?d = "i64 (minutes * Minute)"
  have u: "?d < 2 ^ 63" by (rule i64_upper)
  have d: "mute_duration minutes = (if ?d \<le> 0 then 30 * Minute else ?d)" by (simp add: mute_duration_def Let_def)
  have "0 < mute_duration minutes \<and> mute_duration minutes < 2 ^ 63"
  proof (cases "?d \<le> 0")
    case False
    then show ?thesis using u unfolding d by simp
  qed (simp add: d)
  moreover have "mute_duration minutes = minutes * Minute" if m: "1 \<le> minutes" "minutes \<le> 153722867"
  proof -
    have "?d = minutes * Minute" using m by (intro i64_id) simp_all
    then show ?thesis unfolding d using m by simp
  qed
  ultimately show ?thesis by linarith
qed

section \<open>Witnesses\<close>

text \<open>An application whose only accepted token is \<open>t\<close>, for the user \<open>uid\<close>.\<close>

definition sample_jwt :: "string \<Rightarrow> string jwt_lib" where
  "sample_jwt uid = \<lparr>jl_sign = (\<lambda>k c. Inr ''t''), jl_alg = (\<lambda>t. ''HS256''),
     jl_parse = (\<lambda>now kf t. if t = ''t'' then Inr \<lparr>pt_claims = Some \<lparr>c_user_id = uid, c_username = ''u'', c_nickname = ''n'',
         c_role = '''', c_issued_at = 0, c_expires_at = 1, c_issuer = '''', c_subject = ''''\<rparr>, pt_valid = True\<rparr>
       else Inl (ErrNew ''malformed''))\<rparr>"

definition sample_app :: "string \<Rightarrow> (user_mem, memory_store, report_mem, audit_mem, mute_mem, room_mem) app" where
  "sample_app uid = \<lparr>ap_danmaku = sample_sender sample_service None, ap_moderation = sample_service,
     ap_users = ms_users sample_service, ap_list_users = None, ap_audit = memory_audit_ops,
     ap_rooms = memory_room_ops (\<lambda>s. []), ap_jwt = sample_jwt uid,
     ap_bcrypt = \<lparr>bc_generate = Inr, bc_compare = (\<lambda>h p. None)\<rparr>, ap_auth = \<lparr>au_secret = ''k'', au_expiry_hours = 1\<rparr>,
     ap_list_limit = 20, ap_format = (\<lambda>t. '''')\<rparr>"

definition sample_http :: http_request where
  "sample_http = \<lparr>hq_authorization = ''Bearer t'', hq_query = Map.empty, hq_param = (\<lambda>k. ''a'')\<rparr>"

lemma sample_token: "extractBearerToken sample_http = ''t''"
  by (simp add: extractBearerToken_def sample_http_def Cut.simps)

definition token_actor :: "string \<Rightarrow> actor" where
  "token_actor uid = \<lparr>a_user_id = uid, a_username = ''u'', a_nickname = ''n'', a_role = ''user'', a_authenticated = True\<rparr>"

lemma sample_valid:
  "ValidateToken (ap_jwt (sample_app uid)) (ap_auth (sample_app uid)) 0 (extractBearerToken sample_http) = Inr (token_actor uid)"
  by (simp add: ValidateToken_def sample_app_def sample_jwt_def sample_token token_actor_def)

theorem governance_never_panics_witness:
  "RegisterAdminRoutes (sample_app ''2'') (\<lambda>k. ''i'') (\<lambda>k. 0) 0 sample_http GET_audit_log sample_dm_world \<noteq> None"
  by (rule governance_never_panics)
    (simp_all add: sample_app_def sample_service_def mem_service_def sample_dm_world_def sample_world_def
      NewMemoryAuditLogStore_def)

theorem room_move_http_witness:
  "\<exists>body w'. user_request (sample_app ''o'') (\<lambda>k. ''i'') (\<lambda>k. 0) 0 sample_http POST_end sample_dm_world = Some ((200, body), w') \<and>
     map_option r_status (rm_rooms (dw_rooms w') ''a'') = Some RoomStatusEnded"
proof -
  have t: "extractBearerToken sample_http \<noteq> ''''" "a_user_id (token_actor ''o'') \<noteq> ''''"
    "hq_param sample_http ''room_id'' \<noteq> ''''" "ap_rooms (sample_app ''o'') = memory_room_ops (\<lambda>s. [])"
    "(POST_end, RoomStatusLive, RoomStatusEnded) \<in>
      {(POST_start, RoomStatusPending, RoomStatusLive), (POST_end, RoomStatusLive, RoomStatusEnded)}"
    by (simp add: sample_token, simp add: token_actor_def, simp add: sample_http_def, simp add: sample_app_def, simp)
  have p: "hq_param sample_http ''room_id'' = ''a''" by (simp add: sample_http_def)
  have r: "rm_rooms (dw_rooms sample_dm_world) ''a'' = Some (sample_room ''a'' RoomStatusLive 1)"
    by (simp add: sample_dm_world_def sample_rooms_def)
  from room_move_http [OF sample_valid t, of "\<lambda>k. ''i''" "\<lambda>k. 0" sample_dm_world]
  show ?thesis unfolding p r by (auto simp: sample_room_def token_actor_def put_rooms_def)
qed

theorem danmaku_http_identity_witness:
  "\<exists>dm w'. user_request (sample_app ''2'') (\<lambda>k. ''n'') (\<lambda>k. 5) 0 sample_http
      (POST_danmaku (Inr ((sample_request ''so'')\<lparr>cr_user_id := ''someone'', cr_room_id := ''elsewhere''\<rparr>))) sample_dm_world =
    Some ((201, J_danmaku dm), w') \<and> d_user_id dm = ''2'' \<and> d_room_id dm = ''a''"
proof -
  let ?b = "Inr ((sample_request ''so'')\<lparr>cr_user_id := ''someone'', cr_room_id := ''elsewhere''\<rparr>)"
  let ?d = "sent_danmaku ''n'' 5 (sample_request ''so'') False"
  have t: "extractBearerToken sample_http \<noteq> ''''" "a_user_id (token_actor ''2'') \<noteq> ''''"
    by (simp_all add: sample_token token_actor_def)
  obtain w' where c: "CreateDanmaku (sample_sender sample_service None) ''n'' (\<lambda>k. 5) (sample_request ''so'') sample_dm_world =
      Some (Inr ?d, w')" using sample_created by blast
  have q: "(sample_request ''so'')\<lparr>cr_room_id := ''a'', cr_user_id := ''2''\<rparr> = sample_request ''so''"
    by (simp add: sample_request_def)
  have "user_request (sample_app ''2'') (\<lambda>k. ''n'') (\<lambda>k. 5) 0 sample_http (POST_danmaku ?b) sample_dm_world =
      Some ((201, J_danmaku ?d), w')"
    unfolding user_request_auth [OF sample_valid t(1)] using c q
    by (simp add: Danmaku_Create_def set_actor_def token_actor_def sample_http_def sample_app_def)
  moreover from danmaku_http_identity [OF sample_valid t this]
  have "d_user_id ?d = ''2'' \<and> d_room_id ?d = ''a''" by (simp add: token_actor_def sample_http_def)
  ultimately show ?thesis by blast
qed

end
