(* ===== verification/Pubsub.thy ===== *)
theory Pubsub
  imports Hub "HOL-Library.Sublist"
begin

text \<open>
  \<open>redisclient/pubsub.go\<close> and the two Redis loops of the hub: several instances of the server relay their
  broadcasts to each other over Redis. Redis delivers what is published to those that are
  subscribed at that moment, in order and at most once; what it has yet to hand to an instance is
  the instance's feed. A payload is the value that was marshalled, \<open>None\<close> one that does not parse.
\<close>

section \<open>The client\<close>

record redis_message =
  rd_source_id :: string
  rd_room_id :: string
  rd_data :: envelope

definition GenerateInstanceID :: "string \<Rightarrow> string \<Rightarrow> string \<Rightarrow> string \<Rightarrow> string" where
  "GenerateInstanceID pre hostname pid uid =
     (let pre = (if pre = '''' then (if hostname = '''' then ''unknown'' else hostname) else pre);
          pre = MapRunes (\<lambda>r. Some (if r = 45 \<or> r = 95 \<or> r = 46 \<or> (97 \<le> r \<and> r \<le> 122) \<or> (65 \<le> r \<and> r \<le> 90) \<or>
            (48 \<le> r \<and> r \<le> 57) then r else 45)) pre
      in pre @ ''-'' @ pid @ ''-'' @ take 8 uid)"

definition Publish :: "string \<Rightarrow> string \<Rightarrow> envelope \<Rightarrow> string \<times> redis_message" where
  "Publish instance_id room_id data =
     (''room:'' @ room_id, \<lparr>rd_source_id = instance_id, rd_room_id = room_id, rd_data = data\<rparr>)"

text \<open>What the subscription hands on: neither what does not parse nor what this instance has sent.\<close>

definition subscription_next :: "string \<Rightarrow> redis_message option \<Rightarrow> redis_message option" where
  "subscription_next instance_id payload =
     (case payload of None \<Rightarrow> None | Some msg \<Rightarrow> if rd_source_id msg = instance_id then None else Some msg)"

definition subBackoffMin :: duration where "subBackoffMin = 100 * Millisecond"

definition subBackoffMax :: duration where "subBackoffMax = 30 * Second"

definition growBackoff :: "duration \<Rightarrow> duration" where
  "growBackoff current = (let next_wait = i64 (current * 2) in if subBackoffMax < next_wait then subBackoffMax else next_wait)"

text \<open>
  One failure of the subscription: the wait before the next try, and the wait after it. A connection
  that has lived for thirty seconds starts again from the shortest wait.
\<close>

definition after_failure :: "bool \<Rightarrow> duration \<Rightarrow> duration \<Rightarrow> duration \<times> duration" where
  "after_failure connected lived backoff =
     (let backoff = (if connected \<and> 30 * Second \<le> lived then subBackoffMin else backoff) in (backoff, growBackoff backoff))"

section \<open>Instances and Redis\<close>

text \<open>
  \<open>cs_sent i\<close> records what instance \<open>i\<close> has queued for publication, \<open>cs_relayed j s\<close> what \<open>j\<close> has broadcast
  locally because a message of the instance called \<open>s\<close> arrived.
\<close>

record cluster =
  cs_hub :: "nat \<Rightarrow> hub"
  cs_feed :: "nat \<Rightarrow> redis_message option list"
  cs_sent :: "nat \<Rightarrow> (string \<times> envelope) list"
  cs_relayed :: "nat \<Rightarrow> string \<Rightarrow> (string \<times> envelope) list"

definition start_cluster :: "ws_config \<Rightarrow> cluster" where
  "start_cluster cfg = \<lparr>cs_hub = (\<lambda>i. NewHubWithConfig cfg True), cs_feed = (\<lambda>i. []), cs_sent = (\<lambda>i. []),
     cs_relayed = (\<lambda>j s. [])\<rparr>"

definition jobs :: "hub \<Rightarrow> (string \<times> envelope) list" where
  "jobs h = (case hb_publish h of None \<Rightarrow> [] | Some xs \<Rightarrow> xs)"

definition broadcast_at :: "nat \<Rightarrow> string \<Rightarrow> envelope \<Rightarrow> cluster \<Rightarrow> cluster" where
  "broadcast_at i room_id data s =
     (let h = BroadcastToRoom room_id data (cs_hub s i) in
      s\<lparr>cs_hub := (cs_hub s)(i := h),
        cs_sent := (cs_sent s)(i := cs_sent s i @ drop (length (jobs (cs_hub s i))) (jobs h))\<rparr>)"

text \<open>One turn of \<open>redisPublishLoop\<close>; the subscribers that Redis reaches are any.\<close>

definition redisPublishLoop :: "(nat \<Rightarrow> string) \<Rightarrow> nat \<Rightarrow> nat set \<Rightarrow> cluster \<Rightarrow> cluster" where
  "redisPublishLoop ids i reached s =
     (case jobs (cs_hub s i) of
        [] \<Rightarrow> s
      | (room_id, data) # rest \<Rightarrow>
          s\<lparr>cs_hub := (cs_hub s)(i := (cs_hub s i)\<lparr>hb_publish := Some rest\<rparr>),
            cs_feed := (\<lambda>j. if j \<in> reached then cs_feed s j @ [Some (snd (Publish (ids i) room_id data))] else cs_feed s j)\<rparr>)"

text \<open>One turn of the subscription and of \<open>redisSubscribeLoop\<close>.\<close>

definition redisSubscribeLoop :: "(nat \<Rightarrow> string) \<Rightarrow> nat \<Rightarrow> cluster \<Rightarrow> cluster" where
  "redisSubscribeLoop ids j s =
     (case cs_feed s j of
        [] \<Rightarrow> s
      | payload # rest \<Rightarrow>
          (let s = s\<lparr>cs_feed := (cs_feed s)(j := rest)\<rparr> in
           case subscription_next (ids j) payload of
             None \<Rightarrow> s
           | Some msg \<Rightarrow>
               s\<lparr>cs_hub := (cs_hub s)(j := BroadcastToRoomLocal (rd_room_id msg) (rd_data msg) (cs_hub s j)),
                 cs_relayed := (cs_relayed s)(j := (cs_relayed s j)(rd_source_id msg :=
                   cs_relayed s j (rd_source_id msg) @ [(rd_room_id msg, rd_data msg)]))\<rparr>))"

definition local_event :: "hub_event \<Rightarrow> bool" where
  "local_event e \<longleftrightarrow> (case e of Broadcast k d \<Rightarrow> False | Publish_next \<Rightarrow> False | _ \<Rightarrow> True)"

inductive cluster_step :: "(nat \<Rightarrow> string) \<Rightarrow> cluster \<Rightarrow> cluster \<Rightarrow> bool" for ids where
  cl_local: "local_event e \<Longrightarrow> cluster_step ids s (s\<lparr>cs_hub := (cs_hub s)(i := hub_exec e (cs_hub s i))\<rparr>)"
| cl_broadcast: "cluster_step ids s (broadcast_at i room_id data s)"
| cl_publish: "cluster_step ids s (redisPublishLoop ids i reached s)"
| cl_receive: "cluster_step ids s (redisSubscribeLoop ids j s)"
| cl_noise: "cluster_step ids s (s\<lparr>cs_feed := (cs_feed s)(j := cs_feed s j @ [None])\<rparr>)"

section \<open>Lemmas\<close>

lemma local_broadcast_publish [simp]: "hb_publish (BroadcastToRoomLocal k d h) = hb_publish h"
  by (simp add: BroadcastToRoomLocal_def put_room_def split: option.split)

lemma parts_publish [simp]:
  "hb_publish (put_client c cl h) = hb_publish h" "hb_publish (put_room p r h) = hb_publish h"
  "hb_publish (release_conn ip k h) = hb_publish h" "hb_publish (RemoveRoomIfSame k p h) = hb_publish h"
  "hb_publish (fail_setup c cl h) = hb_publish h" "hb_publish (stop_rooms h) = hb_publish h"
  by (simp_all add: put_client_def put_room_def release_conn_def RemoveRoomIfSame_def fail_setup_def stop_rooms_def)

lemma stop_publish [simp]: "hb_publish (client_stop c h) = hb_publish h"
  by (simp add: client_stop_def split: option.split)

lemma drop_publish [simp]: "hb_publish (drop_client p c h) = hb_publish h"
  by (simp add: drop_client_def split: option.split)

lemma deliver_publish [simp]: "hb_publish (deliver_one p m c h) = hb_publish h"
  by (simp add: deliver_one_def split: option.split)

lemma room_broadcast_publish [simp]: "hb_publish (broadcastToClients f p m h) = hb_publish h"
  by (simp add: broadcastToClients_def fold_frame split: option.split)

lemma room_publish [simp]:
  "hb_publish (room_register p c cl r h) = hb_publish h" "hb_publish (room_unregister p c r h) = hb_publish h"
  "hb_publish (room_next f p r h) = hb_publish h" "hb_publish (snd (find_or_create k h)) = hb_publish h"
  "hb_publish (snd (TryAcquireConn ip k h)) = hb_publish h"
  by (simp_all add: room_register_def room_unregister_def Let_def room_next_def find_or_create_def TryAcquireConn_def
      split: list.split option.split)

lemma room_finish_publish [simp]: "hb_publish (room_finish f p r h) = hb_publish h"
  by (simp add: room_finish_def Let_def fold_frame split: option.split)

lemma exec_publish: "local_event e \<Longrightarrow> hb_publish (hub_exec e h) = hb_publish h"
  by (cases e) (simp_all add: local_event_def with_client_def with_room_def Let_def case_prod_beta
      split: option.split phase.split)

lemma broadcast_jobs:
  "jobs (BroadcastToRoom k d h) = jobs h \<or> jobs (BroadcastToRoom k d h) = jobs h @ [(k, d)]"
  by (simp add: BroadcastToRoom_def jobs_def Let_def split: option.split)

definition pending :: "(nat \<Rightarrow> string) \<Rightarrow> nat \<Rightarrow> nat \<Rightarrow> cluster \<Rightarrow> (string \<times> envelope) list" where
  "pending ids j i s = map (\<lambda>p. (rd_room_id (the p), rd_data (the p)))
     (filter (\<lambda>p. \<exists>m. p = Some m \<and> rd_source_id m = ids i) (cs_feed s j))"

definition relay_inv :: "(nat \<Rightarrow> string) \<Rightarrow> cluster \<Rightarrow> bool" where
  "relay_inv ids s \<longleftrightarrow> (\<forall>i j. subseq (cs_relayed s j (ids i) @ pending ids j i s @ jobs (cs_hub s i)) (cs_sent s i) \<and>
     cs_relayed s i (ids i) = [])"

lemma relay_invI:
  assumes "relay_inv ids s"
    and "\<And>i j. subseq (cs_relayed s' j (ids i) @ pending ids j i s' @ jobs (cs_hub s' i)) (cs_sent s' i)"
    and "\<And>i. cs_relayed s' i (ids i) = cs_relayed s i (ids i)"
  shows "relay_inv ids s'"
  using assms by (simp add: relay_inv_def)

lemma relay_invD:
  assumes "relay_inv ids s"
  shows "subseq (cs_relayed s j (ids i) @ pending ids j i s @ jobs (cs_hub s i)) (cs_sent s i)"
    and "cs_relayed s i (ids i) = []"
  using assms by (simp_all add: relay_inv_def)

lemma subseq_drop_mid: "subseq (xs @ ys @ z # zs) ws \<Longrightarrow> subseq (xs @ ys @ zs) ws"
  by (erule subseq_order.order_trans [rotated]) (intro list_emb_append_mono subseq_order.refl list_emb_Cons)

lemma broadcast_keeps:
  assumes "relay_inv ids s"
  shows "relay_inv ids (broadcast_at k room_id data s)"
proof (rule relay_invI [OF assms])
  fix i j
  let ?s = "broadcast_at k room_id data s"
  note inv = relay_invD(1) [OF assms, of j i]
  have p: "pending ids j i ?s = pending ids j i s" by (simp add: pending_def broadcast_at_def Let_def)
  show "subseq (cs_relayed ?s j (ids i) @ pending ids j i ?s @ jobs (cs_hub ?s i)) (cs_sent ?s i)"
  proof (cases "i = k")
    case False
    then show ?thesis using inv unfolding p by (simp add: broadcast_at_def Let_def)
  next
    case True
    obtain new where new: "jobs (BroadcastToRoom room_id data (cs_hub s k)) = jobs (cs_hub s k) @ new"
      using broadcast_jobs [of room_id data "cs_hub s k"] by auto
    have "subseq ((cs_relayed s j (ids i) @ pending ids j i s @ jobs (cs_hub s i)) @ new) (cs_sent s i @ new)"
      by (rule list_emb_append_mono [OF inv]) simp
    then show ?thesis unfolding p using True new by (simp add: broadcast_at_def Let_def)
  qed
next
  show "cs_relayed (broadcast_at k room_id data s) i (ids i) = cs_relayed s i (ids i)" for i
    by (simp add: broadcast_at_def Let_def)
qed

lemma publish_keeps:
  assumes "relay_inv ids s" and "inj ids"
  shows "relay_inv ids (redisPublishLoop ids k reached s)"
proof (cases "jobs (cs_hub s k)")
  case Nil
  then show ?thesis using assms(1) by (simp add: redisPublishLoop_def)
next
  case (Cons job rest)
  obtain room_id data where job: "job = (room_id, data)" by (cases job)
  let ?s = "redisPublishLoop ids k reached s"
  let ?m = "snd (Publish (ids k) room_id data)"
  have s': "?s = s\<lparr>cs_hub := (cs_hub s)(k := (cs_hub s k)\<lparr>hb_publish := Some rest\<rparr>),
      cs_feed := (\<lambda>j. if j \<in> reached then cs_feed s j @ [Some ?m] else cs_feed s j)\<rparr>"
    using Cons job by (simp add: redisPublishLoop_def)
  show ?thesis
  proof (rule relay_invI [OF assms(1)])
    fix i j
    note inv = relay_invD(1) [OF assms(1), of j i]
    have src: "rd_source_id ?m = ids i \<longleftrightarrow> i = k" using assms(2) by (auto simp: Publish_def dest: injD)
    have p: "pending ids j i ?s = pending ids j i s @ (if j \<in> reached \<and> i = k then [job] else [])"
      using src unfolding s' pending_def by (simp add: Publish_def job)
    have r: "cs_relayed ?s = cs_relayed s" "cs_sent ?s = cs_sent s" unfolding s' by simp_all
    have js: "jobs (cs_hub ?s i) = (if i = k then rest else jobs (cs_hub s i))"
      unfolding s' by (simp add: jobs_def)
    show "subseq (cs_relayed ?s j (ids i) @ pending ids j i ?s @ jobs (cs_hub ?s i)) (cs_sent ?s i)"
    proof (cases "i = k")
      case True
      have full: "subseq (cs_relayed s j (ids i) @ pending ids j i s @ job # rest) (cs_sent s i)"
        using inv Cons True by simp
      show ?thesis
      proof (cases "j \<in> reached")
        case True
        then show ?thesis using full \<open>i = k\<close> unfolding p r js by simp
      next
        case False
        then show ?thesis using subseq_drop_mid [OF full] \<open>i = k\<close> unfolding p r js by simp
      qed
    next
      case False
      then show ?thesis using inv unfolding p r js by simp
    qed
  next
    show "cs_relayed ?s i (ids i) = cs_relayed s i (ids i)" for i unfolding s' by simp
  qed
qed

lemma receive_keeps:
  assumes "relay_inv ids s"
  shows "relay_inv ids (redisSubscribeLoop ids k s)"
proof (cases "cs_feed s k")
  case Nil
  then show ?thesis using assms by (simp add: redisSubscribeLoop_def)
next
  case (Cons payload rest)
  let ?s = "redisSubscribeLoop ids k s"
  have jobs_same: "jobs (cs_hub ?s i) = jobs (cs_hub s i)" for i
    using Cons by (simp add: redisSubscribeLoop_def jobs_def Let_def split: option.split)
  have sent_same: "cs_sent ?s = cs_sent s"
    using Cons by (simp add: redisSubscribeLoop_def Let_def split: option.split)
  have feed: "cs_feed ?s = (cs_feed s)(k := rest)"
    using Cons by (simp add: redisSubscribeLoop_def Let_def split: option.split)
  show ?thesis
  proof (cases "subscription_next (ids k) payload")
    case None
    then have r: "cs_relayed ?s = cs_relayed s" using Cons by (simp add: redisSubscribeLoop_def Let_def)
    show ?thesis
    proof (rule relay_invI [OF assms])
      fix i j
      have "subseq (pending ids j i ?s) (pending ids j i s)"
      proof (cases "j = k")
        case True
        have "subseq rest (cs_feed s k)" unfolding Cons by (rule list_emb_Cons) simp
        then show ?thesis unfolding pending_def feed using True by (simp add: subseq_filter subseq_map)
      qed (simp add: pending_def feed)
      then have "subseq (cs_relayed s j (ids i) @ pending ids j i ?s @ jobs (cs_hub s i))
          (cs_relayed s j (ids i) @ pending ids j i s @ jobs (cs_hub s i))"
        by (intro list_emb_append_mono) simp_all
      then show "subseq (cs_relayed ?s j (ids i) @ pending ids j i ?s @ jobs (cs_hub ?s i)) (cs_sent ?s i)"
        unfolding r jobs_same sent_same using relay_invD(1) [OF assms] subseq_order.order_trans by blast
    qed (simp add: r)
  next
    case (Some msg)
    then have msg: "payload = Some msg" "rd_source_id msg \<noteq> ids k"
      by (auto simp: subscription_next_def split: option.splits if_splits)
    have r: "cs_relayed ?s = (cs_relayed s)(k := (cs_relayed s k)(rd_source_id msg :=
        cs_relayed s k (rd_source_id msg) @ [(rd_room_id msg, rd_data msg)]))"
      using Cons Some by (simp add: redisSubscribeLoop_def Let_def)
    show ?thesis
    proof (rule relay_invI [OF assms])
      fix i j
      have "cs_relayed ?s j (ids i) @ pending ids j i ?s = cs_relayed s j (ids i) @ pending ids j i s"
        using Cons msg unfolding r pending_def feed by (cases "j = k") auto
      then have "cs_relayed ?s j (ids i) @ pending ids j i ?s @ jobs (cs_hub ?s i) =
          cs_relayed s j (ids i) @ pending ids j i s @ jobs (cs_hub s i)"
        unfolding jobs_same by (metis append.assoc)
      then show "subseq (cs_relayed ?s j (ids i) @ pending ids j i ?s @ jobs (cs_hub ?s i)) (cs_sent ?s i)"
        using relay_invD(1) [OF assms] by (simp add: sent_same)
    next
      fix i
      show "cs_relayed ?s i (ids i) = cs_relayed s i (ids i)" using msg(2) unfolding r by auto
    qed
  qed
qed

lemma step_keeps:
  assumes "cluster_step ids s s'" and "inj ids" and "relay_inv ids s"
  shows "relay_inv ids s'"
  using assms(1)
proof cases
  case (cl_local e i)
  have j: "jobs (cs_hub s' k) = jobs (cs_hub s k)" for k
    using cl_local by (simp add: jobs_def exec_publish)
  have "cs_relayed s' = cs_relayed s" "cs_sent s' = cs_sent s" "\<And>k i. pending ids k i s' = pending ids k i s"
    using cl_local(1) by (simp_all add: pending_def)
  with j assms(3) show ?thesis unfolding relay_inv_def by simp
next
  case (cl_noise j)
  have "pending ids k i s' = pending ids k i s" for k i using cl_noise by (simp add: pending_def)
  moreover have "cs_relayed s' = cs_relayed s" "cs_sent s' = cs_sent s" "cs_hub s' = cs_hub s"
    using cl_noise by simp_all
  ultimately show ?thesis using assms(3) unfolding relay_inv_def by simp
qed (use assms(2,3) broadcast_keeps publish_keeps receive_keeps in blast)+

section \<open>Properties\<close>

text \<open>
  Property C21 (relaying between instances). With distinct instance identifiers, whatever the instances do and whatever Redis
  loses: what an instance broadcasts to its clients on behalf of another is a subsequence of what that
  one has queued for publication, so each message is relayed at most once, in order and never
  invented; and no instance relays its own messages, so nothing goes round in a loop.
\<close>

theorem relay_once_in_order:
  assumes "inj ids" and "(cluster_step ids)\<^sup>*\<^sup>* (start_cluster cfg) s"
  shows "subseq (cs_relayed s j (ids i)) (cs_sent s i) \<and> cs_relayed s i (ids i) = []"
proof -
  have "relay_inv ids s" using assms(2)
  proof (induction rule: rtranclp_induct)
    case base
    show ?case by (simp add: relay_inv_def start_cluster_def pending_def jobs_def NewHubWithConfig_def)
  next
    case (step v u)
    then show ?case using step_keeps [OF _ assms(1)] by blast
  qed
  note inv = relay_invD [OF this]
  have "subseq (cs_relayed s j (ids i))
      (cs_relayed s j (ids i) @ pending ids j i s @ jobs (cs_hub s i))"
    by (rule subseq_rev_drop_many) simp
  then show ?thesis using inv subseq_order.order_trans by blast
qed

text \<open>The waits of a sequence of failures, each with whether there was a connection and how long it lived.\<close>

definition wait_step :: "bool \<times> duration \<Rightarrow> duration \<times> duration list \<Rightarrow> duration \<times> duration list" where
  "wait_step failure st = (let (wait, b) = after_failure (fst failure) (snd failure) (fst st) in (b, snd st @ [wait]))"

definition subscriptionLoop_waits :: "(bool \<times> duration) list \<Rightarrow> duration \<times> duration list" where
  "subscriptionLoop_waits failures = fold wait_step failures (subBackoffMin, [])"

lemma growBackoff_bounds:
  assumes "subBackoffMin \<le> b" and "b \<le> subBackoffMax"
  shows "growBackoff b = min (2 * b) subBackoffMax"
proof -
  have "i64 (b * 2) = b * 2" using assms by (intro i64_id) (simp_all add: subBackoffMin_def subBackoffMax_def)
  then show ?thesis by (simp add: growBackoff_def min_def)
qed

text \<open>
  Corollary (the wait between tries). After any number of failures, each wait for the next try was, and the next one will be,
  between a tenth of a second and thirty seconds; from one failed connection attempt to the next it doubles up
  to that bound.
\<close>

theorem backoff_bounded:
  "set (snd (subscriptionLoop_waits failures)) \<subseteq> {subBackoffMin..subBackoffMax} \<and>
   fst (subscriptionLoop_waits failures) \<in> {subBackoffMin..subBackoffMax} \<and>
   fst (subscriptionLoop_waits (failures @ [(False, lived)])) =
     min (2 * fst (subscriptionLoop_waits failures)) subBackoffMax"
proof -
  have m: "subBackoffMin \<le> subBackoffMax" "0 \<le> subBackoffMin" by (simp_all add: subBackoffMin_def subBackoffMax_def)
  have "set (snd (fold wait_step fs st)) \<subseteq> {subBackoffMin..subBackoffMax} \<and>
      fst (fold wait_step fs st) \<in> {subBackoffMin..subBackoffMax}"
    if "set (snd st) \<subseteq> {subBackoffMin..subBackoffMax}" "fst st \<in> {subBackoffMin..subBackoffMax}" for fs st
    using that
  proof (induction fs arbitrary: st)
    case (Cons f fs)
    let ?w = "if fst f \<and> 30 * Second \<le> snd f then subBackoffMin else fst st"
    have w: "?w \<in> {subBackoffMin..subBackoffMax}" using Cons.prems(2) m by simp
    then have "growBackoff ?w \<in> {subBackoffMin..subBackoffMax}" using growBackoff_bounds [of ?w] m by simp
    moreover have "wait_step f st = (growBackoff ?w, snd st @ [?w])"
      by (simp add: wait_step_def after_failure_def Let_def)
    ultimately show ?case using Cons.IH [of "wait_step f st"] Cons.prems w by simp
  qed simp
  from this [of "(subBackoffMin, [])" failures] m
  have b: "set (snd (subscriptionLoop_waits failures)) \<subseteq> {subBackoffMin..subBackoffMax}"
    "fst (subscriptionLoop_waits failures) \<in> {subBackoffMin..subBackoffMax}"
    by (simp_all add: subscriptionLoop_waits_def)
  moreover have "fst (subscriptionLoop_waits (failures @ [(False, lived)])) =
      growBackoff (fst (subscriptionLoop_waits failures))"
    by (simp add: subscriptionLoop_waits_def wait_step_def after_failure_def Let_def)
  ultimately show ?thesis using growBackoff_bounds by simp
qed

text \<open>Instance 0 broadcasts, Redis hands it to instance 1, which relays it.\<close>

theorem relay_once_in_order_witness:
  "\<exists>s. (cluster_step (\<lambda>i. replicate i CHR ''x''))\<^sup>*\<^sup>* (start_cluster default_config) s \<and>
     cs_relayed s 1 '''' = [(''r'', some_message)] \<and> subseq [(''r'', some_message)] (cs_sent s 0)"
proof -
  let ?ids = "\<lambda>i::nat. replicate i CHR ''x''"
  define s1 where "s1 = broadcast_at 0 ''r'' some_message (start_cluster default_config)"
  define s2 where "s2 = redisPublishLoop ?ids 0 {1} s1"
  define s3 where "s3 = redisSubscribeLoop ?ids 1 s2"
  have r: "(cluster_step ?ids)\<^sup>*\<^sup>* (start_cluster default_config) s3"
    unfolding s3_def s2_def s1_def
    by (meson cl_broadcast cl_publish cl_receive r_into_rtranclp rtranclp.rtrancl_into_rtrancl)
  have j: "jobs (cs_hub s1 0) = [(''r'', some_message)]"
    by (simp add: s1_def broadcast_at_def start_cluster_def Let_def jobs_def BroadcastToRoom_def BroadcastToRoomLocal_def
        GetRoom_def NewHubWithConfig_def redisPubChanSize_def)
  have f: "cs_feed s2 1 = [Some \<lparr>rd_source_id = '''', rd_room_id = ''r'', rd_data = some_message\<rparr>]"
    using j by (simp add: s2_def redisPublishLoop_def Publish_def)
      (simp add: s1_def broadcast_at_def start_cluster_def Let_def)
  have e: "cs_relayed s2 1 '''' = []"
    using j by (simp add: s2_def redisPublishLoop_def) (simp add: s1_def broadcast_at_def start_cluster_def Let_def)
  have c: "cs_relayed s3 1 '''' = [(''r'', some_message)]"
    using f e by (simp add: s3_def redisSubscribeLoop_def subscription_next_def Let_def)
  have "inj ?ids" by (rule injI) simp
  from relay_once_in_order [OF this r, of 1 0] have "subseq [(''r'', some_message)] (cs_sent s3 0)"
    using c by simp
  with r c show ?thesis by blast
qed

end
