(* ===== verification/Config.thy ===== *)
theory Config
  imports GoNumbers Entities
begin

text \<open>
  The package \<open>config\<close>: the configuration, its defaults, the file it is loaded from and the
  environment variables that override it. The environment is a function from names to values,
  the empty string for a variable that is not set, as \<open>os.Getenv\<close> has it. What \<open>yaml.Unmarshal\<close>
  makes of a file is an argument; \<open>'f\<close> stands for \<open>float64\<close>, which is only passed on here.
\<close>

section \<open>The configuration\<close>

record auth_config =
  cf_jwt_secret :: string
  cf_token_expiry_hours :: int

record websocket_config =
  cf_write_wait_seconds :: int
  cf_pong_wait_seconds :: int
  cf_max_message_size :: int
  cf_broadcast_buffer_size :: int
  cf_send_buffer_size :: int
  cf_max_conn_per_room :: int
  cf_max_conn_per_ip :: int
  cf_allowed_origins :: "string list"

record log_config =
  cf_level :: string
  cf_format :: string

record store_config =
  cf_default_list_limit :: int
  cf_dsn :: string
  cf_async_buffer_size :: int

record redis_config =
  cf_addr :: string
  cf_instance_id :: string

record moderation_config =
  cf_blocklist :: "string list"
  cf_blocklist_path :: string
  cf_auto_reject :: bool
  cf_fail_closed :: bool

record kafka_config =
  cf_brokers :: "string list"
  cf_topic :: string
  cf_consumer_group :: string
  cf_client_id :: string

record 'f config =
  cf_port :: int
  cf_websocket :: websocket_config
  cf_store :: store_config
  cf_log :: log_config
  cf_redis :: redis_config
  cf_kafka :: kafka_config
  cf_messages_per_sec :: 'f
  cf_pprof :: bool
  cf_auth :: auth_config
  cf_moderation :: moderation_config

definition Default :: "'f::zero config" where
  "Default = \<lparr>
     cf_port = 8080,
     cf_websocket = \<lparr>cf_write_wait_seconds = 10, cf_pong_wait_seconds = 60, cf_max_message_size = 512,
       cf_broadcast_buffer_size = 256, cf_send_buffer_size = 256, cf_max_conn_per_room = 0,
       cf_max_conn_per_ip = 0, cf_allowed_origins = []\<rparr>,
     cf_store = \<lparr>cf_default_list_limit = 20, cf_dsn = '''', cf_async_buffer_size = 1024\<rparr>,
     cf_log = \<lparr>cf_level = ''info'', cf_format = ''text''\<rparr>,
     cf_redis = \<lparr>cf_addr = '''', cf_instance_id = ''''\<rparr>,
     cf_kafka = \<lparr>cf_brokers = [], cf_topic = ''danmaku_events'',
       cf_consumer_group = ''danmakuflow-danmaku-persist'', cf_client_id = ''''\<rparr>,
     cf_messages_per_sec = 0,
     cf_pprof = False,
     cf_auth = \<lparr>cf_jwt_secret = '''', cf_token_expiry_hours = 72\<rparr>,
     cf_moderation = \<lparr>cf_blocklist = [], cf_blocklist_path = '''', cf_auto_reject = True, cf_fail_closed = False\<rparr>\<rparr>"

text \<open>The Chinese text of the error, as code points.\<close>

definition unsupported_level :: "rune list" where
  "unsupported_level = [19981, 25903, 25345, 30340, 26085, 24535, 32423, 21035, 58, 32]"

text \<open>\<open>LogConfig.ResolveLevel\<close>: the number of the \<open>slog\<close> level.\<close>

definition ResolveLevel :: "(rune \<Rightarrow> rune) \<Rightarrow> log_config \<Rightarrow> go_error + int" where
  "ResolveLevel lower l =
     (let s = ToLower lower (cf_level l) in
      if s = ''debug'' then Inr (- 4)
      else if s = ''info'' then Inr 0
      else if s = ''warn'' then Inr 4
      else if s = ''error'' then Inr 8
      else Inl (ErrNew (utf8 unsupported_level @ cf_level l @ utf8 [65288, 21487, 36873] @ '': debug/info/warn/error'' @ utf8 [65289])))"

section \<open>Overrides from the environment\<close>

type_synonym environment = "string \<Rightarrow> string"

definition when_set :: "environment \<Rightarrow> string \<Rightarrow> (string \<Rightarrow> 'c \<Rightarrow> 'c) \<Rightarrow> 'c \<Rightarrow> 'c" where
  "when_set env name f cfg = (let v = env name in if v \<noteq> '''' then f v cfg else cfg)"

definition when_bool :: "environment \<Rightarrow> string \<Rightarrow> (bool \<Rightarrow> 'c \<Rightarrow> 'c) \<Rightarrow> 'c \<Rightarrow> 'c" where
  "when_bool env name f = when_set env name
     (\<lambda>v cfg. case ParseBool v of Some enabled \<Rightarrow> f enabled cfg | None \<Rightarrow> cfg)"

definition applyEnvOverrides :: "environment \<Rightarrow> 'f config \<Rightarrow> 'f config" where
  "applyEnvOverrides env cfg =
     (let cfg = when_set env ''SERVER_PORT''
            (\<lambda>v c. let (port, err) = Atoi v in if \<not> err then c\<lparr>cf_port := port\<rparr> else c) cfg;
          cfg = when_set env ''STORE_DSN'' (\<lambda>v c. c\<lparr>cf_store := (cf_store c)\<lparr>cf_dsn := v\<rparr>\<rparr>) cfg;
          cfg = when_set env ''REDIS_ADDR'' (\<lambda>v c. c\<lparr>cf_redis := (cf_redis c)\<lparr>cf_addr := v\<rparr>\<rparr>) cfg;
          cfg = when_set env ''REDIS_INSTANCE_ID_PREFIX''
            (\<lambda>v c. c\<lparr>cf_redis := (cf_redis c)\<lparr>cf_instance_id := v\<rparr>\<rparr>) cfg;
          cfg = when_set env ''LOG_LEVEL'' (\<lambda>v c. c\<lparr>cf_log := (cf_log c)\<lparr>cf_level := v\<rparr>\<rparr>) cfg;
          cfg = when_set env ''LOG_FORMAT'' (\<lambda>v c. c\<lparr>cf_log := (cf_log c)\<lparr>cf_format := v\<rparr>\<rparr>) cfg;
          cfg = when_bool env ''PPROF_ENABLED'' (\<lambda>b c. c\<lparr>cf_pprof := b\<rparr>) cfg;
          cfg = when_set env ''JWT_SECRET'' (\<lambda>v c. c\<lparr>cf_auth := (cf_auth c)\<lparr>cf_jwt_secret := v\<rparr>\<rparr>) cfg;
          cfg = when_set env ''KAFKA_BROKERS''
            (\<lambda>v c. c\<lparr>cf_kafka := (cf_kafka c)\<lparr>cf_brokers := Split v (CHR '','')\<rparr>\<rparr>) cfg;
          cfg = when_bool env ''MODERATION_AUTO_REJECT''
            (\<lambda>b c. c\<lparr>cf_moderation := (cf_moderation c)\<lparr>cf_auto_reject := b\<rparr>\<rparr>) cfg;
          cfg = when_bool env ''MODERATION_FAIL_CLOSED''
            (\<lambda>b c. c\<lparr>cf_moderation := (cf_moderation c)\<lparr>cf_fail_closed := b\<rparr>\<rparr>) cfg;
          cfg = when_set env ''MODERATION_BLOCKLIST_PATH''
            (\<lambda>v c. c\<lparr>cf_moderation := (cf_moderation c)\<lparr>cf_blocklist_path := v\<rparr>\<rparr>) cfg
      in cfg)"

section \<open>Loading\<close>

text \<open>What \<open>os.ReadFile\<close> returns: the content, an error for which \<open>os.IsNotExist\<close> holds, or another.\<close>

datatype read_result = Content string | Not_exist | Read_error go_error

definition Load :: "(string \<Rightarrow> read_result) \<Rightarrow> (string \<Rightarrow> go_error + 'f config) \<Rightarrow> environment \<Rightarrow> string
  \<Rightarrow> go_error + 'f::zero config" where
  "Load read_file unmarshal env path =
     (case read_file path of
        Not_exist \<Rightarrow> Inr (applyEnvOverrides env Default)
      | Read_error e \<Rightarrow> Inl e
      | Content data \<Rightarrow>
          (case unmarshal data of
             Inl e \<Rightarrow> Inl e
           | Inr cfg \<Rightarrow> Inr (applyEnvOverrides env cfg)))"

section \<open>What is loaded\<close>

text \<open>An override of one value: the environment's if it is set and readable, else the base's.\<close>

definition chosen :: "environment \<Rightarrow> string \<Rightarrow> (string \<Rightarrow> 'a option) \<Rightarrow> 'a \<Rightarrow> 'a" where
  "chosen env name parse old =
     (if env name = '''' then old else case parse (env name) of None \<Rightarrow> old | Some x \<Rightarrow> x)"

definition port_of :: "string \<Rightarrow> int option" where
  "port_of v = (if snd (Atoi v) then None else Some (fst (Atoi v)))"

text \<open>What every variable decides, one equation for each field; all other fields are the base's.\<close>

definition overridden :: "environment \<Rightarrow> 'f config \<Rightarrow> 'f config" where
  "overridden env c = \<lparr>
     cf_port = chosen env ''SERVER_PORT'' port_of (cf_port c),
     cf_websocket = cf_websocket c,
     cf_store = (cf_store c)\<lparr>cf_dsn := chosen env ''STORE_DSN'' Some (cf_dsn (cf_store c))\<rparr>,
     cf_log = (cf_log c)\<lparr>cf_level := chosen env ''LOG_LEVEL'' Some (cf_level (cf_log c)),
       cf_format := chosen env ''LOG_FORMAT'' Some (cf_format (cf_log c))\<rparr>,
     cf_redis = (cf_redis c)\<lparr>cf_addr := chosen env ''REDIS_ADDR'' Some (cf_addr (cf_redis c)),
       cf_instance_id := chosen env ''REDIS_INSTANCE_ID_PREFIX'' Some (cf_instance_id (cf_redis c))\<rparr>,
     cf_kafka = (cf_kafka c)\<lparr>cf_brokers :=
       chosen env ''KAFKA_BROKERS'' (\<lambda>v. Some (Split v (CHR '',''))) (cf_brokers (cf_kafka c))\<rparr>,
     cf_messages_per_sec = cf_messages_per_sec c,
     cf_pprof = chosen env ''PPROF_ENABLED'' ParseBool (cf_pprof c),
     cf_auth = (cf_auth c)\<lparr>cf_jwt_secret := chosen env ''JWT_SECRET'' Some (cf_jwt_secret (cf_auth c))\<rparr>,
     cf_moderation = (cf_moderation c)\<lparr>
       cf_auto_reject := chosen env ''MODERATION_AUTO_REJECT'' ParseBool (cf_auto_reject (cf_moderation c)),
       cf_fail_closed := chosen env ''MODERATION_FAIL_CLOSED'' ParseBool (cf_fail_closed (cf_moderation c)),
       cf_blocklist_path := chosen env ''MODERATION_BLOCKLIST_PATH'' Some (cf_blocklist_path (cf_moderation c))\<rparr>\<rparr>"

text \<open>Each step sets one field, to what it was where the variable is not set or not readable.\<close>

lemma chosen_simps [simp]:
  "env n = '''' \<Longrightarrow> chosen env n p x = x"
  "env n \<noteq> '''' \<Longrightarrow> p (env n) = None \<Longrightarrow> chosen env n p x = x"
  "env n \<noteq> '''' \<Longrightarrow> p (env n) = Some y \<Longrightarrow> chosen env n p x = y"
  by (simp_all add: chosen_def)

lemma when_set_simps:
  "env n = '''' \<Longrightarrow> when_set env n f c = c"
  "env n \<noteq> '''' \<Longrightarrow> when_set env n f c = f (env n) c"
  by (simp_all add: when_set_def)

lemma port_step:
  "when_set env n (\<lambda>v c. let (port, err) = Atoi v in if \<not> err then c\<lparr>cf_port := port\<rparr> else c) c =
     c\<lparr>cf_port := chosen env n port_of (cf_port c)\<rparr>"
  by (auto simp: when_set_def chosen_def port_of_def Let_def split: prod.split)

lemma text_steps:
  fixes c :: "'f config"
  shows "when_set env n (\<lambda>v c. c\<lparr>cf_store := (cf_store c)\<lparr>cf_dsn := v\<rparr>\<rparr>) c =
      c\<lparr>cf_store := (cf_store c)\<lparr>cf_dsn := chosen env n Some (cf_dsn (cf_store c))\<rparr>\<rparr>"
    and "when_set env n (\<lambda>v c. c\<lparr>cf_redis := (cf_redis c)\<lparr>cf_addr := v\<rparr>\<rparr>) c =
      c\<lparr>cf_redis := (cf_redis c)\<lparr>cf_addr := chosen env n Some (cf_addr (cf_redis c))\<rparr>\<rparr>"
    and "when_set env n (\<lambda>v c. c\<lparr>cf_redis := (cf_redis c)\<lparr>cf_instance_id := v\<rparr>\<rparr>) c =
      c\<lparr>cf_redis := (cf_redis c)\<lparr>cf_instance_id := chosen env n Some (cf_instance_id (cf_redis c))\<rparr>\<rparr>"
    and "when_set env n (\<lambda>v c. c\<lparr>cf_log := (cf_log c)\<lparr>cf_level := v\<rparr>\<rparr>) c =
      c\<lparr>cf_log := (cf_log c)\<lparr>cf_level := chosen env n Some (cf_level (cf_log c))\<rparr>\<rparr>"
    and "when_set env n (\<lambda>v c. c\<lparr>cf_log := (cf_log c)\<lparr>cf_format := v\<rparr>\<rparr>) c =
      c\<lparr>cf_log := (cf_log c)\<lparr>cf_format := chosen env n Some (cf_format (cf_log c))\<rparr>\<rparr>"
    and "when_set env n (\<lambda>v c. c\<lparr>cf_auth := (cf_auth c)\<lparr>cf_jwt_secret := v\<rparr>\<rparr>) c =
      c\<lparr>cf_auth := (cf_auth c)\<lparr>cf_jwt_secret := chosen env n Some (cf_jwt_secret (cf_auth c))\<rparr>\<rparr>"
    and "when_set env n (\<lambda>v c. c\<lparr>cf_moderation := (cf_moderation c)\<lparr>cf_blocklist_path := v\<rparr>\<rparr>) c =
      c\<lparr>cf_moderation := (cf_moderation c)\<lparr>cf_blocklist_path := chosen env n Some (cf_blocklist_path (cf_moderation c))\<rparr>\<rparr>"
    and "when_set env n (\<lambda>v c. c\<lparr>cf_kafka := (cf_kafka c)\<lparr>cf_brokers := Split v (CHR '','')\<rparr>\<rparr>) c =
      c\<lparr>cf_kafka := (cf_kafka c)\<lparr>cf_brokers :=
        chosen env n (\<lambda>v. Some (Split v (CHR '',''))) (cf_brokers (cf_kafka c))\<rparr>\<rparr>"
  by (cases "env n = ''''"; simp add: when_set_simps)+

lemma when_bool_cases:
  "when_bool env n f c = (case (if env n = '''' then None else ParseBool (env n)) of None \<Rightarrow> c | Some b \<Rightarrow> f b c)"
  "chosen env n ParseBool x = (case (if env n = '''' then None else ParseBool (env n)) of None \<Rightarrow> x | Some b \<Rightarrow> b)"
  by (simp_all add: when_bool_def when_set_def chosen_def)

lemma bool_steps:
  fixes c :: "'f config"
  shows "when_bool env n (\<lambda>b c. c\<lparr>cf_pprof := b\<rparr>) c = c\<lparr>cf_pprof := chosen env n ParseBool (cf_pprof c)\<rparr>"
    and "when_bool env n (\<lambda>b c. c\<lparr>cf_moderation := (cf_moderation c)\<lparr>cf_auto_reject := b\<rparr>\<rparr>) c =
      c\<lparr>cf_moderation := (cf_moderation c)\<lparr>cf_auto_reject :=
        chosen env n ParseBool (cf_auto_reject (cf_moderation c))\<rparr>\<rparr>"
    and "when_bool env n (\<lambda>b c. c\<lparr>cf_moderation := (cf_moderation c)\<lparr>cf_fail_closed := b\<rparr>\<rparr>) c =
      c\<lparr>cf_moderation := (cf_moderation c)\<lparr>cf_fail_closed :=
        chosen env n ParseBool (cf_fail_closed (cf_moderation c))\<rparr>\<rparr>"
  by (simp_all add: when_bool_cases split: option.split)

lemma applyEnvOverrides_eq: "applyEnvOverrides env c = overridden env c"
proof (cases c)
  case (fields port ws st lg rd kf mps pp au md)
  then show ?thesis
    unfolding applyEnvOverrides_def overridden_def port_step text_steps bool_steps
    by (simp add: Let_def)
qed

text \<open>
  Corollary (the environment wins). The loaded configuration is, field by field, the
  environment's value where the variable is set and readable, and otherwise the file's, or the
  default where there is no file; a file that cannot be read or parsed gives its error; a number
  or a boolean that cannot be read never changes a value.
\<close>

theorem environment_wins:
  "Load read_file unmarshal env path =
     (case read_file path of
        Not_exist \<Rightarrow> Inr (overridden env Default)
      | Read_error e \<Rightarrow> Inl e
      | Content data \<Rightarrow> (case unmarshal data of Inl e \<Rightarrow> Inl e | Inr cfg \<Rightarrow> Inr (overridden env cfg)))"
  by (simp add: Load_def applyEnvOverrides_eq split: read_result.split sum.split)

text \<open>
  Corollary (broker lists). A list of brokers without commas in their names, joined by commas
  in the variable, is the list that is loaded; and every list that is loaded from the variable
  joins to its value, so an empty name between two commas is a broker of its own.
\<close>

theorem brokers_roundtrip:
  assumes "bs \<noteq> []" and "\<And>b. b \<in> set bs \<Longrightarrow> CHR '','' \<notin> set b" and "Join bs (CHR '','') \<noteq> ''''"
    and "env ''KAFKA_BROKERS'' = Join bs (CHR '','')"
  shows "cf_brokers (cf_kafka (applyEnvOverrides env c)) = bs"
  using assms by (simp add: applyEnvOverrides_eq overridden_def Split_Join)

theorem brokers_roundtrip_witness:
  "cf_brokers (cf_kafka (applyEnvOverrides ((\<lambda>n. '''')(''KAFKA_BROKERS'' := ''a:1,b:2''))
     (Default :: int config))) = [''a:1'', ''b:2'']"
  by (rule brokers_roundtrip) auto

end
