(* ===== verification/Startup.thy ===== *)
theory Startup
  imports Config Handlers Pubsub
begin

text \<open>
  \<open>main.go\<close>: from the configuration to the running server. What the libraries answer when a connection
  is made is an argument; the result is either the point at which the program exits or what it
  runs with: which backends, with what settings. \<open>wire_service\<close> and the definitions around it
  assemble the services over the chosen stores.
\<close>

section \<open>What start-up decides\<close>

datatype table = T_user | T_room | T_report | T_audit | T_mute

text \<open>The answers of the outside world: \<open>None\<close> is success.\<close>

record outside =
  os_hostname :: string
  os_pid :: string
  os_uuid :: string
  os_redis_ping :: "string \<Rightarrow> go_error option"
  os_mysql :: "string \<Rightarrow> go_error option"
  os_migrate :: "table \<Rightarrow> go_error option"
  os_producer :: "string list \<Rightarrow> string \<Rightarrow> string \<Rightarrow> go_error option"
  os_consumer :: "string list \<Rightarrow> string \<Rightarrow> string \<Rightarrow> string \<Rightarrow> go_error option"

datatype exit_point = Exit_config go_error | Exit_mysql go_error | Exit_table table go_error

record deployment =
  dp_instance_id :: string
  dp_log_level :: int
  dp_log_json :: bool
  dp_redis :: bool
  dp_redis_configured :: bool
  dp_hub :: hub
  dp_mysql :: bool
  dp_client_id :: string
  dp_producer :: bool
  dp_consumer :: bool
  dp_auth :: auth_service
  dp_pprof :: bool
  dp_port :: int

text \<open>\<open>initLogger\<close>: an unknown level is \<open>info\<close>, an unknown format text.\<close>

definition initLogger :: "(rune \<Rightarrow> rune) \<Rightarrow> log_config \<Rightarrow> int \<times> bool" where
  "initLogger lower lc =
     ((case ResolveLevel lower lc of Inl e \<Rightarrow> 0 | Inr level \<Rightarrow> level), cf_format lc = ''json'')"

definition connect_redis :: "outside \<Rightarrow> redis_config \<Rightarrow> bool" where
  "connect_redis ext rc = (if cf_addr rc \<noteq> '''' then os_redis_ping ext (cf_addr rc) = None else False)"

definition hub_config :: "websocket_config \<Rightarrow> ws_config" where
  "hub_config wc = \<lparr>ws_write_wait = cf_write_wait_seconds wc, ws_pong_wait = cf_pong_wait_seconds wc,
     ws_max_message = cf_max_message_size wc, ws_broadcast_buffer = cf_broadcast_buffer_size wc,
     ws_send_buffer = cf_send_buffer_size wc, ws_max_per_room = cf_max_conn_per_room wc,
     ws_max_per_ip = cf_max_conn_per_ip wc, ws_origins = cf_allowed_origins wc\<rparr>"

text \<open>The tables are migrated one after the other; the first failure ends the program.\<close>

fun migrate :: "outside \<Rightarrow> table list \<Rightarrow> exit_point option" where
  "migrate ext [] = None"
| "migrate ext (t # ts) = (case os_migrate ext t of Some e \<Rightarrow> Some (Exit_table t e) | None \<Rightarrow> migrate ext ts)"

definition open_stores :: "outside \<Rightarrow> store_config \<Rightarrow> exit_point option" where
  "open_stores ext sc =
     (if cf_dsn sc = '''' then None
      else case os_mysql ext (cf_dsn sc) of
        Some e \<Rightarrow> Some (Exit_mysql e)
      | None \<Rightarrow> migrate ext [T_user, T_room])"

definition open_governance :: "outside \<Rightarrow> store_config \<Rightarrow> exit_point option" where
  "open_governance ext sc = (if cf_dsn sc = '''' then None else migrate ext [T_report, T_audit, T_mute])"

text \<open>The producer and the consumer, each if it is there.\<close>

definition connect_kafka :: "outside \<Rightarrow> kafka_config \<Rightarrow> string \<Rightarrow> bool \<Rightarrow> bool \<times> bool" where
  "connect_kafka ext kc client_id has_dsn =
     (if cf_brokers kc = [] then (False, False)
      else if os_producer ext (cf_brokers kc) (cf_topic kc) client_id \<noteq> None then (False, False)
      else (True, has_dsn \<and> os_consumer ext (cf_brokers kc) (cf_topic kc) (cf_consumer_group kc) client_id = None))"

definition start :: "(rune \<Rightarrow> rune) \<Rightarrow> outside \<Rightarrow> go_error + 'f config \<Rightarrow> exit_point + deployment" where
  "start lower ext loaded =
     (case loaded of
        Inl e \<Rightarrow> Inl (Exit_config e)
      | Inr cfg \<Rightarrow>
          (let (level, json) = initLogger lower (cf_log cfg);
               instance_id = GenerateInstanceID (cf_instance_id (cf_redis cfg)) (os_hostname ext) (os_pid ext) (os_uuid ext);
               redis = connect_redis ext (cf_redis cfg);
               hub = NewHubWithConfig (hub_config (cf_websocket cfg)) redis;
               has_dsn = (cf_dsn (cf_store cfg) \<noteq> '''')
           in case open_stores ext (cf_store cfg) of
             Some x \<Rightarrow> Inl x
           | None \<Rightarrow>
               (let auth = NewAuthService (cf_jwt_secret (cf_auth cfg)) (cf_token_expiry_hours (cf_auth cfg));
                    client_id = (if cf_client_id (cf_kafka cfg) = '''' then instance_id else cf_client_id (cf_kafka cfg));
                    (producer, consumer) = connect_kafka ext (cf_kafka cfg) client_id has_dsn
                in case open_governance ext (cf_store cfg) of
                  Some x \<Rightarrow> Inl x
                | None \<Rightarrow> Inr \<lparr>dp_instance_id = instance_id, dp_log_level = level, dp_log_json = json, dp_redis = redis,
                    dp_redis_configured = (cf_addr (cf_redis cfg) \<noteq> ''''), dp_hub = hub, dp_mysql = has_dsn,
                    dp_client_id = client_id, dp_producer = producer, dp_consumer = consumer, dp_auth = auth,
                    dp_pprof = cf_pprof cfg, dp_port = cf_port cfg\<rparr>)))"

section \<open>The services over the chosen stores\<close>

text \<open>
  \<open>mods\<close> holds the stores of the moderation service; the automaton over the configured words and the
  two switches are put in here. \<open>None\<close> is the panic of the automaton's construction.
\<close>

definition wire_moderation ::
  "(nat \<Rightarrow> (rune \<times> nat) list \<Rightarrow> (rune \<times> nat) list) \<Rightarrow> (string \<Rightarrow> string list option) \<Rightarrow> moderation_config
   \<Rightarrow> ('u, 'd, 'p, 'a, 'm) mod_service \<Rightarrow> ('u, 'd, 'p, 'a, 'm) mod_service option" where
  "wire_moderation ord open_file mc mods =
     NewModerationService ord open_file (cf_blocklist mc) (cf_blocklist_path mc)
       (mods\<lparr>ms_auto_reject := cf_auto_reject mc, ms_fail_closed := cf_fail_closed mc\<rparr>)"

definition wire_service ::
  "'f config \<Rightarrow> deployment \<Rightarrow> 'd store_ops \<Rightarrow> 'r room_ops \<Rightarrow> (danmaku \<Rightarrow> go_error option)
   \<Rightarrow> ('u, 'd, 'p, 'a, 'm) mod_service \<Rightarrow> ('u, 'd, 'p, 'a, 'm, 'r) danmaku_service" where
  "wire_service cfg dp st rooms produce mods =
     NewDanmakuService st (cf_async_buffer_size (cf_store cfg)) (Some (GetStatus rooms))
       (if dp_producer dp then Some produce else None) (Some mods)"

text \<open>
  \<open>Readyz\<close> as \<open>main\<close> has set the server up: \<open>HasStoreDSN\<close>, \<open>HasRedisConfig\<close> with \<open>PingRedis\<close>, which is
  down without a client, and \<open>HasKafkaConfig\<close>, which asks for the producer.
\<close>

definition ready :: "deployment \<Rightarrow> ping \<Rightarrow> ping \<Rightarrow> ping \<Rightarrow> nat \<times> string \<times> (string \<times> string) list" where
  "ready dp mysql redis kafka =
     Readyz (if dp_mysql dp then Some mysql else None)
       (if dp_redis_configured dp then Some (if dp_redis dp then redis else Down) else None)
       (if dp_producer dp then Some kafka else None)"

section \<open>Stopping\<close>

datatype stop_action = Stop_http | Stop_service | Stop_consumer | Stop_hub | Stop_redis | Stop_mysql

definition stop_sequence :: "deployment \<Rightarrow> stop_action list" where
  "stop_sequence dp = [Stop_http, Stop_service] @ (if dp_consumer dp then [Stop_consumer] else [])
     @ [Stop_hub] @ (if dp_redis dp then [Stop_redis] else []) @ (if dp_mysql dp then [Stop_mysql] else [])"

section \<open>What start-up guarantees\<close>

lemma migrate_None: "migrate ext ts = None \<longleftrightarrow> (\<forall>t \<in> set ts. os_migrate ext t = None)"
  by (induction ts) (auto split: option.split)

lemma start_fields:
  assumes "start lower ext (Inr cfg) = Inr dp"
  shows "dp_mysql dp \<longleftrightarrow> cf_dsn (cf_store cfg) \<noteq> ''''"
    and "dp_redis dp = connect_redis ext (cf_redis cfg)"
    and "dp_redis_configured dp \<longleftrightarrow> cf_addr (cf_redis cfg) \<noteq> ''''"
    and "(dp_producer dp, dp_consumer dp) = connect_kafka ext (cf_kafka cfg) (dp_client_id dp) (dp_mysql dp)"
    and "dp_hub dp = NewHubWithConfig (hub_config (cf_websocket cfg)) (dp_redis dp)"
    and "open_stores ext (cf_store cfg) = None" and "open_governance ext (cf_store cfg) = None"
  using assms by (auto simp: start_def Let_def split: option.splits prod.splits)

lemma start_succeeds_iff:
  "(\<exists>dp. start lower ext (Inr cfg) = Inr dp) \<longleftrightarrow>
     open_stores ext (cf_store cfg) = None \<and> open_governance ext (cf_store cfg) = None"
  by (auto simp: start_def Let_def split: option.split prod.split)

lemma all_tables: "(\<forall>t. P t) \<longleftrightarrow> P T_user \<and> P T_room \<and> P T_report \<and> P T_audit \<and> P T_mute"
  by (metis table.exhaust)

text \<open>
  Corollary (what start-up needs). The server starts exactly when the configuration loads and, if a
  database is named, the database and its five tables are there: neither Redis nor Kafka can
  stop it.
\<close>

theorem start_needs_only_mysql:
  "(\<exists>dp. start lower ext loaded = Inr dp) \<longleftrightarrow>
     (\<exists>cfg. loaded = Inr cfg \<and> (cf_dsn (cf_store cfg) = '''' \<or>
        os_mysql ext (cf_dsn (cf_store cfg)) = None \<and> (\<forall>t. os_migrate ext t = None)))"
proof (cases loaded)
  case (Inl e)
  then show ?thesis by (simp add: start_def)
next
  case (Inr cfg)
  have "open_stores ext (cf_store cfg) = None \<and> open_governance ext (cf_store cfg) = None \<longleftrightarrow>
      cf_dsn (cf_store cfg) = '''' \<or> os_mysql ext (cf_dsn (cf_store cfg)) = None \<and> (\<forall>t. os_migrate ext t = None)"
    by (auto simp: open_stores_def open_governance_def migrate_None all_tables split: option.split)
  with Inr show ?thesis by (simp add: start_succeeds_iff)
qed

text \<open>
  Corollary (degraded modes). After a start: MySQL is used if it is named; the hub publishes to
  Redis if an address is given and answered at start; there is a producer if brokers are given
  and answered, and a consumer if there is a producer and a database and the group could be
  joined. Then a danmaku is persisted through Kafka if there is a producer, else through the
  buffer if its size is positive, else directly; and \<open>Readyz\<close> reports an unreachable Redis but not a
  Kafka that was unreachable at start.
\<close>

theorem degraded_modes:
  assumes "start lower ext (Inr cfg) = Inr dp"
  shows "dp_mysql dp = (cf_dsn (cf_store cfg) \<noteq> '''') \<and>
    dp_redis dp = (cf_addr (cf_redis cfg) \<noteq> '''' \<and> os_redis_ping ext (cf_addr (cf_redis cfg)) = None) \<and>
    (hb_publish (dp_hub dp) \<noteq> None) = dp_redis dp \<and>
    dp_producer dp = (cf_brokers (cf_kafka cfg) \<noteq> [] \<and>
      os_producer ext (cf_brokers (cf_kafka cfg)) (cf_topic (cf_kafka cfg)) (dp_client_id dp) = None) \<and>
    dp_consumer dp = (dp_producer dp \<and> dp_mysql dp \<and>
      os_consumer ext (cf_brokers (cf_kafka cfg)) (cf_topic (cf_kafka cfg)) (cf_consumer_group (cf_kafka cfg))
        (dp_client_id dp) = None) \<and>
    ds_produce (wire_service cfg dp st rooms produce mods) = (if dp_producer dp then Some produce else None) \<and>
    ds_chan_cap (wire_service cfg dp st rooms produce mods) =
      (if \<not> dp_producer dp \<and> 0 < cf_async_buffer_size (cf_store cfg)
       then Some (nat (cf_async_buffer_size (cf_store cfg))) else None) \<and>
    (dp_redis_configured dp \<and> \<not> dp_redis dp \<longrightarrow> (''redis'', ''down'') \<in> set (snd (snd (ready dp p q r)))) \<and>
    (\<not> dp_producer dp \<longrightarrow> (''kafka'', ''disabled'') \<in> set (snd (snd (ready dp p q r))))"
proof -
  note f = start_fields [OF assms]
  have k: "dp_producer dp = (cf_brokers (cf_kafka cfg) \<noteq> [] \<and>
      os_producer ext (cf_brokers (cf_kafka cfg)) (cf_topic (cf_kafka cfg)) (dp_client_id dp) = None)"
    "dp_consumer dp = (dp_producer dp \<and> dp_mysql dp \<and>
      os_consumer ext (cf_brokers (cf_kafka cfg)) (cf_topic (cf_kafka cfg)) (cf_consumer_group (cf_kafka cfg))
        (dp_client_id dp) = None)"
    using f(4) by (auto simp: connect_kafka_def split: if_splits)
  have r: "dp_redis dp = (cf_addr (cf_redis cfg) \<noteq> '''' \<and> os_redis_ping ext (cf_addr (cf_redis cfg)) = None)"
    using f(2) by (simp add: connect_redis_def)
  have h: "(hb_publish (dp_hub dp) \<noteq> None) = dp_redis dp"
    using f(5) by (simp add: NewHubWithConfig_def)
  have w: "ds_produce (wire_service cfg dp st rooms produce mods) = (if dp_producer dp then Some produce else None)"
    "ds_chan_cap (wire_service cfg dp st rooms produce mods) =
      (if \<not> dp_producer dp \<and> 0 < cf_async_buffer_size (cf_store cfg)
       then Some (nat (cf_async_buffer_size (cf_store cfg))) else None)"
    by (simp_all add: wire_service_def NewDanmakuService_def)
  have y: "dp_redis_configured dp \<and> \<not> dp_redis dp \<Longrightarrow> (''redis'', ''down'') \<in> set (snd (snd (ready dp p q r)))"
    "\<not> dp_producer dp \<Longrightarrow> (''kafka'', ''disabled'') \<in> set (snd (snd (ready dp p q r)))"
    by (simp_all add: ready_def Readyz_def Let_def split: if_split)
  show ?thesis using f(1) k r h w y by blast
qed

text \<open>A service that produces to Kafka leaves the memory store and the buffer as they are.\<close>

lemma produce_leaves_store:
  assumes "ds_produce sv \<noteq> None" and "ds_store sv = memory_store_ops srt"
    and "send_outcome sv new_id clk req w result w'"
  shows "mw_danmaku (dw_mod w') = mw_danmaku (dw_mod w) \<and> dw_chan w' = dw_chan w \<and>
    mw_users (dw_mod w') = mw_users (dw_mod w) \<and> mw_reports (dw_mod w') = mw_reports (dw_mod w)"
  using assms
  by (cases result)
    (auto simp: send_outcome_def not_taken_def taken_def same_frame_def memory_store_ops_def Add_def)

definition nothing_stored :: "'r mem_dm_world \<Rightarrow> bool" where
  "nothing_stored w \<longleftrightarrow> mem_good (dw_mod w) \<and> all_danmaku w = []"

lemma produce_keeps_empty:
  assumes "ds_produce sv \<noteq> None" and "ds_store sv = memory_store_ops srt"
    and "send_outcome sv new_id clk req w result w'" and "nothing_stored w"
  shows "nothing_stored w'"
  using produce_leaves_store [OF assms(1-3)] assms(4)
  by (simp add: nothing_stored_def mem_good_def all_danmaku_def)

lemma moderate_keeps_empty:
  assumes "mod_step (mem_service srt rsrt mord hub mar tx aca ar fc) (dw_mod w) m" and "nothing_stored w"
  shows "nothing_stored (w\<lparr>dw_mod := m\<rparr>)"
proof -
  have g: "mem_mod.mod_good (dw_mod w)" using assms(2) by (simp add: nothing_stored_def mem_good_iff)
  have m: "mem_good m" using mem_mod.step_effect(1) [OF assms(1) g] by (simp add: mem_good_iff)
  have "dom (stored (mw_danmaku m)) = dom (stored (mw_danmaku (dw_mod w)))"
    using mem_mod.step_effect(2) [OF assms(1) g] unfolding review_moves_def by (elim disjE exE conjE) simp_all
  then have "d_id ` set (danmakus (mw_danmaku m)) = d_id ` set (danmakus (mw_danmaku (dw_mod w)))"
    by (simp add: ids_stored)
  with m assms(2) show ?thesis by (simp add: nothing_stored_def all_danmaku_def)
qed

lemma dm_step_keeps_empty:
  assumes "ds_produce sv \<noteq> None" and "ds_store sv = memory_store_ops srt"
    and "ds_moderation sv = Some (mem_service srt rsrt mord hub mar tx aca ar fc)"
    and "dm_step jd sv w w'" and "nothing_stored w"
  shows "nothing_stored w'"
  using assms(4)
proof (cases rule: dm_step.cases)
  case (step_create new_id clk req res)
  from produce_keeps_empty [OF assms(1,2) CreateDanmaku_sends(1) [OF step_create(2)] assms(5)] show ?thesis .
next
  case (step_message new_id clk room actor data r)
  from step_message(2) show ?thesis
  proof (cases rule: HandleMessage_sends)
    case 1
    with assms(5) show ?thesis by simp
  next
    case (2 req res)
    from produce_keeps_empty [OF assms(1,2) createAndBroadcast_outcome [OF 2(5)] assms(5)] show ?thesis .
  qed
next
  case step_drain
  with assms(5) show ?thesis by (simp add: danmakuConsumer_def nothing_stored_def all_danmaku_def)
next
  case (step_moderate ms m)
  with moderate_keeps_empty [of srt rsrt mord hub mar tx aca ar fc w m] assms(3,5) show ?thesis by simp
next
  case (step_rooms rs)
  then show ?thesis using assms(5) by (simp add: nothing_stored_def all_danmaku_def)
next
  case step_stop
  then show ?thesis using assms(5) by (simp add: nothing_stored_def all_danmaku_def)
qed

text \<open>What a service that produces to Kafka answers when it lets a danmaku in, and where the danmaku went.\<close>

lemma produced_answer:
  assumes "createAndBroadcast sv new_id clk req w = Some (Inr (dm, p), w')" and "ds_produce sv \<noteq> None"
  shows "p = ''persisted'' \<and> dw_produced w' = dw_produced w @ [dm]"
proof -
  have "p = ''persisted''"
    using assms(1)
  proof (cases rule: createAndBroadcast_cases)
    case (2 flagged rl w1)
    from persist_and_send_effect [OF 2(5)] assms(2) show ?thesis by simp
  qed simp
  moreover from createAndBroadcast_outcome [OF assms(1)] have "taken sv dm w w'" by (auto simp: send_outcome_def)
  ultimately show ?thesis using assms(2) by (simp add: taken_def)
qed

text \<open>
  Property C20 (Kafka without a database). A server that is started without a database and whose Kafka producer could
  be created (the brokers answered at the start) has no consumer. Its memory store and its buffer stay empty through any
  sequence of sendings, reviews, turns and room changes. In every such state a danmaku that is let in goes to Kafka and
  nowhere else, and is answered as \<open>persisted\<close> all the same: this server never shows it in a list or a history,
  and it cannot be reviewed.
\<close>

theorem kafka_without_database_stores_nothing:
  assumes "start lower ext (Inr cfg) = Inr dp" and "dp_producer dp" and "cf_dsn (cf_store cfg) = ''''"
    and "sv = wire_service cfg dp (memory_store_ops srt) rooms produce (mem_service srt rsrt mord hub mar tx aca ar fc)"
    and "(dm_step jd sv)\<^sup>*\<^sup>* w w'" and "mem_good (dw_mod w)" and "all_danmaku w = []"
  shows "\<not> dp_consumer dp \<and> danmakus (mw_danmaku (dw_mod w')) = [] \<and> dw_chan w' = [] \<and>
    (\<forall>new_id clk req dm p w''. createAndBroadcast sv new_id clk req w' = Some (Inr (dm, p), w'') \<longrightarrow>
      p = ''persisted'' \<and> dw_produced w'' = dw_produced w' @ [dm] \<and>
      danmakus (mw_danmaku (dw_mod w'')) = [] \<and> dw_chan w'' = [])"
proof -
  have sv: "ds_produce sv \<noteq> None" "ds_store sv = memory_store_ops srt"
    "ds_moderation sv = Some (mem_service srt rsrt mord hub mar tx aca ar fc)"
    using assms(2) by (simp_all add: assms(4) wire_service_def NewDanmakuService_def)
  have n: "nothing_stored w'"
    using assms(5)
  proof (induction rule: rtranclp_induct)
    case base
    show ?case using assms(6,7) by (simp add: nothing_stored_def)
  next
    case (step v u)
    then show ?case using dm_step_keeps_empty [OF sv] by blast
  qed
  have "p = ''persisted'' \<and> dw_produced w'' = dw_produced w' @ [dm] \<and>
      danmakus (mw_danmaku (dw_mod w'')) = [] \<and> dw_chan w'' = []"
    if c: "createAndBroadcast sv new_id clk req w' = Some (Inr (dm, p), w'')" for new_id clk req dm p w''
    using produced_answer [OF c sv(1)] produce_keeps_empty [OF sv(1,2) createAndBroadcast_outcome [OF c] n]
    by (simp add: nothing_stored_def all_danmaku_def)
  moreover have "\<not> dp_consumer dp"
    using start_fields(1,4) [OF assms(1)] assms(3) by (simp add: connect_kafka_def split: if_splits)
  ultimately show ?thesis using n by (simp add: nothing_stored_def all_danmaku_def)
qed

section \<open>Witnesses\<close>

definition calm :: outside where
  "calm = \<lparr>os_hostname = ''h'', os_pid = ''1'', os_uuid = ''0123456789'', os_redis_ping = (\<lambda>a. None), os_mysql = (\<lambda>d. None),
     os_migrate = (\<lambda>t. None), os_producer = (\<lambda>b t c. None), os_consumer = (\<lambda>b t g c. None)\<rparr>"

text \<open>The defaults with brokers: no Redis, no database.\<close>

definition brokers_only :: "int config" where
  "brokers_only = Default\<lparr>cf_kafka := (cf_kafka (Default :: int config))\<lparr>cf_brokers := [''k:9092'']\<rparr>\<rparr>"

lemma brokers_only_simps [simp]:
  "cf_dsn (cf_store brokers_only) = ''''" "cf_brokers (cf_kafka brokers_only) = [''k:9092'']"
  by (simp_all add: brokers_only_def Default_def)

lemma brokers_only_starts: "\<exists>dp. start lower calm (Inr brokers_only) = Inr dp"
  by (simp add: start_succeeds_iff open_stores_def open_governance_def)

theorem degraded_modes_witness:
  "\<exists>dp. start id calm (Inr brokers_only) = Inr dp \<and> dp_producer dp \<and> \<not> dp_consumer dp"
proof -
  obtain dp where s: "start id calm (Inr brokers_only) = Inr dp" using brokers_only_starts by blast
  from degraded_modes [OF s, where st = "memory_store_ops insertion_sort" and rooms = "memory_room_ops (\<lambda>s. [])"
      and produce = "\<lambda>dm. None" and mods = sample_service and p = Up and q = Up and r = Up]
  have "dp_producer dp" and "\<not> dp_consumer dp" by (simp_all add: calm_def)
  with s show ?thesis by blast
qed

definition empty_world :: "room_mem mem_dm_world" where
  "empty_world = sample_dm_world\<lparr>dw_mod := sample_world\<lparr>mw_danmaku := DanmakuStore.New\<rparr>\<rparr>"

lemma empty_world_ok: "mem_good (dw_mod empty_world)" "all_danmaku empty_world = []"
  using sample_world_good
  by (simp_all add: empty_world_def sample_dm_world_def mem_good_def all_danmaku_def DanmakuStore.New_def store_good_def)

definition kafka_service :: "deployment \<Rightarrow> room_mem mem_service_rec" where
  "kafka_service dp = wire_service brokers_only dp (memory_store_ops insertion_sort) (memory_room_ops (\<lambda>s. []))
     (\<lambda>dm. None) sample_service"

text \<open>The acknowledged danmaku of a live room, and the empty store after it.\<close>

lemma empty_world_created:
  assumes "dp_producer dp"
  shows "\<exists>w'. CreateDanmaku (kafka_service dp) ''n'' (\<lambda>k. 5) (sample_request ''so'') empty_world =
    Some (Inr (sent_danmaku ''n'' 5 (sample_request ''so'') False), w')"
proof -
  have sv: "kafka_service dp = \<lparr>ds_store = memory_store_ops insertion_sort, ds_chan_cap = None, ds_limited = True,
      ds_produce = Some (\<lambda>dm. None), ds_status = Some (GetStatus (memory_room_ops (\<lambda>s. []))),
      ds_moderation = Some sample_service\<rparr>"
    using assms by (simp add: kafka_service_def wire_service_def NewDanmakuService_def)
  have p: "passes (kafka_service dp) now (sample_request ''so'') empty_world False" for now
    using sample_passes [of None now] unfolding sv
    by (simp add: passes_def sample_sender_def empty_world_def sample_dm_world_def moderation_verdict_def
        CheckUserBan_def CheckMute_def)
  have "let_through (kafka_service dp) (\<lambda>k. 5) (sample_request ''so'') empty_world False"
    using p sample_request_valid(2)
    by (simp add: let_through_def empty_world_def sample_dm_world_def sv Allow_def newRateLimiter_def)
  moreover have "accepts (kafka_service dp) dm empty_world" for dm by (simp add: accepts_def sv)
  ultimately obtain p w' where "createAndBroadcast (kafka_service dp) ''n'' (\<lambda>k. 5) (sample_request ''so'') empty_world =
      Some (Inr (sent_danmaku ''n'' 5 (sample_request ''so'') False, p), w')"
    using createAndBroadcast_succeeds by fastforce
  moreover have "validateRoomForSend (kafka_service dp) (cr_room_id (sample_request ''so'')) (dw_rooms empty_world) = None"
    using sample_room_open [of sample_service None]
    by (simp add: validateRoomForSend_def sv sample_sender_def empty_world_def sample_request_def)
  ultimately show ?thesis by (simp add: CreateDanmaku_def)
qed

theorem kafka_without_database_stores_nothing_witness:
  "\<exists>dp dm w'. start id calm (Inr brokers_only) = Inr dp \<and>
     CreateDanmaku (kafka_service dp) ''n'' (\<lambda>k. 5) (sample_request ''so'') empty_world = Some (Inr dm, w') \<and>
     \<not> dp_consumer dp \<and> danmakus (mw_danmaku (dw_mod w')) = [] \<and> dw_chan w' = []"
proof -
  obtain dp where s: "start id calm (Inr brokers_only) = Inr dp" using brokers_only_starts by blast
  have p: "dp_producer dp"
    using start_fields(4) [OF s] by (simp add: connect_kafka_def calm_def)
  from empty_world_created [OF p] obtain w' where
    c: "CreateDanmaku (kafka_service dp) ''n'' (\<lambda>k. 5) (sample_request ''so'') empty_world =
      Some (Inr (sent_danmaku ''n'' 5 (sample_request ''so'') False), w')" by blast
  have "known empty_world ''n'' = None" using empty_world_ok(2) by (simp add: known_def)
  from dm_step.step_create [OF this c]
  have "(dm_step sample_decoder (kafka_service dp))\<^sup>*\<^sup>* empty_world w'" by blast
  from kafka_without_database_stores_nothing [OF s p _ _ this empty_world_ok] c s
  show ?thesis by (auto simp: kafka_service_def sample_service_def)
qed

end
