(* ===== verification/MySQLStores.thy ===== *)
theory MySQLStores
  imports DanmakuStore RoomStore GovernanceStores UserStore
begin

text \<open>
  The MySQL stores: \<open>store/mysql.go\<close>, \<open>room_mysql.go\<close>, \<open>auth_mysql.go\<close> and \<open>moderation_mysql.go\<close>. Each method is
  the query it builds with GORM and what it makes of the answer; GORM and the server are the argument
  \<open>g\<close>, a record of the calls that the stores make. \<open>gorm_spec\<close> states what GORM and MySQL document of
  them. Two things of the server are left open: \<open>w\<close> maps a text to its weights under the
  collation of the columns, by which \<open>=\<close>, \<open><\<close> and \<open>ORDER BY\<close> compare, and \<open>pr\<close> rounds an instant to the
  precision of the columns. A nil slice and an empty one are both the empty list.
\<close>

section \<open>Queries\<close>

datatype sql_value = V_text string | V_time time | V_int int | V_bool bool | V_null

datatype condition =
    C_eq string sql_value
  | C_ne string sql_value
  | C_gt string sql_value
  | C_and condition condition
  | C_or condition condition

record query =
  q_where :: "condition list"
  q_order :: "(string \<times> bool) list"
  q_limit :: int
  q_offset :: int

text \<open>A query without clauses; a negative limit or offset is none.\<close>

definition db :: query where
  "db = \<lparr>q_where = [], q_order = [], q_limit = - 1, q_offset = - 1\<rparr>"

definition Where :: "condition \<Rightarrow> query \<Rightarrow> query" where
  "Where c q = q\<lparr>q_where := q_where q @ [c]\<rparr>"

definition Order :: "(string \<times> bool) list \<Rightarrow> query \<Rightarrow> query" where
  "Order cs q = q\<lparr>q_order := q_order q @ cs\<rparr>"

definition Limit :: "int \<Rightarrow> query \<Rightarrow> query" where
  "Limit n q = q\<lparr>q_limit := n\<rparr>"

definition Offset :: "int \<Rightarrow> query \<Rightarrow> query" where
  "Offset n q = q\<lparr>q_offset := n\<rparr>"

datatype 'row first_result = Found 'row | Record_not_found | First_error go_error

text \<open>
  The calls on one table. \<open>Find\<close> returns its error beside the rows it has filled in; \<open>Updates\<close> takes
  the instant of the call, and returns the affected rows and the error.
\<close>

record ('row, 's) gorm =
  g_create :: "'row \<Rightarrow> 's \<Rightarrow> go_error option \<times> 's"
  g_first :: "query \<Rightarrow> 's \<Rightarrow> 'row first_result"
  g_find :: "query \<Rightarrow> 's \<Rightarrow> go_error option \<times> 'row list"
  g_updates :: "time \<Rightarrow> query \<Rightarrow> (string \<times> sql_value) list \<Rightarrow> 's \<Rightarrow> (int \<times> go_error option) \<times> 's"
  g_count :: "query \<Rightarrow> 's \<Rightarrow> go_error option \<times> int"
  g_delete :: "query \<Rightarrow> 's \<Rightarrow> go_error option \<times> 's"

section \<open>store/mysql.go\<close>

abbreviation approved_in :: "string \<Rightarrow> condition" where
  "approved_in rid \<equiv> C_and (C_eq ''room_id'' (V_text rid)) (C_eq ''status'' (V_text DanmakuStatusApproved))"

definition Danmaku_Add :: "(danmaku, 's) gorm \<Rightarrow> danmaku \<Rightarrow> 's \<Rightarrow> go_error option \<times> 's" where
  "Danmaku_Add g dm s = g_create g dm s"

text \<open>The swaps of the loops \<open>for i, j := 0, len(list)-1; i < j; \<dots>\<close> are \<open>swap_reverse\<close>.\<close>

definition Danmaku_List :: "(danmaku, 's) gorm \<Rightarrow> int \<Rightarrow> 's \<Rightarrow> danmaku list" where
  "Danmaku_List g limit s =
     (let list = snd (g_find g (Limit limit (Order [(''created_at'', True)] db)) s)
      in swap_reverse 0 (length list - 1) list)"

definition Danmaku_ListSince :: "(danmaku, 's) gorm \<Rightarrow> string \<Rightarrow> time \<Rightarrow> string \<Rightarrow> int \<Rightarrow> 's
  \<Rightarrow> go_error + danmaku list" where
  "Danmaku_ListSince g rid since_time last_id limit s =
     (case g_find g (Limit limit (Order [(''created_at'', False), (''id'', False)]
         (Where (C_or (C_gt ''created_at'' (V_time since_time))
                   (C_and (C_eq ''created_at'' (V_time since_time)) (C_gt ''id'' (V_text last_id))))
           (Where (approved_in rid) db)))) s of
        (Some e, list) \<Rightarrow> Inl e
      | (None, list) \<Rightarrow> Inr list)"

definition Danmaku_ListByRoom :: "(danmaku, 's) gorm \<Rightarrow> string \<Rightarrow> int \<Rightarrow> 's \<Rightarrow> danmaku list option" where
  "Danmaku_ListByRoom g rid limit s =
     (let list = snd (g_find g (Limit limit (Order [(''created_at'', True)] (Where (approved_in rid) db))) s)
      in Some (swap_reverse 0 (length list - 1) list))"

definition Danmaku_FindByID :: "(danmaku, 's) gorm \<Rightarrow> string \<Rightarrow> 's \<Rightarrow> go_error + danmaku option" where
  "Danmaku_FindByID g i s =
     (case g_first g (Where (C_eq ''id'' (V_text i)) db) s of
        Record_not_found \<Rightarrow> Inr None
      | First_error e \<Rightarrow> Inl (Errorf ''find danmaku by id: '' e '''')
      | Found dm \<Rightarrow> Inr (Some dm))"

text \<open>The result is \<open>Inl\<close> where the error is set; the callers look at the count only otherwise.\<close>

definition Danmaku_UpdateStatus :: "(danmaku, 's) gorm \<Rightarrow> time \<Rightarrow> string \<Rightarrow> string \<Rightarrow> string \<Rightarrow> string \<Rightarrow> time
  \<Rightarrow> 's \<Rightarrow> (go_error + int) \<times> 's" where
  "Danmaku_UpdateStatus g now i status reviewed_by reason reviewed_at s =
     (let ((affected, err), s) = g_updates g now (Where (C_eq ''id'' (V_text i)) db)
            [(''status'', V_text status), (''reviewed_by'', V_text reviewed_by),
             (''reviewed_at'', V_time reviewed_at), (''review_reason'', V_text reason)] s
      in ((case err of Some e \<Rightarrow> Inl e | None \<Rightarrow> Inr affected), s))"

definition Danmaku_ListByStatus :: "(danmaku, 's) gorm \<Rightarrow> string \<Rightarrow> string \<Rightarrow> int \<Rightarrow> 's \<Rightarrow> go_error + danmaku list" where
  "Danmaku_ListByStatus g rid status limit s =
     (let q = Where (C_eq ''status'' (V_text status)) db;
          q = (if rid \<noteq> '''' then Where (C_eq ''room_id'' (V_text rid)) q else q);
          q = (if 0 < limit then Limit limit q else q)
      in case g_find g (Order [(''created_at'', True)] q) s of
           (Some e, list) \<Rightarrow> Inl e
         | (None, list) \<Rightarrow> Inr list)"

definition mysql_store_ops :: "(danmaku, 's) gorm \<Rightarrow> ('s \<Rightarrow> bool) \<Rightarrow> 's store_ops" where
  "mysql_store_ops g ping = \<lparr>st_Add = Danmaku_Add g, st_ListByRoom = Danmaku_ListByRoom g,
     st_ListSince = Danmaku_ListSince g, st_Ping = ping\<rparr>"

definition mysql_danmaku_ops :: "(danmaku, 's) gorm \<Rightarrow> time \<Rightarrow> 's danmaku_ops" where
  "mysql_danmaku_ops g now = \<lparr>do_FindByID = Danmaku_FindByID g, do_UpdateStatus = Danmaku_UpdateStatus g now,
     do_ListByStatus = Danmaku_ListByStatus g\<rparr>"

text \<open>The migration under an advisory lock: \<open>lock\<close> is what \<open>GET_LOCK\<close> returns, 1 when it was acquired.\<close>

definition migrateWithLock :: "go_error + int \<Rightarrow> go_error option \<Rightarrow> go_error option" where
  "migrateWithLock lock auto_migrate =
     (case lock of
        Inl e \<Rightarrow> Some (Errorf ''acquire migration lock: '' e '''')
      | Inr acquired \<Rightarrow>
          if acquired \<noteq> 1 then Some (ErrNew ''acquire migration lock: timed out'')
          else (case auto_migrate of Some e \<Rightarrow> Some (Errorf ''auto migrate: '' e '''') | None \<Rightarrow> None))"

section \<open>store/room_mysql.go\<close>

definition Rooms_Create :: "(room, 's) gorm \<Rightarrow> room \<Rightarrow> 's \<Rightarrow> go_error option \<times> 's" where
  "Rooms_Create g r s = g_create g r s"

definition Rooms_FindByID :: "(room, 's) gorm \<Rightarrow> string \<Rightarrow> 's \<Rightarrow> go_error + room option" where
  "Rooms_FindByID g i s =
     (case g_first g (Where (C_eq ''id'' (V_text i)) db) s of
        Record_not_found \<Rightarrow> Inr None
      | First_error e \<Rightarrow> Inl (Errorf ''find room by id: '' e '''')
      | Found r \<Rightarrow> Inr (Some r))"

definition Rooms_ListByStatus :: "(room, 's) gorm \<Rightarrow> string \<Rightarrow> int \<Rightarrow> 's \<Rightarrow> (go_error + room list) option" where
  "Rooms_ListByStatus g status limit s =
     Some (case g_find g (Limit limit (Order [(''created_at'', True)] (Where (C_eq ''status'' (V_text status)) db))) s of
        (Some e, list) \<Rightarrow> Inl (Errorf ''list rooms by status: '' e '''')
      | (None, list) \<Rightarrow> Inr list)"

text \<open>The error of \<open>Count\<close> is not looked at; the count is zero then.\<close>

definition Rooms_UpdateStatus :: "(room, 's) gorm \<Rightarrow> time \<Rightarrow> string \<Rightarrow> string \<Rightarrow> string \<Rightarrow> time \<Rightarrow> 's
  \<Rightarrow> go_error option \<times> 's" where
  "Rooms_UpdateStatus g clock i from to changed_at s =
     (let now = truncate_ms clock;
          updates = [(''status'', V_text to), (''updated_at'', V_time now)]
            @ (if to = RoomStatusLive then [(''started_at'', V_time now)] else [])
            @ (if to = RoomStatusEnded then [(''ended_at'', V_time (truncate_ms changed_at))] else []);
          ((affected, err), s) = g_updates g clock
            (Where (C_and (C_eq ''id'' (V_text i)) (C_eq ''status'' (V_text from))) db) updates s
      in case err of
           Some e \<Rightarrow> (Some (Errorf ''update room status: '' e ''''), s)
         | None \<Rightarrow>
             if affected = 0 then
               (let (e, n) = g_count g (Where (C_eq ''id'' (V_text i)) db) s;
                    cnt = (if e = None then n else 0)
                in (Some (if cnt = 0 then StoreErrRoomNotFound else StoreErrRoomStatusConflict), s))
             else (None, s))"

definition mysql_room_ops :: "(room, 's) gorm \<Rightarrow> 's room_ops" where
  "mysql_room_ops g = \<lparr>ro_Create = Rooms_Create g, ro_FindByID = Rooms_FindByID g,
     ro_ListByStatus = Rooms_ListByStatus g, ro_UpdateStatus = Rooms_UpdateStatus g\<rparr>"

section \<open>store/auth_mysql.go\<close>

definition isDuplicateEntry :: "go_error \<Rightarrow> bool" where
  "isDuplicateEntry e \<longleftrightarrow> Contains (error_text e) ''Duplicate entry'' \<or> Contains (error_text e) ''UNIQUE constraint failed''"

definition Users_Create :: "(user, 's) gorm \<Rightarrow> user \<Rightarrow> 's \<Rightarrow> go_error option \<times> 's" where
  "Users_Create g u s =
     (case g_create g u s of
        (None, s) \<Rightarrow> (None, s)
      | (Some e, s) \<Rightarrow>
          (Some (if isDuplicateEntry e then StoreErrDuplicateUsername else Errorf ''create user: '' e ''''), s))"

definition Users_FindByID :: "(user, 's) gorm \<Rightarrow> string \<Rightarrow> 's \<Rightarrow> go_error + user option" where
  "Users_FindByID g i s =
     (case g_first g (Where (C_eq ''id'' (V_text i)) db) s of
        Record_not_found \<Rightarrow> Inr None
      | First_error e \<Rightarrow> Inl (Errorf ''find user by id: '' e '''')
      | Found u \<Rightarrow> Inr (Some u))"

definition Users_FindByUsername :: "(user, 's) gorm \<Rightarrow> string \<Rightarrow> 's \<Rightarrow> go_error + user option" where
  "Users_FindByUsername g n s =
     (case g_first g (Where (C_eq ''username'' (V_text n)) db) s of
        Record_not_found \<Rightarrow> Inr None
      | First_error e \<Rightarrow> Inl (Errorf ''find user by username: '' e '''')
      | Found u \<Rightarrow> Inr (Some u))"

definition Users_UpdateRole :: "(user, 's) gorm \<Rightarrow> time \<Rightarrow> string \<Rightarrow> string \<Rightarrow> 's \<Rightarrow> go_error option \<times> 's" where
  "Users_UpdateRole g now i role s =
     (let ((affected, err), s) = g_updates g now (Where (C_eq ''id'' (V_text i)) db) [(''role'', V_text role)] s in (err, s))"

definition Users_BanUser :: "(user, 's) gorm \<Rightarrow> time \<Rightarrow> string \<Rightarrow> string \<Rightarrow> string \<Rightarrow> 's \<Rightarrow> go_error option \<times> 's" where
  "Users_BanUser g now i reason banned_by s =
     (let ((affected, err), s) = g_updates g now (Where (C_eq ''id'' (V_text i)) db)
            [(''banned'', V_bool True), (''banned_at'', V_time now), (''banned_reason'', V_text reason),
             (''banned_by'', V_text banned_by)] s in (err, s))"

definition Users_UnbanUser :: "(user, 's) gorm \<Rightarrow> time \<Rightarrow> string \<Rightarrow> 's \<Rightarrow> go_error option \<times> 's" where
  "Users_UnbanUser g now i s =
     (let ((affected, err), s) = g_updates g now (Where (C_eq ''id'' (V_text i)) db)
            [(''banned'', V_bool False), (''banned_at'', V_null), (''banned_reason'', V_text ''''),
             (''banned_by'', V_text '''')] s in (err, s))"

definition Users_ListBanned :: "(user, 's) gorm \<Rightarrow> 's \<Rightarrow> go_error + user list" where
  "Users_ListBanned g s =
     (case g_find g (Where (C_eq ''banned'' (V_bool True)) db) s of
        (Some e, users) \<Rightarrow> Inl (Errorf ''list banned users: '' e '''')
      | (None, users) \<Rightarrow> Inr users)"

definition Users_HasAdminOtherThan :: "(user, 's) gorm \<Rightarrow> string \<Rightarrow> 's \<Rightarrow> go_error + bool" where
  "Users_HasAdminOtherThan g exclude s =
     (case g_count g (Where (C_and (C_ne ''id'' (V_text exclude)) (C_eq ''role'' (V_text RoleAdmin))) db) s of
        (Some e, n) \<Rightarrow> Inl (Errorf ''count other admins: '' e '''')
      | (None, n) \<Rightarrow> Inr (0 < n))"

definition mysql_user_ops :: "(user, 's) gorm \<Rightarrow> time \<Rightarrow> 's user_ops" where
  "mysql_user_ops g now = \<lparr>uo_Create = Users_Create g, uo_FindByID = Users_FindByID g,
     uo_FindByUsername = Users_FindByUsername g, uo_UpdateRole = Users_UpdateRole g now,
     uo_BanUser = Users_BanUser g, uo_UnbanUser = Users_UnbanUser g now,
     uo_ListBannedUsers = Users_ListBanned g, uo_HasAdminOtherThan = Users_HasAdminOtherThan g\<rparr>"

section \<open>store/moderation_mysql.go\<close>

definition Reports_Create :: "(report, 's) gorm \<Rightarrow> report \<Rightarrow> 's \<Rightarrow> go_error option \<times> 's" where
  "Reports_Create g r s =
     (case g_create g r s of
        (None, s) \<Rightarrow> (None, s)
      | (Some e, s) \<Rightarrow> (Some (if Contains (error_text e) ''Duplicate entry'' then ErrDuplicateReport else e), s))"

definition Reports_FindByID :: "(report, 's) gorm \<Rightarrow> string \<Rightarrow> 's \<Rightarrow> go_error + report option" where
  "Reports_FindByID g i s =
     (case g_first g (Where (C_eq ''id'' (V_text i)) db) s of
        Record_not_found \<Rightarrow> Inr None
      | First_error e \<Rightarrow> Inl (Errorf ''find report by id: '' e '''')
      | Found r \<Rightarrow> Inr (Some r))"

definition Reports_FindByDanmakuAndReporter :: "(report, 's) gorm \<Rightarrow> string \<Rightarrow> string \<Rightarrow> 's
  \<Rightarrow> go_error + report option" where
  "Reports_FindByDanmakuAndReporter g danmaku_id reporter_id s =
     (case g_first g (Where (C_and (C_eq ''danmaku_id'' (V_text danmaku_id))
            (C_eq ''reporter_user_id'' (V_text reporter_id))) db) s of
        Record_not_found \<Rightarrow> Inr None
      | First_error e \<Rightarrow> Inl (Errorf ''find report by danmaku and reporter: '' e '''')
      | Found r \<Rightarrow> Inr (Some r))"

definition Reports_ListByStatus :: "(report, 's) gorm \<Rightarrow> string \<Rightarrow> int \<Rightarrow> 's \<Rightarrow> go_error + report list" where
  "Reports_ListByStatus g status limit s =
     (let q = Where (C_eq ''status'' (V_text status)) db;
          q = (if 0 < limit then Limit limit q else q)
      in case g_find g (Order [(''created_at'', True)] q) s of
           (Some e, reports) \<Rightarrow> Inl (Errorf ''list reports by status: '' e '''')
         | (None, reports) \<Rightarrow> Inr reports)"

definition Reports_UpdateStatus :: "(report, 's) gorm \<Rightarrow> time \<Rightarrow> string \<Rightarrow> string \<Rightarrow> string \<Rightarrow> time \<Rightarrow> 's
  \<Rightarrow> go_error option \<times> 's" where
  "Reports_UpdateStatus g now i status resolved_by resolved_at s =
     (let ((affected, err), s) = g_updates g now (Where (C_eq ''id'' (V_text i)) db)
            [(''status'', V_text status), (''resolved_by'', V_text resolved_by),
             (''resolved_at'', V_time resolved_at)] s in (err, s))"

definition mysql_report_ops :: "(report, 's) gorm \<Rightarrow> time \<Rightarrow> 's report_ops" where
  "mysql_report_ops g now = \<lparr>po_Create = Reports_Create g, po_FindByID = Reports_FindByID g,
     po_FindByDanmakuAndReporter = Reports_FindByDanmakuAndReporter g,
     po_ListByStatus = Reports_ListByStatus g, po_UpdateStatus = Reports_UpdateStatus g now\<rparr>"

definition Audit_Add :: "(audit_log, 's) gorm \<Rightarrow> audit_log \<Rightarrow> 's \<Rightarrow> go_error option \<times> 's" where
  "Audit_Add g entry s = g_create g entry s"

definition Audit_List :: "(audit_log, 's) gorm \<Rightarrow> int \<Rightarrow> int \<Rightarrow> 's \<Rightarrow> (go_error + audit_log list) option" where
  "Audit_List g limit offset s =
     Some (case g_find g (Offset offset (Limit limit (Order [(''created_at'', True)] db))) s of
        (Some e, logs) \<Rightarrow> Inl (Errorf ''list audit logs: '' e '''')
      | (None, logs) \<Rightarrow> Inr logs)"

definition mysql_audit_ops :: "(audit_log, 's) gorm \<Rightarrow> 's audit_ops" where
  "mysql_audit_ops g = \<lparr>ao_Add = Audit_Add g, ao_List = Audit_List g\<rparr>"

definition Mutes_Create :: "(mute, 's) gorm \<Rightarrow> mute \<Rightarrow> 's \<Rightarrow> go_error option \<times> 's" where
  "Mutes_Create g m s = g_create g m s"

definition Mutes_FindActive :: "(mute, 's) gorm \<Rightarrow> time \<Rightarrow> string \<Rightarrow> string \<Rightarrow> 's \<Rightarrow> go_error + mute option" where
  "Mutes_FindActive g now user_id room_id s =
     (case g_first g (Where (C_and (C_and (C_eq ''user_id'' (V_text user_id)) (C_eq ''room_id'' (V_text room_id)))
            (C_gt ''expires_at'' (V_time now))) db) s of
        Record_not_found \<Rightarrow> Inr None
      | First_error e \<Rightarrow> Inl (Errorf ''find active mute: '' e '''')
      | Found m \<Rightarrow> Inr (Some m))"

definition Mutes_Delete :: "(mute, 's) gorm \<Rightarrow> string \<Rightarrow> string \<Rightarrow> 's \<Rightarrow> go_error option \<times> 's" where
  "Mutes_Delete g user_id room_id s =
     g_delete g (Where (C_and (C_eq ''user_id'' (V_text user_id)) (C_eq ''room_id'' (V_text room_id))) db) s"

definition Mutes_ListActive :: "(mute, 's) gorm \<Rightarrow> time \<Rightarrow> string \<Rightarrow> 's \<Rightarrow> go_error + mute list" where
  "Mutes_ListActive g now room_id s =
     (case g_find g (Where (C_and (C_eq ''room_id'' (V_text room_id)) (C_gt ''expires_at'' (V_time now))) db) s of
        (Some e, mutes) \<Rightarrow> Inl (Errorf ''list active mutes: '' e '''')
      | (None, mutes) \<Rightarrow> Inr mutes)"

definition mysql_mute_ops :: "(mute, 's) gorm \<Rightarrow> 's mute_ops" where
  "mysql_mute_ops g = \<lparr>mo_Create = Mutes_Create g, mo_FindActiveByUserAndRoom = Mutes_FindActive g,
     mo_DeleteByUserAndRoom = Mutes_Delete g, mo_ListActiveByRoom = Mutes_ListActive g\<rparr>"

section \<open>Tables\<close>

text \<open>
  The columns of a model as its \<open>gorm\<close> tags name them, what an assignment to a column does to a row, the
  primary key and the unique indexes, and whether \<open>updated_at\<close> is kept by GORM.
\<close>

record 'row schema =
  sc_column :: "'row \<Rightarrow> string \<Rightarrow> sql_value"
  sc_assign :: "string \<Rightarrow> sql_value \<Rightarrow> 'row \<Rightarrow> 'row"
  sc_keys :: "string list list"
  sc_auto_update :: bool

definition optional_time :: "time option \<Rightarrow> sql_value" where
  "optional_time t = (case t of None \<Rightarrow> V_null | Some t \<Rightarrow> V_time t)"

fun text_of :: "sql_value \<Rightarrow> string" where
  "text_of (V_text s) = s"
| "text_of v = ''''"

fun time_of :: "sql_value \<Rightarrow> time option" where
  "time_of (V_time t) = Some t"
| "time_of v = None"

definition danmaku_column :: "danmaku \<Rightarrow> string \<Rightarrow> sql_value" where
  "danmaku_column d c =
     (if c = ''id'' then V_text (d_id d) else if c = ''room_id'' then V_text (d_room_id d)
      else if c = ''created_at'' then V_time (d_timestamp d) else if c = ''user_id'' then V_text (d_user_id d)
      else if c = ''status'' then V_text (d_status d) else if c = ''content'' then V_text (d_content d)
      else if c = ''color'' then V_text (d_color d) else if c = ''danmaku_type'' then V_text (d_type d)
      else if c = ''font_size'' then V_int (d_font_size d)
      else if c = ''reviewed_by'' then V_text (d_reviewed_by d)
      else if c = ''reviewed_at'' then optional_time (d_reviewed_at d)
      else if c = ''review_reason'' then V_text (d_review_reason d) else V_null)"

definition danmaku_assign :: "string \<Rightarrow> sql_value \<Rightarrow> danmaku \<Rightarrow> danmaku" where
  "danmaku_assign c v d =
     (if c = ''status'' then d\<lparr>d_status := text_of v\<rparr>
      else if c = ''reviewed_by'' then d\<lparr>d_reviewed_by := text_of v\<rparr>
      else if c = ''reviewed_at'' then d\<lparr>d_reviewed_at := time_of v\<rparr>
      else if c = ''review_reason'' then d\<lparr>d_review_reason := text_of v\<rparr> else d)"

definition danmaku_schema :: "danmaku schema" where
  "danmaku_schema = \<lparr>sc_column = danmaku_column, sc_assign = danmaku_assign, sc_keys = [[''id'']], sc_auto_update = False\<rparr>"

definition room_column :: "room \<Rightarrow> string \<Rightarrow> sql_value" where
  "room_column r c =
     (if c = ''id'' then V_text (r_id r) else if c = ''title'' then V_text (r_title r)
      else if c = ''owner_id'' then V_text (r_owner_id r) else if c = ''status'' then V_text (r_status r)
      else if c = ''started_at'' then optional_time (r_started_at r)
      else if c = ''ended_at'' then optional_time (r_ended_at r)
      else if c = ''created_at'' then V_time (r_created_at r)
      else if c = ''updated_at'' then V_time (r_updated_at r) else V_null)"

definition room_assign :: "string \<Rightarrow> sql_value \<Rightarrow> room \<Rightarrow> room" where
  "room_assign c v r =
     (if c = ''status'' then r\<lparr>r_status := text_of v\<rparr>
      else if c = ''started_at'' then r\<lparr>r_started_at := time_of v\<rparr>
      else if c = ''ended_at'' then r\<lparr>r_ended_at := time_of v\<rparr>
      else if c = ''updated_at'' then (case v of V_time t \<Rightarrow> r\<lparr>r_updated_at := t\<rparr> | _ \<Rightarrow> r) else r)"

definition room_schema :: "room schema" where
  "room_schema = \<lparr>sc_column = room_column, sc_assign = room_assign, sc_keys = [[''id'']], sc_auto_update = True\<rparr>"

definition user_column :: "user \<Rightarrow> string \<Rightarrow> sql_value" where
  "user_column u c =
     (if c = ''id'' then V_text (u_id u) else if c = ''username'' then V_text (u_username u)
      else if c = ''role'' then V_text (u_role u) else if c = ''banned'' then V_bool (u_banned u)
      else if c = ''password_hash'' then V_text (u_password_hash u)
      else if c = ''nickname'' then V_text (u_nickname u)
      else if c = ''banned_at'' then optional_time (u_banned_at u)
      else if c = ''banned_reason'' then V_text (u_banned_reason u)
      else if c = ''banned_by'' then V_text (u_banned_by u)
      else if c = ''created_at'' then V_time (u_created_at u)
      else if c = ''updated_at'' then V_time (u_updated_at u) else V_null)"

definition user_assign :: "string \<Rightarrow> sql_value \<Rightarrow> user \<Rightarrow> user" where
  "user_assign c v u =
     (if c = ''role'' then u\<lparr>u_role := text_of v\<rparr>
      else if c = ''banned'' then u\<lparr>u_banned := (v = V_bool True)\<rparr>
      else if c = ''banned_at'' then u\<lparr>u_banned_at := time_of v\<rparr>
      else if c = ''banned_reason'' then u\<lparr>u_banned_reason := text_of v\<rparr>
      else if c = ''banned_by'' then u\<lparr>u_banned_by := text_of v\<rparr>
      else if c = ''updated_at'' then (case v of V_time t \<Rightarrow> u\<lparr>u_updated_at := t\<rparr> | _ \<Rightarrow> u) else u)"

definition user_schema :: "user schema" where
  "user_schema = \<lparr>sc_column = user_column, sc_assign = user_assign, sc_keys = [[''id''], [''username'']], sc_auto_update = True\<rparr>"

definition mute_column :: "mute \<Rightarrow> string \<Rightarrow> sql_value" where
  "mute_column m c =
     (if c = ''id'' then V_text (m_id m) else if c = ''user_id'' then V_text (m_user_id m)
      else if c = ''room_id'' then V_text (m_room_id m) else if c = ''created_by'' then V_text (m_created_by m)
      else if c = ''created_at'' then V_time (m_created_at m)
      else if c = ''expires_at'' then V_time (m_expires_at m)
      else if c = ''reason'' then V_text (m_reason m) else V_null)"

definition mute_schema :: "mute schema" where
  "mute_schema = \<lparr>sc_column = mute_column, sc_assign = (\<lambda>c v m. m), sc_keys = [[''id'']], sc_auto_update = False\<rparr>"

section \<open>What GORM and MySQL document\<close>

text \<open>A comparison with \<open>NULL\<close> is not true.\<close>

fun value_eq :: "(string \<Rightarrow> string) \<Rightarrow> sql_value \<Rightarrow> sql_value \<Rightarrow> bool" where
  "value_eq w (V_text a) (V_text b) \<longleftrightarrow> w a = w b"
| "value_eq w (V_time a) (V_time b) \<longleftrightarrow> a = b"
| "value_eq w (V_int a) (V_int b) \<longleftrightarrow> a = b"
| "value_eq w (V_bool a) (V_bool b) \<longleftrightarrow> a = b"
| "value_eq w a b \<longleftrightarrow> False"

fun value_less :: "(string \<Rightarrow> string) \<Rightarrow> sql_value \<Rightarrow> sql_value \<Rightarrow> bool" where
  "value_less w (V_text a) (V_text b) \<longleftrightarrow> w a < w b"
| "value_less w (V_time a) (V_time b) \<longleftrightarrow> a < b"
| "value_less w (V_int a) (V_int b) \<longleftrightarrow> a < b"
| "value_less w a b \<longleftrightarrow> False"

fun holds :: "(string \<Rightarrow> string) \<Rightarrow> (string \<Rightarrow> sql_value) \<Rightarrow> condition \<Rightarrow> bool" where
  "holds w col (C_eq c v) \<longleftrightarrow> value_eq w (col c) v"
| "holds w col (C_ne c v) \<longleftrightarrow> col c \<noteq> V_null \<and> v \<noteq> V_null \<and> \<not> value_eq w (col c) v"
| "holds w col (C_gt c v) \<longleftrightarrow> value_less w v (col c)"
| "holds w col (C_and a b) \<longleftrightarrow> holds w col a \<and> holds w col b"
| "holds w col (C_or a b) \<longleftrightarrow> holds w col a \<or> holds w col b"

definition selected :: "(string \<Rightarrow> string) \<Rightarrow> 'row schema \<Rightarrow> query \<Rightarrow> 'row \<Rightarrow> bool" where
  "selected w sc q r \<longleftrightarrow> (\<forall>c \<in> set (q_where q). holds w (sc_column sc r) c)"

fun row_before :: "(string \<Rightarrow> string) \<Rightarrow> (string \<Rightarrow> sql_value) \<Rightarrow> (string \<Rightarrow> sql_value) \<Rightarrow> (string \<times> bool) list \<Rightarrow> bool" where
  "row_before w a b [] \<longleftrightarrow> False"
| "row_before w a b ((c, descending) # cs) \<longleftrightarrow>
     (if descending then value_less w (b c) (a c) else value_less w (a c) (b c)) \<or>
     (value_eq w (a c) (b c) \<and> row_before w a b cs)"

definition window :: "query \<Rightarrow> 'row list \<Rightarrow> 'row list" where
  "window q rows =
     (let rows = (if 0 < q_offset q then drop (nat (q_offset q)) rows else rows)
      in if 0 \<le> q_limit q then take (nat (q_limit q)) rows else rows)"

text \<open>A possible answer: the selected rows in a possible order, cut to the window.\<close>

definition answers :: "(string \<Rightarrow> string) \<Rightarrow> 'row schema \<Rightarrow> query \<Rightarrow> 'row multiset \<Rightarrow> 'row list \<Rightarrow> bool" where
  "answers w sc q tab rows \<longleftrightarrow> (\<exists>xs. mset xs = filter_mset (selected w sc q) tab \<and>
     sorted_wrt (\<lambda>a b. \<not> row_before w (sc_column sc b) (sc_column sc a) (q_order q)) xs \<and> rows = window q xs)"

definition find_spec :: "(string \<Rightarrow> string) \<Rightarrow> 'row schema \<Rightarrow> (query \<Rightarrow> 's \<Rightarrow> go_error option \<times> 'row list)
  \<Rightarrow> ('s \<Rightarrow> 'row multiset) \<Rightarrow> bool" where
  "find_spec w sc fd tab \<longleftrightarrow> (\<forall>q s rows. fd q s = (None, rows) \<longrightarrow> answers w sc q (tab s) rows)"

definition first_spec :: "(string \<Rightarrow> string) \<Rightarrow> 'row schema \<Rightarrow> (query \<Rightarrow> 's \<Rightarrow> 'row first_result)
  \<Rightarrow> ('s \<Rightarrow> 'row multiset) \<Rightarrow> bool" where
  "first_spec w sc first tab \<longleftrightarrow> (\<forall>q s. case first q s of
       Found r \<Rightarrow> r \<in># filter_mset (selected w sc q) (tab s)
     | Record_not_found \<Rightarrow> filter_mset (selected w sc q) (tab s) = {#}
     | First_error e \<Rightarrow> True)"

definition count_spec :: "(string \<Rightarrow> string) \<Rightarrow> 'row schema \<Rightarrow> (query \<Rightarrow> 's \<Rightarrow> go_error option \<times> int)
  \<Rightarrow> ('s \<Rightarrow> 'row multiset) \<Rightarrow> bool" where
  "count_spec w sc cnt tab \<longleftrightarrow>
     (\<forall>q s n. cnt q s = (None, n) \<longrightarrow> n = int (size (filter_mset (selected w sc q) (tab s))))"

text \<open>Instants are rounded to the column's precision; GORM adds \<open>updated_at\<close> if the call does not set it.\<close>

definition rounded :: "(time \<Rightarrow> time) \<Rightarrow> sql_value \<Rightarrow> sql_value" where
  "rounded pr v = (case v of V_time t \<Rightarrow> V_time (pr t) | _ \<Rightarrow> v)"

definition updated :: "(time \<Rightarrow> time) \<Rightarrow> 'row schema \<Rightarrow> time \<Rightarrow> (string \<times> sql_value) list \<Rightarrow> 'row \<Rightarrow> 'row" where
  "updated pr sc now ups r =
     fold (\<lambda>(c, v). sc_assign sc c (rounded pr v))
       (if sc_auto_update sc \<and> ''updated_at'' \<notin> fst ` set ups then ups @ [(''updated_at'', V_time now)] else ups) r"

text \<open>
  The affected rows are those that change, as MySQL counts them unless the connection asks for the
  found rows; a call that returns an error may have been carried out or not.
\<close>

definition updates_spec :: "(string \<Rightarrow> string) \<Rightarrow> (time \<Rightarrow> time) \<Rightarrow> 'row schema
  \<Rightarrow> (time \<Rightarrow> query \<Rightarrow> (string \<times> sql_value) list \<Rightarrow> 's \<Rightarrow> (int \<times> go_error option) \<times> 's)
  \<Rightarrow> ('s \<Rightarrow> 'row multiset) \<Rightarrow> bool" where
  "updates_spec w pr sc upd tab \<longleftrightarrow> (\<forall>now q ups s n e s'. upd now q ups s = ((n, e), s') \<longrightarrow>
     (let changed = image_mset (\<lambda>r. if selected w sc q r then updated pr sc now ups r else r) (tab s)
      in if e = None
         then tab s' = changed \<and>
           n = int (size (filter_mset (\<lambda>r. selected w sc q r \<and> updated pr sc now ups r \<noteq> r) (tab s)))
         else tab s' = tab s \<or> tab s' = changed))"

text \<open>\<open>clashes\<close>: a row with the same primary key, or the same values in a unique index.\<close>

definition clashes :: "(string \<Rightarrow> string) \<Rightarrow> 'row schema \<Rightarrow> 'row \<Rightarrow> 'row multiset \<Rightarrow> bool" where
  "clashes w sc r tab \<longleftrightarrow> (\<exists>r' \<in># tab. \<exists>ks \<in> set (sc_keys sc). \<forall>k \<in> set ks.
     value_eq w (sc_column sc r k) (sc_column sc r' k))"

definition create_spec :: "(string \<Rightarrow> string) \<Rightarrow> ('row \<Rightarrow> 'row) \<Rightarrow> 'row schema
  \<Rightarrow> ('row \<Rightarrow> 's \<Rightarrow> go_error option \<times> 's) \<Rightarrow> ('s \<Rightarrow> 'row multiset) \<Rightarrow> bool" where
  "create_spec w keep sc create tab \<longleftrightarrow> (\<forall>r s e s'. create r s = (e, s') \<longrightarrow>
     (if clashes w sc r (tab s) then e \<noteq> None \<and> tab s' = tab s
      else (case e of
          None \<Rightarrow> tab s' = add_mset (keep r) (tab s)
        | Some x \<Rightarrow> \<not> isDuplicateEntry x \<and>
            (tab s' = tab s \<or> tab s' = add_mset (keep r) (tab s)))))"

definition delete_spec :: "(string \<Rightarrow> string) \<Rightarrow> 'row schema \<Rightarrow> (query \<Rightarrow> 's \<Rightarrow> go_error option \<times> 's)
  \<Rightarrow> ('s \<Rightarrow> 'row multiset) \<Rightarrow> bool" where
  "delete_spec w sc del tab \<longleftrightarrow> (\<forall>q s e s'. del q s = (e, s') \<longrightarrow>
     (let rest = filter_mset (\<lambda>r. \<not> selected w sc q r) (tab s)
      in if e = None then tab s' = rest else tab s' = tab s \<or> tab s' = rest))"

end
