(* ===== verification/MySQLLaws.thy ===== *)
theory MySQLLaws
  imports MySQLStores RoomService
begin

text \<open>
  What the MySQL stores guarantee, from what GORM and MySQL document: the history of a room is that of
  the memory store, the transition of a room is a compare-and-set with the errors of each case, the
  state machine of rooms, also when calls fail and have been carried out, and mutes that add up. The collation
  is a parameter, a map from texts to weights; \<open>docker-compose.yml\<close> sets \<open>utf8mb4_unicode_ci\<close>, which ignores case.
\<close>

section \<open>Tables as maps\<close>

text \<open>A table keyed by \<open>key\<close>, and the row of a key.\<close>

abbreviation keyed :: "('row \<Rightarrow> 'k) \<Rightarrow> 'row multiset \<Rightarrow> bool" where
  "keyed key tab \<equiv> inj_on key (set_mset tab)"

definition row_at :: "('row \<Rightarrow> 'k) \<Rightarrow> 'row multiset \<Rightarrow> 'k \<rightharpoonup> 'row" where
  "row_at key tab i = (if i \<in> key ` set_mset tab then Some (inv_into (set_mset tab) key i) else None)"

lemma row_at_Some:
  assumes "keyed key tab"
  shows "row_at key tab i = Some r \<longleftrightarrow> r \<in># tab \<and> key r = i"
proof
  assume "row_at key tab i = Some r"
  then have "i \<in> key ` set_mset tab" and "r = inv_into (set_mset tab) key i"
    by (simp_all add: row_at_def split: if_splits)
  then show "r \<in># tab \<and> key r = i" by (simp add: inv_into_into f_inv_into_f)
next
  assume "r \<in># tab \<and> key r = i"
  then have m: "r \<in># tab" and i: "i = key r" by simp_all
  show "row_at key tab i = Some r" unfolding i using m inv_into_f_f [OF assms m] by (simp add: row_at_def)
qed

lemma row_at_None: "row_at key tab i = None \<longleftrightarrow> (\<forall>r \<in># tab. key r \<noteq> i)"
  by (auto simp: row_at_def)

lemma row_at_eqI:
  assumes "keyed key tab" and "\<And>r. m i = Some r \<longleftrightarrow> r \<in># tab \<and> key r = i"
  shows "row_at key tab i = m i"
proof (cases "m i")
  case None
  with assms(2) show ?thesis by (auto simp: row_at_None)
next
  case (Some r)
  with assms(2) [of r] assms(1) show ?thesis by (simp add: row_at_Some)
qed

lemma keyed_add: "keyed key tab \<Longrightarrow> \<forall>x \<in># tab. key x \<noteq> key r \<Longrightarrow> keyed key (add_mset r tab)"
  by (auto simp: inj_on_def)

lemma row_at_add:
  assumes "keyed key tab" and "\<forall>x \<in># tab. key x \<noteq> key r"
  shows "row_at key (add_mset r tab) = (row_at key tab)(key r \<mapsto> r)"
proof
  fix i
  show "row_at key (add_mset r tab) i = ((row_at key tab)(key r \<mapsto> r)) i"
    by (rule row_at_eqI [OF keyed_add [OF assms]]) (use assms in \<open>auto simp: row_at_Some\<close>)
qed

lemma keyed_image: "keyed key tab \<Longrightarrow> (\<And>r. key (f r) = key r) \<Longrightarrow> keyed key (image_mset f tab)"
  by (auto simp: inj_on_def)

lemma row_at_image:
  assumes "keyed key tab" and "\<And>r. key (f r) = key r"
  shows "row_at key (image_mset f tab) i = map_option f (row_at key tab i)"
proof (cases "row_at key tab i")
  case None
  then have "row_at key (image_mset f tab) i = None" by (auto simp: row_at_None assms(2))
  with None show ?thesis by simp
next
  case (Some r)
  then have "r \<in># tab" "key r = i" using assms(1) by (simp_all add: row_at_Some)
  with Some show ?thesis by (auto simp: row_at_Some [OF keyed_image [OF assms]] assms(2))
qed

section \<open>The history of a room\<close>

text \<open>
  The texts of lower-case letters, digits and hyphens, to which the identifiers that \<open>uuid\<close> writes and the statuses
  belong, and collations that compare these as Go compares strings. The collations of MySQL do, also those that
  ignore case or accents; on other texts, capital letters say, they need not.
\<close>

definition plain :: "string \<Rightarrow> bool" where
  "plain s \<longleftrightarrow> list_all (\<lambda>c. c = CHR ''-'' \<or> CHR ''0'' \<le> c \<and> c \<le> CHR ''9'' \<or> CHR ''a'' \<le> c \<and> c \<le> CHR ''z'') s"

definition keeps_order :: "(string \<Rightarrow> string) \<Rightarrow> bool" where
  "keeps_order w \<longleftrightarrow> (\<forall>a b. plain a \<longrightarrow> plain b \<longrightarrow> (w a < w b \<longleftrightarrow> a < b))"

lemma keeps_order_less: "keeps_order w \<Longrightarrow> plain a \<Longrightarrow> plain b \<Longrightarrow> w a < w b \<longleftrightarrow> a < b"
  unfolding keeps_order_def by blast

lemma keeps_order_eq: "keeps_order w \<Longrightarrow> plain a \<Longrightarrow> plain b \<Longrightarrow> w a = w b \<longleftrightarrow> a = b"
  using keeps_order_less by (metis linorder_less_linear order_less_irrefl)

lemma plain_approved: "plain DanmakuStatusApproved"
  by code_simp

definition plain_danmaku :: "danmaku \<Rightarrow> bool" where
  "plain_danmaku d \<longleftrightarrow> plain (d_id d) \<and> plain (d_room_id d) \<and> plain (d_status d)"

lemma query_simps [simp]:
  "q_where (Where c q) = q_where q @ [c]" "q_order (Where c q) = q_order q" "q_limit (Where c q) = q_limit q"
  "q_offset (Where c q) = q_offset q" "q_where (Order cs q) = q_where q" "q_order (Order cs q) = q_order q @ cs"
  "q_limit (Order cs q) = q_limit q" "q_offset (Order cs q) = q_offset q" "q_where (Limit n q) = q_where q"
  "q_order (Limit n q) = q_order q" "q_limit (Limit n q) = n" "q_offset (Limit n q) = q_offset q"
  "q_where (Offset n q) = q_where q" "q_order (Offset n q) = q_order q" "q_limit (Offset n q) = q_limit q"
  "q_offset (Offset n q) = n" "q_where db = []" "q_order db = []" "q_limit db = - 1" "q_offset db = - 1"
  by (simp_all add: Where_def Order_def Limit_def Offset_def db_def)

lemma danmaku_columns [simp]:
  "danmaku_column d ''id'' = V_text (d_id d)" "danmaku_column d ''room_id'' = V_text (d_room_id d)"
  "danmaku_column d ''status'' = V_text (d_status d)" "danmaku_column d ''created_at'' = V_time (d_timestamp d)"
  "sc_column danmaku_schema = danmaku_column"
  by (simp_all add: danmaku_column_def danmaku_schema_def)

lemma answersE:
  assumes "answers w sc q tab rows"
  obtains xs where "mset xs = filter_mset (selected w sc q) tab"
    and "sorted_wrt (\<lambda>a b. \<not> row_before w (sc_column sc b) (sc_column sc a) (q_order q)) xs"
    and "rows = window q xs"
  using assms unfolding answers_def by blast

lemma find_answers: "find_spec w sc fd tab \<Longrightarrow> fd q s = (None, rows) \<Longrightarrow> answers w sc q (tab s) rows"
  by (simp add: find_spec_def)

text \<open>
  Property C13 (one history). Over the same danmaku, in whatever order the memory store holds them
  and the server returns equals, \<open>ListSince\<close> of the MySQL store, when it returns without an error,
  returns what \<open>ListSince\<close> of the memory store returns, for every positive limit. The collation may ignore
  case, as that of \<open>docker-compose.yml\<close> does; then the identifiers and statuses of the rows and the room and the
  cursor that are asked for have to be lower-case texts, as \<open>uuid\<close> and the code write them (asked for a
  room in capitals, such a server returns rows where the memory store has none).
\<close>

theorem mysql_history_is_memory_history:
  assumes "find_spec w danmaku_schema (g_find g) tab" and "keeps_order w"
    and "\<forall>d \<in># tab s. plain_danmaku d" and "plain rid" and "plain i"
    and "mset (danmakus m) = tab s" and "cursors_distinct m" and "sort_slice_spec srt" and "0 < limit"
    and "Danmaku_ListSince g rid t i limit s = Inr rows"
  shows "DanmakuStore.ListSince srt rid t i limit m = Inr rows"
proof -
  define q where "q = Limit limit (Order [(''created_at'', False), (''id'', False)]
         (Where (C_or (C_gt ''created_at'' (V_time t)) (C_and (C_eq ''created_at'' (V_time t)) (C_gt ''id'' (V_text i))))
           (Where (approved_in rid) db)))"
  from assms(10) have f: "g_find g q s = (None, rows)"
    by (auto simp: Danmaku_ListSince_def q_def [symmetric] split: prod.splits option.splits)
  have sel: "selected w danmaku_schema q d \<longleftrightarrow> in_room rid d \<and> Cursor t i < danmaku_cursor d" if "d \<in># tab s" for d
  proof -
    have p: "plain (d_id d)" "plain (d_room_id d)" "plain (d_status d)"
      using assms(3) that by (simp_all add: plain_danmaku_def)
    note e = keeps_order_eq [OF assms(2) p(2) assms(4)] keeps_order_eq [OF assms(2) p(3) plain_approved]
      keeps_order_less [OF assms(2,5) p(1)]
    show ?thesis by (auto simp: e selected_def q_def in_room_def danmaku_cursor_def less_cursor_def)
  qed
  have bef: "row_before w (danmaku_column a) (danmaku_column b) (q_order q) \<longleftrightarrow> danmaku_cursor a < danmaku_cursor b"
    if "a \<in># tab s" "b \<in># tab s" for a b
  proof -
    have "plain (d_id a)" "plain (d_id b)" using assms(3) that by (simp_all add: plain_danmaku_def)
    from keeps_order_less [OF assms(2) this] show ?thesis by (simp add: q_def danmaku_cursor_less)
  qed
  from answersE [OF find_answers [OF assms(1) f]] obtain xs where
    xs: "mset xs = filter_mset (selected w danmaku_schema q) (tab s)"
    and so: "sorted_wrt (\<lambda>a b. \<not> row_before w (danmaku_column b) (danmaku_column a) (q_order q)) xs"
    and r: "rows = window q xs"
    unfolding danmaku_columns(5) by blast
  have xs: "mset xs = filter_mset (\<lambda>d. in_room rid d \<and> Cursor t i < danmaku_cursor d) (tab s)"
    unfolding xs by (rule filter_mset_cong) (simp_all add: sel)
  have "x \<in># tab s" if "x \<in> set xs" for x
    using that xs by (metis filter_mset_eq_conv mset_subset_eqD set_mset_mset multiset_filter_subset)
  then have so: "sorted_wrt (\<lambda>a b. \<not> danmaku_cursor b < danmaku_cursor a) xs"
    using so bef by (auto elim!: sorted_wrt_mono_rel [rotated])
  have r: "rows = take (nat limit) xs" using r assms(9) by (simp add: window_def q_def)
  let ?ys = "history m rid (Cursor t i)"
  have mx: "mset ?ys = mset xs"
    unfolding xs assms(6) [symmetric] history_def
    by (simp add: mset_filter filter_filter_mset conj_commute)
  have "xs = ?ys"
  proof (rule sorted_unique_cursor)
    have "distinct (map danmaku_cursor ?ys)"
      using history_strict [OF assms(7)] strict_sorted_iff by blast
    with mx show "distinct (map danmaku_cursor xs)" by (metis mset_eq_imp_distinct_iff mset_map)
    show "mset xs = mset ?ys" by (simp add: mx)
    show "sorted_wrt (\<lambda>a b. danmaku_cursor a \<le> danmaku_cursor b) xs" using so by (simp add: not_less)
    show "sorted_wrt (\<lambda>a b. danmaku_cursor a \<le> danmaku_cursor b) ?ys"
      using history_sorted [of m rid "Cursor t i"] by (simp add: sorted_map)
  qed
  then show ?thesis using ListSince_eq [OF assms(8,7)] r assms(9) by (simp add: cut_limit_take)
qed

section \<open>The transition of a room\<close>

text \<open>Rows are told apart by the weights of their identifiers; columns keep whole milliseconds.\<close>

definition keeps_ms :: "(time \<Rightarrow> time) \<Rightarrow> bool" where
  "keeps_ms pr \<longleftrightarrow> (\<forall>t. t mod Millisecond = 0 \<longrightarrow> pr t = t)"

lemma truncate_ms_whole [simp]: "truncate_ms t mod Millisecond = 0"
  by (simp add: truncate_ms_def minus_mod_eq_mult_div)

lemma keeps_ms_truncate: "keeps_ms pr \<Longrightarrow> pr (truncate_ms t) = truncate_ms t"
  by (simp add: keeps_ms_def)

lemma room_columns [simp]:
  "room_column r ''id'' = V_text (r_id r)" "room_column r ''status'' = V_text (r_status r)"
  "room_column r ''created_at'' = V_time (r_created_at r)"
  "sc_column room_schema = room_column" "sc_keys room_schema = [[''id'']]"
  by (simp_all add: room_column_def room_schema_def)

abbreviation room_move_query :: "string \<Rightarrow> string \<Rightarrow> query" where
  "room_move_query i from \<equiv> Where (C_and (C_eq ''id'' (V_text i)) (C_eq ''status'' (V_text from))) db"

abbreviation room_updates :: "time \<Rightarrow> string \<Rightarrow> time \<Rightarrow> (string \<times> sql_value) list" where
  "room_updates clock to changed_at \<equiv> [(''status'', V_text to), (''updated_at'', V_time (truncate_ms clock))]
     @ (if to = RoomStatusLive then [(''started_at'', V_time (truncate_ms clock))] else [])
     @ (if to = RoomStatusEnded then [(''ended_at'', V_time (truncate_ms changed_at))] else [])"

lemma room_updated:
  assumes "keeps_ms pr"
  shows "updated pr room_schema now (room_updates clock to at) = room_moved clock to at"
proof
  fix r
  show "updated pr room_schema now (room_updates clock to at) r = room_moved clock to at r"
    by (simp add: updated_def room_schema_def room_assign_def rounded_def room_moved_def Let_def
        keeps_ms_truncate [OF assms])
qed

lemma room_move_selected:
  "selected w room_schema (room_move_query i from) r \<longleftrightarrow> w (r_id r) = w i \<and> w (r_status r) = w from"
  by (simp add: selected_def)

lemma room_id_selected: "selected w room_schema (Where (C_eq ''id'' (V_text i)) db) r \<longleftrightarrow> w (r_id r) = w i"
  by (simp add: selected_def)

definition move_room_row :: "(string \<Rightarrow> string) \<Rightarrow> time \<Rightarrow> string \<Rightarrow> string \<Rightarrow> string \<Rightarrow> time \<Rightarrow> room \<Rightarrow> room" where
  "move_room_row w clock i from to at r =
     (if w (r_id r) = w i \<and> w (r_status r) = w from then room_moved clock to at r else r)"

lemma size_filter_0: "int (size (filter_mset P M)) = 0 \<longleftrightarrow> (\<forall>x \<in># M. \<not> P x)"
  by auto

lemma updates_step:
  assumes "updates_spec w pr sc upd tab" and "upd now q ups s = ((n, e), s')"
  shows "e = None \<Longrightarrow> tab s' = image_mset (\<lambda>r. if selected w sc q r then updated pr sc now ups r else r) (tab s)"
    and "e = None \<Longrightarrow> n = 0 \<longleftrightarrow> (\<forall>r \<in># tab s. selected w sc q r \<longrightarrow> updated pr sc now ups r = r)"
    and "tab s' = tab s \<or> tab s' = image_mset (\<lambda>r. if selected w sc q r then updated pr sc now ups r else r) (tab s)"
proof -
  note u = assms(1) [unfolded updates_spec_def Let_def, rule_format, OF assms(2)]
  from u show "e = None \<Longrightarrow> tab s' = image_mset (\<lambda>r. if selected w sc q r then updated pr sc now ups r else r) (tab s)"
    by simp
  assume "e = None"
  with u have n: "n = int (size (filter_mset (\<lambda>r. selected w sc q r \<and> updated pr sc now ups r \<noteq> r) (tab s)))" by simp
  show "n = 0 \<longleftrightarrow> (\<forall>r \<in># tab s. selected w sc q r \<longrightarrow> updated pr sc now ups r = r)"
    unfolding n size_filter_0 by blast
next
  note u = assms(1) [unfolded updates_spec_def Let_def, rule_format, OF assms(2)]
  then show "tab s' = tab s \<or> tab s' = image_mset (\<lambda>r. if selected w sc q r then updated pr sc now ups r else r) (tab s)"
    by (simp split: if_splits)
qed

text \<open>
  Corollary (compare and set). \<open>UpdateStatus\<close> of the MySQL room store between two different statuses:
  it reports success exactly when the database has carried it out on a room with the identifier in
  the status \<open>from\<close>, and then the room has moved as in the memory store; a conflict means there is
  a room with the identifier, not in the status \<open>from\<close>, and nothing has changed; not found means
  nothing has changed and there is no such room, or the count that should tell could not be made.
\<close>

theorem mysql_room_compare_and_set:
  assumes "updates_spec w pr room_schema (g_updates g) tab" and "count_spec w room_schema (g_count g) tab"
    and "keeps_ms pr" and "w from \<noteq> w to"
    and "Rooms_UpdateStatus g clock i from to at s = (e, s')"
  shows "(e = None \<longrightarrow> tab s' = image_mset (move_room_row w clock i from to at) (tab s) \<and>
      (\<exists>r \<in># tab s. w (r_id r) = w i \<and> w (r_status r) = w from)) \<and>
    (e = Some StoreErrRoomStatusConflict \<longrightarrow> tab s' = tab s \<and>
      (\<exists>r \<in># tab s. w (r_id r) = w i) \<and> (\<forall>r \<in># tab s. w (r_id r) = w i \<longrightarrow> w (r_status r) \<noteq> w from)) \<and>
    (e = Some StoreErrRoomNotFound \<longrightarrow> tab s' = tab s \<and>
      ((\<forall>r \<in># tab s. w (r_id r) \<noteq> w i) \<or> fst (g_count g (Where (C_eq ''id'' (V_text i)) db) s') \<noteq> None))"
proof -
  let ?q = "room_move_query i from"
  let ?ups = "room_updates clock to at"
  obtain n err t where u: "g_updates g clock ?q ?ups s = ((n, err), t)" by (metis prod.exhaust)
  obtain ce c where cnt: "g_count g (Where (C_eq ''id'' (V_text i)) db) t = (ce, c)" by fastforce
  have res: "(e, s') = (case err of
      Some e \<Rightarrow> (Some (Errorf ''update room status: '' e ''''), t)
    | None \<Rightarrow> if n = 0 then (Some (if (if ce = None then c else 0) = 0 then StoreErrRoomNotFound
        else StoreErrRoomStatusConflict), t) else (None, t))"
    using assms(5) unfolding Rooms_UpdateStatus_def Let_def u prod.case cnt by simp
  have sel: "selected w room_schema ?q r \<longleftrightarrow> w (r_id r) = w i \<and> w (r_status r) = w from" for r
    by (rule room_move_selected)
  have upd: "updated pr room_schema clock ?ups r = room_moved clock to at r" for r
    by (simp only: room_updated [OF assms(3)])
  have moved: "room_moved clock to at r \<noteq> r" if "w (r_status r) = w from" for r
    using that assms(4) room_moved_simps(1) by metis
  have none: "err = None \<Longrightarrow> n = 0 \<longleftrightarrow> (\<forall>r \<in># tab s. \<not> (w (r_id r) = w i \<and> w (r_status r) = w from))"
    using updates_step(2) [OF assms(1) u] moved unfolding sel upd by blast
  have img: "err = None \<Longrightarrow> tab t = image_mset (move_room_row w clock i from to at) (tab s)"
    using updates_step(1) [OF assms(1) u] unfolding sel upd move_room_row_def by simp
  have same: "err = None \<Longrightarrow> n = 0 \<Longrightarrow> tab t = tab s"
  proof -
    assume a: "err = None" "n = 0"
    have "image_mset (move_room_row w clock i from to at) (tab s) = image_mset id (tab s)"
      by (rule image_mset_cong) (use none a in \<open>auto simp: move_room_row_def\<close>)
    with img a show ?thesis by simp
  qed
  show ?thesis
  proof (cases err)
    case (Some x)
    with res show ?thesis by simp
  next
    case None
    show ?thesis
    proof (cases "n = 0")
      case False
      with None res none img show ?thesis by auto
    next
      case True
      have t: "s' = t" and e: "e = Some (if (if ce = None then c else 0) = 0 then StoreErrRoomNotFound
          else StoreErrRoomStatusConflict)" using res None True by simp_all
      have fe: "selected w room_schema (Where (C_eq ''id'' (V_text i)) db) = (\<lambda>r. w (r_id r) = w i)"
        by (rule ext) (rule room_id_selected)
      have c: "ce = None \<Longrightarrow> c = int (size (filter_mset (\<lambda>r. w (r_id r) = w i) (tab s)))"
        using assms(2) [unfolded count_spec_def, rule_format, of "Where (C_eq ''id'' (V_text i)) db" t c] cnt
        by (simp add: fe same [OF None True])
      have none': "\<forall>r \<in># tab s. w (r_id r) = w i \<longrightarrow> w (r_status r) \<noteq> w from" using none [OF None] True by blast
      show ?thesis
      proof (cases ce)
        case None
        have "c = 0 \<longleftrightarrow> (\<forall>r \<in># tab s. w (r_id r) \<noteq> w i)" unfolding c [OF None] size_filter_0 ..
        with None none' show ?thesis unfolding t e same [OF \<open>err = None\<close> True] by simp
      next
        case (Some x)
        with cnt show ?thesis unfolding t e same [OF None True] by simp
      qed
    qed
  qed
qed

section \<open>The rooms of a MySQL store\<close>

definition room_statuses :: "string set" where
  "room_statuses = {RoomStatusPending, RoomStatusLive, RoomStatusEnded, RoomStatusBanned}"

text \<open>
  The collation tells the four statuses apart, which those of MySQL do, also the ones that ignore case; a call that
  fails may have been carried out, the connection having been lost afterwards; the errors of the driver are not those
  of the package \<open>store\<close>.
\<close>

definition mysql_rooms :: "(string \<Rightarrow> string) \<Rightarrow> (time \<Rightarrow> time) \<Rightarrow> (room \<Rightarrow> room) \<Rightarrow> (room, 's) gorm
  \<Rightarrow> ('s \<Rightarrow> room multiset) \<Rightarrow> bool" where
  "mysql_rooms w pr keep g tab \<longleftrightarrow> inj_on w room_statuses \<and> keeps_ms pr \<and> (\<forall>r. fresh_room r \<longrightarrow> keep r = r) \<and>
     create_spec w keep room_schema (g_create g) tab \<and> updates_spec w pr room_schema (g_updates g) tab \<and>
     (\<forall>now q ups s n x s'. g_updates g now q ups s = ((n, Some x), s') \<longrightarrow>
        \<not> errors_is x StoreErrRoomNotFound \<and> \<not> errors_is x StoreErrRoomStatusConflict)"

text \<open>The identifiers are told apart by their weights, and the statuses are those of the code.\<close>

definition good_rooms :: "(string \<Rightarrow> string) \<Rightarrow> room multiset \<Rightarrow> bool" where
  "good_rooms w T \<longleftrightarrow> keyed (\<lambda>r. w (r_id r)) T \<and> (\<forall>r \<in># T. r_status r \<in> room_statuses)"

text \<open>
  The calls for a room, named by any text of its weight, that reported success, and those that reported a failure of
  the database, after which it is not known whether the update was carried out.
\<close>

definition successes :: "(string \<Rightarrow> string) \<Rightarrow> string \<Rightarrow> room_event list \<Rightarrow> nat" where
  "successes w i es = length (filter (\<lambda>e. case e of Committed c None \<Rightarrow> w (rc_room c) = w i | _ \<Rightarrow> False) es)"

definition unsure :: "(string \<Rightarrow> string) \<Rightarrow> string \<Rightarrow> room_event list \<Rightarrow> nat" where
  "unsure w i es = length (filter (\<lambda>e. case e of Committed c (Some x) \<Rightarrow> w (rc_room c) = w i \<and>
     x \<noteq> ErrRoomNotFound \<and> x \<noteq> ErrRoomInvalidTransition | _ \<Rightarrow> False) es)"

lemma event_counts [simp]:
  "successes w i [] = 0" "unsure w i [] = 0"
  "successes w i (es @ fs) = successes w i es + successes w i fs" "unsure w i (es @ fs) = unsure w i es + unsure w i fs"
  "successes w i [Created j] = 0" "unsure w i [Created j] = 0" "successes w i [Checked c] = 0" "unsure w i [Checked c] = 0"
  "successes w i [Committed c None] = (if w (rc_room c) = w i then 1 else 0)" "unsure w i [Committed c None] = 0"
  "successes w i [Committed c (Some x)] = 0"
  "unsure w i [Committed c (Some x)] =
     (if w (rc_room c) = w i \<and> x \<noteq> ErrRoomNotFound \<and> x \<noteq> ErrRoomInvalidTransition then 1 else 0)"
  by (simp_all add: successes_def unsure_def)

text \<open>A room has kept its owner and gone \<open>m\<close> stages forward, or up to \<open>u\<close> more; with neither it is as it was.\<close>

definition forward :: "nat \<Rightarrow> nat \<Rightarrow> room \<Rightarrow> room \<Rightarrow> bool" where
  "forward m u r r' \<longleftrightarrow> r_id r' = r_id r \<and> r_owner_id r' = r_owner_id r \<and> stage (r_status r) + m \<le> stage (r_status r') \<and>
     stage (r_status r') \<le> stage (r_status r) + m + u \<and> (m + u = 0 \<longrightarrow> r' = r)"

lemma forward_refl: "forward 0 u r r"
  by (simp add: forward_def)

lemma forward_trans: "forward m u r1 r2 \<Longrightarrow> forward m' u' r2 r3 \<Longrightarrow> forward (m + m') (u + u') r1 r3"
  by (auto simp: forward_def)

text \<open>The update of one call on one row.\<close>

definition moved_by :: "(string \<Rightarrow> string) \<Rightarrow> time \<Rightarrow> string \<Rightarrow> move \<Rightarrow> room \<Rightarrow> room" where
  "moved_by w now i m r =
     (if w (r_id r) = w i \<and> r_status r = from_status m then room_moved now (to_status m) now r else r)"

lemma move_statuses [simp]: "from_status m \<in> room_statuses" "to_status m \<in> room_statuses"
  by (cases m; simp add: room_statuses_def)+

lemma moved_by_keeps [simp]: "r_id (moved_by w now i m r) = r_id r" "r_owner_id (moved_by w now i m r) = r_owner_id r"
  by (simp_all add: moved_by_def)

lemma moved_by_stage: "stage (r_status (moved_by w now i m r)) =
    stage (r_status r) + (if w (r_id r) = w i \<and> r_status r = from_status m then 1 else 0)"
  by (simp add: moved_by_def)

lemma moved_by_changes: "moved_by w now i m r = r \<longleftrightarrow> \<not> (w (r_id r) = w i \<and> r_status r = from_status m)"
  using moved_by_stage [of w now i m r] by (auto simp: moved_by_def)

lemma good_rooms_moved: "good_rooms w T \<Longrightarrow> good_rooms w (image_mset (moved_by w now i m) T)"
proof -
  assume "good_rooms w T"
  then have "keyed (\<lambda>r. w (r_id r)) T" and st: "\<forall>r \<in># T. r_status r \<in> room_statuses" by (simp_all add: good_rooms_def)
  from keyed_image [OF this(1), of "moved_by w now i m"]
  have "keyed (\<lambda>r. w (r_id r)) (image_mset (moved_by w now i m) T)" by simp
  moreover have "\<forall>r \<in># T. r_status (moved_by w now i m r) \<in> room_statuses" using st by (simp add: moved_by_def)
  ultimately show ?thesis by (simp add: good_rooms_def)
qed

lemma mysql_update:
  assumes "mysql_rooms w pr keep g tab" and "good_rooms w (tab s)"
    and "g_updates g now (room_move_query i (from_status m)) (room_updates now (to_status m) now) s = ((n, err), t)"
  shows "tab t = tab s \<or> tab t = image_mset (moved_by w now i m) (tab s)"
    and "err = None \<Longrightarrow> tab t = image_mset (moved_by w now i m) (tab s)"
    and "err = None \<Longrightarrow> n = 0 \<longleftrightarrow> (\<forall>r \<in># tab s. moved_by w now i m r = r)"
proof -
  have us: "updates_spec w pr room_schema (g_updates g) tab" and ms: "keeps_ms pr" and st: "inj_on w room_statuses"
    using assms(1) by (simp_all add: mysql_rooms_def)
  have each: "(if selected w room_schema (room_move_query i (from_status m)) r
      then updated pr room_schema now (room_updates now (to_status m) now) r else r) = moved_by w now i m r"
    if "r \<in># tab s" for r
  proof -
    have "r_status r \<in> room_statuses" using assms(2) that by (simp add: good_rooms_def)
    then have "w (r_status r) = w (from_status m) \<longleftrightarrow> r_status r = from_status m"
      using inj_on_eq_iff [OF st] by simp
    then show ?thesis by (simp only: room_move_selected room_updated [OF ms] moved_by_def)
  qed
  have img: "image_mset (\<lambda>r. if selected w room_schema (room_move_query i (from_status m)) r
      then updated pr room_schema now (room_updates now (to_status m) now) r else r) (tab s) =
    image_mset (moved_by w now i m) (tab s)"
    by (rule image_mset_cong) (rule each)
  from updates_step(1,3) [OF us assms(3)]
  show "tab t = tab s \<or> tab t = image_mset (moved_by w now i m) (tab s)"
    and "err = None \<Longrightarrow> tab t = image_mset (moved_by w now i m) (tab s)" unfolding img by blast+
  show "err = None \<Longrightarrow> n = 0 \<longleftrightarrow> (\<forall>r \<in># tab s. moved_by w now i m r = r)"
    using updates_step(2) [OF us assms(3)] each by metis
qed

lemma mysql_commit:
  assumes "mysql_rooms w pr keep g tab" and "good_rooms w (tab s)"
    and "move_commit (mysql_room_ops g) now i (from_status m) (to_status m) s = (e, s')"
  shows "good_rooms w (tab s') \<and> (\<forall>r \<in># tab s. \<exists>r' \<in># tab s'.
    forward (successes w (r_id r) [Committed (RoomCall m i u) e]) (unsure w (r_id r) [Committed (RoomCall m i u) e]) r r')"
proof -
  let ?q = "room_move_query i (from_status m)" and ?ups = "room_updates now (to_status m) now"
  obtain n err t where upd: "g_updates g now ?q ?ups s = ((n, err), t)" by (metis prod.exhaust)
  obtain ce c where cnt: "g_count g (Where (C_eq ''id'' (V_text i)) db) t = (ce, c)" by fastforce
  have res: "Rooms_UpdateStatus g now i (from_status m) (to_status m) now s = (case err of
      Some e \<Rightarrow> (Some (Errorf ''update room status: '' e ''''), t)
    | None \<Rightarrow> if n = 0 then (Some (if (if ce = None then c else 0) = 0 then StoreErrRoomNotFound
        else StoreErrRoomStatusConflict), t) else (None, t))"
    unfolding Rooms_UpdateStatus_def Let_def upd prod.case cnt by simp
  note up = mysql_update [OF assms(1,2) upd]
  note good = assms(2) good_rooms_moved [OF assms(2), of now i m]
  have one: "w (r_id r) = w i \<Longrightarrow> w (r_id r0) = w i \<Longrightarrow> r \<in># tab s \<Longrightarrow> r0 \<in># tab s \<Longrightarrow> r = r0" for r r0
    using assms(2) unfolding good_rooms_def by (metis (mono_tags, lifting) inj_onD)
  show ?thesis
  proof (cases err)
    case (Some x)
    then have x: "\<not> errors_is x StoreErrRoomNotFound" "\<not> errors_is x StoreErrRoomStatusConflict"
      using assms(1) upd unfolding mysql_rooms_def by blast+
    have e: "e = Some (Errorf ''update room status: '' (Errorf ''update room status: '' x '''') '''')" and s': "s' = t"
      using assms(3) res Some x by (simp_all add: move_commit_def mysql_room_ops_def)
    have "forward 0 (if w i = w (r_id r) then 1 else 0) r (moved_by w now i m r)" for r
      by (auto simp: forward_def moved_by_stage moved_by_changes)
    with up(1) good forward_refl show ?thesis unfolding e s' by fastforce
  next
    case None
    show ?thesis
    proof (cases "n = 0")
      case True
      then have "tab t = image_mset id (tab s)"
        using up(2,3) None by (metis image_mset_cong id_apply)
      moreover have "s' = t" "e = Some ErrRoomNotFound \<or> e = Some ErrRoomInvalidTransition"
        using assms(3) res None True
        by (cases "(if ce = None then c else 0) = 0"; simp add: move_commit_def mysql_room_ops_def)+
      ultimately show ?thesis using good forward_refl by fastforce
    next
      case False
      have e: "e = None" and s': "s' = t"
        using assms(3) res None False by (simp_all add: move_commit_def mysql_room_ops_def)
      from False up(3) [OF None] obtain r0 where r0: "r0 \<in># tab s" "w (r_id r0) = w i" "r_status r0 = from_status m"
        by (auto simp: moved_by_changes)
      have "forward (if w i = w (r_id r) then 1 else 0) 0 r (moved_by w now i m r)" if "r \<in># tab s" for r
        using one [OF _ r0(2) that r0(1)] r0(3) by (auto simp: forward_def moved_by_stage moved_by_changes)
      then have "\<exists>r' \<in># image_mset (moved_by w now i m) (tab s). forward (if w i = w (r_id r) then 1 else 0) 0 r r'"
        if "r \<in># tab s" for r
        using that by (intro bexI [of _ "moved_by w now i m r"]) simp_all
      with up(2) [OF None] good(2) show ?thesis unfolding e s' by simp
    qed
  qed
qed

lemma mysql_create:
  assumes "mysql_rooms w pr keep g tab" and "good_rooms w (tab s)"
    and "Create (mysql_room_ops g) i now owner title s = (res, s')"
  shows "good_rooms w (tab s') \<and> tab s \<subseteq># tab s'"
proof -
  define title' where "title' = (if title = '''' then default_title else title)"
  show ?thesis
  proof (cases "100 < length (runes title')")
    case True
    with assms(2,3) show ?thesis by (simp add: Create_def Let_def flip: title'_def)
  next
    case False
    define r where "r = \<lparr>r_id = i, r_title = title', r_owner_id = owner, r_status = RoomStatusPending,
      r_started_at = None, r_ended_at = None, r_created_at = truncate_ms now, r_updated_at = truncate_ms now\<rparr>"
    obtain e t where c: "g_create g r s = (e, t)" by fastforce
    have t: "t = s'" using False assms(3) c
      by (auto simp: Create_def Let_def mysql_room_ops_def Rooms_Create_def split: option.splits simp flip: title'_def r_def)
    have "fresh_room r" by (simp add: fresh_room_def r_def)
    then have k: "keep r = r" using assms(1) by (simp add: mysql_rooms_def)
    have cs: "create_spec w keep room_schema (g_create g) tab" using assms(1) by (simp add: mysql_rooms_def)
    from cs [unfolded create_spec_def, rule_format, OF c]
    have "tab t = tab s \<or> \<not> clashes w room_schema r (tab s) \<and> tab t = add_mset r (tab s)"
      unfolding k by (auto split: if_splits option.splits)
    moreover have "good_rooms w (add_mset r (tab s))" if "\<not> clashes w room_schema r (tab s)"
    proof -
      have "\<forall>x \<in># tab s. w (r_id x) \<noteq> w (r_id r)" using that by (auto simp: clashes_def)
      with assms(2) keyed_add [of "\<lambda>r. w (r_id r)" "tab s" r] show ?thesis
        by (auto simp: good_rooms_def room_statuses_def r_def)
    qed
    ultimately show ?thesis using assms(2) unfolding t by auto
  qed
qed

lemma mysql_room_step:
  assumes "mysql_rooms w pr keep g tab" and "good_rooms w (tab s)"
    and "room_step (mysql_room_ops g) (s, calls) e (s', calls')"
  shows "good_rooms w (tab s') \<and>
    (\<forall>r \<in># tab s. \<exists>r' \<in># tab s'. forward (successes w (r_id r) [e]) (unsure w (r_id r) [e]) r r')"
  using assms(3)
proof (cases rule: room_step.cases)
  case (rs_create i now owner title res)
  from mysql_create [OF assms(1,2) rs_create(4)] rs_create(1) show ?thesis
    by (auto simp: forward_refl dest: mset_subset_eqD intro: bexI [rotated])
next
  case (rs_check i found m user)
  with assms(2) show ?thesis by simp (blast intro: forward_refl)
next
  case (rs_commit m i user now res)
  from mysql_commit [OF assms(1,2) rs_commit(4), of user] rs_commit(1) show ?thesis by simp
qed

text \<open>
  Property C34 (the state machine over MySQL). Over the MySQL store, with any collation that tells the four statuses
  apart, a case-insensitive one included, and with calls that fail and may have been carried out all the same: however the
  reads and the conditional updates of concurrent calls interleave with each other and with creations, a room keeps
  its owner and never goes back. It moves forward one stage for each call that reports success, and beyond that at most
  one stage for each call that reports a failure of the database; calls that report a conflict or an unknown room have
  not moved it. If no call reports a failure, the stages are those of the successes exactly. The identifiers stay unique.
\<close>

theorem mysql_room_moves_forward:
  assumes "mysql_rooms w pr keep g tab" and "good_rooms w (tab s)"
    and "room_trace (mysql_room_ops g) (s, []) es (s', calls)" and "r \<in># tab s"
  shows "good_rooms w (tab s') \<and> (\<exists>r' \<in># tab s'. r_id r' = r_id r \<and> r_owner_id r' = r_owner_id r \<and>
    stage (r_status r) + successes w (r_id r) es \<le> stage (r_status r') \<and>
    stage (r_status r') \<le> stage (r_status r) + successes w (r_id r) es + unsure w (r_id r) es \<and>
    (successes w (r_id r) es + unsure w (r_id r) es = 0 \<longrightarrow> r' = r))"
proof -
  have "good_rooms w (tab (fst v)) \<and>
      (\<forall>r \<in># tab (fst u). \<exists>r' \<in># tab (fst v). forward (successes w (r_id r) es) (unsure w (r_id r) es) r r')"
    if "room_trace (mysql_room_ops g) u es v" and "good_rooms w (tab (fst u))" for u v
    using that
  proof (induction rule: room_trace.induct)
    case (rt_nil u)
    then show ?case by simp (blast intro: forward_refl)
  next
    case (rt_step u es v e x)
    then have ih: "good_rooms w (tab (fst v))"
      "\<forall>r \<in># tab (fst u). \<exists>r' \<in># tab (fst v). forward (successes w (r_id r) es) (unsure w (r_id r) es) r r'"
      by simp_all
    have st: "good_rooms w (tab (fst x)) \<and> (\<forall>r \<in># tab (fst v). \<exists>r' \<in># tab (fst x).
        forward (successes w (r_id r) [e]) (unsure w (r_id r) [e]) r r')"
      by (rule mysql_room_step [OF assms(1) ih(1), of "snd v" e "fst x" "snd x"]) (use rt_step.hyps(2) in simp)
    have "\<exists>r' \<in># tab (fst x). forward (successes w (r_id r) (es @ [e])) (unsure w (r_id r) (es @ [e])) r r'"
      if "r \<in># tab (fst u)" for r
    proof -
      from ih(2) that obtain r1 where r1: "r1 \<in># tab (fst v)"
        "forward (successes w (r_id r) es) (unsure w (r_id r) es) r r1" by blast
      then have "r_id r1 = r_id r" by (simp add: forward_def)
      with st r1(1) obtain r2 where "r2 \<in># tab (fst x)" "forward (successes w (r_id r) [e]) (unsure w (r_id r) [e]) r1 r2"
        by metis
      with forward_trans [OF r1(2)] show ?thesis by auto
    qed
    with st show ?case by blast
  qed
  from this [OF assms(3)] assms(2,4) show ?thesis by (auto simp: forward_def)
qed

section \<open>Mutes\<close>

definition mute_kept :: "(time \<Rightarrow> time) \<Rightarrow> mute \<Rightarrow> mute" where
  "mute_kept pr m = m\<lparr>m_created_at := pr (m_created_at m), m_expires_at := pr (m_expires_at m)\<rparr>"

definition same_pair :: "(string \<Rightarrow> string) \<Rightarrow> string \<Rightarrow> string \<Rightarrow> mute \<Rightarrow> bool" where
  "same_pair w u r m \<longleftrightarrow> w (m_user_id m) = w u \<and> w (m_room_id m) = w r"

abbreviation active_query :: "time \<Rightarrow> string \<Rightarrow> string \<Rightarrow> query" where
  "active_query now u r \<equiv> Where (C_and (C_and (C_eq ''user_id'' (V_text u)) (C_eq ''room_id'' (V_text r)))
     (C_gt ''expires_at'' (V_time now))) db"

lemma mute_columns [simp]:
  "mute_column m ''user_id'' = V_text (m_user_id m)" "mute_column m ''room_id'' = V_text (m_room_id m)"
  "mute_column m ''expires_at'' = V_time (m_expires_at m)" "mute_column m ''id'' = V_text (m_id m)"
  "sc_column mute_schema = mute_column"
  by (simp_all add: mute_column_def mute_schema_def)

lemma active_selected: "selected w mute_schema (active_query now u r) m \<longleftrightarrow> same_pair w u r m \<and> IsActive now m"
  by (simp add: selected_def same_pair_def IsActive_def)

lemma mysql_find_active:
  assumes "first_spec w mute_schema (g_first g) tab" and "Mutes_FindActive g now u r s = Inr res"
  shows "case res of Some m \<Rightarrow> m \<in># tab s \<and> same_pair w u r m \<and> IsActive now m
    | None \<Rightarrow> \<forall>m \<in># tab s. same_pair w u r m \<longrightarrow> \<not> IsActive now m"
proof -
  have f: "case g_first g (active_query now u r) s of
       Found m \<Rightarrow> m \<in># filter_mset (selected w mute_schema (active_query now u r)) (tab s)
     | Record_not_found \<Rightarrow> filter_mset (selected w mute_schema (active_query now u r)) (tab s) = {#}
     | First_error e \<Rightarrow> True"
    using assms(1) unfolding first_spec_def by blast
  show ?thesis
  proof (cases "g_first g (active_query now u r) s")
    case (Found m)
    with f assms(2) active_selected [where w = w and now = now and u = u and r = r and m = m] show ?thesis by (auto simp: Mutes_FindActive_def)
  next
    case Record_not_found
    with f have "\<forall>m \<in># tab s. \<not> selected w mute_schema (active_query now u r) m" by auto
    with Record_not_found assms(2) active_selected [where w = w and now = now and u = u and r = r] show ?thesis by (simp add: Mutes_FindActive_def)
  next
    case (First_error e)
    with assms(2) show ?thesis by (simp add: Mutes_FindActive_def)
  qed
qed

lemma create_grows:
  assumes "create_spec w keep sc (g_create g) tab" and "g_create g r s = (e, s')"
  shows "tab s \<subseteq># tab s'" and "e = None \<Longrightarrow> tab s' = add_mset (keep r) (tab s)"
  using assms(1) [unfolded create_spec_def, rule_format, OF assms(2)]
  by (auto split: if_splits option.splits)

text \<open>
  Corollary (mutes add up). A mute that was created in the MySQL store is in force until it
  expires, whatever mutes are created after it: a later and shorter one of the same user in the
  same room does not end it, only their deletion does. And a mute that is found is of the user and
  the room and in force.
\<close>

theorem mysql_mutes_add_up:
  assumes "create_spec w (mute_kept pr) mute_schema (g_create g) tab" and "first_spec w mute_schema (g_first g) tab"
    and "Mutes_Create g m s = (None, s1)" and "(\<lambda>s s'. \<exists>m' e. Mutes_Create g m' s = (e, s'))\<^sup>*\<^sup>* s1 s2"
    and "now < pr (m_expires_at m)"
    and "Mutes_FindActive g now (m_user_id m) (m_room_id m) s2 = Inr res"
  shows "\<exists>m'. res = Some m' \<and> m' \<in># tab s2 \<and> same_pair w (m_user_id m) (m_room_id m) m' \<and> IsActive now m'"
proof -
  have "mute_kept pr m \<in># tab s1"
    using create_grows(2) [OF assms(1) assms(3) [unfolded Mutes_Create_def]] by simp
  with assms(4) have k: "mute_kept pr m \<in># tab s2"
  proof (induction rule: rtranclp_induct)
    case (step x y)
    then obtain m' e where c: "g_create g m' x = (e, y)" unfolding Mutes_Create_def by blast
    from step create_grows(1) [OF assms(1) c] show ?case by (meson mset_subset_eqD)
  qed
  have p: "same_pair w (m_user_id m) (m_room_id m) (mute_kept pr m)" and a: "IsActive now (mute_kept pr m)"
    using assms(5) by (simp_all add: same_pair_def mute_kept_def IsActive_def)
  from mysql_find_active [OF assms(2,6)] k p a show ?thesis by (cases res) auto
qed

section \<open>A table in memory\<close>

text \<open>
  A server that holds one table as a list and answers as documented, with which the witnesses
  evaluate: \<open>Find\<close> fails where its sorting has not ordered the rows.
\<close>

definition table_gorm :: "(string \<Rightarrow> string) \<Rightarrow> (time \<Rightarrow> time) \<Rightarrow> ('row \<Rightarrow> 'row) \<Rightarrow> 'row schema \<Rightarrow> ('row, 'row list) gorm" where
  "table_gorm w pr keep sc = \<lparr>
     g_create = (\<lambda>r s. if \<exists>r' \<in> set s. \<exists>ks \<in> set (sc_keys sc). \<forall>k \<in> set ks.
            value_eq w (sc_column sc r k) (sc_column sc r' k)
          then (Some (ErrNew ''Error 1062: Duplicate entry''), s) else (None, s @ [keep r])),
     g_first = (\<lambda>q s. case filter (selected w sc q) s of [] \<Rightarrow> Record_not_found | r # rs \<Rightarrow> Found r),
     g_find = (\<lambda>q s. let before = (\<lambda>a b. row_before w (sc_column sc a) (sc_column sc b) (q_order q));
            xs = insertion_sort before (filter (selected w sc q) s)
          in if sorted_wrt (\<lambda>a b. \<not> before b a) xs then (None, window q xs) else (Some (ErrNew ''unordered''), [])),
     g_updates = (\<lambda>now q ups s.
          ((int (length (filter (\<lambda>r. selected w sc q r \<and> updated pr sc now ups r \<noteq> r) s)), None),
           map (\<lambda>r. if selected w sc q r then updated pr sc now ups r else r) s)),
     g_count = (\<lambda>q s. (None, int (length (filter (selected w sc q) s)))),
     g_delete = (\<lambda>q s. (None, filter (\<lambda>r. \<not> selected w sc q r) s))\<rparr>"

lemma mset_insertion_sort: "mset (insertion_sort lt xs) = mset xs"
  by (induction xs) (simp_all add: insertion_sort_def)

lemma table_gorm_find: "find_spec w sc (g_find (table_gorm w pr keep sc)) mset"
  unfolding find_spec_def answers_def table_gorm_def
  by (auto simp: Let_def mset_insertion_sort split: if_splits intro!: exI [of _ "insertion_sort _ _"])

lemma table_gorm_first: "first_spec w sc (g_first (table_gorm w pr keep sc)) mset"
  unfolding first_spec_def table_gorm_def
proof (intro allI)
  fix q s
  show "case g_first \<lparr>g_create = c, g_first = (\<lambda>q s. case filter (selected w sc q) s of [] \<Rightarrow> Record_not_found | r # rs \<Rightarrow> Found r),
      g_find = f, g_updates = u, g_count = n, g_delete = d\<rparr> q s of
       Found r \<Rightarrow> r \<in># filter_mset (selected w sc q) (mset s)
     | Record_not_found \<Rightarrow> filter_mset (selected w sc q) (mset s) = {#}
     | First_error e \<Rightarrow> True" for c f u n d
    by (cases "filter (selected w sc q) s") (simp_all flip: mset_filter)
qed

lemma table_gorm_updates: "updates_spec w pr sc (g_updates (table_gorm w pr keep sc)) mset"
  by (auto simp: updates_spec_def table_gorm_def Let_def simp flip: mset_filter size_mset)

lemma table_gorm_count: "count_spec w sc (g_count (table_gorm w pr keep sc)) mset"
  by (auto simp: count_spec_def table_gorm_def simp flip: mset_filter size_mset)

lemma table_gorm_create: "create_spec w keep sc (g_create (table_gorm w pr keep sc)) mset"
  by (auto simp: create_spec_def table_gorm_def clashes_def split: if_splits)

lemma table_gorm_never_fails: "g_updates (table_gorm w pr keep sc) now q ups s \<noteq> ((n, Some x), s')"
  by (simp add: table_gorm_def)

section \<open>Witnesses\<close>

text \<open>A collation that ignores the case of ASCII letters.\<close>

definition no_case :: "string \<Rightarrow> string" where
  "no_case s = map (\<lambda>c. if CHR ''A'' \<le> c \<and> c \<le> CHR ''Z'' then byte (byte_of c + 32) else c) s"

lemma no_case_plain: "plain s \<Longrightarrow> no_case s = s"
proof (induction s)
  case (Cons c s)
  then have "c = CHR ''-'' \<or> CHR ''0'' \<le> c \<and> c \<le> CHR ''9'' \<or> CHR ''a'' \<le> c \<and> c \<le> CHR ''z''" "plain s"
    by (simp_all add: plain_def)
  then have "\<not> (CHR ''A'' \<le> c \<and> c \<le> CHR ''Z'')" by (auto simp: less_eq_char_def)
  with Cons \<open>plain s\<close> show ?case by (simp only: no_case_def list.map if_False)
qed (simp add: no_case_def)

lemma keeps_order_no_case: "keeps_order no_case"
  by (simp add: keeps_order_def no_case_plain)

lemma no_case_example: "no_case ''A'' = no_case ''a''"
  by code_simp

lemma keeps_ms_id: "keeps_ms id"
  by (simp add: keeps_ms_def)

abbreviation room_table :: "(room, room list) gorm" where
  "room_table \<equiv> table_gorm no_case id id room_schema"

lemma room_table_ok: "mysql_rooms no_case id id room_table mset"
proof -
  have "plain x" if "x \<in> room_statuses" for x
    using that by (auto simp: room_statuses_def plain_def less_eq_char_def)
  then have "inj_on no_case room_statuses" by (simp add: inj_on_def no_case_plain)
  then show ?thesis
    by (simp add: mysql_rooms_def keeps_ms_id table_gorm_create table_gorm_updates table_gorm_never_fails)
qed

lemma room_table_start:
  "Rooms_UpdateStatus room_table 5 ''a'' RoomStatusPending RoomStatusLive 5 [sample_room ''a'' RoomStatusPending 1] =
     (None, [room_moved 5 RoomStatusLive 5 (sample_room ''a'' RoomStatusPending 1)])"
proof -
  have u: "updated id room_schema 5 (room_updates 5 RoomStatusLive 5) r = room_moved 5 RoomStatusLive 5 r" for r
    by (simp only: room_updated [OF keeps_ms_id])
  have m: "room_moved 5 RoomStatusLive 5 (sample_room ''a'' RoomStatusPending 1) \<noteq> sample_room ''a'' RoomStatusPending 1"
  proof
    assume "room_moved 5 RoomStatusLive 5 (sample_room ''a'' RoomStatusPending 1) = sample_room ''a'' RoomStatusPending 1"
    then have "RoomStatusLive = r_status (sample_room ''a'' RoomStatusPending 1)" by (metis room_moved_simps(1))
    then show False by (simp add: sample_room_def)
  qed
  have sel: "selected no_case room_schema (room_move_query ''a'' RoomStatusPending) (sample_room ''a'' RoomStatusPending 1)"
    by (simp add: room_move_selected sample_room_def)
  have "g_updates room_table 5 (room_move_query ''a'' RoomStatusPending) (room_updates 5 RoomStatusLive 5)
      [sample_room ''a'' RoomStatusPending 1] =
    ((1, None), [room_moved 5 RoomStatusLive 5 (sample_room ''a'' RoomStatusPending 1)])"
    using sel m unfolding table_gorm_def by (simp add: u [simplified])
  then show ?thesis unfolding Rooms_UpdateStatus_def Let_def by simp
qed

text \<open>The rows in the reverse of the order in which the memory store holds them.\<close>

theorem mysql_history_is_memory_history_witness:
  "\<exists>rows. Danmaku_ListSince (table_gorm no_case id id danmaku_schema) ''r'' 1 ''d'' 2 (rev (danmakus sample_store)) = Inr rows \<and>
     DanmakuStore.ListSince insertion_sort ''r'' 1 ''d'' 2 sample_store = Inr rows"
proof -
  have d: "cursors_distinct sample_store"
    by (simp add: cursors_distinct_def sample_store_def sample_danmaku_def danmaku_cursor_def)
  have m: "mset (danmakus sample_store) = mset (rev (danmakus sample_store))" by simp
  have p: "\<forall>d \<in># mset (rev (danmakus sample_store)). plain_danmaku d" "plain ''r''" "plain ''d''"
    by (simp_all add: sample_store_def sample_danmaku_def plain_danmaku_def plain_def less_eq_char_def)
  obtain rows where r: "Danmaku_ListSince (table_gorm no_case id id danmaku_schema) ''r'' 1 ''d'' 2
      (rev (danmakus sample_store)) = Inr rows"
    by (simp add: Danmaku_ListSince_def table_gorm_def selected_def sample_store_def sample_danmaku_def
        insertion_sort_def no_case_plain plain_def less_eq_char_def Let_def)
  have "(0 :: int) < 2" by simp
  from mysql_history_is_memory_history [OF table_gorm_find keeps_order_no_case p m d insertion_sort_spec this r] r
  show ?thesis by blast
qed

theorem mysql_room_compare_and_set_witness:
  "\<exists>s'. Rooms_UpdateStatus room_table 5 ''a'' RoomStatusPending RoomStatusLive 5 [sample_room ''a'' RoomStatusPending 1] = (None, s') \<and>
     mset s' = image_mset (move_room_row no_case 5 ''a'' RoomStatusPending RoomStatusLive 5) (mset [sample_room ''a'' RoomStatusPending 1])"
proof -
  have "no_case RoomStatusPending \<noteq> no_case RoomStatusLive" by code_simp
  from mysql_room_compare_and_set [OF table_gorm_updates table_gorm_count keeps_ms_id this room_table_start] room_table_start
  show ?thesis by simp
qed

theorem mysql_room_moves_forward_witness:
  "\<exists>s'. room_trace (mysql_room_ops room_table) ([sample_room ''a'' RoomStatusPending 1], [])
      [Checked (RoomCall Start ''a'' ''o''), Committed (RoomCall Start ''a'' ''o'') None] (s', []) \<and>
    (\<exists>r' \<in># mset s'. stage (r_status r') = 1)"
proof -
  let ?r = "sample_room ''a'' RoomStatusPending 1"
  let ?ops = "mysql_room_ops room_table"
  have f: "ro_FindByID ?ops ''a'' [?r] = Inr (Some ?r)"
    by (simp add: mysql_room_ops_def Rooms_FindByID_def table_gorm_def room_id_selected sample_room_def)
  have c: "move_check RoomStatusPending ''o'' (Some ?r) = None" by (simp add: move_check_def sample_room_def)
  have "StartRoom ?ops 5 ''a'' ''o'' [?r] = (None, [room_moved 5 RoomStatusLive 5 ?r])"
    using room_table_start by (simp add: StartRoom_def f c move_commit_def) (simp add: mysql_room_ops_def)
  note t = StartRoom_steps [OF this f c]
  have k: "good_rooms no_case (mset [?r])" by (simp add: good_rooms_def room_statuses_def sample_room_def)
  have cm: "successes no_case ''a'' [Checked (RoomCall Start ''a'' ''o''), Committed (RoomCall Start ''a'' ''o'') None] = 1"
    "unsure no_case ''a'' [Checked (RoomCall Start ''a'' ''o''), Committed (RoomCall Start ''a'' ''o'') None] = 0"
    by (simp_all add: successes_def unsure_def)
  have i: "r_id ?r = ''a''" "stage (r_status ?r) = 0" by (simp_all add: sample_room_def stage_def)
  from mysql_room_moves_forward [OF room_table_ok k t, of ?r] i cm t show ?thesis by auto
qed

definition sample_mute :: "string \<Rightarrow> time \<Rightarrow> mute" where
  "sample_mute i t = \<lparr>m_id = i, m_user_id = ''u'', m_room_id = ''r'', m_created_by = ''m'', m_created_at = 0,
     m_expires_at = t, m_reason = ''''\<rparr>"

abbreviation mute_table :: "(mute, mute list) gorm" where
  "mute_table \<equiv> table_gorm id id (mute_kept id) mute_schema"

lemma mute_table_answers: "\<exists>res. Mutes_FindActive mute_table now u r s = Inr res"
  by (cases "filter (selected id mute_schema (active_query now u r)) s")
    (simp_all add: Mutes_FindActive_def table_gorm_def)

text \<open>Muted until 10, then until 3: at 5 still muted.\<close>

theorem mysql_mutes_add_up_witness:
  "\<exists>s1 s2 m. Mutes_Create mute_table (sample_mute ''1'' 10) [] = (None, s1) \<and>
     Mutes_Create mute_table (sample_mute ''2'' 3) s1 = (None, s2) \<and>
     Mutes_FindActive mute_table 5 ''u'' ''r'' s2 = Inr (Some m)"
proof -
  let ?k = "mute_kept id"
  have 1: "Mutes_Create mute_table (sample_mute ''1'' 10) [] = (None, [?k (sample_mute ''1'' 10)])"
    by (simp add: Mutes_Create_def table_gorm_def)
  have 2: "Mutes_Create mute_table (sample_mute ''2'' 3) [?k (sample_mute ''1'' 10)] =
      (None, [?k (sample_mute ''1'' 10), ?k (sample_mute ''2'' 3)])"
    by (simp add: Mutes_Create_def table_gorm_def mute_schema_def mute_column_def mute_kept_def sample_mute_def)
  have st: "(\<lambda>s s'. \<exists>m' e. Mutes_Create mute_table m' s = (e, s'))\<^sup>*\<^sup>* [?k (sample_mute ''1'' 10)]
      [?k (sample_mute ''1'' 10), ?k (sample_mute ''2'' 3)]"
    using 2 by blast
  from mute_table_answers obtain res where r: "Mutes_FindActive mute_table 5 (m_user_id (sample_mute ''1'' 10)) (m_room_id (sample_mute ''1'' 10))
      [?k (sample_mute ''1'' 10), ?k (sample_mute ''2'' 3)] = Inr res" by blast
  have "5 < id (m_expires_at (sample_mute ''1'' 10))" by (simp add: sample_mute_def)
  from mysql_mutes_add_up [OF table_gorm_create table_gorm_first 1 st this r] r 1 2
  show ?thesis by (auto simp: sample_mute_def)
qed

end
