(* ===== verification/Columns.thy ===== *)
theory Columns
  imports Sending Kafka
begin

text \<open>
  The values a danmaku can have. What \<open>validate\<close> and \<open>buildDanmaku\<close> of \<open>service/danmaku.go\<close> let into the
  system is compared with the columns that the tags of \<open>model/danmaku.go\<close> declare for it.
\<close>

section \<open>Well-typed danmaku\<close>

definition well_typed :: "danmaku \<Rightarrow> bool" where
  "well_typed d \<longleftrightarrow> d_content d \<noteq> '''' \<and> length (d_content d) \<le> 500 \<and>
     d_type d \<in> set valid_types \<and> d_font_size d \<in> {18, 25, 36} \<and> HasPrefix (d_color d) ''#'' \<and>
     d_room_id d \<noteq> '''' \<and> d_user_id d \<noteq> '''' \<and> d_timestamp d mod Millisecond = 0 \<and>
     d_status d \<in> {DanmakuStatusApproved, DanmakuStatusFlagged, DanmakuStatusRejected}"

lemma validate_user: "validate req = None \<Longrightarrow> cr_user_id req \<noteq> ''''"
  by (auto simp: validate_def TrimSpace_def trim_segs_def split: if_splits)

lemma truncate_ms_multiple: "truncate_ms t mod Millisecond = 0"
  by (simp add: truncate_ms_def minus_mod_eq_mult_div)

lemma sent_danmaku_typed:
  assumes "validate req = None"
  shows "well_typed (sent_danmaku new_id now req flagged)"
proof -
  note v = validate_content [OF assms] validate_room [OF assms] validate_user [OF assms]
  have "length (cr_content req) \<le> 500" "cr_type req = '''' \<or> cr_type req \<in> set valid_types"
    "cr_font_size req \<in> {0, 18, 25, 36}" "cr_color req = '''' \<or> HasPrefix (cr_color req) ''#''"
    using assms by (auto simp: validate_def split: if_splits)
  with v show ?thesis
    by (auto simp: well_typed_def sent_danmaku_def buildDanmaku_def verdict_status_def truncate_ms_multiple
        valid_types_def HasPrefix_def)
qed

lemma reviewed_typed:
  "well_typed d \<Longrightarrow> st \<in> {DanmakuStatusApproved, DanmakuStatusRejected} \<Longrightarrow> well_typed (reviewed st by reason now d)"
  by (auto simp: well_typed_def reviewed_def)

definition all_typed :: "'r mem_dm_world \<Rightarrow> bool" where
  "all_typed w \<longleftrightarrow> (\<forall>d \<in> set (all_danmaku w). well_typed d)"

lemma send_typed:
  assumes "ds_produce sv = None" and "ds_store sv = memory_store_ops srt"
    and "send_outcome sv new_id clk req w r w'" and "all_typed w"
  shows "all_typed w'"
proof (cases r)
  case None
  then have "all_danmaku w' = all_danmaku w"
    using assms(2,3) by (auto simp: send_outcome_def not_taken_def all_danmaku_def memory_store_ops_def Add_def Let_def)
  with assms(4) show ?thesis by (simp add: all_typed_def)
next
  case (Some dm)
  then obtain flagged where l: "let_through sv clk req w flagged" and t: "taken sv dm w w'"
    and dm: "dm = sent_danmaku new_id (clk 2) req flagged"
    using assms(3) by (auto simp: send_outcome_def)
  have "mset (all_danmaku w') = mset (all_danmaku w @ [dm])"
    by (rule taken_mem(1) [OF assms(1,2) t]) (simp add: dm)
  then have "set (all_danmaku w') = set (all_danmaku w @ [dm])" by (rule mset_eq_setD)
  moreover have "well_typed dm" using l sent_danmaku_typed by (simp add: dm let_through_def)
  ultimately show ?thesis using assms(4) by (simp add: all_typed_def)
qed

lemma stored_set: "store_good s \<Longrightarrow> d \<in> set (danmakus s) \<longleftrightarrow> stored s (d_id d) = Some d"
  by (simp add: stored_iff)

lemma moderate_typed:
  assumes "mod_step (mem_service srt rsrt mord True (\<lambda>m. True) tx aca ar fc) (dw_mod w) m"
    and "dm_good w" and "all_typed w"
  shows "all_typed (w\<lparr>dw_mod := m\<rparr>)"
proof -
  let ?ms = "mem_service srt rsrt mord True (\<lambda>m. True) tx aca ar fc"
  have g0: "mem_mod.mod_good (dw_mod w)" using assms(2) by (simp add: dm_good_def mem_good_iff)
  have g: "store_good (mw_danmaku m)" "store_good (mw_danmaku (dw_mod w))"
    using mem_mod.step_effect(1) [OF assms(1) g0] g0 by (simp_all add: mem_good_def flip: mem_good_iff)
  have rm: "review_moves ?ms stored (dw_mod w) m" by (rule mem_mod.step_effect(2) [OF assms(1) g0])
  have old: "well_typed d" if "stored (mw_danmaku (dw_mod w)) i = Some d" for i d
    using that assms(3) by (auto simp: all_typed_def all_danmaku_def stored_def dest: findSomeD)
  have new: "well_typed d" if "stored (mw_danmaku m) i = Some d" for i d
    using rm unfolding review_moves_def
  proof (elim disjE exE conjE)
    assume "stored (mw_danmaku m) = stored (mw_danmaku (dw_mod w))"
    with that old show ?thesis by simp
  next
    fix j e st reviewer reason now
    assume "stored (mw_danmaku (dw_mod w)) j = Some e" and "valid_transition (d_status e) st"
      and "stored (mw_danmaku m) = alter j (reviewed st reviewer reason now) (stored (mw_danmaku (dw_mod w)))"
    with that old show ?thesis
      by (auto simp: alter_apply valid_transition_def intro!: reviewed_typed split: if_splits)
  qed
  have "well_typed d" if "d \<in> set (danmakus (mw_danmaku m))" for d
    using that new stored_set [OF g(1)] by blast
  with assms(3) show ?thesis by (auto simp: all_typed_def all_danmaku_def)
qed

lemma dm_step_typed:
  assumes "ds_produce sv = None" and "ds_store sv = memory_store_ops srt"
    and "ds_moderation sv = Some (mem_service srt rsrt mord True (\<lambda>m. True) tx aca ar fc)"
    and "dm_step jd sv w w'" and "dm_good w" and "all_typed w"
  shows "all_typed w'"
  using assms(4)
proof (cases rule: dm_step.cases)
  case (step_create new_id clk req res)
  show ?thesis by (rule send_typed [OF assms(1,2) CreateDanmaku_sends(1) [OF step_create(2)] assms(6)])
next
  case (step_message new_id clk room actor data r)
  from step_message(2) show ?thesis
  proof (cases rule: HandleMessage_sends)
    case (2 req res)
    show ?thesis by (rule send_typed [OF assms(1,2) createAndBroadcast_outcome [OF 2(5)] assms(6)])
  qed (use assms(6) in simp)
next
  case step_drain
  have "\<forall>d \<in> set (dw_chan w). d_status d \<noteq> ''''" using assms(5) by (simp add: dm_good_def)
  from drain_all(1) [OF assms(2) this] assms(6) show ?thesis by (simp add: step_drain all_typed_def)
next
  case (step_moderate ms m)
  with moderate_typed [of srt rsrt mord tx aca ar fc w m] assms(3,5,6) show ?thesis by simp
qed (use assms(6) in \<open>simp_all add: all_typed_def all_danmaku_def\<close>)

text \<open>
  Property C27 (well-typed danmaku). After any sequence of sendings over HTTP and WebSocket, consumer turns,
  moderation calls, room changes and the start of a shutdown, every danmaku in the store and in the
  buffer has a content of 1 to 500 bytes, one of the four types, one of the three font sizes, a colour that
  starts with \<open>#\<close>, a room, a user, a time of whole milliseconds and the status approved, flagged
  or rejected.
\<close>

theorem danmaku_well_typed:
  assumes "ds_produce sv = None" and "ds_store sv = memory_store_ops srt"
    and "ds_moderation sv = Some (mem_service srt rsrt mord True (\<lambda>m. True) tx aca ar fc)"
    and "(dm_step jd sv)\<^sup>*\<^sup>* w w'" and "dm_good w" and "screens_agree w" and "all_typed w"
  shows "all_typed w'"
proof -
  from assms(4) have "dm_good w' \<and> screens_agree w' \<and> all_typed w'"
    using assms(5-7)
    by (induction rule: rtranclp_induct)
      (use dm_step_keeps [OF assms(1-3)] dm_step_typed [OF assms(1-3)] in blast)+
  then show ?thesis by simp
qed

text \<open>A service over empty stores, whose user 2 is neither banned nor muted.\<close>

definition empty_dm_world :: "room_mem mem_dm_world" where
  "empty_dm_world = sample_dm_world\<lparr>dw_mod := sample_world\<lparr>mw_danmaku := \<lparr>danmakus = []\<rparr>, mw_sent := []\<rparr>\<rparr>"

lemma empty_dm_world_ok: "dm_good empty_dm_world" "screens_agree empty_dm_world" "all_typed empty_dm_world"
proof -
  have e: "all_danmaku empty_dm_world = []" by (simp add: all_danmaku_def empty_dm_world_def sample_dm_world_def)
  show "dm_good empty_dm_world" using sample_world_good e
    by (simp add: dm_good_def empty_dm_world_def sample_dm_world_def mem_good_def store_good_def)
  show "screens_agree empty_dm_world"
    by (simp add: screens_agree_def known_def [abs_def] e in_step_def unseen_def)
      (simp add: empty_dm_world_def shown_def)
  show "all_typed empty_dm_world" by (simp add: all_typed_def e)
qed

lemma empty_dm_world_created:
  "\<exists>w'. CreateDanmaku (sample_sender sample_service None) ''n'' (\<lambda>k. 5) (sample_request ''so'') empty_dm_world =
     Some (Inr (sent_danmaku ''n'' 5 (sample_request ''so'') False), w')"
proof -
  let ?sv = "sample_sender sample_service None"
  have free: "CheckUserBan sample_service ''2'' (dw_mod empty_dm_world) = Inr False"
    "CheckMute sample_service now ''2'' ''a'' (dw_mod empty_dm_world) = Inr False" for now
    using sample_user_free
    by (simp_all add: empty_dm_world_def sample_service_def CheckUserBan_def CheckMute_def)
  have "passes ?sv 5 (sample_request ''so'') empty_dm_world False"
    using free by (simp add: passes_def sample_sender_def moderation_verdict_def sample_request_def
        CheckContent_def Let_def sample_service_def mem_service_def)
  then have l: "let_through ?sv (\<lambda>k. 5) (sample_request ''so'') empty_dm_world False"
    using sample_request_valid(2)
    by (simp add: let_through_def empty_dm_world_def sample_dm_world_def sample_sender_def)
  have a: "accepts ?sv dm empty_dm_world" for dm
    by (simp add: accepts_def sample_sender_def memory_store_ops_def Add_def)
  have "dw_rooms empty_dm_world = dw_rooms sample_dm_world" by (simp add: empty_dm_world_def)
  with createAndBroadcast_succeeds [OF l a, of "''n''"] show ?thesis
    using sample_room_open by (auto simp: CreateDanmaku_def sample_request_def)
qed

theorem danmaku_well_typed_witness:
  "\<exists>w'. CreateDanmaku (sample_sender sample_service None) ''n'' (\<lambda>k. 5) (sample_request ''so'') empty_dm_world =
     Some (Inr (sent_danmaku ''n'' 5 (sample_request ''so'') False), w') \<and> all_typed w'"
proof -
  let ?sv = "sample_sender sample_service None"
  obtain w' where c: "CreateDanmaku ?sv ''n'' (\<lambda>k. 5) (sample_request ''so'') empty_dm_world =
      Some (Inr (sent_danmaku ''n'' 5 (sample_request ''so'') False), w')"
    using empty_dm_world_created by blast
  have "known empty_dm_world ''n'' = None"
    by (simp add: known_def all_danmaku_def empty_dm_world_def sample_dm_world_def)
  then have "(dm_step sample_decoder ?sv)\<^sup>*\<^sup>* empty_dm_world w'" using step_create [OF _ c] by blast
  from danmaku_well_typed [OF _ _ _ this empty_dm_world_ok] have "all_typed w'"
    by (simp add: sample_sender_def sample_service_def)
  with c show ?thesis by blast
qed

section \<open>Columns\<close>

text \<open>The sizes in the tags of \<open>model.Danmaku\<close>, in characters; a \<open>text\<close> column holds 65535 bytes.\<close>

definition chars :: "string \<Rightarrow> nat" where
  "chars s = length (runes s)"

text \<open>A \<open>varchar\<close> or \<open>text\<close> value is judged without its trailing spaces: MySQL cuts those that do not fit.\<close>

definition strip_spaces :: "string \<Rightarrow> string" where
  "strip_spaces s = rev (dropWhile (\<lambda>c. c = CHR 0x20) (rev s))"

definition fits :: "nat \<Rightarrow> string \<Rightarrow> bool" where
  "fits n s \<longleftrightarrow> chars (strip_spaces s) \<le> n"

definition fits_columns :: "danmaku \<Rightarrow> bool" where
  "fits_columns d \<longleftrightarrow> fits 36 (d_id d) \<and> length (strip_spaces (d_content d)) \<le> 65535 \<and> fits 7 (d_color d) \<and>
     fits 10 (d_type d) \<and> fits 50 (d_room_id d) \<and> fits 50 (d_user_id d) \<and> fits 10 (d_status d) \<and>
     fits 36 (d_reviewed_by d) \<and> fits 255 (d_review_reason d)"

text \<open>
  What MySQL documents of its strict mode, the default: a row with a value that is too long for its
  column, excess trailing spaces aside, is not inserted, and the error is not the one of a duplicate.
\<close>

definition refuses_misfits :: "(rune \<Rightarrow> rune) \<Rightarrow> (danmaku \<Rightarrow> 's \<Rightarrow> go_error option \<times> 's) \<Rightarrow> ('s \<Rightarrow> string \<rightharpoonup> danmaku) \<Rightarrow> bool" where
  "refuses_misfits lower add rows \<longleftrightarrow> (\<forall>d s. \<not> fits_columns d \<longrightarrow> rows (snd (add d s)) = rows s \<and>
     fst (add d s) \<noteq> None \<and> \<not> isDuplicateKeyError lower (fst (add d s)))"

lemma retry_misfit:
  assumes "refuses_misfits lower add rows" and "\<not> fits_columns d"
  shows "retry_add lower add d e n s = (err, s') \<Longrightarrow> err = Some e \<and> rows s' = rows s"
proof (induction n arbitrary: s)
  case (Suc n)
  obtain r s1 where a: "add d s = (r, s1)" by fastforce
  with assms have r: "rows s1 = rows s" "r \<noteq> None" "\<not> isDuplicateKeyError lower r"
    by (auto simp: refuses_misfits_def dest!: spec [of _ d] spec [of _ s])
  with Suc a show ?case by auto
qed simp

lemma misfit_skipped:
  assumes "refuses_misfits lower add rows" and "\<not> fits_columns d" and "dec (km_value msg) = Some ev"
    and "danmaku_of_event ev = d" and "processMessage lower dec add msg (s, marked) = (err, s', marked')"
  shows "rows s' = rows s \<and> marked' = marked @ [msg] \<and> err \<noteq> None"
proof -
  obtain r s1 where a: "add d s = (r, s1)" by fastforce
  with assms(1,2) have r: "rows s1 = rows s" "r \<noteq> None" "\<not> isDuplicateKeyError lower r"
    by (auto simp: refuses_misfits_def dest!: spec [of _ d] spec [of _ s])
  then obtain e where e: "r = Some e" by blast
  obtain err2 s2 where q: "retry_add lower add d e 3 s1 = (err2, s2)" by fastforce
  from retry_misfit [OF assms(1,2) q] assms(3-5) a r e q show ?thesis
    by (auto simp: processMessage_def Let_def)
qed

text \<open>
  Property C19 (a long colour is shown and lost). A request whose colour, trailing spaces aside, is longer than
  seven characters passes \<open>validate\<close> when it starts with \<open>#\<close>: with Kafka its sender gets the danmaku and, unless it
  is flagged, the room is sent it. The consumer of the event, writing to MySQL in its strict mode, then marks its
  message and leaves the table as it was, so the danmaku is in no history.
\<close>

theorem long_colour_is_lost:
  assumes "CreateDanmaku sv new_id clk req w = Some (Inr dm, w')" and "ds_produce sv \<noteq> None"
    and "7 < chars (strip_spaces (cr_color req))"
    and "refuses_misfits lower add rows" and "dec (km_value msg) = Some (eventFromDanmaku dm instance_id)"
    and "processMessage lower dec add msg (s, marked) = (err, s', marked')"
  shows "dw_produced w' = dw_produced w @ [dm] \<and> d_color dm = cr_color req \<and>
    (d_status dm \<noteq> DanmakuStatusFlagged \<longrightarrow> mw_sent (dw_mod w') = mw_sent (dw_mod w) @ [(d_room_id dm, MsgBroadcast dm)]) \<and>
    rows s' = rows s \<and> marked' = marked @ [msg] \<and> err \<noteq> None"
proof -
  from CreateDanmaku_sends(1) [OF assms(1)] obtain flagged where
    dm: "dm = sent_danmaku new_id (clk 2) req flagged" and t: "taken sv dm w w'"
    and s: "mw_sent (dw_mod w') = mw_sent (dw_mod w) @ sent_to (cr_room_id req) dm flagged"
    by (auto simp: send_outcome_def)
  have c: "d_color dm = cr_color req" using assms(3)
    by (auto simp: dm sent_danmaku_def buildDanmaku_def chars_def runes_def strip_spaces_def)
  then have "\<not> fits_columns dm" using assms(3) by (simp add: fits_columns_def fits_def)
  moreover have "danmaku_of_event (eventFromDanmaku dm instance_id) = dm"
    by (rule event_roundtrip) (simp add: dm)
  ultimately have "rows s' = rows s \<and> marked' = marked @ [msg] \<and> err \<noteq> None"
    using misfit_skipped [OF assms(4) _ assms(5) _ assms(6)] by blast
  moreover have "dw_produced w' = dw_produced w @ [dm]" using t assms(2) by (simp add: taken_def)
  ultimately show ?thesis using c s by (auto simp: dm sent_to_def)
qed


definition strict_add :: "danmaku \<Rightarrow> (string \<rightharpoonup> danmaku) \<Rightarrow> go_error option \<times> (string \<rightharpoonup> danmaku)" where
  "strict_add d m = (if fits_columns d then sample_add d m else (Some (ErrNew ''Error 1406: Data too long''), m))"

lemma strict_add_refuses: "refuses_misfits id strict_add id"
proof -
  have "\<not> isDuplicateKeyError id (Some (ErrNew ''Error 1406: Data too long''))" by code_simp
  then show ?thesis by (simp add: refuses_misfits_def strict_add_def)
qed

definition long_colour :: create_request where
  "long_colour = (sample_request ''so'')\<lparr>cr_color := ''#ffffffff''\<rparr>"

definition kafka_sender :: "room_mem mem_service_rec" where
  "kafka_sender = (sample_sender sample_service None)\<lparr>ds_produce := Some (\<lambda>d. None), ds_moderation := None\<rparr>"

lemma long_colour_created:
  "\<exists>w'. CreateDanmaku kafka_sender ''n'' (\<lambda>k. 5) long_colour empty_dm_world =
     Some (Inr (sent_danmaku ''n'' 5 long_colour False), w')"
proof -
  have "validate long_colour = None"
    using sample_request_valid(2) by (auto simp: validate_def long_colour_def HasPrefix_def split: if_splits)
  then have l: "let_through kafka_sender (\<lambda>k. 5) long_colour empty_dm_world False"
    by (simp add: let_through_def passes_def kafka_sender_def sample_sender_def empty_dm_world_def sample_dm_world_def)
  have a: "accepts kafka_sender dm empty_dm_world" for dm by (simp add: accepts_def kafka_sender_def)
  have "validateRoomForSend kafka_sender ''a'' (dw_rooms empty_dm_world) = None"
    using sample_room_open [of sample_service None]
    by (simp add: validateRoomForSend_def kafka_sender_def empty_dm_world_def)
  with createAndBroadcast_succeeds [OF l a, of "''n''"] show ?thesis
    by (auto simp: CreateDanmaku_def long_colour_def sample_request_def)
qed

theorem long_colour_is_lost_witness:
  "\<exists>w' dm. CreateDanmaku kafka_sender ''n'' (\<lambda>k. 5) long_colour empty_dm_world = Some (Inr dm, w') \<and>
    mw_sent (dw_mod w') = [(''a'', MsgBroadcast dm)] \<and>
    fst (snd (processMessage id (\<lambda>v. Some (eventFromDanmaku dm ''i'')) strict_add
      \<lparr>km_topic = ''t'', km_key = ''n'', km_value = ''v''\<rparr> (Map.empty, []))) = Map.empty"
proof -
  let ?dm = "sent_danmaku ''n'' 5 long_colour False"
  let ?m = "\<lparr>km_topic = ''t'', km_key = ''n'', km_value = ''v''\<rparr>"
  let ?dec = "\<lambda>v. Some (eventFromDanmaku ?dm ''i'')"
  obtain w' where c: "CreateDanmaku kafka_sender ''n'' (\<lambda>k. 5) long_colour empty_dm_world = Some (Inr ?dm, w')"
    using long_colour_created by blast
  obtain err s' marked' where p: "processMessage id ?dec strict_add ?m (Map.empty, []) = (err, s', marked')"
    by (metis prod_cases3)
  have k: "ds_produce kafka_sender \<noteq> None" by (simp add: kafka_sender_def)
  have "7 < chars (strip_spaces (cr_color long_colour))" by code_simp
  note l = long_colour_is_lost [OF c k this strict_add_refuses _ p]
  have "mw_sent (dw_mod empty_dm_world) = []" by (simp add: empty_dm_world_def)
  with l c p show ?thesis by (simp add: long_colour_def sample_request_def)
qed

end
