(* ===== verification/Metrics.thy ===== *)
theory Metrics
  imports Handlers
begin

text \<open>
  \<open>metrics/metrics.go\<close>: the Prometheus collectors of the program and their registration, and the
  middleware of \<open>handler/danmaku.go\<close> that counts requests. A collector is the data it is made of; help
  texts and buckets are left out. The registry of the library is the argument \<open>must_register\<close>.
\<close>

section \<open>Collectors\<close>

definition namespace :: string where
  "namespace = ''danmakuflow''"

record metric_opts =
  mo_subsystem :: string
  mo_name :: string

datatype collector =
    Gauge metric_opts
  | Counter metric_opts
  | CounterVec metric_opts "string list"
  | Histogram metric_opts
  | HistogramVec metric_opts "string list"

definition WSConnections :: collector where
  "WSConnections = Gauge \<lparr>mo_subsystem = ''ws'', mo_name = ''connections''\<rparr>"

definition WSActiveRooms :: collector where
  "WSActiveRooms = Gauge \<lparr>mo_subsystem = ''ws'', mo_name = ''active_rooms''\<rparr>"

definition WSConnTotal :: collector where
  "WSConnTotal = Counter \<lparr>mo_subsystem = ''ws'', mo_name = ''conn_total''\<rparr>"

definition WSConnRejects :: collector where
  "WSConnRejects = CounterVec \<lparr>mo_subsystem = ''ws'', mo_name = ''conn_rejects_total''\<rparr> [''reason'']"

definition WSSlowKicks :: collector where
  "WSSlowKicks = Counter \<lparr>mo_subsystem = ''ws'', mo_name = ''slow_kicks_total''\<rparr>"

definition WSMsgRecv :: collector where
  "WSMsgRecv = Counter \<lparr>mo_subsystem = ''ws'', mo_name = ''messages_received_total''\<rparr>"

definition WSClientDeliveries :: collector where
  "WSClientDeliveries = Counter \<lparr>mo_subsystem = ''ws'', mo_name = ''client_deliveries_total''\<rparr>"

definition WSBroadcastDrops :: collector where
  "WSBroadcastDrops = Counter \<lparr>mo_subsystem = ''ws'', mo_name = ''broadcast_drops_total''\<rparr>"

definition RedisPublishTotal :: collector where
  "RedisPublishTotal = CounterVec \<lparr>mo_subsystem = ''redis'', mo_name = ''publish_total''\<rparr> [''result'']"

definition RedisPublishLatency :: collector where
  "RedisPublishLatency = Histogram \<lparr>mo_subsystem = ''redis'', mo_name = ''publish_latency_seconds''\<rparr>"

definition RedisPubQueueLen :: collector where
  "RedisPubQueueLen = Gauge \<lparr>mo_subsystem = ''redis'', mo_name = ''publish_queue_len''\<rparr>"

definition RedisPubQueueCap :: collector where
  "RedisPubQueueCap = Gauge \<lparr>mo_subsystem = ''redis'', mo_name = ''publish_queue_cap''\<rparr>"

definition RedisSubStatus :: collector where
  "RedisSubStatus = Gauge \<lparr>mo_subsystem = ''redis'', mo_name = ''sub_status''\<rparr>"

definition RedisSubEvents :: collector where
  "RedisSubEvents = Counter \<lparr>mo_subsystem = ''redis'', mo_name = ''sub_events_total''\<rparr>"

definition AsyncChanLen :: collector where
  "AsyncChanLen = Gauge \<lparr>mo_subsystem = ''persist'', mo_name = ''async_chan_len''\<rparr>"

definition AsyncChanCap :: collector where
  "AsyncChanCap = Gauge \<lparr>mo_subsystem = ''persist'', mo_name = ''async_chan_cap''\<rparr>"

definition StoreWriteTotal :: collector where
  "StoreWriteTotal = CounterVec \<lparr>mo_subsystem = ''persist'', mo_name = ''writes_total''\<rparr> [''result'']"

definition StoreWriteLatency :: collector where
  "StoreWriteLatency = Histogram \<lparr>mo_subsystem = ''persist'', mo_name = ''write_latency_seconds''\<rparr>"

definition HTTPReqTotal :: collector where
  "HTTPReqTotal = CounterVec \<lparr>mo_subsystem = ''http'', mo_name = ''requests_total''\<rparr> [''method'', ''route'', ''status'']"

definition HTTPReqDuration :: collector where
  "HTTPReqDuration = HistogramVec \<lparr>mo_subsystem = ''http'', mo_name = ''request_duration_seconds''\<rparr> [''method'', ''route'']"

definition KafkaProduceTotal :: collector where
  "KafkaProduceTotal = CounterVec \<lparr>mo_subsystem = ''kafka'', mo_name = ''produce_total''\<rparr> [''result'']"

definition KafkaProduceLatency :: collector where
  "KafkaProduceLatency = Histogram \<lparr>mo_subsystem = ''kafka'', mo_name = ''produce_latency_seconds''\<rparr>"

definition KafkaConsumerMsgTotal :: collector where
  "KafkaConsumerMsgTotal = Counter \<lparr>mo_subsystem = ''kafka'', mo_name = ''consumer_messages_total''\<rparr>"

definition KafkaConsumerErrTotal :: collector where
  "KafkaConsumerErrTotal = CounterVec \<lparr>mo_subsystem = ''kafka'', mo_name = ''consumer_errors_total''\<rparr> [''error_type'']"

definition ModerationActionsTotal :: collector where
  "ModerationActionsTotal = CounterVec \<lparr>mo_subsystem = ''moderation'', mo_name = ''actions_total''\<rparr> [''action'']"

definition ModerationQueueSize :: collector where
  "ModerationQueueSize = Gauge \<lparr>mo_subsystem = ''moderation'', mo_name = ''queue_size''\<rparr>"

section \<open>Registration\<close>

definition registered :: "collector list" where
  "registered =
     [WSConnections, WSActiveRooms, WSConnTotal, WSConnRejects, WSSlowKicks, WSMsgRecv,
     WSClientDeliveries, WSBroadcastDrops, RedisPublishTotal, RedisPublishLatency, RedisPubQueueLen,
     RedisPubQueueCap, RedisSubStatus, RedisSubEvents, AsyncChanLen, AsyncChanCap, StoreWriteTotal,
     StoreWriteLatency, HTTPReqTotal, HTTPReqDuration, KafkaProduceTotal, KafkaProduceLatency,
     KafkaConsumerMsgTotal, KafkaConsumerErrTotal, ModerationActionsTotal, ModerationQueueSize]"

definition Register :: "(collector list \<Rightarrow> 'r \<Rightarrow> 'r option) \<Rightarrow> 'r \<Rightarrow> 'r option" where
  "Register must_register reg = must_register registered reg"

fun opts_of :: "collector \<Rightarrow> metric_opts" where
  "opts_of (Gauge m) = m"
| "opts_of (Counter m) = m"
| "opts_of (CounterVec m ls) = m"
| "opts_of (Histogram m) = m"
| "opts_of (HistogramVec m ls) = m"

fun labels_of :: "collector \<Rightarrow> string list" where
  "labels_of (CounterVec m ls) = ls"
| "labels_of (HistogramVec m ls) = ls"
| "labels_of c = []"

definition full_name :: "collector \<Rightarrow> string" where
  "full_name c = namespace @ ''_'' @ mo_subsystem (opts_of c) @ ''_'' @ mo_name (opts_of c)"

text \<open>
  What the library documents of \<open>MustRegister\<close>, \<open>names\<close> being the full names a registry holds: it panics
  (\<open>None\<close>) when one of the collectors has a name that is registered already, by this call or an earlier one.
\<close>

definition must_register_spec :: "(collector list \<Rightarrow> 'r \<Rightarrow> 'r option) \<Rightarrow> ('r \<Rightarrow> string set) \<Rightarrow> bool" where
  "must_register_spec must_register names \<longleftrightarrow> (\<forall>cs r.
     (must_register cs r = None \<longleftrightarrow> \<not> distinct (map full_name cs) \<or> full_name ` set cs \<inter> names r \<noteq> {}) \<and>
     (\<forall>r'. must_register cs r = Some r' \<longrightarrow> names r' = names r \<union> full_name ` set cs))"

lemmas collector_defs =
  WSConnections_def WSActiveRooms_def WSConnTotal_def WSConnRejects_def WSSlowKicks_def WSMsgRecv_def
  WSClientDeliveries_def WSBroadcastDrops_def RedisPublishTotal_def RedisPublishLatency_def
  RedisPubQueueLen_def RedisPubQueueCap_def RedisSubStatus_def RedisSubEvents_def AsyncChanLen_def
  AsyncChanCap_def StoreWriteTotal_def StoreWriteLatency_def HTTPReqTotal_def HTTPReqDuration_def
  KafkaProduceTotal_def KafkaProduceLatency_def KafkaConsumerMsgTotal_def KafkaConsumerErrTotal_def
  ModerationActionsTotal_def ModerationQueueSize_def

lemma registered_distinct: "distinct (map full_name registered)"
  by code_simp

text \<open>
  Corollary (registration). On a registry without a name of this program the first \<open>Register\<close> succeeds, and
  then every collector of the package is registered; a second one panics, whatever was registered in between.
\<close>

theorem register_once:
  assumes "must_register_spec must_register names" and "\<forall>c \<in> set registered. full_name c \<notin> names reg"
  shows "\<exists>reg'. Register must_register reg = Some reg' \<and> (\<forall>c \<in> set registered. full_name c \<in> names reg') \<and>
    (\<forall>later. names reg' \<subseteq> names later \<longrightarrow> Register must_register later = None)"
proof -
  note spec = assms(1) [unfolded must_register_spec_def, rule_format, of registered]
  have "must_register registered reg \<noteq> None" using spec [of reg] registered_distinct assms(2) by auto
  then obtain reg' where r: "must_register registered reg = Some reg'" by blast
  then have n: "names reg' = names reg \<union> full_name ` set registered" using spec [of reg] by blast
  have "WSConnections \<in> set registered" by (simp add: registered_def)
  then have "must_register registered later = None" if "names reg' \<subseteq> names later" for later
    using spec [of later] that n by blast
  with r n show ?thesis by (auto simp: Register_def)
qed

definition name_registry :: "collector list \<Rightarrow> string set \<Rightarrow> string set option" where
  "name_registry cs r = (if distinct (map full_name cs) \<and> full_name ` set cs \<inter> r = {}
     then Some (r \<union> full_name ` set cs) else None)"

theorem register_once_witness:
  "\<exists>reg. Register name_registry {''go_threads''} = Some reg \<and> Register name_registry reg = None"
proof -
  have "must_register_spec name_registry id" by (auto simp: must_register_spec_def name_registry_def)
  moreover have "\<forall>c \<in> set registered. full_name c \<notin> id {''go_threads''}"
    by (simp add: full_name_def namespace_def)
  ultimately show ?thesis using register_once [of name_registry id "{''go_threads''}"] by auto
qed

section \<open>Counting requests\<close>

type_synonym request_counts = "(string \<times> string) list \<Rightarrow> nat"

text \<open>\<open>With\<close> panics unless the given labels are those of the collector.\<close>

definition labels_match :: "collector \<Rightarrow> (string \<times> string) list \<Rightarrow> bool" where
  "labels_match c ls \<longleftrightarrow> distinct (map fst ls) \<and> set (map fst ls) = set (labels_of c)"

definition request_labels :: "string \<Rightarrow> string \<Rightarrow> nat \<Rightarrow> (string \<times> string) list" where
  "request_labels full_path meth status =
     [(''method'', meth), (''route'', if full_path = '''' then ''unknown'' else full_path), (''status'', Sprintf_d (int status))]"

definition MetricsMiddleware :: "string \<Rightarrow> string \<Rightarrow> ('w \<Rightarrow> (http_reply \<times> 'w) option) \<Rightarrow> 'w \<times> request_counts
  \<Rightarrow> (http_reply \<times> 'w \<times> request_counts) option" where
  "MetricsMiddleware full_path meth handle wm =
     (case handle (fst wm) of
        None \<Rightarrow> None
      | Some (reply, w) \<Rightarrow>
          (let ls = request_labels full_path meth (fst reply) in
           if labels_match HTTPReqTotal ls \<and> labels_match HTTPReqDuration (take 2 ls)
           then Some (reply, w, (snd wm)(ls := Suc (snd wm ls))) else None))"

lemma digits_of_inj: "digits_of m = digits_of n \<Longrightarrow> m = n"
  using read_digits_append [of 0 0 m "[]"] read_digits_append [of 0 0 n "[]"] by simp

lemma request_labels_eq:
  "request_labels p m s = request_labels q n t \<longleftrightarrow>
     m = n \<and> (if p = '''' then ''unknown'' else p) = (if q = '''' then ''unknown'' else q) \<and> s = t"
  by (auto simp: request_labels_def Sprintf_d_def dest: digits_of_inj)

text \<open>
  Corollary (request counting). Behind the middleware a handler answers and changes the world as without
  it, and exactly the counter of the method, the route and the status of its answer goes up, by one: the
  labels fit the collectors, so counting never panics. A handler that panics is not counted.
\<close>

theorem requests_counted:
  "MetricsMiddleware full_path meth handle (w, counts) =
     (case handle w of
        None \<Rightarrow> None
      | Some ((status, body), w') \<Rightarrow> Some ((status, body), w', counts(request_labels full_path meth status :=
          Suc (counts (request_labels full_path meth status))))) \<and>
   (request_labels full_path meth status = request_labels full_path' meth' status' \<longleftrightarrow>
     meth = meth' \<and> status = status' \<and>
     (if full_path = '''' then ''unknown'' else full_path) = (if full_path' = '''' then ''unknown'' else full_path'))"
proof -
  have "labels_match HTTPReqTotal (request_labels p m s)" "labels_match HTTPReqDuration (take 2 (request_labels p m s))" for p m s
    by (auto simp: labels_match_def request_labels_def HTTPReqTotal_def HTTPReqDuration_def)
  then show ?thesis
    by (auto simp: MetricsMiddleware_def Let_def request_labels_eq split: option.split)
qed

end
