(* ===== verification/Tracker.thy ===== *)
theory Tracker
  imports Complex_Main GoNumbers
begin

text \<open>
  \<open>cmd/benchmark/tracker.go\<close>: the records of a load test and the statistics made of them. The counting
  is on integers and is modelled as such; \<open>float64\<close> is the type \<open>'f\<close> with the operations the code
  uses as the argument \<open>fo\<close>. A method runs under the tracker's lock and is one step; a map whose
  size alone matters is the list of its keys.
\<close>

section \<open>Records\<close>

record message_id =
  mi_talker :: int
  mi_seq :: int
  mi_send_idx :: int

record send_record =
  sr_id :: message_id
  sr_time :: time
  sr_expected :: int

record delivery_record =
  dv_listener :: int
  dv_message :: message_id
  dv_time :: time

text \<open>\<open>fo_ceil x\<close> is \<open>int(math.Ceil(x))\<close>, \<open>fo_seconds d\<close> is \<open>d.Seconds()\<close>.\<close>

record 'f float_ops =
  fo_of_int :: "int \<Rightarrow> 'f"
  fo_mul :: "'f \<Rightarrow> 'f \<Rightarrow> 'f"
  fo_div :: "'f \<Rightarrow> 'f \<Rightarrow> 'f"
  fo_less :: "'f \<Rightarrow> 'f \<Rightarrow> bool"
  fo_ceil :: "'f \<Rightarrow> int"
  fo_seconds :: "duration \<Rightarrow> 'f"

record 'f stats =
  st_config :: string
  st_steady :: duration
  st_conn_success :: int
  st_conn_total :: int
  st_sent :: int
  st_delivered :: int
  st_expected :: int
  st_loss :: 'f
  st_send_qps :: 'f
  st_throughput :: 'f
  st_p50 :: 'f
  st_p95 :: 'f
  st_p99 :: 'f
  st_drain :: int
  st_errors :: int

section \<open>Statistics\<close>

definition percentile_index :: "'f float_ops \<Rightarrow> nat \<Rightarrow> int \<Rightarrow> nat" where
  "percentile_index fo n p =
     (let idx = fo_ceil fo (fo_div fo (fo_mul fo (fo_of_int fo (int n)) (fo_of_int fo p)) (fo_of_int fo 100)) - 1;
          idx = (if idx < 0 then 0 else idx);
          idx = (if int n \<le> idx then int n - 1 else idx)
      in nat idx)"

definition latPercentile :: "'f float_ops \<Rightarrow> duration list \<Rightarrow> int \<Rightarrow> 'f" where
  "latPercentile fo records p =
     (if records = [] then fo_of_int fo 0
      else fo_mul fo (fo_seconds fo (records ! percentile_index fo (length records) p)) (fo_of_int fo 1000))"

definition delivery_key :: "delivery_record \<Rightarrow> int \<times> int" where
  "delivery_key d = (dv_listener d, mi_send_idx (dv_message d))"

definition loss_pct :: "'f float_ops \<Rightarrow> int \<Rightarrow> int \<Rightarrow> 'f" where
  "loss_pct fo expected delivered =
     (if 0 < expected
      then (let l = fo_mul fo (fo_div fo (fo_of_int fo (expected - delivered)) (fo_of_int fo expected)) (fo_of_int fo 100)
            in if fo_less fo l (fo_of_int fo 0) then fo_of_int fo 0 else l)
      else fo_of_int fo 0)"

definition ComputeStats :: "'f float_ops \<Rightarrow> duration sorter \<Rightarrow> send_record list \<Rightarrow> delivery_record list \<Rightarrow> duration list
  \<Rightarrow> time \<Rightarrow> time \<Rightarrow> int \<Rightarrow> int \<Rightarrow> int \<Rightarrow> int \<Rightarrow> string \<Rightarrow> 'f stats" where
  "ComputeStats fo srt sends deliveries latencies steady_start steady_end conn_success conn_total drain errs config =
     (let steady = time_sub steady_end steady_start;
          steady = (if steady \<le> 0 then Millisecond else steady);
          delivered = int (length (remdups (map delivery_key deliveries)));
          expected = foldl (\<lambda>n s. i64 (n + sr_expected s)) 0 sends;
          steady_sends = int (length (filter (\<lambda>s. steady_start \<le> sr_time s \<and> sr_time s \<le> steady_end) sends));
          sorted = srt (<) latencies
      in \<lparr>st_config = config, st_steady = steady, st_conn_success = conn_success, st_conn_total = conn_total,
          st_sent = int (length sends), st_delivered = delivered, st_expected = expected,
          st_loss = loss_pct fo expected delivered,
          st_send_qps = fo_div fo (fo_of_int fo steady_sends) (fo_seconds fo steady),
          st_throughput = fo_div fo (fo_of_int fo delivered) (fo_seconds fo steady),
          st_p50 = latPercentile fo sorted 50, st_p95 = latPercentile fo sorted 95, st_p99 = latPercentile fo sorted 99,
          st_drain = drain, st_errors = errs\<rparr>)"

section \<open>The tracker\<close>

record tracker =
  bt_sends :: "send_record list"
  bt_deliveries :: "delivery_record list"
  bt_latencies :: "duration list"
  bt_send_idx :: int

definition new_tracker :: tracker where
  "new_tracker = \<lparr>bt_sends = [], bt_deliveries = [], bt_latencies = [], bt_send_idx = 0\<rparr>"

definition NextMessageID :: "int \<Rightarrow> int \<Rightarrow> tracker \<Rightarrow> message_id \<times> tracker" where
  "NextMessageID talker seq bt =
     (let n = i64 (bt_send_idx bt + 1)
      in (\<lparr>mi_talker = talker, mi_seq = seq, mi_send_idx = n\<rparr>, bt\<lparr>bt_send_idx := n\<rparr>))"

definition RecordSend :: "message_id \<Rightarrow> time \<Rightarrow> int \<Rightarrow> tracker \<Rightarrow> tracker" where
  "RecordSend mid send_time expected bt =
     bt\<lparr>bt_sends := bt_sends bt @ [\<lparr>sr_id = mid, sr_time = send_time, sr_expected = expected\<rparr>]\<rparr>"

definition RecordDelivery :: "int \<Rightarrow> message_id \<Rightarrow> time \<Rightarrow> tracker \<Rightarrow> tracker" where
  "RecordDelivery listener mid receive_time bt =
     bt\<lparr>bt_deliveries := bt_deliveries bt @ [\<lparr>dv_listener = listener, dv_message = mid, dv_time = receive_time\<rparr>]\<rparr>"

definition RecordLatency :: "duration \<Rightarrow> tracker \<Rightarrow> tracker" where
  "RecordLatency lat bt = bt\<lparr>bt_latencies := bt_latencies bt @ [lat]\<rparr>"

definition send_times :: "send_record list \<Rightarrow> int \<rightharpoonup> time" where
  "send_times sends = fold (\<lambda>s m. m(mi_send_idx (sr_id s) \<mapsto> sr_time s)) sends Map.empty"

fun derive_latencies :: "(int \<rightharpoonup> time) \<Rightarrow> (int \<times> int) list \<Rightarrow> delivery_record list \<Rightarrow> duration list" where
  "derive_latencies sent seen [] = []"
| "derive_latencies sent seen (d # ds) =
     (if delivery_key d \<in> set seen then derive_latencies sent seen ds
      else (case sent (mi_send_idx (dv_message d)) of
          Some sent_at \<Rightarrow> if sent_at \<le> dv_time d then [time_sub (dv_time d) sent_at] else []
        | None \<Rightarrow> []) @ derive_latencies sent (delivery_key d # seen) ds)"

definition Compute :: "'f float_ops \<Rightarrow> duration sorter \<Rightarrow> time \<Rightarrow> time \<Rightarrow> int \<Rightarrow> int \<Rightarrow> int \<Rightarrow> int \<Rightarrow> string
  \<Rightarrow> tracker \<Rightarrow> 'f stats" where
  "Compute fo srt steady_start steady_end conn_success conn_total drain errs config bt =
     (let lats = bt_latencies bt @ derive_latencies (send_times (bt_sends bt)) [] (bt_deliveries bt)
      in ComputeStats fo srt (bt_sends bt) (bt_deliveries bt) lats steady_start steady_end conn_success conn_total
           drain errs config)"

section \<open>Percentiles\<close>

text \<open>
  Multiplying and dividing numbers this small, \<open>float64\<close> and \<open>Ceil\<close> give the exact ceiling: the product
  is exact, and a quotient that is no integer is at least a hundredth away from one.
\<close>

definition ceil_exact :: "'f float_ops \<Rightarrow> bool" where
  "ceil_exact fo \<longleftrightarrow> (\<forall>n p. 0 \<le> p \<and> p \<le> 100 \<and> int n < 2 ^ 40 \<longrightarrow>
     fo_ceil fo (fo_div fo (fo_mul fo (fo_of_int fo (int n)) (fo_of_int fo p)) (fo_of_int fo 100)) = - ((- (int n * p)) div 100))"

lemma ceil_div: "(- ((- a) div 100) = (k :: int)) \<longleftrightarrow> 100 * (k - 1) < a \<and> a \<le> 100 * k"
proof -
  define q r where "q = (- a) div 100" and "r = (- a) mod 100"
  have "a = - (100 * q + r)" unfolding q_def r_def by simp
  moreover have "0 \<le> r" "r < 100" unfolding r_def by simp_all
  ultimately have e: "100 * (- q - 1) < a" "a \<le> 100 * - q" by auto
  have "- q = k" if "100 * (k - 1) < a" "a \<le> 100 * k"
  proof (rule order_antisym)
    from e(1) that(2) have "100 * (- q - 1) < 100 * k" by (rule less_le_trans)
    then show "- q \<le> k" by simp
    from that(1) e(2) have "100 * (k - 1) < 100 * - q" by (rule less_le_trans)
    then show "k \<le> - q" by simp
  qed
  with e show ?thesis unfolding q_def [symmetric] by blast
qed

lemma percentile_index_rank:
  assumes "ceil_exact fo" and "0 < n" and "int n < 2 ^ 40" and "0 < p" and "p \<le> 100"
  shows "percentile_index fo n p < n" and "100 * int (percentile_index fo n p) < int n * p"
    and "int n * p \<le> 100 * (int (percentile_index fo n p) + 1)"
proof -
  define k where "k = - ((- (int n * p)) div 100)"
  have k: "100 * (k - 1) < int n * p" "int n * p \<le> 100 * k" using ceil_div [of "int n * p" k] k_def by auto
  have "0 < int n * p" using assms(2,4) by simp
  with k have "1 \<le> k" by linarith
  have "int n * p \<le> 100 * int n" using mult_left_mono [OF assms(5), of "int n"] by simp
  then have "100 * (k - 1) < 100 * int n" using k(1) by linarith
  then have "k \<le> int n" by simp
  have c: "fo_ceil fo (fo_div fo (fo_mul fo (fo_of_int fo (int n)) (fo_of_int fo p)) (fo_of_int fo 100)) = k"
    using assms(1,3-5) unfolding ceil_exact_def k_def by simp
  have i: "int (percentile_index fo n p) = k - 1"
    using \<open>1 \<le> k\<close> \<open>k \<le> int n\<close> by (simp add: percentile_index_def c Let_def)
  show "percentile_index fo n p < n" using i \<open>k \<le> int n\<close> by linarith
  show "100 * int (percentile_index fo n p) < int n * p" "int n * p \<le> 100 * (int (percentile_index fo n p) + 1)"
    using k i by simp_all
qed

text \<open>
  Property C40 (nearest rank). The latency a percentile \<open>p\<close> is read from, of at least one and fewer than
  2 ^ 40 latencies, is one of them, at least \<open>p\<close> percent of the latencies are at most as long, and
  less than \<open>p\<close> percent are shorter, in whatever order the sort leaves equals.
\<close>

theorem percentile_is_nearest_rank:
  assumes "ceil_exact fo" and "sort_slice_spec srt" and "lats \<noteq> []" and "int (length lats) < 2 ^ 40"
    and "0 < p" and "p \<le> 100"
  shows "\<exists>v \<in> set lats. latPercentile fo (srt (<) lats) p = fo_mul fo (fo_seconds fo v) (fo_of_int fo 1000) \<and>
    int (length lats) * p \<le> 100 * int (length (filter (\<lambda>x. x \<le> v) lats)) \<and>
    100 * int (length (filter (\<lambda>x. x < v) lats)) < int (length lats) * p"
proof -
  let ?s = "srt (<) lats"
  let ?n = "length lats"
  let ?i = "percentile_index fo ?n p"
  have len: "length ?s = ?n" by (rule sort_slice_length [OF assms(2)])
  have m: "mset ?s = mset lats" by (rule sort_slice_mset [OF assms(2)])
  have n: "0 < ?n" using assms(3) by simp
  note i = percentile_index_rank [OF assms(1) n assms(4-6)]
  have so: "sorted_wrt (\<lambda>a b. \<not> b < a) ?s"
    by (rule sort_slice_sorted [OF assms(2)]) (auto simp: asymp_on_def transp_def)
  then have so: "sorted ?s" by (simp add: not_less)
  let ?v = "?s ! ?i"
  have v: "?v \<in> set lats" using i(1) len m by (metis nth_mem set_mset_mset)
  have filter_len: "length (filter P lats) = length (filter P ?s)" for P
    by (metis m mset_filter size_mset)
  have "Suc ?i \<le> length (filter (\<lambda>x. x \<le> ?v) ?s)"
  proof -
    have "\<forall>x \<in> set (take (Suc ?i) ?s). x \<le> ?v"
      using so i(1) len by (auto simp: in_set_conv_nth sorted_iff_nth_mono)
    then have "filter (\<lambda>x. x \<le> ?v) (take (Suc ?i) ?s) = take (Suc ?i) ?s" by simp
    moreover have "length (filter (\<lambda>x. x \<le> ?v) (take (Suc ?i) ?s)) \<le> length (filter (\<lambda>x. x \<le> ?v) ?s)"
      by (metis append_take_drop_id filter_append le_add1 length_append)
    ultimately show ?thesis using i(1) len by simp
  qed
  moreover have "length (filter (\<lambda>x. x < ?v) ?s) \<le> ?i"
  proof -
    have "\<forall>x \<in> set (drop ?i ?s). \<not> x < ?v"
      using so i(1) len by (auto simp: in_set_conv_nth sorted_iff_nth_mono not_less)
    then have "filter (\<lambda>x. x < ?v) (drop ?i ?s) = []" by simp
    then have "filter (\<lambda>x. x < ?v) ?s = filter (\<lambda>x. x < ?v) (take ?i ?s)"
      by (metis append_Nil2 append_take_drop_id filter_append)
    then show ?thesis using length_filter_le [of "\<lambda>x. x < ?v" "take ?i ?s"] by simp
  qed
  moreover have "latPercentile fo ?s p = fo_mul fo (fo_seconds fo ?v) (fo_of_int fo 1000)"
    using n len by (auto simp: latPercentile_def)
  ultimately show ?thesis using v i(2,3) by (intro bexI [of _ ?v]) (auto simp: filter_len)
qed


text \<open>The arithmetic of the reals, an instance of \<open>ceil_exact\<close>.\<close>

definition real_ops :: "real float_ops" where
  "real_ops = \<lparr>fo_of_int = of_int, fo_mul = (*), fo_div = (/), fo_less = (<), fo_ceil = ceiling,
     fo_seconds = (\<lambda>d. of_int d / of_int Second)\<rparr>"

lemma real_ops_ceil: "ceil_exact real_ops"
proof -
  have "\<lceil>real_of_int (int n) * real_of_int p / real_of_int 100\<rceil> = - ((- (int n * p)) div 100)" for n p
    using ceiling_divide_eq_div [of "int n * p" 100, where 'a = real] by simp
  then show ?thesis by (simp add: ceil_exact_def real_ops_def)
qed

theorem percentile_is_nearest_rank_witness:
  "\<exists>v \<in> set [30, 10, 20::int]. latPercentile real_ops (insertion_sort (<) [30, 10, 20]) 50
     = fo_mul real_ops (fo_seconds real_ops v) (fo_of_int real_ops 1000) \<and>
    int (length [30, 10, 20::int]) * 50 \<le> 100 * int (length (filter (\<lambda>x. x \<le> v) [30, 10, 20])) \<and>
    100 * int (length (filter (\<lambda>x. x < v) [30, 10, 20])) < int (length [30, 10, 20::int]) * 50"
  by (rule percentile_is_nearest_rank [OF real_ops_ceil insertion_sort_spec]) simp_all

section \<open>Counting\<close>

lemma derive_latencies_bounded:
  "length (derive_latencies sent seen ds) \<le> card (delivery_key ` set ds - set seen)"
proof (induction ds arbitrary: seen)
  case (Cons d ds)
  have fin: "finite (delivery_key ` set ds - set (delivery_key d # seen))" by simp
  show ?case
  proof (cases "delivery_key d \<in> set seen")
    case False
    have e: "delivery_key ` set (d # ds) - set seen
        = insert (delivery_key d) (delivery_key ` set ds - set (delivery_key d # seen))"
      using False by auto
    have "card (delivery_key ` set (d # ds) - set seen) = Suc (card (delivery_key ` set ds - set (delivery_key d # seen)))"
      unfolding e by (rule card_insert_disjoint [OF fin]) simp
    then show ?thesis using Cons.IH [of "delivery_key d # seen"] False by (auto split: option.splits)
  qed (use Cons.IH [of seen] in \<open>simp add: insert_Diff_if\<close>)
qed simp

lemma derive_latencies_nonneg: "l \<in> set (derive_latencies sent seen ds) \<Longrightarrow> 0 \<le> l"
  by (induction ds arbitrary: seen) (auto split: if_splits option.splits simp: time_sub_def)

end
