(* ===== verification/Benchmark.thy ===== *)
theory Benchmark
  imports Tracker Metrics Hub
begin

text \<open>
  \<open>cmd/benchmark/main.go\<close>: the content that identifies a message of a load test, the turns of the
  bots, and the calls that prepare a run. The counters and the tracker are one state and a turn of a
  goroutine is a step; decoding a frame and the HTTP client are arguments.
\<close>

section \<open>Message identifiers\<close>

definition bench_content :: "message_id \<Rightarrow> string" where
  "bench_content mid = ''bm'' @ Sprintf_d (mi_talker mid) @ ''_s'' @ Sprintf_d (mi_seq mid) @ ''_i'' @ Sprintf_d (mi_send_idx mid)"

fun scan_literal :: "string \<Rightarrow> string \<Rightarrow> string option" where
  "scan_literal [] s = Some s"
| "scan_literal (c # cs) [] = None"
| "scan_literal (c # cs) (d # ds) = (if c = d then scan_literal cs ds else None)"

text \<open>The verb \<open>%d\<close> of \<open>fmt.Sscanf\<close> for a 64 bit integer, with what follows the number.\<close>

definition scan_d :: "string \<Rightarrow> (int \<times> string) option" where
  "scan_d s =
     (let (neg, ds) = read_sign (concat (map snd (dropWhile (\<lambda>x. is_space (fst x) \<and> fst x \<noteq> 10) (segments s))));
          (n, k, rest) = read_digits 0 0 ds in
      if k = 0 then None
      else if neg then (if n > 2 ^ 63 then None else Some (- int n, rest))
      else (if n \<ge> 2 ^ 63 then None else Some (int n, rest)))"

text \<open>\<open>Sscanf\<close> with the format \<open>bm%d_s%d_i%d\<close>, when all three numbers are read.\<close>

definition parse_content :: "string \<Rightarrow> message_id option" where
  "parse_content s =
     (case scan_literal ''bm'' s of None \<Rightarrow> None | Some s \<Rightarrow>
      (case scan_d s of None \<Rightarrow> None | Some (talker, s) \<Rightarrow>
       (case scan_literal ''_s'' s of None \<Rightarrow> None | Some s \<Rightarrow>
        (case scan_d s of None \<Rightarrow> None | Some (sq, s) \<Rightarrow>
         (case scan_literal ''_i'' s of None \<Rightarrow> None | Some s \<Rightarrow>
          (case scan_d s of None \<Rightarrow> None | Some (idx, s) \<Rightarrow>
             Some \<lparr>mi_talker = talker, mi_seq = sq, mi_send_idx = idx\<rparr>))))))"

lemma scan_literal_append [simp]: "scan_literal w (w @ s) = Some s"
  by (induction w) auto

section \<open>Bots\<close>

record bench =
  bn_tracker :: tracker
  bn_conn :: int
  bn_sent :: int
  bn_recv :: int
  bn_errors :: int

text \<open>What a listener reads: no broadcast, a broadcast whose payload is no danmaku, or one with its content.\<close>

datatype frame = Other_frame | Bad_payload | Danmaku_frame string

datatype bench_event =
    Bot_open
  | Bot_dial_failed
  | Bot_closed
  | Talker_tick int int time bool
  | Listener_frame int frame time

text \<open>
  \<open>Talker_tick t n now ok\<close>: talker \<open>t\<close> sends its message \<open>n\<close>, and the write succeeds or not;
  \<open>Listener_frame l c now\<close>: listener \<open>l\<close> reads the frame \<open>c\<close>.
  \<open>track\<close> is the flag \<open>-track\<close>.
\<close>

fun bench_step :: "bool \<Rightarrow> bench_event \<Rightarrow> bench \<Rightarrow> bench" where
  "bench_step track Bot_open b = b\<lparr>bn_conn := bn_conn b + 1\<rparr>"
| "bench_step track Bot_dial_failed b = b\<lparr>bn_errors := bn_errors b + 1\<rparr>"
| "bench_step track Bot_closed b = b\<lparr>bn_conn := bn_conn b - 1\<rparr>"
| "bench_step track (Talker_tick t n now ok) b =
     (let (mid, tr) = NextMessageID t n (bn_tracker b) in
      if ok then b\<lparr>bn_tracker := RecordSend mid now (bn_conn b) tr, bn_sent := bn_sent b + 1\<rparr>
      else b\<lparr>bn_tracker := tr, bn_errors := bn_errors b + 1\<rparr>)"
| "bench_step track (Listener_frame l c now) b =
     (case c of
        Other_frame \<Rightarrow> b
      | Bad_payload \<Rightarrow> b\<lparr>bn_recv := bn_recv b + 1\<rparr>
      | Danmaku_frame content \<Rightarrow>
          (let b = b\<lparr>bn_recv := bn_recv b + 1\<rparr> in
           case (if track then parse_content content else None) of None \<Rightarrow> b
           | Some mid \<Rightarrow> b\<lparr>bn_tracker := RecordDelivery l mid now (bn_tracker b)\<rparr>))"

definition new_bench :: bench where
  "new_bench = \<lparr>bn_tracker = new_tracker, bn_conn = 0, bn_sent = 0, bn_recv = 0, bn_errors = 0\<rparr>"

definition bench_run :: "bool \<Rightarrow> bench_event list \<Rightarrow> bench" where
  "bench_run track es = fold (bench_step track) es new_bench"

definition drain_remaining :: "'f stats \<Rightarrow> int" where
  "drain_remaining st = max 0 (st_expected st - st_delivered st)"

section \<open>Reading back what was written\<close>

lemma digits_of_plain: "c \<in> set (digits_of n) \<Longrightarrow> byte_of c < 128 \<and> \<not> is_space (byte_of c)"
  using digits_of_digits [of c n] by (auto simp: digit_def byte_of_def is_space_def)

lemma skip_no_space:
  assumes "s = c # cs" and "byte_of c < 128" and "\<not> is_space (byte_of c)"
  shows "concat (map snd (dropWhile (\<lambda>x. is_space (fst x) \<and> fst x \<noteq> 10) (segments s))) = s"
proof -
  have "segments s = (byte_of c, [c]) # segments cs"
    using segments_step [OF _ decode_ascii [OF assms(2), of cs]] by (simp add: assms(1))
  then have "dropWhile (\<lambda>x. is_space (fst x) \<and> fst x \<noteq> 10) (segments s) = segments s"
    using assms(3) by simp
  then show ?thesis by (simp add: concat_segments)
qed

lemma skip_printed:
  "concat (map snd (dropWhile (\<lambda>x. is_space (fst x) \<and> fst x \<noteq> 10) (segments (Sprintf_d n @ rest)))) = Sprintf_d n @ rest"
proof (cases "n < 0")
  case True
  have "byte_of (CHR ''-'') < 128" "\<not> is_space (byte_of (CHR ''-''))" by (simp_all add: byte_of_def is_space_def)
  from skip_no_space [OF _ this] True show ?thesis by (simp add: Sprintf_d_def)
next
  case False
  obtain c cs where d: "digits_of (nat n) = c # cs" by (cases "digits_of (nat n)") simp_all
  with digits_of_plain [of c "nat n"] have "byte_of c < 128" "\<not> is_space (byte_of c)" by simp_all
  from skip_no_space [OF _ this] d False show ?thesis by (simp add: Sprintf_d_def)
qed

lemma read_digits_stops: "rest = [] \<or> digit_of (hd rest) = None \<Longrightarrow> read_digits n k rest = (n, k, rest)"
  by (cases rest) auto

lemma scan_d_printed:
  assumes "rest = [] \<or> digit_of (hd rest) = None" and "- (2 ^ 63) \<le> n" and "n < 2 ^ 63"
  shows "scan_d (Sprintf_d n @ rest) = Some (n, rest)"
proof (cases "n < 0")
  case True
  have "read_sign (Sprintf_d n @ rest) = (True, digits_of (nat (- n)) @ rest)"
    using True by (simp add: Sprintf_d_def read_sign_def)
  moreover have "read_digits 0 0 (digits_of (nat (- n)) @ rest) = (nat (- n), length (digits_of (nat (- n))), rest)"
    by (simp add: read_digits_append read_digits_stops [OF assms(1)])
  ultimately show ?thesis using True assms(2) by (simp add: scan_d_def skip_printed nat_less_iff)
next
  case False
  have "read_sign (Sprintf_d n @ rest) = (False, digits_of (nat n) @ rest)"
    using False read_sign_digits by (simp add: Sprintf_d_def)
  moreover have "read_digits 0 0 (digits_of (nat n) @ rest) = (nat n, length (digits_of (nat n)), rest)"
    by (simp add: read_digits_append read_digits_stops [OF assms(1)])
  ultimately show ?thesis using False assms(3) by (auto simp: scan_d_def skip_printed nat_less_iff)
qed

lemma letter_no_digit [simp]: "digit_of (CHR ''_'') = None"
  by (simp add: digit_of_def byte_of_def)

definition in_range :: "message_id \<Rightarrow> bool" where
  "in_range mid \<longleftrightarrow> (\<forall>n \<in> {mi_talker mid, mi_seq mid, mi_send_idx mid}. - (2 ^ 63) \<le> n \<and> n < 2 ^ 63)"

lemma parse_printed:
  assumes "in_range mid"
  shows "parse_content (bench_content mid) = Some mid"
proof -
  have r: "scan_d (Sprintf_d (mi_talker mid) @ rest) = Some (mi_talker mid, rest)"
    "scan_d (Sprintf_d (mi_seq mid) @ rest) = Some (mi_seq mid, rest)"
    "scan_d (Sprintf_d (mi_send_idx mid) @ rest) = Some (mi_send_idx mid, rest)"
    if "rest = [] \<or> digit_of (hd rest) = None" for rest
    using scan_d_printed [OF that] assms by (simp_all add: in_range_def)
  have e: "bench_content mid = ''bm'' @ Sprintf_d (mi_talker mid) @ (''_s'' @ Sprintf_d (mi_seq mid) @
      (''_i'' @ Sprintf_d (mi_send_idx mid) @ []))"
    by (simp add: bench_content_def)
  show ?thesis
    unfolding parse_content_def e scan_literal_append option.case
    using r(3) [of "[]"] by (simp add: r)
qed

section \<open>Accounting\<close>

definition sent_ok :: "bench_event list \<Rightarrow> nat" where
  "sent_ok es = length (filter (\<lambda>e. case e of Talker_tick t n now ok \<Rightarrow> ok | _ \<Rightarrow> False) es)"

definition ticks :: "bench_event list \<Rightarrow> nat" where
  "ticks es = length (filter (\<lambda>e. case e of Talker_tick t n now ok \<Rightarrow> True | _ \<Rightarrow> False) es)"

definition heard :: "bench_event list \<Rightarrow> (int \<times> int) set" where
  "heard es = {(l, mi_send_idx mid) | l c now mid. Listener_frame l (Danmaku_frame c) now \<in> set es \<and> parse_content c = Some mid}"

lemma ticks_simps [simp]:
  "ticks [] = 0" "ticks (es @ [Talker_tick t n now ok]) = Suc (ticks es)"
  "ticks (es @ [Listener_frame l c now]) = ticks es" "ticks (es @ [Bot_open]) = ticks es"
  "ticks (es @ [Bot_dial_failed]) = ticks es" "ticks (es @ [Bot_closed]) = ticks es"
  by (simp_all add: ticks_def)

lemma sent_ok_simps [simp]:
  "sent_ok [] = 0" "sent_ok (es @ [Talker_tick t n now ok]) = (if ok then Suc (sent_ok es) else sent_ok es)"
  "sent_ok (es @ [Listener_frame l c now]) = sent_ok es" "sent_ok (es @ [Bot_open]) = sent_ok es"
  "sent_ok (es @ [Bot_dial_failed]) = sent_ok es" "sent_ok (es @ [Bot_closed]) = sent_ok es"
  by (simp_all add: sent_ok_def)

lemma bench_run_snoc: "bench_run track (es @ [e]) = bench_step track e (bench_run track es)"
  by (simp add: bench_run_def)

lemma bench_run_inv:
  assumes "int (ticks es) < 2 ^ 63"
  shows "let b = bench_run True es; tr = bn_tracker b in
    bt_send_idx tr = int (ticks es) \<and> distinct (map (\<lambda>s. mi_send_idx (sr_id s)) (bt_sends tr)) \<and>
    (\<forall>s \<in> set (bt_sends tr). 1 \<le> mi_send_idx (sr_id s) \<and> mi_send_idx (sr_id s) \<le> int (ticks es)) \<and>
    length (bt_sends tr) = sent_ok es \<and> bn_sent b = int (sent_ok es) \<and>
    delivery_key ` set (bt_deliveries tr) = heard es \<and> bt_latencies tr = []"
  using assms
proof (induction es rule: rev_induct)
  case Nil
  then show ?case by (simp add: bench_run_def new_bench_def new_tracker_def heard_def)
next
  case (snoc e es)
  have t: "int (ticks es) < 2 ^ 63" using snoc.prems by (cases e) auto
  note IH = snoc.IH [OF t, unfolded Let_def]
  show ?case
  proof (cases e)
    case (Talker_tick tk n now ok)
    have i: "i64 (int (ticks es) + 1) = int (ticks es) + 1"
      using snoc.prems by (intro i64_id) (auto simp: Talker_tick)
    have h: "heard (es @ [e]) = heard es" by (auto simp: heard_def Talker_tick)
    show ?thesis
      unfolding bench_run_snoc h using IH
      by (auto simp: Talker_tick NextMessageID_def RecordSend_def Let_def i)
  next
    case (Listener_frame l c now)
    have "heard (es @ [e]) = heard es \<union> {(l, mi_send_idx mid) | mid x. c = Danmaku_frame x \<and> parse_content x = Some mid}"
      by (auto simp: heard_def Listener_frame)
    then show ?thesis
      unfolding bench_run_snoc using IH
      by (auto simp: Listener_frame RecordDelivery_def Let_def delivery_key_def split: option.split frame.split)
  qed (use IH in \<open>auto simp: bench_run_snoc Let_def heard_def\<close>)
qed

text \<open>
  Corollary (benchmark contents). The content a talker writes is read back by every listener as the
  identifier it was made of, for all values of 64 bits, negative ones included.
\<close>

theorem bench_content_roundtrip:
  assumes "in_range mid"
  shows "parse_content (bench_content mid) = Some mid"
  by (rule parse_printed [OF assms])

theorem bench_content_roundtrip_witness:
  "parse_content ''bm7_s12_i345'' = Some \<lparr>mi_talker = 7, mi_seq = 12, mi_send_idx = 345\<rparr>"
proof -
  have "in_range \<lparr>mi_talker = 7, mi_seq = 12, mi_send_idx = 345\<rparr>" by (simp add: in_range_def)
  moreover have "bench_content \<lparr>mi_talker = 7, mi_seq = 12, mi_send_idx = 345\<rparr> = ''bm7_s12_i345''" by code_simp
  ultimately show ?thesis using bench_content_roundtrip by metis
qed

text \<open>
  Corollary (accounting of a load test). After any interleaving of the turns of the bots, with fewer than
  2 ^ 63 messages, the statistics count as sent the messages whose write succeeded, no two under one
  identifier, and as delivered the pairs of a listener and a message it read, however often it read it; of
  the latencies behind the percentiles there is at most one for each pair, and none is negative.
\<close>

theorem bench_accounting:
  assumes "int (ticks es) < 2 ^ 63"
  shows "let tr = bn_tracker (bench_run True es);
      st = Compute fo srt t0 t1 conns attempts drain errs config tr;
      lats = derive_latencies (send_times (bt_sends tr)) [] (bt_deliveries tr)
    in st_sent st = int (sent_ok es) \<and> distinct (map (\<lambda>s. mi_send_idx (sr_id s)) (bt_sends tr)) \<and>
      st_delivered st = int (card (heard es)) \<and> length lats \<le> card (heard es) \<and> (\<forall>l \<in> set lats. 0 \<le> l)"
proof -
  note inv = bench_run_inv [OF assms, unfolded Let_def]
  let ?tr = "bn_tracker (bench_run True es)"
  have "length (derive_latencies (send_times (bt_sends ?tr)) [] (bt_deliveries ?tr)) \<le> card (heard es)"
    using derive_latencies_bounded [of "send_times (bt_sends ?tr)" "[]" "bt_deliveries ?tr"] inv by simp
  moreover have "length (remdups (map delivery_key (bt_deliveries ?tr))) = card (heard es)"
    using inv by (simp add: length_remdups_card_conv)
  ultimately show ?thesis
    using inv derive_latencies_nonneg by (auto simp: Compute_def ComputeStats_def Let_def)
qed

theorem bench_accounting_witness:
  "st_delivered (Compute real_ops insertion_sort 0 9 1 1 0 0 '''' (bn_tracker (bench_run True
     [Bot_open, Talker_tick 0 0 5 True, Listener_frame 3 (Danmaku_frame ''bm0_s0_i1'') 7, Listener_frame 3 (Danmaku_frame ''bm0_s0_i1'') 8]))) = 1"
proof -
  let ?es = "[Bot_open, Talker_tick 0 0 5 True, Listener_frame 3 (Danmaku_frame ''bm0_s0_i1'') 7, Listener_frame 3 (Danmaku_frame ''bm0_s0_i1'') 8]"
  have p: "parse_content ''bm0_s0_i1'' = Some \<lparr>mi_talker = 0, mi_seq = 0, mi_send_idx = 1\<rparr>"
  proof -
    have "bench_content \<lparr>mi_talker = 0, mi_seq = 0, mi_send_idx = 1\<rparr> = ''bm0_s0_i1''" by code_simp
    then show ?thesis using parse_printed [of "\<lparr>mi_talker = 0, mi_seq = 0, mi_send_idx = 1\<rparr>"]
      by (simp add: in_range_def)
  qed
  have "heard ?es = {(3, 1)}" by (auto simp: heard_def p) (metis p message_id.select_convs(3))
  moreover have "int (ticks ?es) < 2 ^ 63" by (simp add: ticks_def)
  ultimately show ?thesis
    using bench_accounting [of ?es real_ops insertion_sort 0 9 1 1 0 0 "''''"] by (simp add: Let_def)
qed

section \<open>Preparing a run\<close>

record http_call =
  hc_method :: string
  hc_path :: string
  hc_body :: string
  hc_authorization :: string

text \<open>An answer: its status, and the member \<open>token\<close> of its body when that is a string.\<close>

record http_answer =
  ha_status :: nat
  ha_token :: "string option"

type_synonym 's http_client = "http_call \<Rightarrow> 's \<Rightarrow> http_answer option \<times> 's"

definition quoted :: "string \<Rightarrow> string" where
  "quoted s = CHR 0x22 # s @ [CHR 0x22]"

definition credentials :: "string \<Rightarrow> string \<Rightarrow> string" where
  "credentials user pass = ''{'' @ quoted ''username'' @ '':'' @ quoted user @ '','' @ quoted ''password'' @ '':'' @ quoted pass @ ''}''"

definition http_post :: "string \<Rightarrow> string \<Rightarrow> string \<Rightarrow> http_call" where
  "http_post path body auth = \<lparr>hc_method = ''POST'', hc_path = path, hc_body = body, hc_authorization = auth\<rparr>"

definition obtain_token :: "'s http_client \<Rightarrow> string \<Rightarrow> string \<Rightarrow> string \<Rightarrow> 's \<Rightarrow> (go_error + string) \<times> 's" where
  "obtain_token http token user pass s =
     (if token \<noteq> '''' then (Inr token, s)
      else case http (http_post ''/api/auth/register'' (credentials user pass) '''') s of
        (None, s) \<Rightarrow> (Inl (ErrNew ''registration request failed''), s)
      | (Some a, s) \<Rightarrow>
          (case (if ha_status a = 409 then http (http_post ''/api/auth/login'' (credentials user pass) '''') s else (Some a, s)) of
             (None, s) \<Rightarrow> (Inl (ErrNew ''login request failed''), s)
           | (Some a, s) \<Rightarrow>
               if ha_status a \<noteq> 200 \<and> ha_status a \<noteq> 201 then (Inl (ErrNew ''authentication failed''), s)
               else (case ha_token a of None \<Rightarrow> (Inl (ErrNew ''no token in the answer''), s) | Some t \<Rightarrow> (Inr t, s))))"

definition ensure_room :: "'s http_client \<Rightarrow> string \<Rightarrow> string \<Rightarrow> 's \<Rightarrow> go_error option \<times> 's" where
  "ensure_room http token room s =
     (let start = http_post (''/api/rooms/'' @ room @ ''/start'') '''' (''Bearer '' @ token) in
      case http \<lparr>hc_method = ''GET'', hc_path = ''/api/rooms/'' @ room, hc_body = '''', hc_authorization = ''''\<rparr> s of
        (a, s) \<Rightarrow>
          if map_option ha_status a = Some 200 then (None, snd (http start s))
          else case http (http_post ''/api/rooms'' (''{'' @ quoted ''title'' @ '':'' @ quoted room @ ''}'') (''Bearer '' @ token)) s of
            (None, s) \<Rightarrow> (Some (ErrNew ''creating the room failed''), s)
          | (Some b, s) \<Rightarrow>
              (case http start s of
                 (None, s) \<Rightarrow> (Some (ErrNew ''starting the room failed''), s)
               | (Some c, s) \<Rightarrow> (None, s)))"

definition ensureSetup :: "'s http_client \<Rightarrow> string \<Rightarrow> string \<Rightarrow> string \<Rightarrow> bool \<Rightarrow> string \<Rightarrow> 's \<Rightarrow> (go_error + string) \<times> 's" where
  "ensureSetup http token user pass auto_room room s =
     (case obtain_token http token user pass s of
        (Inl e, s) \<Rightarrow> (Inl e, s)
      | (Inr token, s) \<Rightarrow>
          if auto_room then (case ensure_room http token room s of (None, s) \<Rightarrow> (Inr token, s) | (Some e, s) \<Rightarrow> (Inl e, s))
          else (Inr token, s))"

text \<open>
  Corollary (the room is not checked). With a token, \<open>ensureSetup\<close> reports success on every server that answers at
  all, with whatever status: one that refuses to create and to start the room included.
\<close>

theorem setup_ignores_refusals:
  assumes "token \<noteq> ''''" and "\<And>c s. fst (http c s) \<noteq> None"
  shows "fst (ensureSetup http token user pass auto_room room s) = Inr token"
proof -
  have "\<exists>a s'. http c s = (Some a, s')" for c s using assms(2) [of c s] by (cases "http c s") auto
  then have "fst (ensure_room http token room s) = None" for s
    by (auto simp: ensure_room_def Let_def split: prod.split option.split) (metis assms(2) fst_conv)+
  then show ?thesis using assms(1)
    by (auto simp: ensureSetup_def obtain_token_def split: prod.split option.split) (metis fst_conv option.distinct(1))+
qed

section \<open>The HTTP load\<close>

record http_counts =
  hn_sent :: int
  hn_ok :: int
  hn_err :: int

definition sendHTTP :: "'s http_client \<Rightarrow> string \<Rightarrow> string \<Rightarrow> string \<Rightarrow> http_counts \<times> 's \<Rightarrow> http_counts \<times> 's" where
  "sendHTTP http token room body ns =
     (case http (http_post (''/api/room/'' @ room @ ''/danmaku'') body
                  (if token \<noteq> '''' then ''Bearer '' @ token else '''')) (snd ns) of
        (a, s) \<Rightarrow>
          (let n = (fst ns)\<lparr>hn_sent := hn_sent (fst ns) + 1\<rparr> in
           (if map_option ha_status a = Some 201 then n\<lparr>hn_ok := hn_ok n + 1\<rparr> else n\<lparr>hn_err := hn_err n + 1\<rparr>, s)))"

text \<open>The interval of the ticker; \<open>None\<close> is the panic of a division by zero.\<close>

definition http_interval :: "int \<Rightarrow> duration option" where
  "http_interval qps = (if qps = 0 then None else Some (max (go_div Second qps) Millisecond))"

text \<open>
  Corollary (HTTP accounting). Every request is counted once, as a success exactly when it was answered with 201.
\<close>

theorem http_counts_add_up:
  "hn_sent (fst ns) = hn_ok (fst ns) + hn_err (fst ns) \<Longrightarrow>
   ns' = fold (sendHTTP http token room) bodies ns \<Longrightarrow>
   hn_sent (fst ns') = hn_ok (fst ns') + hn_err (fst ns') \<and> hn_sent (fst ns') = hn_sent (fst ns) + int (length bodies)"
proof (induction bodies arbitrary: ns)
  case (Cons b bs)
  have "hn_sent (fst (sendHTTP http token room b ns)) = hn_sent (fst ns) + 1 \<and>
      hn_sent (fst (sendHTTP http token room b ns)) =
        hn_ok (fst (sendHTTP http token room b ns)) + hn_err (fst (sendHTTP http token room b ns))"
    using Cons.prems(1) by (auto simp: sendHTTP_def Let_def split: prod.split)
  with Cons.IH [of "sendHTTP http token room b ns"] Cons.prems(2) show ?case by simp
qed simp

end
