(* ===== verification/Pumps.thy ===== *)
theory Pumps
  imports WsHandler
begin

text \<open>
  \<open>websocket/client.go\<close>: the two goroutines of a connection. \<open>readPump\<close> hands every message to the
  \<open>MessageHandler\<close> and queues its reply, \<open>writePump\<close> is the only one that writes to the
  connection. They and the room's loop run independently, so a turn of one of them is a step. \<open>handle k\<close> is
  the \<open>k\<close>-th call of the handler, which draws its own identifiers and times; deadlines are the
  transport's and appear as the errors they cause.
\<close>

datatype written = Text envelope | Ping | Close

text \<open>
  \<open>pm_queued\<close> and \<open>pm_handled\<close> are histories: what the queue has taken and what the handler has returned.
\<close>

record 'w pump =
  pm_world :: 'w
  pm_client :: client
  pm_reading :: bool
  pm_writing :: bool
  pm_out :: "written list"
  pm_calls :: nat
  pm_queued :: "envelope list"
  pm_handled :: "handle_result list"

definition new_pump :: "'w \<Rightarrow> client \<Rightarrow> 'w pump" where
  "new_pump w cl = \<lparr>pm_world = w, pm_client = cl, pm_reading = True, pm_writing = True, pm_out = [], pm_calls = 0,
     pm_queued = wc_send cl, pm_handled = []\<rparr>"

text \<open>\<open>enqueue\<close>, through which replies and the replay of a history go.\<close>

definition offer :: "int \<Rightarrow> envelope \<Rightarrow> 'w pump \<Rightarrow> 'w pump" where
  "offer cap env s =
     (let (ok, cl) = enqueue cap env (pm_client s)
      in s\<lparr>pm_client := cl, pm_queued := (if ok then pm_queued s @ [env] else pm_queued s)\<rparr>)"

definition pump_stop :: "'w pump \<Rightarrow> 'w pump" where
  "pump_stop s = s\<lparr>pm_client := (pm_client s)\<lparr>wc_done := True\<rparr>\<rparr>"

text \<open>
  The send of \<open>broadcastToClients\<close>: it does not look at \<open>done\<close>, and stops the client when the queue is full.
\<close>

definition room_send :: "int \<Rightarrow> envelope \<Rightarrow> 'w pump \<Rightarrow> 'w pump" where
  "room_send cap env s =
     (if int (length (wc_send (pm_client s))) < cap
      then s\<lparr>pm_client := (pm_client s)\<lparr>wc_send := wc_send (pm_client s) @ [env]\<rparr>, pm_queued := pm_queued s @ [env]\<rparr>
      else pump_stop s)"

definition readPump :: "int \<Rightarrow> (nat \<Rightarrow> string \<Rightarrow> 'w \<Rightarrow> (handle_result \<times> 'w) option) \<Rightarrow> string option \<Rightarrow> 'w pump \<Rightarrow> 'w pump option" where
  "readPump cap handle msg s =
     (case msg of
        None \<Rightarrow> Some (pump_stop (s\<lparr>pm_reading := False\<rparr>))
      | Some data \<Rightarrow>
          (case handle (pm_calls s) data (pm_world s) of
             None \<Rightarrow> None
           | Some (result, w) \<Rightarrow> Some (offer cap (sendResult result)
               (s\<lparr>pm_world := w, pm_calls := Suc (pm_calls s), pm_handled := pm_handled s @ [result]\<rparr>))))"

datatype wake = Wake_send | Wake_done | Wake_ticker

text \<open>A turn of \<open>writePump\<close> for a case of its \<open>select\<close> that is ready, and whether the write succeeds.\<close>

definition writePump :: "wake \<Rightarrow> bool \<Rightarrow> 'w pump \<Rightarrow> 'w pump" where
  "writePump wk ok s =
     (case wk of
        Wake_send \<Rightarrow>
          (case wc_send (pm_client s) of
             [] \<Rightarrow> s
           | m # ms \<Rightarrow>
               (let s = s\<lparr>pm_client := (pm_client s)\<lparr>wc_send := ms\<rparr>\<rparr> in
                if ok then s\<lparr>pm_out := pm_out s @ [Text m]\<rparr> else pump_stop (s\<lparr>pm_writing := False\<rparr>)))
      | Wake_done \<Rightarrow>
          if wc_done (pm_client s)
          then pump_stop (s\<lparr>pm_out := (if ok then pm_out s @ [Close] else pm_out s), pm_writing := False\<rparr>) else s
      | Wake_ticker \<Rightarrow> if ok then s\<lparr>pm_out := pm_out s @ [Ping]\<rparr> else pump_stop (s\<lparr>pm_writing := False\<rparr>))"

definition is_reply :: "envelope \<Rightarrow> bool" where
  "is_reply env \<longleftrightarrow> (case env of MsgAck a \<Rightarrow> True | MsgError e \<Rightarrow> True | _ \<Rightarrow> False)"

inductive pump_step :: "int \<Rightarrow> (nat \<Rightarrow> string \<Rightarrow> 'w \<Rightarrow> (handle_result \<times> 'w) option) \<Rightarrow> 'w pump \<Rightarrow> 'w pump \<Rightarrow> bool"
  for cap handle where
  step_read: "pm_reading s \<Longrightarrow> readPump cap handle msg s = Some s' \<Longrightarrow> pump_step cap handle s s'"
| step_write: "pm_writing s \<Longrightarrow> pump_step cap handle s (writePump wk ok s)"
| step_replay: "\<not> is_reply env \<Longrightarrow> pump_step cap handle s (offer cap env s)"
| step_room: "\<not> is_reply env \<Longrightarrow> pump_step cap handle s (room_send cap env s)"
| step_stopped: "pump_step cap handle s (pump_stop s)"
| step_world: "pump_step cap handle s (s\<lparr>pm_world := w\<rparr>)"

section \<open>Order\<close>

definition texts :: "written list \<Rightarrow> envelope list" where
  "texts out = concat (map (\<lambda>x. case x of Text e \<Rightarrow> [e] | _ \<Rightarrow> []) out)"

lemma texts_simps [simp]:
  "texts [] = []" "texts (xs @ ys) = texts xs @ texts ys" "texts [Text e] = [e]" "texts [Ping] = []" "texts [Close] = []"
  by (simp_all add: texts_def)

lemma is_reply_sendResult [simp]: "is_reply (sendResult r)"
  by (simp add: is_reply_def sendResult_def)

definition pump_inv :: "int \<Rightarrow> 'w pump \<Rightarrow> bool" where
  "pump_inv cap s \<longleftrightarrow> prefix (texts (pm_out s)) (pm_queued s) \<and>
     (pm_writing s \<longrightarrow> texts (pm_out s) @ wc_send (pm_client s) = pm_queued s \<and> Close \<notin> set (pm_out s)) \<and>
     (\<not> pm_writing s \<longrightarrow> wc_done (pm_client s)) \<and> Close \<notin> set (butlast (pm_out s)) \<and>
     subseq (filter is_reply (pm_queued s)) (map sendResult (pm_handled s)) \<and>
     length (pm_handled s) = pm_calls s \<and> int (length (wc_send (pm_client s))) \<le> max 0 cap"

lemma offer_inv:
  assumes "pump_inv cap s" and "is_reply env \<Longrightarrow> subseq (filter is_reply (pm_queued s) @ [env]) (map sendResult (pm_handled s))"
  shows "pump_inv cap (offer cap env s)"
  using assms
  by (auto simp: pump_inv_def offer_def enqueue_def Let_def prefix_def)

lemma pump_stop_inv: "pump_inv cap s \<Longrightarrow> pump_inv cap (pump_stop s)"
  by (auto simp: pump_inv_def pump_stop_def)

lemma room_send_inv: "pump_inv cap s \<Longrightarrow> \<not> is_reply env \<Longrightarrow> pump_inv cap (room_send cap env s)"
  by (auto simp: pump_inv_def room_send_def pump_stop_def prefix_def)

lemma read_inv:
  assumes "pump_inv cap s" and "readPump cap handle msg s = Some s'"
  shows "pump_inv cap s'"
proof (cases msg)
  case None
  have "pump_inv cap (s\<lparr>pm_reading := False\<rparr>)" using assms(1) by (simp add: pump_inv_def)
  from pump_stop_inv [OF this] assms(2) None show ?thesis by (simp add: readPump_def)
next
  case (Some data)
  then obtain r w where s': "s' = offer cap (sendResult r)
      (s\<lparr>pm_world := w, pm_calls := Suc (pm_calls s), pm_handled := pm_handled s @ [r]\<rparr>)"
    using assms(2) by (auto simp: readPump_def split: option.splits)
  have q: "subseq (filter is_reply (pm_queued s)) (map sendResult (pm_handled s))"
    using assms(1) by (simp add: pump_inv_def)
  show ?thesis
    unfolding s'
  proof (rule offer_inv)
    show "pump_inv cap (s\<lparr>pm_world := w, pm_calls := Suc (pm_calls s), pm_handled := pm_handled s @ [r]\<rparr>)"
      using assms(1) by (auto simp: pump_inv_def intro: list_emb_append2)
  qed (use q in \<open>simp add: list_emb_append_mono\<close>)
qed

lemma write_inv:
  assumes "pump_inv cap s" and "pm_writing s"
  shows "pump_inv cap (writePump wk ok s)"
proof (cases wk)
  case Wake_send
  show ?thesis
  proof (cases "wc_send (pm_client s)")
    case Nil
    then show ?thesis using assms Wake_send by (simp add: writePump_def)
  next
    case (Cons m ms)
    then show ?thesis using assms Wake_send
      by (auto simp: writePump_def pump_stop_def pump_inv_def prefix_def Let_def butlast_append) metis
  qed
next
  case Wake_done
  then show ?thesis using assms
    by (auto simp: writePump_def pump_stop_def pump_inv_def butlast_append dest: in_set_butlastD)
next
  case Wake_ticker
  then show ?thesis using assms
    by (auto simp: writePump_def pump_stop_def pump_inv_def butlast_append dest: in_set_butlastD)
qed

lemma step_inv: "pump_step cap handle s s' \<Longrightarrow> pump_inv cap s \<Longrightarrow> pump_inv cap s'"
  by (induction rule: pump_step.induct)
    (auto intro: read_inv write_inv offer_inv room_send_inv pump_stop_inv, simp add: pump_inv_def)

lemma steps_inv:
  assumes "(pump_step cap handle)\<^sup>*\<^sup>* s s'" and "pump_inv cap s"
  shows "pump_inv cap s'"
  using assms by (induction rule: rtranclp_induct) (auto intro: step_inv)

text \<open>
  Property C11 (one reply each, in order). In every interleaving of the two pumps, the room's broadcasts and calls of
  \<open>stop\<close>, the connection is written exactly what its queue took, in that order, as far as it has been
  written: nothing twice, nothing out of turn, nothing skipped while the writer runs. The replies among it
  are replies to the messages read, in their order and at most one each. A close frame is written last and
  once, a writer that has ended leaves the client stopped, and the queue stays within its capacity.
\<close>

theorem replies_in_order:
  assumes "(pump_step cap handle)\<^sup>*\<^sup>* (new_pump w cl) s" and "wc_send cl = []"
  shows "prefix (texts (pm_out s)) (pm_queued s) \<and>
    (pm_writing s \<longrightarrow> texts (pm_out s) @ wc_send (pm_client s) = pm_queued s) \<and>
    subseq (filter is_reply (texts (pm_out s))) (map sendResult (pm_handled s)) \<and> length (pm_handled s) = pm_calls s \<and>
    Close \<notin> set (butlast (pm_out s)) \<and> (\<not> pm_writing s \<longrightarrow> wc_done (pm_client s)) \<and>
    int (length (wc_send (pm_client s))) \<le> max 0 cap"
proof -
  have "pump_inv cap (new_pump w cl)" using assms(2) by (simp add: pump_inv_def new_pump_def)
  from steps_inv [OF assms(1) this] have i: "pump_inv cap s" .
  then have "subseq (filter is_reply (texts (pm_out s))) (filter is_reply (pm_queued s))"
    by (intro subseq_filter prefix_imp_subseq) (simp add: pump_inv_def)
  then have "subseq (filter is_reply (texts (pm_out s))) (map sendResult (pm_handled s))"
    by (rule subseq_order.trans) (use i in \<open>simp add: pump_inv_def\<close>)
  with i show ?thesis by (simp add: pump_inv_def)
qed

definition sample_reply :: handle_result where
  "sample_reply = \<lparr>hr_request_id = ''q'', hr_message_id = ''m'', hr_ok = True, hr_error_code = '''', hr_reason = '''',
     hr_persistence = ''persisted'', hr_data = None\<rparr>"

theorem replies_in_order_witness:
  "\<exists>s. (pump_step 8 (\<lambda>k data w. Some (sample_reply, w)))\<^sup>*\<^sup>* (new_pump () \<lparr>wc_phase = C_open 0, wc_ip = ''i'', wc_room_id = ''r'',
      wc_send = [], wc_done = False\<rparr>) s \<and> pm_out s = [Text (sendResult sample_reply)] \<and>
    prefix (texts (pm_out s)) (pm_queued s)"
proof -
  let ?h = "\<lambda>k data w. Some (sample_reply, w)"
  let ?cl = "\<lparr>wc_phase = C_open 0, wc_ip = ''i'', wc_room_id = ''r'', wc_send = [], wc_done = False\<rparr>"
  let ?s0 = "new_pump () ?cl"
  obtain s1 where r: "readPump 8 ?h (Some ''x'') ?s0 = Some s1" by (simp add: readPump_def)
  then have s1: "wc_send (pm_client s1) = [sendResult sample_reply]" "pm_out s1 = []" "pm_writing s1"
    by (auto simp: readPump_def offer_def enqueue_def new_pump_def)
  let ?s2 = "writePump Wake_send True s1"
  have "(pump_step 8 ?h)\<^sup>*\<^sup>* ?s0 s1" by (rule r_into_rtranclp, rule step_read [OF _ r]) (simp add: new_pump_def)
  then have t: "(pump_step 8 ?h)\<^sup>*\<^sup>* ?s0 ?s2" using step_write [OF s1(3)] by (rule rtranclp.rtrancl_into_rtrancl)
  have "pm_out ?s2 = [Text (sendResult sample_reply)]" using s1 by (simp add: writePump_def)
  with t replies_in_order [OF t] show ?thesis by auto
qed

end
