(* ===== verification/EndToEnd.thy ===== *)
theory EndToEnd
  imports Routes Startup GoNumbers
begin

text \<open>
  The services together, as \<open>main\<close> wires them (\<open>wire_app\<close>), over the memory stores: what a newcomer does from the
  registration to the first danmaku, request by request, through the handlers and the middlewares.
\<close>

text \<open>
  \<open>lst\<close> is the list of all users, which only the memory store has; \<open>jl\<close>, \<open>bc\<close> and \<open>fmt\<close> are the libraries for
  tokens, hashes and the format of instants.
\<close>

definition wire_app ::
  "'f config \<Rightarrow> deployment \<Rightarrow> 'd store_ops \<Rightarrow> 'r room_ops \<Rightarrow> (danmaku \<Rightarrow> go_error option) \<Rightarrow> ('u, 'd, 'p, 'a, 'm) mod_service
   \<Rightarrow> ('u \<Rightarrow> go_error + user list) option \<Rightarrow> string jwt_lib \<Rightarrow> bcrypt_lib \<Rightarrow> (time \<Rightarrow> string) \<Rightarrow> ('u, 'd, 'p, 'a, 'm, 'r) app" where
  "wire_app cfg dp st rooms produce mods lst jl bc fmt =
     \<lparr>ap_danmaku = wire_service cfg dp st rooms produce mods, ap_moderation = mods, ap_users = ms_users mods,
      ap_list_users = lst, ap_audit = ms_audit mods, ap_rooms = rooms, ap_jwt = jl, ap_bcrypt = bc,
      ap_auth = dp_auth dp, ap_list_limit = cf_default_list_limit (cf_store cfg), ap_format = fmt\<rparr>"

lemma wire_moderation_mem:
  assumes "wire_moderation ord open_file mc (mem_service srt rsrt mord hub mar tx aca ar fc) = Some ms"
  shows "ms_users ms = mem_uo" and "ms_tables ms = tx" and "ms_auto_reject ms = cf_auto_reject mc"
  using assms by (auto simp: wire_moderation_def NewModerationService_def mem_service_def split: option.splits)

lemma start_auth:
  assumes "start lower ext (Inr cfg) = Inr dp"
  shows "dp_auth dp = NewAuthService (cf_jwt_secret (cf_auth cfg)) (cf_token_expiry_hours (cf_auth cfg))"
  using assms by (auto simp: start_def Let_def split: option.splits prod.splits)

definition bearer :: "string \<Rightarrow> string \<Rightarrow> http_request" where
  "bearer token room = \<lparr>hq_authorization = ''Bearer '' @ token, hq_query = Map.empty,
     hq_param = (\<lambda>k. if k = ''room_id'' then room else '''')\<rparr>"

lemma bearer_simps [simp]:
  "extractBearerToken (bearer token room) = token" "hq_param (bearer token room) ''room_id'' = room"
  by (simp_all add: bearer_def extractBearerToken_def Cut_prefix)

section \<open>Each request\<close>

lemma create_user_fresh:
  assumes "users_good s" and "\<forall>v \<in> ran (user_map s). u_username v \<noteq> u_username u"
  shows "fst (uo_Create mem_uo u s) = None"
proof -
  have inv: "users_inv s" using assms(1) by (simp add: users_good_def)
  have "um_users s (u_username u) = None"
  proof (rule ccontr)
    assume "um_users s (u_username u) \<noteq> None"
    then obtain p where "um_users s (u_username u) = Some p" by blast
    from users_inv_name [OF inv this] obtain v where "um_heap s p = Some v" "u_username v = u_username u" "um_byid s (u_id v) = Some p" .
    then have "user_map s (u_id v) = Some v" by (simp add: user_map_def)
    with assms(2) \<open>u_username v = u_username u\<close> show False by (auto simp: ran_def)
  qed
  then show ?thesis by (simp add: memory_user_ops_def UserStore.Create_def Let_def)
qed

lemma register_succeeds:
  assumes "users_good s" and "user_map s new_id = None" and "jwt_spec jl"
    and "validateUsername (TrimSpace username) = None" and "6 \<le> length password" and "length password \<le> 72"
    and "bc_generate bc password = Inr h" and "\<forall>v \<in> ran (user_map s). u_username v \<noteq> TrimSpace username"
  shows "\<exists>u t s'. AuthService.Register mem_uo jl bc au new_id now username password nickname s = (Inr (u, t), s') \<and>
    user_map s' = (user_map s)(new_id \<mapsto> u) \<and> u_id u = new_id \<and> \<not> u_banned u \<and> generateToken jl au now u = Inr t"
proof -
  let ?u = "new_user new_id (TrimSpace username) h (nickname_of (TrimSpace username) nickname)"
  have n: "u_username ?u = TrimSpace username" by (simp add: new_user_def)
  obtain s' where c: "uo_Create mem_uo ?u s = (None, s')"
    using create_user_fresh [OF assms(1), of ?u] assms(8) n by (metis prod.collapse)
  obtain t where t: "generateToken jl au now ?u = Inr t" using generateToken_total [OF assms(3)] by blast
  have r: "AuthService.Register mem_uo jl bc au new_id now username password nickname s = (Inr (?u, t), s')"
    using assms(4-7) c t by (simp add: AuthService.Register_def Let_def)
  from Register_mem(2) [OF assms(1,2) r] r t show ?thesis by (auto simp: new_user_def)
qed

text \<open>A valid token of user \<open>u\<close> at time \<open>now\<close>.\<close>

definition good_token :: "('u, 'd, 'p, 'a, 'm, 'r) app \<Rightarrow> time \<Rightarrow> string \<Rightarrow> string \<Rightarrow> bool" where
  "good_token ap now token uid \<longleftrightarrow> token \<noteq> '''' \<and>
     (\<exists>a. ValidateToken (ap_jwt ap) (ap_auth ap) now token = Inr a \<and> a_user_id a = uid)"

lemma bearer_request:
  assumes "good_token ap now token uid"
  obtains ctx where "gc_user_id ctx = Some uid"
    and "user_request ap ids clk now (bearer token room) route w = user_handler ap ids clk (bearer token room) route ctx w"
proof -
  from assms obtain a where a: "ValidateToken (ap_jwt ap) (ap_auth ap) now token = Inr a" "a_user_id a = uid"
    and t: "token \<noteq> ''''" by (auto simp: good_token_def)
  then have "user_request ap ids clk now (bearer token room) route w =
      user_handler ap ids clk (bearer token room) route (set_actor a no_context) w"
    by (intro user_request_auth) simp_all
  with that [of "set_actor a no_context"] a(2) show ?thesis by simp
qed

lemma create_room_request:
  assumes "good_token ap now token uid" and "uid \<noteq> ''''" and "ap_rooms ap = memory_room_ops rord"
    and "title \<noteq> ''''" and "length (runes title) \<le> 100"
  shows "\<exists>r. user_request ap ids clk now (bearer token room) (POST_room (Inr title)) w =
      Some ((201, J_room (toRoomResponse (ap_format ap) r)), put_rooms ((dw_rooms w)\<lparr>rm_rooms := (rm_rooms (dw_rooms w))(ids 0 \<mapsto> r)\<rparr>) w) \<and>
    r_id r = ids 0 \<and> r_owner_id r = uid \<and> r_status r = RoomStatusPending"
proof -
  from bearer_request [OF assms(1)] obtain ctx where ctx: "gc_user_id ctx = Some uid"
    and u: "user_request ap ids clk now (bearer token room) (POST_room (Inr title)) w =
      user_handler ap ids clk (bearer token room) (POST_room (Inr title)) ctx w" .
  show ?thesis unfolding u using ctx assms(2-5)
    by (auto simp: Room_Create_def with_user_def RoomService.Create_def memory_room_ops_def RoomStore.Create_def Let_def)
qed

lemma start_room_request:
  assumes "good_token ap now token uid" and "uid \<noteq> ''''" and "ap_rooms ap = memory_room_ops rord" and "room \<noteq> ''''"
    and "rm_rooms (dw_rooms w) room = Some r" and "r_owner_id r = uid" and "r_status r = RoomStatusPending"
  shows "user_request ap ids clk now (bearer token room) POST_start w =
      Some ((200, J_fields [(''status'', ''started'')]), put_rooms ((dw_rooms w)\<lparr>rm_rooms := (rm_rooms (dw_rooms w))
        (room \<mapsto> room_moved (clk 0) RoomStatusLive (clk 0) r)\<rparr>) w)"
proof -
  from bearer_request [OF assms(1)] obtain ctx where ctx: "gc_user_id ctx = Some uid"
    and u: "user_request ap ids clk now (bearer token room) POST_start w =
      user_handler ap ids clk (bearer token room) POST_start ctx w" .
  show ?thesis unfolding u using ctx assms(2-7)
    by (simp add: Room_Start_def with_user_def start_room_memory)
qed

lemma send_request:
  assumes "good_token ap now token uid" and "uid \<noteq> ''''"
    and "validateRoomForSend (ap_danmaku ap) room (dw_rooms w) = None"
    and "let_through (ap_danmaku ap) clk (req\<lparr>cr_room_id := room, cr_user_id := uid\<rparr>) w flagged"
    and "accepts (ap_danmaku ap) (sent_danmaku (ids 0) (clk 2) (req\<lparr>cr_room_id := room, cr_user_id := uid\<rparr>) flagged) w"
  shows "\<exists>w'. user_request ap ids clk now (bearer token room) (POST_danmaku (Inr req)) w =
      Some ((201, J_danmaku (sent_danmaku (ids 0) (clk 2) (req\<lparr>cr_room_id := room, cr_user_id := uid\<rparr>) flagged)), w') \<and>
    CreateDanmaku (ap_danmaku ap) (ids 0) clk (req\<lparr>cr_room_id := room, cr_user_id := uid\<rparr>) w =
      Some (Inr (sent_danmaku (ids 0) (clk 2) (req\<lparr>cr_room_id := room, cr_user_id := uid\<rparr>) flagged), w')"
proof -
  let ?req = "req\<lparr>cr_room_id := room, cr_user_id := uid\<rparr>"
  from bearer_request [OF assms(1)] obtain ctx where ctx: "gc_user_id ctx = Some uid"
    and u: "user_request ap ids clk now (bearer token room) (POST_danmaku (Inr req)) w =
      user_handler ap ids clk (bearer token room) (POST_danmaku (Inr req)) ctx w" .
  from createAndBroadcast_succeeds [OF assms(4,5)] obtain p w' where
    "createAndBroadcast (ap_danmaku ap) (ids 0) clk ?req w = Some (Inr (sent_danmaku (ids 0) (clk 2) ?req flagged, p), w')"
    by blast
  then have "CreateDanmaku (ap_danmaku ap) (ids 0) clk ?req w = Some (Inr (sent_danmaku (ids 0) (clk 2) ?req flagged), w')"
    using assms(3) by (simp add: CreateDanmaku_def)
  then show ?thesis unfolding u using ctx assms(2) by (simp add: Danmaku_Create_def)
qed

lemma taken_listed:
  assumes "ds_store sv = memory_store_ops srt" and "ds_produce sv = None" and "taken sv dm w w'" and "dw_chan w = []"
    and "d_status dm \<noteq> ''''"
  shows "danmakus (mw_danmaku (dw_mod (danmakuConsumer sv w'))) = danmakus (mw_danmaku (dw_mod w)) @ [dm]"
  using assms
  by (auto simp: taken_def danmakuConsumer_def memory_store_ops_def Add_def Let_def
      dest!: sym [of _ "mw_danmaku (dw_mod w')"] split: option.splits)

lemma created_sent_listed:
  assumes "ds_store sv = memory_store_ops srt" and "ds_produce sv = None" and "dw_chan w = []"
    and "CreateDanmaku sv new_id clk req w = Some (Inr (sent_danmaku new_id (clk 2) req flagged), w')"
  defines "dm \<equiv> sent_danmaku new_id (clk 2) req flagged"
  shows "mw_sent (dw_mod w') = mw_sent (dw_mod w) @ sent_to (cr_room_id req) dm flagged"
    and "danmakus (mw_danmaku (dw_mod (danmakuConsumer sv w'))) = danmakus (mw_danmaku (dw_mod w)) @ [dm]"
proof -
  from CreateDanmaku_sends(1) [OF assms(4)] have t: "taken sv dm w w'"
    and s: "\<exists>flagged. dm = sent_danmaku new_id (clk 2) req flagged \<and>
      mw_sent (dw_mod w') = mw_sent (dw_mod w) @ sent_to (cr_room_id req) dm flagged"
    by (auto simp: send_outcome_def dm_def)
  from s show "mw_sent (dw_mod w') = mw_sent (dw_mod w) @ sent_to (cr_room_id req) dm flagged"
    by (auto simp: dm_def dest: arg_cong [where f = d_status] simp: verdict_status_def split: if_splits)
  show "danmakus (mw_danmaku (dw_mod (danmakuConsumer sv w'))) = danmakus (mw_danmaku (dw_mod w)) @ [dm]"
    by (rule taken_listed [OF assms(1,2) t assms(3)]) (simp add: dm_def)
qed

lemma last_n_snoc: "0 < n \<Longrightarrow> \<exists>ys. last_n n (xs @ [x]) = ys @ [x]"
  by (cases n) (auto simp: last_n_rev)

lemma danmaku_listed:
  assumes "ds_store (ap_danmaku ap) = memory_store_ops srt" and "room \<noteq> ''''" and "0 < ap_list_limit ap"
    and "danmakus (mw_danmaku (dw_mod w)) = old @ [dm]" and "d_room_id dm = room" and "d_status dm = DanmakuStatusApproved"
  shows "\<exists>ds w5. Danmaku_List ap (bearer t room) ctx w = Some ((200, J_danmaku_list (ds @ [dm])), w5)"
proof -
  obtain ds where "last_n (nat (ap_list_limit ap)) (filter (in_room room) old @ [dm]) = ds @ [dm]"
    using last_n_snoc assms(3) by (metis zero_less_nat_eq)
  then have "DanmakuStore.ListByRoom room (ap_list_limit ap) (mw_danmaku (dw_mod w)) = Some (ds @ [dm])"
    using ListByRoom_eq [of "ap_list_limit ap" room "mw_danmaku (dw_mod w)"] assms(3-6) by (simp add: in_room_def)
  then show ?thesis using assms(1,2)
    by (simp add: Danmaku_List_def DanmakuService.ListByRoom_def memory_store_ops_def)
qed

lemma room_live_open:
  assumes "ds_status sv = Some (GetStatus (memory_room_ops rord))" and "rm_rooms rs room = Some r"
    and "r_status r = RoomStatusLive"
  shows "validateRoomForSend sv room rs = None"
  using assms by (simp add: validateRoomForSend_def GetStatus_def memory_room_ops_def RoomStore.FindByID_def)

lemma registration_request:
  assumes "ap_users ap = mem_uo" and "jwt_spec (ap_jwt ap)" and "\<And>k c. jl_sign (ap_jwt ap) k c \<noteq> Inr ''''"
    and "users_good (mw_users (dw_mod w))" and "user_map (mw_users (dw_mod w)) uid = None"
    and "\<forall>v \<in> ran (user_map (mw_users (dw_mod w))). u_username v \<noteq> TrimSpace name"
    and "validateUsername (TrimSpace name) = None" and "6 \<le> length password" and "length password \<le> 72"
    and "bc_generate (ap_bcrypt ap) password = Inr h" and "is_ascii uid"
  obtains u token s' where
    "Auth_Register ap (\<lambda>k. uid) clk (Inr \<lparr>rg_username = name, rg_password = password, rg_nickname = nick\<rparr>) ctx w
      = Some ((201, J_auth token u), put_users (s', mw_audit (dw_mod w)) w)"
    and "user_map s' uid = Some u" and "u_id u = uid" and "\<not> u_banned u"
    and "\<forall>now. now < numeric_date (clk 0 + i64 (au_expiry_hours (ap_auth ap) * Hour)) \<longrightarrow> good_token ap now token uid"
proof -
  from register_succeeds [OF assms(4,5,2,7-10,6), of "ap_auth ap" "clk 0" nick] obtain u token s' where
    reg: "AuthService.Register mem_uo (ap_jwt ap) (ap_bcrypt ap) (ap_auth ap) uid (clk 0) name password nick (mw_users (dw_mod w))
      = (Inr (u, token), s')"
    and s': "user_map s' = (user_map (mw_users (dw_mod w)))(uid \<mapsto> u)" and u: "u_id u = uid" "\<not> u_banned u"
    and tok: "generateToken (ap_jwt ap) (ap_auth ap) (clk 0) u = Inr token" by blast
  have r: "Auth_Register ap (\<lambda>k. uid) clk (Inr \<lparr>rg_username = name, rg_password = password, rg_nickname = nick\<rparr>) ctx w
      = Some ((201, J_auth token u), put_users (s', mw_audit (dw_mod w)) w)"
    by (simp add: Auth_Register_def assms(1) reg Let_def)
  have "token \<noteq> ''''" using tok assms(3) by (auto simp: generateToken_def split: sum.splits)
  then have "good_token ap now token uid"
    if "now < numeric_date (clk 0 + i64 (au_expiry_hours (ap_auth ap) * Hour))" for now
    using generateToken_valid(1) [OF assms(2) tok, of now] that u(1) assms(11)
    by (auto simp: good_token_def carried_actor_def json_string_ascii)
  with that r s' u show ?thesis by simp
qed

lemma own_room_requests:
  assumes "good_token ap now1 token uid" and "good_token ap now2 token uid" and "uid \<noteq> ''''"
    and "ap_rooms ap = memory_room_ops rord" and "title \<noteq> ''''" and "length (runes title) \<le> 100" and "room \<noteq> ''''"
  obtains r w2 rs q where
    "user_request ap (\<lambda>k. room) clk1 now1 (bearer token '''') (POST_room (Inr title)) w1 = Some ((201, J_room r), w2)"
    and "user_request ap ids clk2 now2 (bearer token room) POST_start w2 =
      Some ((200, J_fields [(''status'', ''started'')]), put_rooms rs w1)"
    and "rs_id r = room" and "rm_rooms rs room = Some q" and "r_status q = RoomStatusLive"
proof -
  from create_room_request [OF assms(1,3-6), of "\<lambda>k. room" clk1 "''''" w1] obtain r w2 where
    r2: "user_request ap (\<lambda>k. room) clk1 now1 (bearer token '''') (POST_room (Inr title)) w1 =
      Some ((201, J_room (toRoomResponse (ap_format ap) r)), w2)"
    and w2: "w2 = put_rooms ((dw_rooms w1)\<lparr>rm_rooms := (rm_rooms (dw_rooms w1))(room \<mapsto> r)\<rparr>) w1"
    and r: "r_id r = room" "r_owner_id r = uid" "r_status r = RoomStatusPending" by blast
  let ?rs = "(dw_rooms w2)\<lparr>rm_rooms := (rm_rooms (dw_rooms w2))(room \<mapsto> room_moved (clk2 0) RoomStatusLive (clk2 0) r)\<rparr>"
  have "rm_rooms (dw_rooms w2) room = Some r" by (simp add: w2 put_rooms_def)
  from start_room_request [OF assms(2,3,4,7) this r(2,3), of ids clk2]
  have start: "user_request ap ids clk2 now2 (bearer token room) POST_start w2 =
      Some ((200, J_fields [(''status'', ''started'')]), put_rooms ?rs w1)"
    by (simp add: w2 put_rooms_def)
  have "rs_id (toRoomResponse (ap_format ap) r) = room" by (simp add: toRoomResponse_def r(1))
  moreover have "rm_rooms ?rs room = Some (room_moved (clk2 0) RoomStatusLive (clk2 0) r)" by simp
  moreover have "r_status (room_moved (clk2 0) RoomStatusLive (clk2 0) r) = RoomStatusLive"
    by (simp add: room_moved_def Let_def)
  ultimately show ?thesis by (rule that [OF r2 start])
qed

lemma newcomer_let_through:
  assumes "sv = NewDanmakuService st buffer status None (Some ms)" and "ms_users ms = mem_uo"
    and "dw_accepting w" and "validate req = None" and "map_of (rl_last (dw_limiter w)) (cr_user_id req) = None"
    and "user_map (mw_users (dw_mod w)) (cr_user_id req) = Some u" and "\<not> u_banned u"
    and "CheckMute ms (clk 1) (cr_user_id req) (cr_room_id req) (dw_mod w) = Inr False"
    and "CheckContent (ms_tables ms) (ms_automaton ms) (ms_auto_reject ms) (cr_content req) = Some c" and "\<not> cc_blocked c"
  shows "let_through sv clk req w (cc_flagged c)"
proof -
  have "CheckUserBan ms (cr_user_id req) (dw_mod w) = Inr False"
    using assms(2,6,7) mem_find [of "cr_user_id req" "mw_users (dw_mod w)"] by (simp add: CheckUserBan_def)
  then have "moderation_verdict ms (clk 1) req (dw_mod w) = Some (Inr (cc_flagged c))"
    using assms(8-10) by (simp add: moderation_verdict_def Let_def)
  then show ?thesis
    using assms(1,3-5) by (simp add: let_through_def passes_def NewDanmakuService_def Allow_def)
qed

text \<open>The last two steps together: a user who is not banned or muted speaks in a live room.\<close>

lemma newcomer_speaks:
  assumes "ap_danmaku ap = NewDanmakuService (memory_store_ops srt) buffer (Some (GetStatus (memory_room_ops rord))) None (Some ms)"
    and "ms_users ms = mem_uo" and "0 < ap_list_limit ap" and "good_token ap now token uid" and "uid \<noteq> ''''" and "room \<noteq> ''''"
    and "rm_rooms (dw_rooms w) room = Some q" and "r_status q = RoomStatusLive"
    and "validate (req\<lparr>cr_room_id := room, cr_user_id := uid\<rparr>) = None" and "dw_accepting w" and "dw_chan w = []"
    and "map_of (rl_last (dw_limiter w)) uid = None" and "user_map (mw_users (dw_mod w)) uid = Some u" and "\<not> u_banned u"
    and "\<And>now. CheckMute ms now uid room (dw_mod w) = Inr False"
    and "CheckContent (ms_tables ms) (ms_automaton ms) (ms_auto_reject ms) (cr_content req) = Some c" and "\<not> cc_blocked c"
    and dm: "dm = sent_danmaku new_id (clk 2) (req\<lparr>cr_room_id := room, cr_user_id := uid\<rparr>) (cc_flagged c)"
  shows "\<exists>w'. user_request ap (\<lambda>k. new_id) clk now (bearer token room) (POST_danmaku (Inr req)) w = Some ((201, J_danmaku dm), w') \<and>
    mw_sent (dw_mod w') = mw_sent (dw_mod w) @ sent_to room dm (cc_flagged c) \<and>
    (\<not> cc_flagged c \<longrightarrow> (\<exists>ds w5. Danmaku_List ap (bearer t room) ctx (danmakuConsumer (ap_danmaku ap) w') =
      Some ((200, J_danmaku_list (ds @ [dm])), w5)))"
proof -
  let ?req = "req\<lparr>cr_room_id := room, cr_user_id := uid\<rparr>"
  have sv: "ds_store (ap_danmaku ap) = memory_store_ops srt" "ds_produce (ap_danmaku ap) = None"
    by (simp_all add: assms(1) NewDanmakuService_def)
  have live: "validateRoomForSend (ap_danmaku ap) room (dw_rooms w) = None"
    by (rule room_live_open [OF _ assms(7,8), of _ rord]) (simp add: assms(1) NewDanmakuService_def)
  have l: "let_through (ap_danmaku ap) clk ?req w (cc_flagged c)"
    by (rule newcomer_let_through [OF assms(1,2), where u = u]) (use assms(9-17) in simp_all)
  have a: "accepts (ap_danmaku ap) dm' w" for dm'
    using assms(11) by (simp add: accepts_def assms(1) NewDanmakuService_def memory_store_ops_def Add_def)
  from send_request [OF assms(4,5) live l a, of "\<lambda>k. new_id"] obtain w' where
    r: "user_request ap (\<lambda>k. new_id) clk now (bearer token room) (POST_danmaku (Inr req)) w = Some ((201, J_danmaku dm), w')"
    and c: "CreateDanmaku (ap_danmaku ap) new_id clk ?req w = Some (Inr dm, w')" by (auto simp: dm)
  note sent = created_sent_listed [OF sv assms(11) c [unfolded dm], folded dm]
  have "\<exists>ds w5. Danmaku_List ap (bearer t room) ctx (danmakuConsumer (ap_danmaku ap) w') =
      Some ((200, J_danmaku_list (ds @ [dm])), w5)" if "\<not> cc_flagged c"
    using that by (intro danmaku_listed [OF sv(1) assms(6,3) sent(2)]) (simp_all add: dm)
  with r sent(1) show ?thesis by simp
qed

section \<open>Tokens as strings\<close>

text \<open>
  A token library whose tokens are strings, for the witness: the key and the claims, one field after the other, each
  character of a field after a \<open>c\<close> and a full stop at its end.
\<close>

fun pack :: "string list \<Rightarrow> string" where
  "pack [] = []"
| "pack (f # fs) = concat (map (\<lambda>c. [CHR ''c'', c]) f) @ CHR ''.'' # pack fs"

fun unpack :: "string \<Rightarrow> string \<Rightarrow> string list" where
  "unpack f (a # b # s) = (if a = CHR ''c'' then unpack (f @ [b]) s else f # unpack [] (b # s))"
| "unpack f [a] = [f]"
| "unpack f [] = []"

lemma unpack_field: "unpack f (concat (map (\<lambda>c. [CHR ''c'', c]) g) @ CHR ''.'' # s) = unpack (f @ g) (CHR ''.'' # s)"
  by (induction g arbitrary: f) simp_all

lemma unpack_pack [simp]: "unpack [] (pack fs) = fs"
proof (induction fs)
  case (Cons f fs)
  have "unpack f (CHR ''.'' # pack fs) = f # unpack [] (pack fs)" by (cases "pack fs") simp_all
  then show ?case using Cons by (simp add: unpack_field)
qed simp

definition write_time :: "time \<Rightarrow> string" where
  "write_time t = (if t < 0 then CHR ''-'' else CHR ''+'') # digits_of (nat \<bar>t\<bar>)"

definition read_time :: "string \<Rightarrow> time" where
  "read_time s = (let n = int (fst (read_digits 0 0 (tl s))) in if hd s = CHR ''-'' then - n else n)"

lemma read_write_time [simp]: "read_time (write_time t) = t"
  using read_digits_append [of 0 0 "nat \<bar>t\<bar>" "[]"] by (simp add: read_time_def write_time_def Let_def)

definition string_jwt :: "string jwt_lib" where
  "string_jwt = \<lparr>
     jl_sign = (\<lambda>k c0. let c = json_claims c0 in Inr (pack [k, c_user_id c, c_username c, c_nickname c, c_role c,
       write_time (c_issued_at c), write_time (c_expires_at c), c_issuer c, c_subject c])),
     jl_alg = (\<lambda>t. ''HS256''),
     jl_parse = (\<lambda>now kf t. case (kf ''HS256'', unpack [] t) of
        (Inr k, [k', uid, name, nick, role, iat, exp, iss, sub]) \<Rightarrow>
          if k = k' \<and> now < read_time exp
          then Inr \<lparr>pt_claims = Some \<lparr>c_user_id = uid, c_username = name, c_nickname = nick, c_role = role,
                      c_issued_at = read_time iat, c_expires_at = read_time exp, c_issuer = iss, c_subject = sub\<rparr>,
                    pt_valid = True\<rparr>
          else Inl (ErrNew ''token is invalid'')
      | _ \<Rightarrow> Inl (ErrNew ''token is malformed''))\<rparr>"

lemma string_jwt_spec: "jwt_spec string_jwt"
  unfolding jwt_spec_def string_jwt_def
  by (auto simp: Let_def json_claims_def simp del: pack.simps split: list.splits if_splits)

lemma string_jwt_nonempty: "jl_sign string_jwt k c \<noteq> Inr ''''"
  by (simp add: string_jwt_def Let_def)

section \<open>Properties\<close>

text \<open>
  Property C28 (a newcomer is heard). On a server started without a database and without brokers, a person with an
  unused valid name and a password of 6 to 72 bytes registers and is answered 201 with a token. With that token,
  until it expires, a room is created (201) and started (200), and a valid danmaku with content that is not blocked
  is accepted (201), under the identity of the registration whatever its body claims. Unless it is flagged it is
  sent to the room and, once the consumer has had a turn, it ends the list that anyone is shown; a flagged one is
  sent to nobody. The new identifier is of ASCII characters, as a UUID is, so a token carries it unchanged.
\<close>

theorem newcomer_is_heard:
  assumes "start lower ext (Inr cfg) = Inr dp" and "cf_dsn (cf_store cfg) = ''''" and "cf_brokers (cf_kafka cfg) = []"
    and "wire_moderation ord open_file (cf_moderation cfg) (mem_service srt rsrt mord True (\<lambda>m. True) tx None True True) = Some ms"
    and "ap = wire_app cfg dp (memory_store_ops srt) (memory_room_ops rord) produce ms mem_list jl bc fmt"
    and "jwt_spec jl" and "\<And>k c. jl_sign jl k c \<noteq> Inr ''''"
    and "users_good (mw_users (dw_mod w))" and "user_map (mw_users (dw_mod w)) uid = None" and "uid \<noteq> ''''"
    and "\<forall>v \<in> ran (user_map (mw_users (dw_mod w))). u_username v \<noteq> TrimSpace name"
    and "validateUsername (TrimSpace name) = None" and "6 \<le> length password" and "length password \<le> 72"
    and "bc_generate bc password = Inr h"
    and "title \<noteq> ''''" and "length (runes title) \<le> 100" and "room \<noteq> ''''"
    and "validate (req\<lparr>cr_room_id := room, cr_user_id := uid\<rparr>) = None" and "dw_accepting w" and "dw_chan w = []"
    and "map_of (rl_last (dw_limiter w)) uid = None"
    and "\<And>now. CheckMute ms now uid room (dw_mod w) = Inr False"
    and "CheckContent tx (ms_automaton ms) (cf_auto_reject (cf_moderation cfg)) (cr_content req) = Some c" and "\<not> cc_blocked c"
    and "\<forall>now \<in> {now1, now2, now3}. now < numeric_date (clk0 0 + i64 (au_expiry_hours
      (NewAuthService (cf_jwt_secret (cf_auth cfg)) (cf_token_expiry_hours (cf_auth cfg))) * Hour))"
    and "0 < cf_default_list_limit (cf_store cfg)" and "is_ascii uid"
  shows "\<exists>token u w1 r w2 w3 dm w4.
    Auth_Register ap (\<lambda>k. uid) clk0 (Inr \<lparr>rg_username = name, rg_password = password, rg_nickname = nick\<rparr>) no_context w
      = Some ((201, J_auth token u), w1) \<and>
    user_request ap (\<lambda>k. room) clk1 now1 (bearer token '''') (POST_room (Inr title)) w1 = Some ((201, J_room r), w2) \<and>
    user_request ap ids clk2 now2 (bearer token room) POST_start w2 = Some ((200, J_fields [(''status'', ''started'')]), w3) \<and>
    user_request ap (\<lambda>k. new_id) clk3 now3 (bearer token room) (POST_danmaku (Inr req)) w3 = Some ((201, J_danmaku dm), w4) \<and>
    u_id u = uid \<and> rs_id r = room \<and> d_user_id dm = uid \<and> d_room_id dm = room \<and> d_content dm = cr_content req \<and>
    mw_sent (dw_mod w4) = mw_sent (dw_mod w) @ (if cc_flagged c then [] else [(room, MsgBroadcast dm)]) \<and>
    (\<not> cc_flagged c \<longrightarrow> (\<exists>ds w5. Danmaku_List ap (bearer '''' room) no_context (danmakuConsumer (ap_danmaku ap) w4) =
      Some ((200, J_danmaku_list (ds @ [dm])), w5)))"
proof -
  let ?au = "NewAuthService (cf_jwt_secret (cf_auth cfg)) (cf_token_expiry_hours (cf_auth cfg))"
  let ?sv = "NewDanmakuService (memory_store_ops srt) (cf_async_buffer_size (cf_store cfg))
    (Some (GetStatus (memory_room_ops rord))) None (Some ms)"
  note ms = wire_moderation_mem [OF assms(4)]
  have "\<not> dp_producer dp" using start_fields(4) [OF assms(1)] assms(3) by (simp add: connect_kafka_def)
  then have ap: "ap_users ap = mem_uo" "ap_jwt ap = jl" "ap_bcrypt ap = bc" "ap_auth ap = ?au"
    "ap_rooms ap = memory_room_ops rord" "ap_danmaku ap = ?sv" "ap_list_limit ap = cf_default_list_limit (cf_store cfg)"
    by (simp_all add: assms(5) wire_app_def wire_service_def start_auth [OF assms(1)] ms)
  let ?req = "req\<lparr>cr_room_id := room, cr_user_id := uid\<rparr>"
  obtain u token s' where
    r1: "Auth_Register ap (\<lambda>k. uid) clk0 (Inr \<lparr>rg_username = name, rg_password = password, rg_nickname = nick\<rparr>) no_context w
      = Some ((201, J_auth token u), put_users (s', mw_audit (dw_mod w)) w)"
    and u: "user_map s' uid = Some u" "u_id u = uid" "\<not> u_banned u"
    and good: "\<forall>now. now < numeric_date (clk0 0 + i64 (au_expiry_hours ?au * Hour)) \<longrightarrow> good_token ap now token uid"
    by (rule registration_request [of ap w uid name password h clk0 nick no_context, unfolded ap,
          OF refl assms(6-9,11-15,28)]) (rule that)
  let ?w1 = "put_users (s', mw_audit (dw_mod w)) w"
  have g: "good_token ap now1 token uid" "good_token ap now2 token uid" "good_token ap now3 token uid"
    using good assms(26) by simp_all
  from own_room_requests [OF g(1,2) assms(10) ap(5) assms(16-18), of clk1 ?w1 ids clk2] obtain r w2 rs q where
    r2: "user_request ap (\<lambda>k. room) clk1 now1 (bearer token '''') (POST_room (Inr title)) ?w1 = Some ((201, J_room r), w2)"
    and r3: "user_request ap ids clk2 now2 (bearer token room) POST_start w2 =
      Some ((200, J_fields [(''status'', ''started'')]), put_rooms rs ?w1)"
    and r: "rs_id r = room" "rm_rooms rs room = Some q" "r_status q = RoomStatusLive" by blast
  let ?w3 = "put_rooms rs ?w1"
  have same: "dw_accepting ?w3 = dw_accepting w" "dw_chan ?w3 = dw_chan w" "dw_limiter ?w3 = dw_limiter w" "dw_rooms ?w3 = rs"
    "mw_users (dw_mod ?w3) = s'" "mw_mutes (dw_mod ?w3) = mw_mutes (dw_mod w)" "mw_sent (dw_mod ?w3) = mw_sent (dw_mod w)"
    by (simp_all add: put_rooms_def put_users_def)
  let ?dm = "sent_danmaku new_id (clk3 2) ?req (cc_flagged c)"
  have mute: "CheckMute ms now uid room (dw_mod ?w3) = Inr False" for now
    using assms(23) [of now] same(6) by (simp add: CheckMute_def)
  have "\<exists>w4. user_request ap (\<lambda>k. new_id) clk3 now3 (bearer token room) (POST_danmaku (Inr req)) ?w3 =
      Some ((201, J_danmaku ?dm), w4) \<and> mw_sent (dw_mod w4) = mw_sent (dw_mod ?w3) @ sent_to room ?dm (cc_flagged c) \<and>
    (\<not> cc_flagged c \<longrightarrow> (\<exists>ds w5. Danmaku_List ap (bearer '''' room) no_context (danmakuConsumer (ap_danmaku ap) w4) =
      Some ((200, J_danmaku_list (ds @ [?dm])), w5)))"
    by (rule newcomer_speaks [OF ap(6) ms(1) _ g(3) assms(10,18) _ r(3) assms(19) _ _ _ _ u(3) mute _ _ refl])
      (use assms(20-22,24,25,27) same u r in \<open>simp_all add: ms ap\<close>)
  then obtain w4 where r4: "user_request ap (\<lambda>k. new_id) clk3 now3 (bearer token room) (POST_danmaku (Inr req)) ?w3 =
      Some ((201, J_danmaku ?dm), w4)" and s4: "mw_sent (dw_mod w4) = mw_sent (dw_mod ?w3) @ sent_to room ?dm (cc_flagged c)"
    and l4: "\<not> cc_flagged c \<longrightarrow> (\<exists>ds w5. Danmaku_List ap (bearer '''' room) no_context (danmakuConsumer (ap_danmaku ap) w4) =
      Some ((200, J_danmaku_list (ds @ [?dm])), w5))" by blast
  show ?thesis
    by (intro exI conjI, rule r1, rule r2, rule r3, rule r4) (use u(2) r(1) s4 l4 same(7) in \<open>simp_all add: sent_to_def\<close>)
qed

text \<open>The defaults, with a server that starts, and nothing in the stores.\<close>

definition first_day :: "(user_mem, memory_store, report_mem, audit_mem, mute_mem, room_mem) dm_world" where
  "first_day = \<lparr>dw_mod = \<lparr>mw_users = NewMemoryUserStore, mw_danmaku = DanmakuStore.New, mw_reports = NewMemoryReportStore,
       mw_audit = NewMemoryAuditLogStore, mw_mutes = NewMemoryMuteStore, mw_sent = []\<rparr>,
     dw_rooms = NewMemoryRoomStore, dw_chan = [], dw_produced = [], dw_limiter = newRateLimiter 0,
     dw_accepting = True, dw_inflight = 0\<rparr>"

theorem newcomer_is_heard_witness:
  "\<exists>dp (ap :: (user_mem, memory_store, report_mem, audit_mem, mute_mem, room_mem) app) dm w4 ds w5. start id calm (Inr (Default :: int config)) = Inr dp \<and>
    d_user_id dm = ''2'' \<and> d_content dm = ''so'' \<and> mw_sent (dw_mod w4) = [(''a'', MsgBroadcast dm)] \<and>
    Danmaku_List ap (bearer '''' ''a'') no_context (danmakuConsumer (ap_danmaku ap) w4) =
      Some ((200, J_danmaku_list (ds @ [dm])), w5)"
proof -
  let ?cfg = "Default :: int config"
  have cfg: "cf_dsn (cf_store ?cfg) = ''''" "cf_brokers (cf_kafka ?cfg) = []" "0 < cf_default_list_limit (cf_store ?cfg)"
    by (simp_all add: Default_def)
  obtain dp where dp: "start id calm (Inr ?cfg) = Inr dp"
    using start_succeeds_iff [of id calm ?cfg] cfg(1) by (auto simp: open_stores_def open_governance_def)
  let ?mem = "mem_service insertion_sort insertion_sort (\<lambda>s. []) True (\<lambda>m. True) plain_tables None True True"
  have "loadBlocklist plain_tables (\<lambda>p. None) [] '''' = []" by code_simp
  moreover from Match_naive [of "\<lambda>i cs. cs" "[]"] obtain ns where
    "buildACA (\<lambda>i cs. cs) [] = Some ns" and m: "\<And>c. Match ns c = Some (naive [] c)" by (auto simp: any_order_def)
  ultimately obtain ms where ms: "wire_moderation (\<lambda>i cs. cs) (\<lambda>p. None) (cf_moderation ?cfg) ?mem = Some ms"
    and aca: "ms_automaton ms = Some ns" and mutes: "ms_mutes ms = memory_mute_ops (\<lambda>s. [])"
    by (simp add: wire_moderation_def NewModerationService_def mem_service_def Default_def)
  have check: "CheckContent plain_tables (ms_automaton ms) (cf_auto_reject (cf_moderation ?cfg)) (cr_content (sample_request ''so'')) =
      Some \<lparr>cc_blocked = False, cc_flagged = False, cc_word = ''''\<rparr>"
    using naive_iff [of "[]"] by (simp add: CheckContent_def aca m)
  have mute: "CheckMute ms now ''2'' ''a'' (dw_mod first_day) = Inr False" for now
    by (simp add: CheckMute_def mutes memory_mute_ops_def FindActiveByUserAndRoom_def first_day_def
        NewMemoryMuteStore_def Let_def)
  have clean: "user_map (mw_users (dw_mod first_day)) = Map.empty" "users_good (mw_users (dw_mod first_day))"
    "mw_sent (dw_mod first_day) = []"
    by (simp_all add: first_day_def user_map_New users_good_New)
  have name: "validateUsername (TrimSpace ''ann'') = None"
    by (simp add: validateUsername_def alnum_def runes_ascii TrimSpace_def segments_ascii is_ascii_def trim_segs_def is_space_def byte_of_def)
  have req: "validate ((sample_request ''so'')\<lparr>cr_room_id := ''a'', cr_user_id := ''2''\<rparr>) = None"
    using sample_request_valid(2) by (simp add: sample_request_def empty_request_def)
  have title: "length (runes ''hi'') \<le> 100" by (simp add: runes_ascii is_ascii_def byte_of_def)
  have ascii: "is_ascii ''2''" by (simp add: is_ascii_def byte_of_def)
  have day: "dw_accepting first_day" "dw_chan first_day = []" "map_of (rl_last (dw_limiter first_day)) ''2'' = None"
    by (simp_all add: first_day_def newRateLimiter_def)
  have time: "\<forall>now \<in> {1, 2, 3}. now < numeric_date ((\<lambda>k. 0) (0::nat) + i64 (au_expiry_hours
      (NewAuthService (cf_jwt_secret (cf_auth ?cfg)) (cf_token_expiry_hours (cf_auth ?cfg))) * Hour))"
    by code_simp
  note heard = newcomer_is_heard [where title = "''hi''"
      and ?clk0.0 = "\<lambda>k. 0" and nick = "''''" and ?clk1.0 = "\<lambda>k. 0" and ?clk2.0 = "\<lambda>k. 0" and ?clk3.0 = "\<lambda>k. 0"
      and ids = "\<lambda>k. ''''" and new_id = "''d''"]
  obtain ap where ap: "ap = wire_app ?cfg dp (memory_store_ops insertion_sort) (memory_room_ops (\<lambda>s. [])) (\<lambda>dm. None) ms
      mem_list string_jwt plain_bcrypt (\<lambda>t. '''')" by blast
  have hash: "bc_generate plain_bcrypt ''secret'' = Inr ''hsecret''" by (simp add: plain_bcrypt_def)
  from heard [OF dp cfg(1,2) ms ap string_jwt_spec string_jwt_nonempty clean(2) _ _ _ name _ _ hash _ title _ req day
      mute check _ time cfg(3) ascii] dp
  show ?thesis by (simp add: clean(1,3) sample_request_def) blast
qed

end
