(* ===== verification/Subscription.thy ===== *)
theory Subscription
  imports Pubsub
begin

text \<open>
  The goroutine behind \<open>StartSubscription\<close> (\<open>redisclient/pubsub.go\<close>): \<open>subscriptionLoop\<close> and \<open>waitForReconnect\<close> as
  the step relation \<open>sub_step\<close>. What Redis answers, when the context is cancelled and when the receiver
  takes a message is up to the steps, in any order.
\<close>

section \<open>State\<close>

text \<open>
  Where the goroutine is: in \<open>PSubscribe\<close> and its \<open>Receive\<close>, in \<open>ReceiveMessage\<close>, at the \<open>select\<close> with a message for the
  channel, at the \<open>select\<close> with the timer of \<open>waitForReconnect\<close> running, or returned, with the channel closed.
\<close>

datatype sub_phase = Subscribing | Receiving | Offering redis_message | Waiting duration | Returned

text \<open>
  \<open>sb_status\<close> and \<open>sb_events\<close> are the metrics \<open>RedisSubStatus\<close> and \<open>RedisSubEvents\<close>. \<open>sb_received\<close> records the payloads
  Redis delivered and \<open>sb_taken\<close> what the receiver took.
\<close>

record subscription =
  sb_phase :: sub_phase
  sb_backoff :: duration
  sb_cancelled :: bool
  sb_ch :: "redis_message list"
  sb_status :: nat
  sb_events :: nat
  sb_received :: "redis_message option list"
  sb_taken :: "redis_message list"

definition sub_capacity :: nat where "sub_capacity = 64"

definition StartSubscription :: subscription where
  "StartSubscription = \<lparr>sb_phase = Subscribing, sb_backoff = subBackoffMin, sb_cancelled = False, sb_ch = [],
     sb_status = 0, sb_events = 0, sb_received = [], sb_taken = []\<rparr>"

section \<open>Operations\<close>

text \<open>
  \<open>waitForReconnect\<close> up to its \<open>select\<close>: \<open>jittered\<close> is the backoff times a random factor from 0.8 up to 1.2.
\<close>

definition jitter_ok :: "duration \<Rightarrow> duration \<Rightarrow> bool" where
  "jitter_ok backoff jittered \<longleftrightarrow> 8 * backoff div 10 \<le> jittered \<and> 10 * jittered \<le> 12 * backoff"

definition waitForReconnect :: "duration \<Rightarrow> subscription \<Rightarrow> subscription" where
  "waitForReconnect jittered s =
     (if sb_cancelled s then s\<lparr>sb_status := 0, sb_phase := Returned\<rparr>
      else s\<lparr>sb_status := 0, sb_events := sb_events s + 1, sb_phase := Waiting jittered\<rparr>)"

definition timer_fired :: "subscription \<Rightarrow> subscription" where
  "timer_fired s = s\<lparr>sb_backoff := growBackoff (sb_backoff s), sb_phase := Subscribing\<rparr>"

definition subscribed :: "subscription \<Rightarrow> subscription" where
  "subscribed s = s\<lparr>sb_status := 1, sb_phase := Receiving\<rparr>"

text \<open>The connection is lost after \<open>lived\<close>: the backoff the wait starts from.\<close>

definition lost_backoff :: "duration \<Rightarrow> subscription \<Rightarrow> duration" where
  "lost_backoff lived s = (if 30 * Second \<le> lived then subBackoffMin else sb_backoff s)"

definition lost :: "duration \<Rightarrow> duration \<Rightarrow> subscription \<Rightarrow> subscription" where
  "lost lived jittered s = waitForReconnect jittered (s\<lparr>sb_backoff := lost_backoff lived s\<rparr>)"

definition arrived :: "string \<Rightarrow> redis_message option \<Rightarrow> subscription \<Rightarrow> subscription" where
  "arrived instance_id payload s =
     (let s = s\<lparr>sb_received := sb_received s @ [payload]\<rparr> in
      case subscription_next instance_id payload of
        None \<Rightarrow> s
      | Some m \<Rightarrow> s\<lparr>sb_phase := Offering m\<rparr>)"

definition offered :: "redis_message \<Rightarrow> subscription \<Rightarrow> subscription" where
  "offered m s = s\<lparr>sb_ch := sb_ch s @ [m], sb_phase := Receiving\<rparr>"

definition abandoned :: "subscription \<Rightarrow> subscription" where
  "abandoned s = s\<lparr>sb_status := 0, sb_phase := Returned\<rparr>"

definition receiver_takes :: "subscription \<Rightarrow> subscription" where
  "receiver_takes s = s\<lparr>sb_ch := tl (sb_ch s), sb_taken := sb_taken s @ [hd (sb_ch s)]\<rparr>"

inductive sub_step :: "string \<Rightarrow> subscription \<Rightarrow> subscription \<Rightarrow> bool" for instance_id where
  sub_subscribed: "sb_phase s = Subscribing \<Longrightarrow> sub_step instance_id s (subscribed s)"
| sub_refused: "sb_phase s = Subscribing \<Longrightarrow> jitter_ok (sb_backoff s) j \<Longrightarrow> sub_step instance_id s (waitForReconnect j s)"
| sub_arrived: "sb_phase s = Receiving \<Longrightarrow> sub_step instance_id s (arrived instance_id payload s)"
| sub_lost: "sb_phase s = Receiving \<Longrightarrow> jitter_ok (lost_backoff lived s) j \<Longrightarrow> sub_step instance_id s (lost lived j s)"
| sub_offered: "sb_phase s = Offering m \<Longrightarrow> length (sb_ch s) < sub_capacity \<Longrightarrow> sub_step instance_id s (offered m s)"
| sub_abandoned: "sb_phase s = Offering m \<Longrightarrow> sb_cancelled s \<Longrightarrow> sub_step instance_id s (abandoned s)"
| sub_timer: "sb_phase s = Waiting j \<Longrightarrow> sub_step instance_id s (timer_fired s)"
| sub_interrupted: "sb_phase s = Waiting j \<Longrightarrow> sb_cancelled s \<Longrightarrow> sub_step instance_id s (s\<lparr>sb_phase := Returned\<rparr>)"
| sub_taken: "sb_ch s \<noteq> [] \<Longrightarrow> sub_step instance_id s (receiver_takes s)"
| sub_cancel: "sub_step instance_id s (s\<lparr>sb_cancelled := True\<rparr>)"

section \<open>Invariant\<close>

definition wanted :: "string \<Rightarrow> subscription \<Rightarrow> redis_message list" where
  "wanted instance_id s = List.map_filter (subscription_next instance_id) (sb_received s)"

definition handed_on :: "subscription \<Rightarrow> redis_message list" where
  "handed_on s = sb_taken s @ sb_ch s"

definition sub_inv :: "string \<Rightarrow> subscription \<Rightarrow> bool" where
  "sub_inv instance_id s \<longleftrightarrow>
     (case sb_phase s of
        Offering m \<Rightarrow> wanted instance_id s = handed_on s @ [m]
      | Returned \<Rightarrow> sb_cancelled s \<and> (wanted instance_id s = handed_on s \<or> (\<exists>m. wanted instance_id s = handed_on s @ [m]))
      | Waiting j \<Rightarrow> wanted instance_id s = handed_on s \<and> 80 * Millisecond \<le> j \<and> j \<le> 36 * Second
      | _ \<Rightarrow> wanted instance_id s = handed_on s) \<and>
     sb_status s = (case sb_phase s of Receiving \<Rightarrow> 1 | Offering m \<Rightarrow> 1 | _ \<Rightarrow> 0) \<and>
     subBackoffMin \<le> sb_backoff s \<and> sb_backoff s \<le> subBackoffMax \<and> length (sb_ch s) \<le> sub_capacity"

lemmas sub_defs = sub_inv_def wanted_def handed_on_def

lemma jitter_bounds:
  assumes "jitter_ok b j" and "subBackoffMin \<le> b" and "b \<le> subBackoffMax"
  shows "80 * Millisecond \<le> j" and "j \<le> 36 * Second"
proof -
  have "8 * subBackoffMin div 10 \<le> 8 * b div 10" using assms(2) by (intro zdiv_mono1) simp_all
  then show "80 * Millisecond \<le> j" using assms(1) by (simp add: jitter_ok_def subBackoffMin_def)
  show "j \<le> 36 * Second" using assms by (simp add: jitter_ok_def subBackoffMax_def)
qed

lemma growBackoff_in:
  assumes "subBackoffMin \<le> b" and "b \<le> subBackoffMax"
  shows "subBackoffMin \<le> growBackoff b" and "growBackoff b \<le> subBackoffMax"
  using assms by (simp_all add: growBackoff_bounds) (simp_all add: subBackoffMin_def subBackoffMax_def min_def)

lemma waitForReconnect_inv:
  assumes "sub_inv i (s\<lparr>sb_phase := Subscribing, sb_status := 0\<rparr>)" and "jitter_ok (sb_backoff s) j"
  shows "sub_inv i (waitForReconnect j s)"
  using assms(1) jitter_bounds [OF assms(2)] by (simp add: waitForReconnect_def sub_defs)

lemma lost_backoff_in:
  assumes "subBackoffMin \<le> sb_backoff s" and "sb_backoff s \<le> subBackoffMax"
  shows "subBackoffMin \<le> lost_backoff lived s" and "lost_backoff lived s \<le> subBackoffMax"
  using assms by (simp_all add: lost_backoff_def subBackoffMin_def subBackoffMax_def)

lemma lost_inv:
  assumes "sub_inv i s" and "sb_phase s = Receiving" and "jitter_ok (lost_backoff lived s) j"
  shows "sub_inv i (lost lived j s)"
  unfolding lost_def
  by (rule waitForReconnect_inv) (use assms lost_backoff_in [of s lived] in \<open>simp_all add: sub_defs\<close>)

lemma arrived_inv:
  assumes "sub_inv i s" and "sb_phase s = Receiving"
  shows "sub_inv i (arrived i payload s)"
  using assms
  by (cases "subscription_next i payload") (simp_all add: arrived_def sub_defs List.map_filter_def)

lemma sub_step_inv:
  assumes "sub_step i s s'" and "sub_inv i s"
  shows "sub_inv i s'"
  using assms(1)
proof cases
  case (sub_refused j)
  show ?thesis unfolding sub_refused(1)
    by (rule waitForReconnect_inv) (use sub_refused assms(2) in \<open>simp_all add: sub_defs\<close>)
next
  case (sub_lost lived j)
  then show ?thesis using lost_inv [OF assms(2)] by simp
next
  case (sub_arrived payload)
  then show ?thesis using arrived_inv [OF assms(2)] by simp
next
  case (sub_timer j)
  then show ?thesis using assms(2) growBackoff_in [of "sb_backoff s"] by (simp add: timer_fired_def sub_defs)
next
  case sub_taken
  then show ?thesis using assms(2)
    by (cases "sb_ch s") (simp_all add: receiver_takes_def sub_defs split: sub_phase.splits)
next
  case sub_cancel
  then show ?thesis using assms(2) by (simp add: sub_defs split: sub_phase.splits)
qed (use assms(2) in \<open>simp_all add: subscribed_def offered_def abandoned_def sub_defs\<close>)

lemma sub_reach_inv: "(sub_step i)\<^sup>*\<^sup>* StartSubscription s \<Longrightarrow> sub_inv i s"
proof (induction rule: rtranclp_induct)
  case base
  show ?case by (simp add: StartSubscription_def sub_defs sub_capacity_def subBackoffMin_def subBackoffMax_def List.map_filter_def)
next
  case (step v u)
  then show ?case using sub_step_inv by blast
qed

section \<open>Properties\<close>

text \<open>
  Property C22 (the subscription hands everything on). Through any losses of the connection, what the receiver took and
  the channel holds are, in order and once each, the messages of other instances among what Redis delivered;
  only the last one may be missing, while it waits for space in the channel or when the context was cancelled. The
  loop ends, and closes the channel, only after the context is cancelled, the status metric is 1 exactly
  while it is connected, and every wait takes between 80 milliseconds and 36 seconds.
\<close>

theorem subscription_hands_on:
  assumes "(sub_step instance_id)\<^sup>*\<^sup>* StartSubscription s"
  shows "(\<exists>rest. List.map_filter (subscription_next instance_id) (sb_received s) = sb_taken s @ sb_ch s @ rest \<and>
      length rest \<le> 1 \<and> (rest \<noteq> [] \<longrightarrow> sb_phase s = Returned \<or> sb_phase s = Offering (hd rest))) \<and>
    (sb_phase s = Returned \<longrightarrow> sb_cancelled s) \<and>
    (sb_status s = 1 \<longleftrightarrow> sb_phase s = Receiving \<or> (\<exists>m. sb_phase s = Offering m)) \<and>
    (\<forall>j. sb_phase s = Waiting j \<longrightarrow> 80 * Millisecond \<le> j \<and> j \<le> 36 * Second) \<and> length (sb_ch s) \<le> 64"
  using sub_reach_inv [OF assms]
  by (cases "sb_phase s") (auto simp: sub_defs sub_capacity_def)

text \<open>
  Corollary (it always recovers). While the context is not cancelled the loop can go on from wherever it is to receive
  messages again; no failure makes it give up.
\<close>

theorem subscription_recovers:
  assumes "(sub_step instance_id)\<^sup>*\<^sup>* StartSubscription s" and "\<not> sb_cancelled s"
  shows "\<exists>s'. (sub_step instance_id)\<^sup>*\<^sup>* s s' \<and> sb_phase s' = Receiving"
proof -
  have from_subscribing: "\<exists>s'. (sub_step instance_id)\<^sup>*\<^sup>* s s' \<and> sb_phase s' = Receiving" if "sb_phase s = Subscribing" for s
    using sub_subscribed [OF that, of instance_id] by (auto simp: subscribed_def intro: exI [of _ "subscribed s"])
  show ?thesis
  proof (cases "sb_phase s")
    case Subscribing
    then show ?thesis by (rule from_subscribing)
  next
    case (Offering m)
    show ?thesis
    proof (cases "length (sb_ch s) < sub_capacity")
      case True
      then have "sub_step instance_id s (offered m s)" using Offering by (intro sub_offered)
      then show ?thesis by (intro exI [of _ "offered m s"]) (simp add: offered_def)
    next
      case False
      then have c: "sb_ch s \<noteq> []" by (auto simp: sub_capacity_def)
      let ?t = "receiver_takes s"
      have "length (sb_ch ?t) < sub_capacity"
        using sub_reach_inv [OF assms(1)] c by (cases "sb_ch s") (simp_all add: sub_inv_def receiver_takes_def)
      then have "sub_step instance_id ?t (offered m ?t)" using Offering by (intro sub_offered) (simp_all add: receiver_takes_def)
      then have "(sub_step instance_id)\<^sup>*\<^sup>* s (offered m ?t)" using sub_taken [OF c, of instance_id] by simp
      then show ?thesis by (intro exI [of _ "offered m ?t"]) (simp add: offered_def)
    qed
  next
    case (Waiting j)
    obtain s' where "(sub_step instance_id)\<^sup>*\<^sup>* (timer_fired s) s'" "sb_phase s' = Receiving"
      using from_subscribing [of "timer_fired s"] by (auto simp: timer_fired_def)
    then show ?thesis using sub_timer [OF Waiting, of instance_id] by (meson converse_rtranclp_into_rtranclp)
  next
    case Returned
    then show ?thesis using sub_reach_inv [OF assms(1)] assms(2) by (simp add: sub_inv_def)
  qed blast
qed


text \<open>A connection that hands on a message of another instance and is lost; after the reconnect its own message is skipped.\<close>

lemma sample_wait: "jitter_ok subBackoffMin (100 * Millisecond)" by (simp add: jitter_ok_def subBackoffMin_def)

theorem subscription_hands_on_witness:
  "\<exists>s. (sub_step ''i'')\<^sup>*\<^sup>* StartSubscription s \<and>
     sb_received s = [Some (snd (Publish ''k'' ''r'' some_message)), Some (snd (Publish ''i'' ''r'' some_message))] \<and>
     sb_taken s = [snd (Publish ''k'' ''r'' some_message)] \<and> sb_ch s = []"
proof -
  let ?m = "snd (Publish ''k'' ''r'' some_message)" and ?own = "snd (Publish ''i'' ''r'' some_message)"
  define s1 where "s1 = arrived ''i'' (Some ?m) (subscribed StartSubscription)"
  define s2 where "s2 = lost 5 (100 * Millisecond) (receiver_takes (offered ?m s1))"
  define s3 where "s3 = arrived ''i'' (Some ?own) (subscribed (timer_fired s2))"
  note run = s1_def StartSubscription_def subscribed_def arrived_def subscription_next_def Publish_def Let_def
  have p1: "sb_phase s1 = Offering ?m" "sb_ch s1 = []" "sb_cancelled s1 = False" "sb_backoff s1 = subBackoffMin"
    "sb_received s1 = [Some ?m]" "sb_taken s1 = []"
    by (simp_all add: run)
  have p2: "sb_phase s2 = Waiting (100 * Millisecond)" "sb_ch s2 = []" "sb_received s2 = [Some ?m]" "sb_taken s2 = [?m]"
    using p1 by (simp_all add: s2_def lost_def waitForReconnect_def receiver_takes_def offered_def)
  have p3: "sb_ch s3 = []" "sb_received s3 = [Some ?m, Some ?own]" "sb_taken s3 = [?m]"
    using p2 by (simp_all add: s3_def arrived_def subscribed_def timer_fired_def subscription_next_def Publish_def Let_def)
  let ?r = "(sub_step ''i'')\<^sup>*\<^sup>* StartSubscription"
  have "?r (subscribed StartSubscription)"
    by (intro r_into_rtranclp sub_subscribed) (simp add: StartSubscription_def)
  then have "?r s1" unfolding s1_def
    by (rule rtranclp.rtrancl_into_rtrancl) (intro sub_arrived, simp add: subscribed_def)
  then have "?r (offered ?m s1)"
    by (rule rtranclp.rtrancl_into_rtrancl) (intro sub_offered, simp_all add: p1 sub_capacity_def)
  then have "?r (receiver_takes (offered ?m s1))"
    by (rule rtranclp.rtrancl_into_rtrancl) (intro sub_taken, simp add: offered_def)
  then have "?r s2" unfolding s2_def
    by (rule rtranclp.rtrancl_into_rtrancl)
      (intro sub_lost, simp_all add: offered_def receiver_takes_def lost_backoff_def p1 sample_wait [simplified])
  then have "?r (timer_fired s2)" by (rule rtranclp.rtrancl_into_rtrancl) (rule sub_timer [OF p2(1)])
  then have "?r (subscribed (timer_fired s2))"
    by (rule rtranclp.rtrancl_into_rtrancl) (intro sub_subscribed, simp add: timer_fired_def)
  then have r: "?r s3" unfolding s3_def
    by (rule rtranclp.rtrancl_into_rtrancl) (intro sub_arrived, simp add: subscribed_def)
  have "\<exists>rest. List.map_filter (subscription_next ''i'') (sb_received s3) = sb_taken s3 @ sb_ch s3 @ rest"
    using subscription_hands_on [OF r] by blast
  with r p3 show ?thesis by blast
qed

end
