(* ===== verification/KafkaClient.thy ===== *)
theory KafkaClient
  imports Kafka
begin

text \<open>
  The rest of \<open>service/kafka.go\<close>: the settings of the producer and of the consumer group, the loop \<open>Start\<close>, and
  what a consumer that is stopped and started again leaves in the table. The client library (sarama) is a
  parameter: what \<open>Consume\<close> hands to a session and which error it returns are the arguments of a call.
\<close>

section \<open>Clients\<close>

datatype required_acks = WaitForAll | WaitForLocal

record producer_settings =
  ps_required_acks :: required_acks
  ps_retry_max :: int
  ps_retry_backoff :: duration
  ps_return_successes :: bool
  ps_timeout :: duration
  ps_client_id :: string

record 'p kafka_producer =
  kp_producer :: 'p
  kp_topic :: string
  kp_instance_id :: string

definition NewKafkaProducer ::
  "(string list \<Rightarrow> producer_settings \<Rightarrow> go_error + 'p) \<Rightarrow> string list \<Rightarrow> string \<Rightarrow> string \<Rightarrow> go_error + 'p kafka_producer" where
  "NewKafkaProducer new_sync brokers topic client_id =
     (case new_sync brokers \<lparr>ps_required_acks = WaitForAll, ps_retry_max = 3, ps_retry_backoff = 100 * Millisecond,
             ps_return_successes = True, ps_timeout = 5 * Second, ps_client_id = client_id\<rparr> of
        Inl e \<Rightarrow> Inl e
      | Inr p \<Rightarrow> Inr \<lparr>kp_producer = p, kp_topic = topic, kp_instance_id = client_id\<rparr>)"

record ping_settings =
  pg_dial_timeout :: duration
  pg_required_acks :: required_acks
  pg_timeout :: duration

definition KafkaPing :: "(string list \<Rightarrow> ping_settings \<Rightarrow> go_error + 'c) \<Rightarrow> string list \<Rightarrow> bool" where
  "KafkaPing new_client brokers =
     (case new_client brokers \<lparr>pg_dial_timeout = Second, pg_required_acks = WaitForLocal, pg_timeout = Second\<rparr> of
        Inl e \<Rightarrow> False
      | Inr c \<Rightarrow> True)"

record group_settings =
  gs_round_robin :: bool
  gs_from_oldest :: bool
  gs_auto_commit :: bool
  gs_client_id :: string

record 'g kafka_consumer =
  kc_consumer :: 'g
  kc_settings :: group_settings
  kc_topic :: string
  kc_group :: string
  kc_ready_closed :: bool

definition NewKafkaConsumer ::
  "(string list \<Rightarrow> string \<Rightarrow> group_settings \<Rightarrow> go_error + 'g) \<Rightarrow> string list \<Rightarrow> string \<Rightarrow> string \<Rightarrow> string
   \<Rightarrow> go_error + 'g kafka_consumer" where
  "NewKafkaConsumer new_group brokers topic group_id client_id =
     (let settings = \<lparr>gs_round_robin = True, gs_from_oldest = True, gs_auto_commit = False, gs_client_id = client_id\<rparr> in
      case new_group brokers group_id settings of
        Inl e \<Rightarrow> Inl e
      | Inr g \<Rightarrow> Inr \<lparr>kc_consumer = g, kc_settings = settings, kc_topic = topic, kc_group = group_id, kc_ready_closed = False\<rparr>)"

section \<open>The loop\<close>

text \<open>
  One turn of the loop: whether the context was cancelled before it, the claim of the session that \<open>Consume\<close> made, if it
  made one, the error \<open>Consume\<close> returned, and whether the context was cancelled in the second after an error.
\<close>

record consume_turn =
  ct_cancelled :: bool
  ct_claim :: "kafka_message list option"
  ct_error :: "go_error option"
  ct_cancelled_waiting :: bool

definition Cleanup :: "go_error option" where "Cleanup = None"

text \<open>A session: \<open>Setup\<close>, which may panic (\<open>None\<close>), the claim, \<open>Cleanup\<close>.\<close>

definition consume_session :: "(rune \<Rightarrow> rune) \<Rightarrow> (string \<Rightarrow> danmaku_event option) \<Rightarrow> (danmaku \<Rightarrow> 's \<Rightarrow> go_error option \<times> 's)
  \<Rightarrow> kafka_message list option \<Rightarrow> bool \<times> 's \<times> kafka_message list \<Rightarrow> (bool \<times> 's \<times> kafka_message list) option" where
  "consume_session lower dec add claim st =
     (case claim of
        None \<Rightarrow> Some st
      | Some msgs \<Rightarrow>
          (case Setup (fst st) of
             None \<Rightarrow> None
           | Some ready \<Rightarrow> Some (ready, ConsumeClaim lower dec add msgs (snd st))))"

datatype start_result = Still_running | Stopped | Panicked

text \<open>\<open>closed\<close> recognises \<open>ErrClosedConsumerGroup\<close>.\<close>

fun Start :: "(rune \<Rightarrow> rune) \<Rightarrow> (string \<Rightarrow> danmaku_event option) \<Rightarrow> (danmaku \<Rightarrow> 's \<Rightarrow> go_error option \<times> 's) \<Rightarrow> (go_error \<Rightarrow> bool)
  \<Rightarrow> consume_turn list \<Rightarrow> bool \<times> 's \<times> kafka_message list \<Rightarrow> start_result \<times> bool \<times> 's \<times> kafka_message list" where
  "Start lower dec add closed [] st = (Still_running, st)"
| "Start lower dec add closed (t # ts) st =
     (if ct_cancelled t then (Stopped, st)
      else case consume_session lower dec add (ct_claim t) st of
        None \<Rightarrow> (Panicked, st)
      | Some st \<Rightarrow>
          (case ct_error t of
             None \<Rightarrow> Start lower dec add closed ts st
           | Some e \<Rightarrow> if closed e then (Stopped, st)
               else if ct_cancelled_waiting t then (Stopped, st)
               else Start lower dec add closed ts st))"

text \<open>
  Corollary (the loop ends for a reason). The loop stops only at a turn that saw the cancelled context or the closed
  group, and panics only at the second session or later; every other error is survived.
\<close>

theorem start_ends:
  "Start lower dec add closed ts st = (Stopped, st') \<Longrightarrow>
     \<exists>t \<in> set ts. ct_cancelled t \<or> ct_error t \<noteq> None \<and> (ct_cancelled_waiting t \<or> closed (the (ct_error t)))"
  "Start lower dec add closed ts (False, s0) = (Panicked, s1) \<Longrightarrow> 2 \<le> length (filter (\<lambda>t. ct_claim t \<noteq> None) ts)"
proof -
  show "\<exists>t \<in> set ts. ct_cancelled t \<or> ct_error t \<noteq> None \<and> (ct_cancelled_waiting t \<or> closed (the (ct_error t)))"
    if "Start lower dec add closed ts st = (Stopped, st')"
    using that by (induction ts arbitrary: st) (auto split: if_splits option.splits)
  have one: "1 \<le> length (filter (\<lambda>t. ct_claim t \<noteq> None) ts)"
    if "Start lower dec add closed ts (r, s0) = (Panicked, s1)" for ts r s0
    using that by (induction ts arbitrary: r s0) (auto simp: consume_session_def split: if_splits option.splits)
  show "2 \<le> length (filter (\<lambda>t. ct_claim t \<noteq> None) ts)"
    if "Start lower dec add closed ts (False, s0) = (Panicked, s1)"
    using that
  proof (induction ts arbitrary: s0)
    case (Cons t ts)
    show ?case
    proof (cases "ct_claim t")
      case None
      then show ?thesis using Cons by (auto simp: consume_session_def split: if_splits option.splits)
    next
      case (Some msgs)
      then obtain st2 where "Start lower dec add closed ts (True, st2) = (Panicked, s1)"
        using Cons.prems by (auto simp: consume_session_def Setup_def split: if_splits option.splits)
      then show ?thesis using one Some by auto
    qed
  qed simp
qed

section \<open>Restarts\<close>

text \<open>
  What sarama documents of a group over the log of a partition: \<open>gl_fetch\<close> is the position at which the next session
  begins, \<open>gl_after settings k\<close> the effect of a session that marked \<open>k\<close> messages. Marks are committed by the automatic commit
  only, unless \<open>Commit\<close> is called; a group that has committed nothing begins where its settings say.
\<close>

record 'g group_lib =
  gl_fetch :: "group_settings \<Rightarrow> 'g \<Rightarrow> nat"
  gl_after :: "group_settings \<Rightarrow> nat \<Rightarrow> 'g \<Rightarrow> 'g"

definition group_spec :: "'g group_lib \<Rightarrow> 'g \<Rightarrow> bool" where
  "group_spec gl fresh \<longleftrightarrow>
     (\<forall>settings k g. \<not> gs_auto_commit settings \<longrightarrow> gl_fetch gl settings (gl_after gl settings k g) = gl_fetch gl settings g) \<and>
     (\<forall>settings. gs_from_oldest settings \<longrightarrow> gl_fetch gl settings fresh = 0)"

text \<open>
  A run of the program: a new consumer, one session that gets \<open>n\<close> messages of the log, and the end, by a stop or a
  crash. The database may fail at any call, so \<open>add\<close> may leave out any of them.
\<close>

definition consumer_run :: "'g group_lib \<Rightarrow> group_settings \<Rightarrow> (rune \<Rightarrow> rune) \<Rightarrow> (string \<Rightarrow> danmaku_event option)
  \<Rightarrow> (danmaku \<Rightarrow> 's \<Rightarrow> go_error option \<times> 's) \<Rightarrow> (go_error \<Rightarrow> bool) \<Rightarrow> kafka_message list
  \<Rightarrow> nat \<Rightarrow> 'g \<times> 's \<times> kafka_message list \<Rightarrow> 'g \<times> 's \<times> kafka_message list" where
  "consumer_run gl settings lower dec add closed log n st =
     (let msgs = take n (drop (gl_fetch gl settings (fst st)) log) in
      (gl_after gl settings (length msgs) (fst st),
       snd (snd (Start lower dec add closed
         [\<lparr>ct_cancelled = False, ct_claim = Some msgs, ct_error = None, ct_cancelled_waiting = False\<rparr>] (False, snd st)))))"

lemma consumer_run_claim:
  "consumer_run gl settings lower dec add closed log n st =
     (let msgs = take n (drop (gl_fetch gl settings (fst st)) log) in
      (gl_after gl settings (length msgs) (fst st), ConsumeClaim lower dec add msgs (snd st)))"
  by (simp add: consumer_run_def consume_session_def Setup_def Let_def)

text \<open>The identifiers of the events in a log.\<close>

text \<open>The keys of the events of a log in the table: what the collation makes of their identifiers.\<close>

definition event_ids :: "(string \<Rightarrow> string) \<Rightarrow> (string \<Rightarrow> danmaku_event option) \<Rightarrow> kafka_message list \<Rightarrow> string list" where
  "event_ids w dec log = List.map_filter (\<lambda>m. map_option (\<lambda>ev. w (d_id (danmaku_of_event ev))) (dec (km_value m))) log"

lemma event_ids_simps [simp]:
  "event_ids w dec [] = []"
  "event_ids w dec (m # ms) = (case dec (km_value m) of None \<Rightarrow> event_ids w dec ms
     | Some ev \<Rightarrow> w (d_id (danmaku_of_event ev)) # event_ids w dec ms)"
  by (simp_all add: event_ids_def List.map_filter_def split: option.split)

lemma event_ids_in: "msg \<in> set log \<Longrightarrow> dec (km_value msg) = Some ev \<Longrightarrow> w (d_id (danmaku_of_event ev)) \<in> set (event_ids w dec log)"
  by (induction log) (auto split: option.split)

text \<open>With distinct keys the row of an event is what the whole log leaves for it, unless there was a row before.\<close>

lemma fold_put_value:
  assumes "distinct (event_ids w dec log)" and "msg \<in> set log" and "dec (km_value msg) = Some ev"
    and "m (w (d_id (danmaku_of_event ev))) = None"
  shows "fold (put_message w dec) log m (w (d_id (danmaku_of_event ev))) = Some (danmaku_of_event ev)"
  using assms
proof (induction log arbitrary: m)
  case (Cons x xs)
  show ?case
  proof (cases "msg = x")
    case True
    have "put_message w dec x m (w (d_id (danmaku_of_event ev))) = Some (danmaku_of_event ev)"
      using Cons.prems(3,4) True by (simp add: put_message_def put_once_def)
    then show ?thesis by (simp add: fold_put_stable)
  next
    case False
    then have i: "msg \<in> set xs" using Cons.prems(2) by simp
    have "put_message w dec x m (w (d_id (danmaku_of_event ev))) = None"
      using Cons.prems(1,4) event_ids_in [of msg xs dec ev w] i Cons.prems(3)
      by (auto simp: put_message_def put_once_def split: option.splits)
    then show ?thesis using Cons.IH [OF _ i Cons.prems(3)] Cons.prems(1) by (simp split: option.splits)
  qed
qed simp

text \<open>A table on the way from what it was to what the whole log makes of it.\<close>

definition on_the_way :: "(string \<Rightarrow> string) \<Rightarrow> (string \<Rightarrow> danmaku_event option) \<Rightarrow> kafka_message list \<Rightarrow> (string \<rightharpoonup> danmaku) \<Rightarrow> (string \<rightharpoonup> danmaku) \<Rightarrow> bool" where
  "on_the_way w dec log m0 m \<longleftrightarrow> m0 \<subseteq>\<^sub>m m \<and> m \<subseteq>\<^sub>m fold (put_message w dec) log m0"

lemma fold_put_extends: "m \<subseteq>\<^sub>m fold (put_message w dec) log m"
  by (auto simp: map_le_def dom_def fold_put_stable)

lemma on_the_way_put:
  assumes "distinct (event_ids w dec log)" and "on_the_way w dec log m0 m" and "msg \<in> set log"
  shows "on_the_way w dec log m0 (put_message w dec msg m)"
proof (cases "dec (km_value msg)")
  case (Some ev)
  let ?d = "danmaku_of_event ev"
  show ?thesis
  proof (cases "m (w (d_id ?d))")
    case None
    then have "m0 (w (d_id ?d)) = None" using assms(2) by (auto simp: on_the_way_def map_le_def dom_def)
    from fold_put_value [of w dec log msg ev m0] assms(1,3) Some this show ?thesis
      using assms(2) None Some
      by (auto simp: on_the_way_def map_le_def put_message_def put_once_def dom_def)
  qed (use assms(2) Some in \<open>simp add: put_message_def put_once_def\<close>)
qed (use assms(2) in \<open>simp add: put_message_def\<close>)

lemma on_the_way_consume:
  assumes "mysql_insert w lower add rows" and "distinct (event_ids w dec log)" and "set msgs \<subseteq> set log"
    and "on_the_way w dec log m0 (rows (fst st))"
  shows "on_the_way w dec log m0 (rows (fst (ConsumeClaim lower dec add msgs st)))"
  using assms(3,4)
proof (induction msgs arbitrary: st)
  case (Cons m ms)
  obtain err s' mk' where p: "processMessage lower dec add m (fst st, snd st) = (err, s', mk')"
    by (cases "processMessage lower dec add m (fst st, snd st)") auto
  have "on_the_way w dec log m0 (rows s')"
    using processMessage_rows [OF assms(1) p] Cons.prems on_the_way_put [OF assms(2) Cons.prems(2)] by auto
  then show ?case using Cons.IH [of "(s', mk')"] Cons.prems(1) p by (simp add: ConsumeClaim_Cons)
qed (simp add: ConsumeClaim_def)

lemma fold_put_dom: "dom (fold (put_message w dec) ms m) = dom m \<union> set (event_ids w dec ms)"
  by (induction ms arbitrary: m) (auto simp: put_message_def put_once_def split: option.splits)

lemma fold_put_again:
  assumes "distinct (event_ids w dec log)" and "on_the_way w dec log m0 m"
  shows "fold (put_message w dec) log m = fold (put_message w dec) log m0"
proof -
  have "on_the_way w dec log m0 (fold (put_message w dec) ms m)" if "set ms \<subseteq> set log" for ms
    using that assms(2) by (induction ms arbitrary: m) (auto simp: on_the_way_put [OF assms(1)])
  from this [of log] have le: "fold (put_message w dec) log m \<subseteq>\<^sub>m fold (put_message w dec) log m0"
    by (simp add: on_the_way_def)
  have "dom m0 \<subseteq> dom m" using assms(2) by (simp add: on_the_way_def map_le_implies_dom_le)
  then have "dom (fold (put_message w dec) log m0) \<subseteq> dom (fold (put_message w dec) log m)" by (auto simp: fold_put_dom)
  with le show ?thesis by (auto simp: map_le_def intro!: ext) (metis domIff subsetD)
qed

lemma runs_on_the_way:
  assumes "mysql_insert w lower add rows" and "distinct (event_ids w dec log)" and "on_the_way w dec log m0 (rows (fst (snd st)))"
  shows "on_the_way w dec log m0 (rows (fst (snd (fold (consumer_run gl settings lower dec add closed log) ns st))))"
  using assms(3)
proof (induction ns arbitrary: st)
  case (Cons n ns)
  have "set (take n (drop (gl_fetch gl settings (fst st)) log)) \<subseteq> set log" by (meson set_drop_subset set_take_subset subset_trans)
  from on_the_way_consume [OF assms(1,2) this, of m0 "snd st"] Cons
  show ?case by (simp add: consumer_run_claim Let_def)
qed simp

lemma runs_from_start:
  assumes "group_spec gl fresh" and "gs_from_oldest settings" and "\<not> gs_auto_commit settings"
  shows "gl_fetch gl settings (fst (fold (consumer_run gl settings lower dec add closed log) ns (fresh, st))) = 0"
proof -
  have "gl_fetch gl settings (fst (fold (consumer_run gl settings lower dec add closed log) ns gst)) = gl_fetch gl settings (fst gst)" for gst
    using assms(1,3) by (induction ns arbitrary: gst) (simp_all add: consumer_run_claim Let_def group_spec_def)
  then show ?thesis using assms(1,2) by (simp add: group_spec_def)
qed

section \<open>Properties\<close>

text \<open>
  Property C18 (restarts lose nothing). However often the consumer was stopped or crashed before, however far each of those runs
  came and whatever the database refused in them, one more run in which every write of the log ends well leaves the
  table that a single run without any failure would have left: as the group commits nothing, each run begins
  at the oldest message, and rows that are there already are kept.
\<close>

theorem restarts_lose_nothing:
  assumes "NewKafkaConsumer new_group brokers topic group_id client_id = Inr kc" and "group_spec gl fresh"
    and "mysql_insert w lower add rows" and "distinct (event_ids w dec log)"
    and "before = fold (consumer_run gl (kc_settings kc) lower dec add closed log) ns (fresh, st)"
    and "all_processed lower dec add log (snd before)"
  shows "rows (fst (snd (consumer_run gl (kc_settings kc) lower dec add closed log (length log) before))) =
    fold (put_message w dec) log (rows (fst st))"
proof -
  have s: "gs_from_oldest (kc_settings kc)" "\<not> gs_auto_commit (kc_settings kc)"
    using assms(1) by (auto simp: NewKafkaConsumer_def Let_def split: sum.splits)
  have "on_the_way w dec log (rows (fst st)) (rows (fst st))" by (simp add: on_the_way_def fold_put_extends)
  then have w: "on_the_way w dec log (rows (fst st)) (rows (fst (snd before)))"
    using runs_on_the_way [OF assms(3,4), where st = "(fresh, st)"] unfolding assms(5) by simp
  have "gl_fetch gl (kc_settings kc) (fst before) = 0" unfolding assms(5) by (rule runs_from_start [OF assms(2) s])
  then show ?thesis
    using ConsumeClaim_rows [OF assms(3,6)] fold_put_again [OF assms(4) w] by (simp add: consumer_run_claim Let_def)
qed

section \<open>Witness\<close>

text \<open>A group over one partition, and a first run that ended before its message.\<close>

definition sample_group :: "nat group_lib" where
  "sample_group = \<lparr>gl_fetch = (\<lambda>settings g. if gs_from_oldest settings then g else g + 1),
     gl_after = (\<lambda>settings k g. if gs_auto_commit settings then g + k else g)\<rparr>"

lemma sample_group_spec: "group_spec sample_group 0"
  by (simp add: group_spec_def sample_group_def)

abbreviation sample_log :: "kafka_message list" where
  "sample_log \<equiv> [\<lparr>km_topic = ''t'', km_key = ''d'', km_value = ''d''\<rparr>]"

theorem restarts_lose_nothing_witness:
  "\<exists>kc. NewKafkaConsumer (\<lambda>b g settings. Inr ()) [] ''t'' ''g'' ''c'' = Inr kc \<and>
    fst (snd (fold (consumer_run sample_group (kc_settings kc) id sample_dec sample_add (\<lambda>e. False) sample_log) [0, 1]
      (0, Map.empty, []))) = [''d'' \<mapsto> flagged_danmaku]"
proof -
  obtain kc where kc: "NewKafkaConsumer (\<lambda>b g settings. Inr ()) [] ''t'' ''g'' ''c'' = Inr kc"
    by (simp add: NewKafkaConsumer_def Let_def)
  have b: "(0, Map.empty, []) = fold (consumer_run sample_group (kc_settings kc) id sample_dec sample_add (\<lambda>e. False) sample_log)
      [0] (0, Map.empty, [])"
    using kc by (auto simp: consumer_run_claim Let_def sample_group_def ConsumeClaim_def NewKafkaConsumer_def)
  have d: "distinct (event_ids id sample_dec sample_log)" by (simp add: sample_dec_def)
  from restarts_lose_nothing [OF kc sample_group_spec sample_add_mysql d b] sample_processed
  have "fst (snd (consumer_run sample_group (kc_settings kc) id sample_dec sample_add (\<lambda>e. False) sample_log (length sample_log)
      (0, Map.empty, []))) = [''d'' \<mapsto> flagged_danmaku]"
    by (simp add: put_message_def put_once_def sample_dec_def event_roundtrip flagged_fields)
  with kc b show ?thesis by simp
qed

end
