(* ===== verification/Opening.thy ===== *)
theory Opening
  imports Startup MySQLStores
begin

text \<open>
  \<open>store/mysql.go\<close>, lines 19 to 58 and 119 to 193, and the constructors of the other MySQL stores: the connection,
  its pool, and the migration of the tables, first as calls over the library, then as the steps of several
  instances that start at one database.
\<close>

section \<open>The calls\<close>

datatype schema_table = S_danmaku | S_user | S_room | S_report | S_audit | S_mute

record gorm_settings =
  gg_skip_default_transaction :: bool
  gg_prepare_stmt :: bool

record pool_settings =
  pl_max_open_conns :: int
  pl_max_idle_conns :: int
  pl_conn_max_lifetime :: duration

text \<open>
  GORM and the driver: \<open>Open\<close>, the dedicated connection of \<open>Connection\<close>, \<open>GET_LOCK\<close> and \<open>RELEASE_LOCK\<close>, \<open>AutoMigrate\<close>, the error
  of \<open>DB()\<close>, and the calls on the pool it returns.
\<close>

record 's mysql_lib =
  ml_open :: "string \<Rightarrow> gorm_settings \<Rightarrow> 's \<Rightarrow> go_error option \<times> 's"
  ml_connection :: "'s \<Rightarrow> go_error option \<times> 's"
  ml_get_lock :: "string \<Rightarrow> int \<Rightarrow> 's \<Rightarrow> (go_error + int) \<times> 's"
  ml_release_lock :: "string \<Rightarrow> 's \<Rightarrow> 's"
  ml_migrate :: "schema_table list \<Rightarrow> 's \<Rightarrow> go_error option \<times> 's"
  ml_db :: "'s \<Rightarrow> go_error option"
  ml_set_pool :: "pool_settings \<Rightarrow> 's \<Rightarrow> 's"
  ml_ping :: "'s \<Rightarrow> go_error option"
  ml_close :: "'s \<Rightarrow> 's"

definition migrationLockName :: string where "migrationLockName = ''danmakuflow_schema_migration''"

text \<open>\<open>migrateWithLock\<close> of \<open>MySQLStores\<close> is its result; here are its calls.\<close>

definition migrate_locked :: "'s mysql_lib \<Rightarrow> 's \<Rightarrow> go_error option \<times> 's" where
  "migrate_locked ml s =
     (case ml_connection ml s of
        (Some e, s) \<Rightarrow> (Some e, s)
      | (None, s) \<Rightarrow>
          (case ml_get_lock ml migrationLockName 30 s of
             (Inl e, s) \<Rightarrow> (migrateWithLock (Inl e) None, s)
           | (Inr acquired, s) \<Rightarrow>
               if acquired \<noteq> 1 then (migrateWithLock (Inr acquired) None, s)
               else (let (err, s) = ml_migrate ml [S_danmaku, S_user, S_room] s
                     in (migrateWithLock (Inr acquired) err, ml_release_lock ml migrationLockName s))))"

definition configurePool :: "'s mysql_lib \<Rightarrow> 's \<Rightarrow> 's" where
  "configurePool ml s =
     (case ml_db ml s of
        Some e \<Rightarrow> s
      | None \<Rightarrow> ml_set_pool ml \<lparr>pl_max_open_conns = 25, pl_max_idle_conns = 10, pl_conn_max_lifetime = 5 * Minute\<rparr> s)"

definition NewMySQLStore :: "'s mysql_lib \<Rightarrow> string \<Rightarrow> 's \<Rightarrow> go_error option \<times> 's" where
  "NewMySQLStore ml dsn s =
     (case ml_open ml dsn \<lparr>gg_skip_default_transaction = True, gg_prepare_stmt = True\<rparr> s of
        (Some e, s) \<Rightarrow> (Some e, s)
      | (None, s) \<Rightarrow>
          (case migrate_locked ml s of
             (Some e, s) \<Rightarrow> (Some e, s)
           | (None, s) \<Rightarrow> (None, configurePool ml s)))"

definition Danmaku_Ping :: "'s mysql_lib \<Rightarrow> 's \<Rightarrow> bool" where
  "Danmaku_Ping ml s = (case ml_db ml s of Some e \<Rightarrow> False | None \<Rightarrow> ml_ping ml s = None)"

definition Danmaku_Close :: "'s mysql_lib \<Rightarrow> 's \<Rightarrow> 's" where
  "Danmaku_Close ml s = (case ml_db ml s of Some e \<Rightarrow> s | None \<Rightarrow> ml_close ml s)"

definition auto_migrated :: "string \<Rightarrow> go_error option \<times> 's \<Rightarrow> go_error option \<times> 's" where
  "auto_migrated name = apfst (map_option (\<lambda>e. Errorf (''auto migrate '' @ name @ '': '') e ''''))"

definition NewMySQLUserStore :: "'s mysql_lib \<Rightarrow> 's \<Rightarrow> go_error option \<times> 's" where
  "NewMySQLUserStore ml s = auto_migrated ''user'' (ml_migrate ml [S_user] s)"

definition NewMySQLRoomStore :: "'s mysql_lib \<Rightarrow> 's \<Rightarrow> go_error option \<times> 's" where
  "NewMySQLRoomStore ml s = auto_migrated ''room'' (ml_migrate ml [S_room] s)"

definition NewMySQLReportStore :: "'s mysql_lib \<Rightarrow> 's \<Rightarrow> go_error option \<times> 's" where
  "NewMySQLReportStore ml s = auto_migrated ''report'' (ml_migrate ml [S_report] s)"

definition NewMySQLAuditLogStore :: "'s mysql_lib \<Rightarrow> 's \<Rightarrow> go_error option \<times> 's" where
  "NewMySQLAuditLogStore ml s = auto_migrated ''audit_log'' (ml_migrate ml [S_audit] s)"

definition NewMySQLMuteStore :: "'s mysql_lib \<Rightarrow> 's \<Rightarrow> go_error option \<times> 's" where
  "NewMySQLMuteStore ml s = auto_migrated ''mute'' (ml_migrate ml [S_mute] s)"

text \<open>What \<open>main\<close> does with them: the first failure ends the program.\<close>

fun first_failure :: "(exit_point option \<times> 's \<Rightarrow> exit_point option \<times> 's) list \<Rightarrow> 's \<Rightarrow> exit_point option \<times> 's" where
  "first_failure [] s = (None, s)"
| "first_failure (f # fs) s = (case f (None, s) of (Some x, s) \<Rightarrow> (Some x, s) | (None, s) \<Rightarrow> first_failure fs s)"

definition open_one :: "(go_error \<Rightarrow> exit_point) \<Rightarrow> ('s \<Rightarrow> go_error option \<times> 's) \<Rightarrow> exit_point option \<times> 's \<Rightarrow> exit_point option \<times> 's" where
  "open_one exit f st = apfst (map_option exit) (f (snd st))"

definition store_steps :: "'s mysql_lib \<Rightarrow> string \<Rightarrow> (exit_point option \<times> 's \<Rightarrow> exit_point option \<times> 's) list" where
  "store_steps ml dsn = [open_one Exit_mysql (NewMySQLStore ml dsn), open_one (Exit_table T_user) (NewMySQLUserStore ml),
     open_one (Exit_table T_room) (NewMySQLRoomStore ml)]"

definition governance_steps :: "'s mysql_lib \<Rightarrow> (exit_point option \<times> 's \<Rightarrow> exit_point option \<times> 's) list" where
  "governance_steps ml = [open_one (Exit_table T_report) (NewMySQLReportStore ml),
     open_one (Exit_table T_audit) (NewMySQLAuditLogStore ml), open_one (Exit_table T_mute) (NewMySQLMuteStore ml)]"

definition open_database :: "'s mysql_lib \<Rightarrow> string \<Rightarrow> 's \<Rightarrow> exit_point option \<times> 's" where
  "open_database ml dsn = first_failure (store_steps ml dsn @ governance_steps ml)"

text \<open>The start-up of \<open>Startup\<close> with what this database answers.\<close>

definition answers :: "unit mysql_lib \<Rightarrow> outside \<Rightarrow> outside" where
  "answers ml ext = ext\<lparr>os_mysql := (\<lambda>dsn. fst (NewMySQLStore ml dsn ())),
     os_migrate := (\<lambda>t. fst (case t of T_user \<Rightarrow> NewMySQLUserStore ml () | T_room \<Rightarrow> NewMySQLRoomStore ml ()
       | T_report \<Rightarrow> NewMySQLReportStore ml () | T_audit \<Rightarrow> NewMySQLAuditLogStore ml () | T_mute \<Rightarrow> NewMySQLMuteStore ml ()))\<rparr>"

lemma open_one_unit: "open_one exit f st = (map_option exit (fst (f ())), ())"
  by (cases "f ()") (simp add: open_one_def)

lemma start_opens_database:
  assumes "cf_dsn sc \<noteq> ''''"
  shows "fst (open_database ml (cf_dsn sc) ()) =
    (case open_stores (answers ml ext) sc of Some x \<Rightarrow> Some x | None \<Rightarrow> open_governance (answers ml ext) sc)"
  using assms
  by (simp add: open_database_def store_steps_def governance_steps_def open_one_unit open_stores_def open_governance_def answers_def split: option.split)

section \<open>Several instances\<close>

text \<open>What an instance does at the database when nothing fails.\<close>

datatype open_action = Take_lock | Release_lock | Migrate schema_table

definition start_actions :: "open_action list" where
  "start_actions = [Take_lock, Migrate S_danmaku, Migrate S_user, Migrate S_room, Release_lock,
     Migrate S_user, Migrate S_room, Migrate S_report, Migrate S_audit, Migrate S_mute]"

definition noting_lib :: "open_action list mysql_lib" where
  "noting_lib = \<lparr>ml_open = (\<lambda>dsn g s. (None, s)), ml_connection = (\<lambda>s. (None, s)),
     ml_get_lock = (\<lambda>name wait s. (Inr 1, s @ [Take_lock])), ml_release_lock = (\<lambda>name s. s @ [Release_lock]),
     ml_migrate = (\<lambda>ts s. (None, s @ map Migrate ts)), ml_db = (\<lambda>s. None), ml_set_pool = (\<lambda>p s. s),
     ml_ping = (\<lambda>s. None), ml_close = (\<lambda>s. s)\<rparr>"

lemma start_actions_of_main: "open_database noting_lib dsn [] = (None, start_actions)"
  by (simp add: open_database_def store_steps_def governance_steps_def open_one_def NewMySQLStore_def migrate_locked_def migrateWithLock_def configurePool_def
      NewMySQLUserStore_def NewMySQLRoomStore_def NewMySQLReportStore_def NewMySQLAuditLogStore_def NewMySQLMuteStore_def
      auto_migrated_def noting_lib_def start_actions_def)

text \<open>
  \<open>AutoMigrate\<close> of a table looks whether it is there, and then either alters it or creates it, which fails when it is there by
  now. The lock belongs to a session and goes with it.
\<close>

datatype open_end = Going | Exists schema_table | Broken

record opener =
  oi_pc :: nat
  oi_missing :: "bool option"
  oi_end :: open_end

record schema =
  sc_tables :: "schema_table list"
  sc_lock :: "nat option"
  sc_inst :: "nat \<Rightarrow> opener"

definition leave_with :: "open_end \<Rightarrow> nat \<Rightarrow> schema \<Rightarrow> schema" where
  "leave_with e i s = s\<lparr>sc_lock := (if sc_lock s = Some i then None else sc_lock s),
     sc_inst := (sc_inst s)(i := (sc_inst s i)\<lparr>oi_end := e\<rparr>)\<rparr>"

definition advance :: "nat \<Rightarrow> schema \<Rightarrow> schema" where
  "advance i s = s\<lparr>sc_inst := (sc_inst s)(i := (sc_inst s i)\<lparr>oi_pc := Suc (oi_pc (sc_inst s i)), oi_missing := None\<rparr>)\<rparr>"

definition open_turn :: "nat \<Rightarrow> schema \<Rightarrow> schema" where
  "open_turn i s =
     (let o_i = sc_inst s i in
      if oi_end o_i \<noteq> Going \<or> length start_actions \<le> oi_pc o_i then s
      else case start_actions ! oi_pc o_i of
        Take_lock \<Rightarrow> if sc_lock s = None then advance i (s\<lparr>sc_lock := Some i\<rparr>) else s
      | Release_lock \<Rightarrow> advance i (s\<lparr>sc_lock := None\<rparr>)
      | Migrate t \<Rightarrow>
          (case oi_missing o_i of
             None \<Rightarrow> s\<lparr>sc_inst := (sc_inst s)(i := o_i\<lparr>oi_missing := Some (t \<notin> set (sc_tables s))\<rparr>)\<rparr>
           | Some missing \<Rightarrow>
               if \<not> missing then advance i s
               else if t \<in> set (sc_tables s) then leave_with (Exists t) i s
               else advance i (s\<lparr>sc_tables := t # sc_tables s\<rparr>)))"

inductive open_step :: "schema \<Rightarrow> schema \<Rightarrow> bool" where
  turn: "open_step s (open_turn i s)"
| break: "oi_end (sc_inst s i) = Going \<Longrightarrow> open_step s (leave_with Broken i s)"

definition before_opening :: "schema_table list \<Rightarrow> schema" where
  "before_opening ts = \<lparr>sc_tables = ts, sc_lock = None, sc_inst = (\<lambda>i. \<lparr>oi_pc = 0, oi_missing = None, oi_end = Going\<rparr>)\<rparr>"

section \<open>What the lock protects\<close>

lemma action_at:
  assumes "n < 10"
  shows "start_actions ! n = Take_lock \<longleftrightarrow> n = 0" and "start_actions ! n = Release_lock \<longleftrightarrow> n = 4"
    and "start_actions ! n = Migrate t \<Longrightarrow> (n < 7 \<longrightarrow> t \<in> {S_danmaku, S_user, S_room}) \<and> (7 \<le> n \<longrightarrow> t \<in> {S_report, S_audit, S_mute})"
    and "start_actions ! n = Migrate t \<Longrightarrow> 4 < n \<Longrightarrow> n < 7 \<Longrightarrow> \<exists>k < n. start_actions ! k = Migrate t"
proof -
  have "n \<in> {0, 1, 2, 3, 4, 5, 6, 7, 8, 9}" using assms by auto
  then show "start_actions ! n = Take_lock \<longleftrightarrow> n = 0" "start_actions ! n = Release_lock \<longleftrightarrow> n = 4"
    by (auto simp: start_actions_def)
  show "(n < 7 \<longrightarrow> t \<in> {S_danmaku, S_user, S_room}) \<and> (7 \<le> n \<longrightarrow> t \<in> {S_report, S_audit, S_mute})" if "start_actions ! n = Migrate t"
    using that \<open>n \<in> _\<close> by (auto simp: start_actions_def)
  show "\<exists>k < n. start_actions ! k = Migrate t" if "start_actions ! n = Migrate t" "4 < n" "n < 7"
  proof -
    have "n = 5 \<or> n = 6" using that by auto
    then have "start_actions ! (n - 3) = Migrate t" using that(1) by (auto simp: start_actions_def)
    then show ?thesis using that(2) by (intro exI [of _ "n - 3"]) simp
  qed
qed

definition opener_inv :: "schema_table list \<Rightarrow> nat option \<Rightarrow> nat \<Rightarrow> opener \<Rightarrow> bool" where
  "opener_inv ts lock i o_i \<longleftrightarrow> oi_pc o_i \<le> 10 \<and>
     (oi_end o_i = Going \<longrightarrow> (1 \<le> oi_pc o_i \<and> oi_pc o_i \<le> 4 \<longleftrightarrow> lock = Some i)) \<and>
     (lock = Some i \<longrightarrow> oi_end o_i = Going) \<and>
     (\<forall>k < oi_pc o_i. \<forall>t. start_actions ! k = Migrate t \<longrightarrow> t \<in> set ts) \<and>
     (oi_end o_i = Going \<longrightarrow> oi_pc o_i < 7 \<longrightarrow> oi_missing o_i = Some True \<longrightarrow>
        (\<forall>t. start_actions ! oi_pc o_i = Migrate t \<longrightarrow> t \<notin> set ts)) \<and>
     (oi_missing o_i = Some False \<longrightarrow> (\<forall>t. start_actions ! oi_pc o_i = Migrate t \<longrightarrow> t \<in> set ts)) \<and>
     (\<forall>t. oi_end o_i = Exists t \<longrightarrow> t \<in> {S_report, S_audit, S_mute})"

definition schema_inv :: "schema \<Rightarrow> bool" where
  "schema_inv s \<longleftrightarrow> (\<forall>i. opener_inv (sc_tables s) (sc_lock s) i (sc_inst s i))"

lemma pc_length [simp]: "length start_actions = 10"
  by (simp add: start_actions_def)

lemma leave_inv:
  assumes "schema_inv s" and "\<And>t. e = Exists t \<Longrightarrow> t \<in> {S_report, S_audit, S_mute}" and "e \<noteq> Going"
  shows "schema_inv (leave_with e i s)"
  using assms by (auto simp: schema_inv_def opener_inv_def leave_with_def)

text \<open>A table that is created by an instance outside the lock is one of the last three.\<close>

lemma created_late:
  assumes "opener_inv ts lock i o_i" and "oi_end o_i = Going" and "oi_pc o_i < 10" and "start_actions ! oi_pc o_i = Migrate t"
    and "t \<notin> set ts"
  shows "lock = Some i \<or> t \<in> {S_report, S_audit, S_mute}"
  using assms action_at [OF assms(3)] unfolding opener_inv_def
  by (metis One_nat_def Suc_leI le_eq_less_or_eq linorder_not_less not_gr_zero open_action.distinct(3) less_Suc_eq_le)

lemma open_turn_inv:
  assumes inv: "schema_inv s"
  shows "schema_inv (open_turn i s)"
proof (cases "oi_end (sc_inst s i) = Going \<and> oi_pc (sc_inst s i) < 10")
  case False
  then show ?thesis using inv by (auto simp: open_turn_def Let_def)
next
  case True
  let ?o = "sc_inst s i"
  let ?n = "oi_pc ?o"
  have oi: "opener_inv (sc_tables s) (sc_lock s) i ?o" and oj: "opener_inv (sc_tables s) (sc_lock s) j (sc_inst s j)" for j
    using inv by (simp_all add: schema_inv_def)
  note at = action_at [of ?n] True
  show ?thesis
  proof (cases "start_actions ! ?n")
    case Take_lock
    then have n: "?n = 0" using at by simp
    show ?thesis
    proof (cases "sc_lock s")
      case None
      have "opener_inv (sc_tables s) (Some i) j (sc_inst s j)" if "j \<noteq> i" for j
        using oj [of j] None that by (auto simp: opener_inv_def)
      moreover have "opener_inv (sc_tables s) (Some i) i (?o\<lparr>oi_pc := 1, oi_missing := None\<rparr>)"
        using oi n True Take_lock by (auto simp: opener_inv_def)
      ultimately show ?thesis using True None n
        by (auto simp: open_turn_def Let_def Take_lock [unfolded n] advance_def schema_inv_def)
    qed (use True inv Take_lock in \<open>simp add: open_turn_def Let_def\<close>)
  next
    case Release_lock
    then have n: "?n = 4" using at by simp
    have l: "sc_lock s = Some i" using oi True n by (simp add: opener_inv_def)
    have "opener_inv (sc_tables s) None j (sc_inst s j)" if "j \<noteq> i" for j
      using oj [of j] l that by (auto simp: opener_inv_def)
    moreover have "opener_inv (sc_tables s) None i (?o\<lparr>oi_pc := 5, oi_missing := None\<rparr>)"
      using oi n True Release_lock by (auto simp: opener_inv_def less_Suc_eq numeral_eq_Suc)
    ultimately show ?thesis using True n
      by (auto simp: open_turn_def Let_def Release_lock [unfolded n] advance_def schema_inv_def)
  next
    case (Migrate t)
    have n: "?n \<noteq> 0" "?n \<noteq> 4" using at Migrate action_at(1,2) [of ?n] by auto
    note late = action_at(3) [OF _ Migrate] action_at(4) [OF _ Migrate]
    have next_inv: "opener_inv ts (sc_lock s) i (?o\<lparr>oi_pc := Suc ?n, oi_missing := None\<rparr>)"
      if "t \<in> set ts" "set (sc_tables s) \<subseteq> set ts" for ts
      using oi n True Migrate that by (auto simp: opener_inv_def less_Suc_eq)
    show ?thesis
    proof (cases "oi_missing ?o")
      case None
      have "opener_inv (sc_tables s) (sc_lock s) i (?o\<lparr>oi_missing := Some (t \<notin> set (sc_tables s))\<rparr>)"
        using oi Migrate by (auto simp: opener_inv_def)
      then show ?thesis using True Migrate None oj
        by (auto simp: open_turn_def Let_def schema_inv_def)
    next
      case (Some missing)
      consider "\<not> missing" | "missing" "t \<in> set (sc_tables s)" | "missing" "t \<notin> set (sc_tables s)" by blast
      then show ?thesis
      proof cases
        case 1
        then have "t \<in> set (sc_tables s)" using oi Some Migrate by (auto simp: opener_inv_def)
        from next_inv [OF this] have "opener_inv (sc_tables s) (sc_lock s) i (?o\<lparr>oi_pc := Suc ?n, oi_missing := None\<rparr>)" by simp
        then show ?thesis using 1 True Migrate Some oj
          by (auto simp: open_turn_def Let_def advance_def schema_inv_def)
      next
        case 2
        then have "7 \<le> ?n" using oi True Migrate Some by (auto simp: opener_inv_def)
        then show ?thesis using 2 late True Migrate Some leave_inv [OF inv]
          by (auto simp: open_turn_def Let_def)
      next
        case 3
        have "opener_inv (t # sc_tables s) (sc_lock s) j (sc_inst s j)" if "j \<noteq> i" for j
        proof -
          have False if j: "oi_end (sc_inst s j) = Going" "oi_pc (sc_inst s j) < 7" "start_actions ! oi_pc (sc_inst s j) = Migrate t"
          proof -
            have "t \<in> {S_danmaku, S_user, S_room}" using action_at(3) [OF _ j(3)] j(2) by simp
            then have "sc_lock s = Some i" "sc_lock s = Some j"
              using created_late [OF oi _ _ Migrate 3(2)] created_late [OF oj j(1) _ j(3) 3(2)] True j(2) by auto
            with \<open>j \<noteq> i\<close> show False by simp
          qed
          then show ?thesis using oj [of j] by (auto simp: opener_inv_def)
        qed
        moreover have "opener_inv (t # sc_tables s) (sc_lock s) i (?o\<lparr>oi_pc := Suc ?n, oi_missing := None\<rparr>)"
          by (rule next_inv) auto
        ultimately show ?thesis using 3 True Migrate Some
          by (auto simp: open_turn_def Let_def advance_def schema_inv_def)
      qed
    qed
  qed
qed

lemma schema_reach_inv:
  assumes "open_step\<^sup>*\<^sup>* (before_opening ts) s"
  shows "schema_inv s"
  using assms
proof (induction rule: rtranclp_induct)
  case base
  show ?case by (simp add: schema_inv_def opener_inv_def before_opening_def)
next
  case (step s s')
  from step.hyps(2) show ?case
    by cases (use step.IH open_turn_inv leave_inv [of s Broken] in auto)
qed

text \<open>
  Property C14 (migration by several instances). Whatever tables there are and however the instances that start interleave
  and break off, no instance fails because another one has just created the table of the danmaku, the users or the rooms:
  only the tables of reports, audit log and mutes, which are migrated outside the lock, can do that. An instance
  that has opened its stores finds all six tables.
\<close>

theorem lock_covers_three_tables:
  assumes "open_step\<^sup>*\<^sup>* (before_opening ts) s"
  shows "(oi_end (sc_inst s i) = Exists t \<longrightarrow> t \<in> {S_report, S_audit, S_mute}) \<and>
    (oi_pc (sc_inst s i) = length start_actions \<longrightarrow> (\<forall>t. t \<in> set (sc_tables s)))"
proof -
  have inv: "opener_inv (sc_tables s) (sc_lock s) i (sc_inst s i)" using schema_reach_inv [OF assms] by (simp add: schema_inv_def)
  have "t \<in> set (sc_tables s)" if "oi_pc (sc_inst s i) = length start_actions" for t
  proof -
    have "Migrate t \<in> set start_actions" by (cases t) (simp_all add: start_actions_def)
    then show ?thesis using inv that by (auto simp: opener_inv_def in_set_conv_nth)
  qed
  with inv show ?thesis by (auto simp: opener_inv_def)
qed

lemma turns_reach: "open_step\<^sup>*\<^sup>* s (fold open_turn is s)"
proof (induction "is" arbitrary: s)
  case (Cons i "is")
  then show ?case by (simp add: converse_rtranclp_into_rtranclp [of open_step, OF open_step.turn [of s i]])
qed simp

text \<open>
  Corollary (two first starts collide). Two instances that start at an empty database can end with one of them failing, because the
  other created the table of the reports after it had looked.
\<close>

definition colliding :: "nat list" where
  "colliding = replicate 13 0 @ replicate 13 1 @ [0, 1]"

theorem first_starts_collide:
  "\<exists>s. open_step\<^sup>*\<^sup>* (before_opening []) s \<and> oi_end (sc_inst s 1) = Exists S_report"
proof -
  have "oi_end (sc_inst (fold open_turn colliding (before_opening [])) 1) = Exists S_report" by code_simp
  with turns_reach show ?thesis by blast
qed

theorem lock_covers_three_tables_witness:
  "let s = fold open_turn (colliding @ replicate 4 0) (before_opening []) in
   oi_end (sc_inst s 1) = Exists S_report \<and> (\<forall>t. t \<in> set (sc_tables s))"
proof -
  let ?s = "fold open_turn (colliding @ replicate 4 0) (before_opening [])"
  have "oi_pc (sc_inst ?s 0) = length start_actions" and "oi_end (sc_inst ?s 1) = Exists S_report" by code_simp+
  then show ?thesis
    using lock_covers_three_tables [OF turns_reach [of "before_opening []" "colliding @ replicate 4 0"], of 0] by (simp only: Let_def simp_thms)
qed

end
