(* ===== verification/Health.thy ===== *)
theory Health
  imports Startup KafkaClient
begin

text \<open>
  What the server tells about itself: \<open>Healthz\<close>, the pings behind \<open>Readyz\<close> (\<open>PingRedis\<close> in \<open>websocket/hub.go\<close>, \<open>PingKafka\<close> and
  \<open>HasStoreDSN\<close> in \<open>service/danmaku.go\<close>) with the time they take, and the two gauges that are computed (\<open>updateAsyncChanLen\<close>,
  \<open>refreshQueueSize\<close> in \<open>service/moderation.go\<close>).
\<close>

section \<open>Pings\<close>

definition Healthz :: "string \<Rightarrow> nat \<times> (string \<times> string) list" where
  "Healthz instance_id = (200, [(''status'', ''ok''), (''instance_id'', instance_id)])"

text \<open>A ping is its answer and the time until it is there; \<open>Readyz\<close> waits for two seconds.\<close>

type_synonym timed = "bool \<times> duration"

definition within_wait :: "timed \<Rightarrow> ping" where
  "within_wait a = (if snd a < 2 * Second then (if fst a then Up else Down) else Timeout)"

text \<open>The client pings under a context that ends after the given time.\<close>

definition PingRedis :: "(duration \<Rightarrow> go_error option \<times> duration) option \<Rightarrow> timed" where
  "PingRedis client =
     (case client of
        None \<Rightarrow> (False, 0)
      | Some ping \<Rightarrow> (case ping (3 * Second) of (err, took) \<Rightarrow> (err = None, took)))"

definition kafkaPingFn :: "(string list \<Rightarrow> ping_settings \<Rightarrow> go_error + 'c) \<Rightarrow> string list \<Rightarrow> bool" where
  "kafkaPingFn new_client brokers = (if brokers = [] then False else KafkaPing new_client brokers)"

definition PingKafka :: "('u, 'd, 'p, 'a, 'm, 'r) danmaku_service \<Rightarrow> (unit \<Rightarrow> timed) option \<Rightarrow> timed" where
  "PingKafka sv ping_fn = (case (ds_produce sv, ping_fn) of (Some p, Some f) \<Rightarrow> f () | _ \<Rightarrow> (False, 0))"

definition HasStoreDSN :: "deployment \<Rightarrow> bool" where
  "HasStoreDSN dp = dp_mysql dp"

definition HasRedisConfig :: "deployment \<Rightarrow> bool" where
  "HasRedisConfig dp = dp_redis_configured dp"

text \<open>\<open>Readyz\<close> of the server that \<open>main\<close> has put together.\<close>

definition readyz_reply :: "deployment \<Rightarrow> ('u, 'd, 'p, 'a, 'm, 'r) danmaku_service \<Rightarrow> timed \<Rightarrow> (duration \<Rightarrow> go_error option \<times> duration)
  \<Rightarrow> (unit \<Rightarrow> timed) \<Rightarrow> nat \<times> string \<times> (string \<times> string) list" where
  "readyz_reply dp sv store redis kafka =
     Readyz (if HasStoreDSN dp then Some (within_wait store) else None)
       (if HasRedisConfig dp then Some (within_wait (PingRedis (if dp_redis dp then Some redis else None))) else None)
       (if HasKafkaConfig sv then Some (within_wait (PingKafka sv (Some kafka))) else None)"

text \<open>
  Corollary (readiness). A started server is not ready exactly when a database is configured and does not answer well in two
  seconds; it is fully ready exactly when moreover Redis, if it is configured, was reached at start and answers in time, and
  Kafka, if it was reached at start, answers in time.
\<close>

theorem readiness:
  assumes "start lower ext (Inr cfg) = Inr dp"
    and "sv = wire_service cfg dp st rooms produce mods"
    and "redis (3 * Second) = (re, rt)" and "kafka () = (kb, kt)"
  shows "fst (readyz_reply dp sv store redis kafka) =
      (if cf_dsn (cf_store cfg) \<noteq> '''' \<and> \<not> (fst store \<and> snd store < 2 * Second) then 503 else 200)"
    and "fst (snd (readyz_reply dp sv store redis kafka)) = ''ok'' \<longleftrightarrow>
      (cf_dsn (cf_store cfg) \<noteq> '''' \<longrightarrow> fst store \<and> snd store < 2 * Second) \<and>
      (cf_addr (cf_redis cfg) \<noteq> '''' \<longrightarrow> dp_redis dp \<and> re = None \<and> rt < 2 * Second) \<and>
      (dp_producer dp \<longrightarrow> kb \<and> kt < 2 * Second)"
proof -
  note f = start_fields [OF assms(1)]
  have k: "HasKafkaConfig sv \<longleftrightarrow> dp_producer dp" "ds_produce sv = (if dp_producer dp then Some produce else None)"
    by (simp_all add: assms(2) HasKafkaConfig_def wire_service_def NewDanmakuService_def)
  show "fst (readyz_reply dp sv store redis kafka) =
      (if cf_dsn (cf_store cfg) \<noteq> '''' \<and> \<not> (fst store \<and> snd store < 2 * Second) then 503 else 200)"
    by (auto simp: readyz_reply_def Readyz_def Let_def HasStoreDSN_def f(1) within_wait_def)
  show "fst (snd (readyz_reply dp sv store redis kafka)) = ''ok'' \<longleftrightarrow>
      (cf_dsn (cf_store cfg) \<noteq> '''' \<longrightarrow> fst store \<and> snd store < 2 * Second) \<and>
      (cf_addr (cf_redis cfg) \<noteq> '''' \<longrightarrow> dp_redis dp \<and> re = None \<and> rt < 2 * Second) \<and>
      (dp_producer dp \<longrightarrow> kb \<and> kt < 2 * Second)"
    by (auto simp: readyz_reply_def Readyz_def Let_def HasStoreDSN_def HasRedisConfig_def f(1,3) within_wait_def PingRedis_def
        PingKafka_def k assms(3) [simplified] assms(4) degrade_def)
qed

section \<open>Gauges\<close>

text \<open>
  The loop that follows the length of the buffer, once a second: \<open>(closed, n)\<close> is what a turn sees. It has no buffer
  to follow without a channel.
\<close>

fun async_turns :: "(bool \<times> nat) list \<Rightarrow> int \<Rightarrow> int" where
  "async_turns [] g = g"
| "async_turns ((closed, n) # ts) g = (if closed then 0 else async_turns ts (int n))"

definition updateAsyncChanLen :: "nat option \<Rightarrow> (bool \<times> nat) list \<Rightarrow> int \<Rightarrow> int" where
  "updateAsyncChanLen chan ts g = (case chan of None \<Rightarrow> g | Some cap \<Rightarrow> async_turns ts g)"

definition refreshQueueSize :: "('u, 'd, 'p, 'a, 'm) mod_service \<Rightarrow> ('u, 'd, 'p, 'a, 'm) mod_world \<Rightarrow> int \<Rightarrow> int" where
  "refreshQueueSize ms w g =
     (case do_ListByStatus (ms_danmaku ms) '''' DanmakuStatusFlagged 10000 (mw_danmaku w) of
        Inl e \<Rightarrow> g
      | Inr flagged \<Rightarrow>
          (case po_ListByStatus (ms_reports ms) ReportStatusPending 10000 (mw_reports w) of
             Inl e \<Rightarrow> g
           | Inr waiting \<Rightarrow> int (length flagged + length waiting)))"

text \<open>The gauge stays within the buffer, and is 0 from the turn on that sees the service closed.\<close>

lemma async_gauge_bounded:
  assumes "\<forall>t \<in> set ts. snd t \<le> cap" and "0 \<le> g" and "g \<le> int cap"
  shows "0 \<le> updateAsyncChanLen (Some cap) ts g \<and> updateAsyncChanLen (Some cap) ts g \<le> int cap"
  using assms by (induction ts arbitrary: g) (auto simp: updateAsyncChanLen_def split: if_split)

lemma async_gauge_closed:
  assumes "\<exists>t \<in> set ts. fst t"
  shows "updateAsyncChanLen (Some cap) ts g = 0"
proof -
  have "async_turns ts g = 0" using assms by (induction ts g rule: async_turns.induct) auto
  then show ?thesis by (simp add: updateAsyncChanLen_def)
qed

end
