(* ===== verification/RouteTable.thy ===== *)
theory RouteTable
  imports GoText Entities
begin

text \<open>
  The table of routes that \<open>main.go\<close> hands to Gin, with the middlewares before each handler, and what Gin checks of it: a
  route that conflicts with an earlier one of its method is a panic at start-up.
\<close>

section \<open>The table\<close>

datatype guard = G_auth | G_role "string list"

record route =
  rt_method :: string
  rt_path :: string
  rt_guards :: "guard list"
  rt_handler :: string

definition GET :: "guard list \<Rightarrow> string \<Rightarrow> string \<Rightarrow> route" where
  "GET gs path h = \<lparr>rt_method = ''GET'', rt_path = path, rt_guards = gs, rt_handler = h\<rparr>"

definition POST :: "guard list \<Rightarrow> string \<Rightarrow> string \<Rightarrow> route" where
  "POST gs path h = \<lparr>rt_method = ''POST'', rt_path = path, rt_guards = gs, rt_handler = h\<rparr>"

text \<open>\<open>StaticFile\<close> registers a file for GET and for HEAD.\<close>

definition StaticFile :: "string \<Rightarrow> string \<Rightarrow> route list" where
  "StaticFile path file = [GET [] path file, \<lparr>rt_method = ''HEAD'', rt_path = path, rt_guards = [], rt_handler = file\<rparr>]"

definition Group :: "string \<Rightarrow> route list \<Rightarrow> route list" where
  "Group base = map (\<lambda>r. r\<lparr>rt_path := base @ rt_path r\<rparr>)"

definition RegisterRoutes :: "route list" where
  "RegisterRoutes = [GET [] ''/healthz'' ''Healthz'', GET [] ''/readyz'' ''Readyz''] @
     Group ''/api/room/:room_id'' [GET [] ''/danmaku'' ''List''] @ [GET [] ''/ws'' ''ServeWs'']"

definition RegisterAuthRoutes :: "route list" where
  "RegisterAuthRoutes = Group ''/api/auth'' [POST [] ''/register'' ''Register'', POST [] ''/login'' ''Login'', GET [G_auth] ''/me'' ''Me''] @
     StaticFile ''/login'' ''./templates/login.html''"

definition RegisterRoomRoutes :: "route list" where
  "RegisterRoomRoutes = [GET [] ''/api/rooms'' ''ListByStatus'', GET [] ''/api/rooms/:room_id'' ''GetRoom''] @
     Group ''/api/rooms'' [POST [G_auth] '''' ''Create'', POST [G_auth] ''/:room_id/start'' ''Start'', POST [G_auth] ''/:room_id/end'' ''End'']"

definition danmaku_group :: "route list" where
  "danmaku_group = Group ''/api/room/:room_id'' [POST [G_auth] ''/danmaku'' ''Create'', POST [G_auth] ''/report'' ''Report'']"

definition admin_routes :: "route list" where
  "admin_routes =
     (let gs = [G_auth, G_role [RoleAdmin, RoleModerator]] in
      Group ''/api/admin'' [GET gs ''/reports'' ''ListReports'', POST gs ''/reports/:id/resolve'' ''ResolveReport'',
        POST gs ''/danmaku/:id/review'' ''ReviewDanmaku'', GET gs ''/audit-log'' ''GetAuditLog'',
        GET gs ''/flagged-danmaku'' ''GetFlaggedDanmaku'', POST gs ''/rooms/:room_id/mute'' ''MuteUser'',
        POST gs ''/rooms/:room_id/unmute'' ''UnmuteUser'']) @
     (let gs = [G_auth, G_role [RoleAdmin]] in
      Group ''/api/admin'' [POST gs ''/users/:id/ban'' ''BanUser'', POST gs ''/users/:id/unban'' ''UnbanUser'',
        POST gs ''/users/:id/role'' ''SetUserRole''])"

definition pprof_routes :: "bool \<Rightarrow> route list" where
  "pprof_routes enabled =
     (if enabled
      then Group ''/debug/pprof'' (map (\<lambda>p. GET [] p ''pprof'')
        [''/'', ''/cmdline'', ''/profile'', ''/symbol'', ''/trace'', ''/allocs'', ''/block'', ''/goroutine'', ''/heap'', ''/mutex'', ''/threadcreate''])
      else [])"

definition main_routes :: "bool \<Rightarrow> route list" where
  "main_routes pprof = RegisterRoutes @ RegisterAuthRoutes @ RegisterRoomRoutes @ danmaku_group @ admin_routes @ pprof_routes pprof @
     [GET [] ''/metrics'' ''promhttp''] @ StaticFile ''/'' ''./templates/index.html'' @ StaticFile ''/room'' ''./templates/room.html'' @
     StaticFile ''/burst'' ''./templates/burst.html''"

section \<open>Registration\<close>

text \<open>The segments of a path; the path itself begins with a slash.\<close>

fun segs :: "string \<Rightarrow> string list" where
  "segs [] = [[]]"
| "segs (c # cs) = (if c = CHR ''/'' then [] # segs cs else (case segs cs of s # ss \<Rightarrow> (c # s) # ss))"

definition wild :: "string \<Rightarrow> bool" where
  "wild s \<longleftrightarrow> (case s of [] \<Rightarrow> False | c # cs \<Rightarrow> c = CHR '':'')"

text \<open>Two patterns conflict when they are equal or first differ where both have a parameter.\<close>

fun clash :: "string list \<Rightarrow> string list \<Rightarrow> bool" where
  "clash [] [] = True"
| "clash (s # ss) (t # ts) = (if s = t then clash ss ts else wild s \<and> wild t)"
| "clash _ _ = False"

fun register_all :: "route list \<Rightarrow> route list \<Rightarrow> route list option" where
  "register_all table [] = Some table"
| "register_all table (r # rs) =
     (if \<exists>q \<in> set table. rt_method q = rt_method r \<and> clash (segs (rt_path q)) (segs (rt_path r)) then None
      else register_all (table @ [r]) rs)"

text \<open>A parameter takes any segment that is not empty.\<close>

definition seg_matches :: "string \<Rightarrow> string \<Rightarrow> bool" where
  "seg_matches pat s \<longleftrightarrow> (if wild pat then s \<noteq> '''' else pat = s)"

definition serves_path :: "route \<Rightarrow> string \<Rightarrow> string \<Rightarrow> bool" where
  "serves_path r method path \<longleftrightarrow> rt_method r = method \<and> list_all2 seg_matches (segs (rt_path r)) (segs path)"

lemma clash_decides:
  assumes "\<not> clash ps qs" and "list_all2 seg_matches ps ss" and "list_all2 seg_matches qs ss"
  shows "\<exists>pre p ps' q qs'. ps = pre @ p # ps' \<and> qs = pre @ q # qs' \<and> wild p \<noteq> wild q"
  using assms
proof (induction ps qs arbitrary: ss rule: clash.induct)
  case (2 p ps q qs)
  then obtain s ss' where ss: "ss = s # ss'" by (auto simp: list_all2_Cons1)
  show ?case
  proof (cases "p = q")
    case True
    from 2 ss True have "\<exists>pre p' ps' q' qs'. ps = pre @ p' # ps' \<and> qs = pre @ q' # qs' \<and> wild p' \<noteq> wild q'" by auto
    then obtain pre p' ps' q' qs' where "ps = pre @ p' # ps'" "qs = pre @ q' # qs'" "wild p' \<noteq> wild q'" by blast
    then show ?thesis using True by (intro exI [of _ "p # pre"] exI [of _ p'] exI [of _ ps'] exI [of _ q'] exI [of _ qs']) simp
  next
    case False
    have "wild p \<noteq> wild q" using 2(2-4) ss False by (auto simp: seg_matches_def split: if_splits)
    then show ?thesis by (intro exI [of _ "[]"] exI [of _ p] exI [of _ ps] exI [of _ q] exI [of _ qs]) simp
  qed
qed auto

lemma clash_sym: "clash ps qs = clash qs ps"
  by (induction ps qs rule: clash.induct) auto

lemma register_all_apart:
  assumes "register_all table rs = Some all" and "sorted_wrt (\<lambda>q r. \<not> (rt_method q = rt_method r \<and> clash (segs (rt_path q)) (segs (rt_path r)))) table"
  shows "all = table @ rs \<and> sorted_wrt (\<lambda>q r. \<not> (rt_method q = rt_method r \<and> clash (segs (rt_path q)) (segs (rt_path r)))) all"
  using assms by (induction table rs rule: register_all.induct) (auto simp: sorted_wrt_append split: if_splits)

lemma routes_register: "register_all [] (main_routes pprof) = Some (main_routes pprof)"
proof (cases pprof)
  case True
  have "register_all [] (main_routes True) = Some (main_routes True)" by code_simp
  then show ?thesis using True by simp
next
  case False
  have "register_all [] (main_routes False) = Some (main_routes False)" by code_simp
  then show ?thesis using False by simp
qed

text \<open>
  Corollary (the routes are unambiguous). Gin takes all routes of the program, with and without the profiler; and for
  every request that two of them could serve they first differ where one names the segment and the other has a
  parameter, so that the preference for the named one decides.
\<close>

theorem routes_unambiguous:
  assumes "q \<in> set (main_routes pprof)" and "r \<in> set (main_routes pprof)" and "q \<noteq> r"
    and "serves_path q method path" and "serves_path r method path"
  shows "\<exists>pre a as b bs. segs (rt_path q) = pre @ a # as \<and> segs (rt_path r) = pre @ b # bs \<and> wild a \<noteq> wild b"
proof -
  have apart: "sorted_wrt (\<lambda>q r. \<not> (rt_method q = rt_method r \<and> clash (segs (rt_path q)) (segs (rt_path r)))) (main_routes pprof)"
    using register_all_apart [OF routes_register] by simp
  obtain i j where ij: "i < length (main_routes pprof)" "q = main_routes pprof ! i" "j < length (main_routes pprof)" "r = main_routes pprof ! j"
    using assms(1,2) by (metis in_set_conv_nth)
  with assms(3) have "i < j \<or> j < i" by (metis linorder_neqE_nat)
  then have "\<not> clash (segs (rt_path q)) (segs (rt_path r))"
    using apart ij assms(4,5) clash_sym by (auto simp: sorted_wrt_iff_nth_less serves_path_def)
  from clash_decides [OF this, of "segs path"] assms(4,5) show ?thesis by (simp add: serves_path_def)
qed

text \<open>Of the routes that change something only the registration and the login are open; the profiler is open to all.\<close>

lemma open_routes:
  "\<forall>r \<in> set (main_routes pprof). rt_method r = ''POST'' \<longrightarrow> G_auth \<in> set (rt_guards r) \<or> rt_path r \<in> {''/api/auth/register'', ''/api/auth/login''}"
  "\<forall>r \<in> set (pprof_routes True). rt_guards r = []"
  by (auto simp: main_routes_def RegisterRoutes_def RegisterAuthRoutes_def RegisterRoomRoutes_def danmaku_group_def admin_routes_def
      pprof_routes_def StaticFile_def Group_def GET_def POST_def Let_def)

end
