(* ===== verification/BenchRun.thy ===== *)
theory BenchRun
  imports Benchmark
begin

text \<open>
  The rest of \<open>cmd/benchmark/main.go\<close>: a run of the WebSocket load with its phases, the monitor that prints rates every
  second, the loop of the HTTP load, the flags and \<open>main\<close>, and the file of the results.
\<close>

section \<open>The WebSocket load\<close>

text \<open>\<open>scaled\<close> is \<open>int(float64(connections) * talkerRatio)\<close>.\<close>

definition talker_count :: "int \<Rightarrow> int \<Rightarrow> int" where
  "talker_count scaled connections = (if scaled < 1 \<and> 0 < connections then 1 else scaled)"

text \<open>
  The events before the start barrier opens, until the measured time is over, and until the wait for messages on their
  way is over. All bots have been dialled before the barrier opens, and no talker sends before it.
\<close>

record ws_phases =
  ph_dial :: "bench_event list"
  ph_steady :: "bench_event list"
  ph_drain :: "bench_event list"

fun dials :: "bench_event \<Rightarrow> bool" where
  "dials Bot_open = True"
| "dials Bot_dial_failed = True"
| "dials _ = False"

fun ticks_of :: "int \<Rightarrow> bench_event \<Rightarrow> bool" where
  "ticks_of talkers (Talker_tick t n now ok) = (0 \<le> t \<and> t < talkers)"
| "ticks_of talkers _ = False"

fun is_tick :: "bench_event \<Rightarrow> bool" where
  "is_tick (Talker_tick t n now ok) = True"
| "is_tick _ = False"

definition possible_phases :: "int \<Rightarrow> int \<Rightarrow> ws_phases \<Rightarrow> bool" where
  "possible_phases connections talkers ph \<longleftrightarrow>
     int (length (filter dials (ph_dial ph))) = connections \<and> (\<forall>e \<in> set (ph_dial ph). \<not> is_tick e) \<and>
     (\<forall>e \<in> set (ph_steady ph @ ph_drain ph). \<not> dials e \<and> (is_tick e \<longrightarrow> ticks_of talkers e))"

definition runWSBenchmark :: "'f float_ops \<Rightarrow> duration sorter \<Rightarrow> bool \<Rightarrow> int \<Rightarrow> string \<Rightarrow> time \<Rightarrow> time \<Rightarrow> ws_phases \<Rightarrow> 'f stats" where
  "runWSBenchmark fo srt track connections config steady_start steady_end ph =
     (let conns_at_start = bn_conn (bench_run track (ph_dial ph));
          b = bench_run track (ph_dial ph @ ph_steady ph @ ph_drain ph);
          stats = Compute fo srt steady_start steady_end conns_at_start connections 0 (bn_errors b) config (bn_tracker b)
      in stats\<lparr>st_drain := drain_remaining stats\<rparr>)"

lemma bench_run_append: "bench_run track (es @ es') = fold (bench_step track) es' (bench_run track es)"
  by (simp add: bench_run_def)

text \<open>Without openings and closings every message is expected by the clients of the start.\<close>

fun changes_conns :: "bench_event \<Rightarrow> bool" where
  "changes_conns Bot_open = True"
| "changes_conns Bot_closed = True"
| "changes_conns _ = False"

lemma step_expected:
  assumes "\<not> changes_conns e"
  shows "bn_conn (bench_step track e b) = bn_conn b" and
    "(\<forall>s \<in> set (bt_sends (bn_tracker b)). sr_expected s = bn_conn b) \<Longrightarrow>
     (\<forall>s \<in> set (bt_sends (bn_tracker (bench_step track e b))). sr_expected s = bn_conn b)"
  using assms by (cases e; auto simp: NextMessageID_def RecordSend_def RecordDelivery_def Let_def split: frame.split option.split)+

lemma fold_expected:
  assumes "\<forall>e \<in> set es. \<not> changes_conns e" and "\<forall>s \<in> set (bt_sends (bn_tracker b)). sr_expected s = bn_conn b"
  shows "\<forall>s \<in> set (bt_sends (bn_tracker (fold (bench_step track) es b))). sr_expected s = bn_conn b"
  using assms
proof (induction es arbitrary: b)
  case (Cons e es)
  have e: "\<not> changes_conns e" using Cons.prems(1) by simp
  from Cons.IH [of "bench_step track e b"] show ?case
    using Cons.prems step_expected(1) [OF e, of track b] step_expected(2) [OF e Cons.prems(2), of track] by simp
qed simp

lemma no_ticks_no_sends:
  assumes "\<forall>e \<in> set es. \<not> is_tick e"
  shows "bt_sends (bn_tracker (bench_run track es)) = []"
proof -
  have "bt_sends (bn_tracker (fold (bench_step track) es b)) = bt_sends (bn_tracker b)" for b
    using assms
  proof (induction es arbitrary: b)
    case (Cons e es)
    then show ?case
      by (cases e) (auto simp: RecordDelivery_def Let_def split: frame.split option.split)
  qed simp
  then show ?thesis by (simp add: bench_run_def new_bench_def new_tracker_def)
qed

lemma expected_sum:
  assumes "\<forall>s \<in> set ss. sr_expected s = c" and "0 \<le> c" and "0 \<le> n" and "n + c * int (length ss) < 2 ^ 63"
  shows "foldl (\<lambda>n s. i64 (n + sr_expected s)) n ss = n + c * int (length ss)"
  using assms
proof (induction ss arbitrary: n)
  case (Cons s ss)
  have "n + c \<le> n + c * int (length (s # ss))" using Cons.prems(2) by (simp add: algebra_simps)
  moreover have "sr_expected s = c" using Cons.prems(1) by simp
  ultimately have "i64 (n + sr_expected s) = n + c" using Cons.prems(2-4) i64_id [of "n + c"] by simp
  then show ?case using Cons.IH [of "n + c"] Cons.prems by (simp add: algebra_simps)
qed simp

text \<open>
  Corollary (a perfect run reports no loss). If every connection stays open and each listener reads every message that
  was sent, and nothing else, the report counts as delivered what was expected, and nothing remains to be drained.
\<close>

theorem perfect_run_reports_no_loss:
  fixes ls :: "int set"
  defines "es ph \<equiv> ph_dial ph @ ph_steady ph @ ph_drain ph"
  assumes "possible_phases connections talkers ph"
    and "\<forall>e \<in> set (ph_steady ph @ ph_drain ph). \<not> changes_conns e"
    and "heard (es ph) = ls \<times> (\<lambda>s. mi_send_idx (sr_id s)) ` set (bt_sends (bn_tracker (bench_run True (es ph))))"
    and "finite ls" and "bn_conn (bench_run True (ph_dial ph)) = int (card ls)"
    and "int (ticks (es ph)) < 2 ^ 63" and "int (card ls) * int (sent_ok (es ph)) < 2 ^ 63"
  shows "let r = runWSBenchmark fo srt True connections config t0 t1 ph in
    st_expected r = int (card ls) * st_sent r \<and> st_delivered r = st_expected r \<and> st_drain r = 0"
proof -
  let ?b = "bench_run True (es ph)"
  let ?sends = "bt_sends (bn_tracker ?b)"
  note inv = bench_run_inv [OF assms(7), unfolded Let_def]
  note acc = bench_accounting [OF assms(7), unfolded Let_def]
  have "\<forall>s \<in> set ?sends. sr_expected s = int (card ls)"
  proof -
    have "bt_sends (bn_tracker (bench_run True (ph_dial ph))) = []"
      by (rule no_ticks_no_sends) (use assms(2) in \<open>simp add: possible_phases_def\<close>)
    then show ?thesis
      using fold_expected [OF assms(3), of "bench_run True (ph_dial ph)" True] assms(6) by (simp add: assms(1) bench_run_append)
  qed
  moreover have len: "length ?sends = sent_ok (es ph)" using inv by simp
  ultimately have e: "foldl (\<lambda>n s. i64 (n + sr_expected s)) 0 ?sends = int (card ls) * int (sent_ok (es ph))"
    using expected_sum [of ?sends "int (card ls)" 0] assms(8) by simp
  have "card ((\<lambda>s. mi_send_idx (sr_id s)) ` set ?sends) = sent_ok (es ph)"
    using inv len by (metis distinct_card length_map list.set_map)
  then have "card (heard (es ph)) = card ls * sent_ok (es ph)" by (simp add: assms(4) card_cartesian_product)
  then show ?thesis using acc e len
    by (simp add: runWSBenchmark_def Let_def assms(1) Compute_def ComputeStats_def drain_remaining_def)
qed

section \<open>The monitor\<close>

definition bf :: "'f float_ops \<Rightarrow> int \<Rightarrow> int \<Rightarrow> 'f" where
  "bf fo recv_ps sent_ps = (if 0 < sent_ps then fo_div fo (fo_of_int fo recv_ps) (fo_of_int fo sent_ps) else fo_of_int fo 0)"

text \<open>A tick reads the two counters and swaps them with what the last tick has left; it prints the rates and their quotient.\<close>

fun monitorWS :: "'f float_ops \<Rightarrow> (int \<times> int) list \<Rightarrow> int \<times> int \<Rightarrow> (int \<times> int \<times> 'f) list" where
  "monitorWS fo [] prev = []"
| "monitorWS fo ((sent, recv) # readings) prev =
     (let sent_ps = sent - fst prev; recv_ps = recv - snd prev
      in (sent_ps, recv_ps, bf fo recv_ps sent_ps) # monitorWS fo readings (sent, recv))"

text \<open>The printed rates add up to the last reading.\<close>

lemma monitor_adds_up:
  "sum_list (map fst (monitorWS fo readings prev)) = fst (last (prev # readings)) - fst prev"
  "sum_list (map (fst \<circ> snd) (monitorWS fo readings prev)) = snd (last (prev # readings)) - snd prev"
  by (induction readings arbitrary: prev) (auto simp: Let_def)

section \<open>The HTTP load\<close>

text \<open>
  Each tick of the ticker, with the instant that \<open>time.Now\<close> gives and the body that is chosen, starts a request, until one
  comes after the end. The requests run beside each other; each changes the counters and the server by one turn.
\<close>

definition runHTTPBenchmark :: "'s http_client \<Rightarrow> string \<Rightarrow> string \<Rightarrow> time \<Rightarrow> duration \<Rightarrow> (time \<times> string) list
  \<Rightarrow> 's \<Rightarrow> http_counts \<times> 's" where
  "runHTTPBenchmark http token room start_time duration ts s =
     fold (sendHTTP http token room) (map snd (takeWhile (\<lambda>t. \<not> start_time + duration < fst t) ts))
       (\<lparr>hn_sent = 0, hn_ok = 0, hn_err = 0\<rparr>, s)"

text \<open>
  Corollary (the report of the HTTP load). With a ticker of one tick each interval the run makes at most the duration divided by
  the interval requests; the report counts each once, as success or error.
\<close>

theorem http_run_reported:
  assumes "\<And>i. i < length ts \<Longrightarrow> start_time + int (Suc i) * interval \<le> fst (ts ! i)" and "0 < interval" and "0 \<le> duration"
    and "fst (runHTTPBenchmark http token room start_time duration ts s) = n"
  shows "hn_sent n = hn_ok n + hn_err n" and "0 \<le> hn_sent n" and "hn_sent n * interval \<le> duration"
proof -
  let ?early = "\<lambda>t. \<not> start_time + duration < fst t"
  let ?k = "length (takeWhile ?early ts)"
  have c: "hn_sent n = hn_ok n + hn_err n \<and> hn_sent n = int ?k"
    using http_counts_add_up [of "(\<lparr>hn_sent = 0, hn_ok = 0, hn_err = 0\<rparr>, s)", OF _ refl,
        of http token room "map snd (takeWhile ?early ts)"] assms(4)
    by (simp add: runHTTPBenchmark_def)
  then show "hn_sent n = hn_ok n + hn_err n" and "0 \<le> hn_sent n" by simp_all
  show "hn_sent n * interval \<le> duration"
  proof (cases ?k)
    case (Suc i)
    have "i < length ts" using Suc length_takeWhile_le [of ?early ts] by simp
    moreover have "?early (ts ! i)" using Suc by (metis lessI nth_mem set_takeWhileD takeWhile_nth)
    ultimately have "start_time + int (Suc i) * interval \<le> start_time + duration" using assms(1) [of i] by simp
    then show ?thesis using conjunct2 [OF c] Suc by simp
  qed (use conjunct2 [OF c] assms(3) in simp)
qed

section \<open>The program\<close>

record 'f bench_flags =
  fl_addr :: string
  fl_connections :: int
  fl_rate :: duration
  fl_room :: string
  fl_http_only :: bool
  fl_talker_ratio :: 'f
  fl_ramp :: duration
  fl_duration :: duration
  fl_drain :: duration
  fl_track :: bool
  fl_http_qps :: int
  fl_verbose :: bool
  fl_token :: string
  fl_user :: string
  fl_pass :: string
  fl_auto_room :: bool

text \<open>The defaults; \<open>tenth\<close> is the float literal 0.1.\<close>

definition default_flags :: "'f \<Rightarrow> 'f bench_flags" where
  "default_flags tenth = \<lparr>fl_addr = ''localhost:8080'', fl_connections = 1000, fl_rate = 1 * Second, fl_room = ''benchmark'',
     fl_http_only = False, fl_talker_ratio = tenth, fl_ramp = 5 * Millisecond, fl_duration = 30 * Second, fl_drain = 3 * Second,
     fl_track = True, fl_http_qps = 50, fl_verbose = False, fl_token = '''', fl_user = ''benchmark'', fl_pass = ''benchpass123'',
     fl_auto_room = True\<rparr>"

datatype 'f bench_report = Setup_failed go_error | Http_report http_counts | Ws_report "'f stats" | Divided_by_zero

text \<open>
  \<open>main\<close>: \<open>load\<close> is what happens at the WebSocket server once the token is there (the phases, and the two instants that bound the
  measured time), \<open>ts\<close> the ticks of the HTTP load.
\<close>

definition bench_main :: "'f float_ops \<Rightarrow> duration sorter \<Rightarrow> 's http_client \<Rightarrow> 'f bench_flags \<Rightarrow> time \<Rightarrow> (time \<times> string) list
  \<Rightarrow> (string \<Rightarrow> 's \<Rightarrow> ws_phases \<times> time \<times> time) \<Rightarrow> string \<Rightarrow> 's \<Rightarrow> 'f bench_report" where
  "bench_main fo srt http fl start_time ts load config s =
     (if fl_http_only fl
      then (case http_interval (fl_http_qps fl) of
              None \<Rightarrow> Divided_by_zero
            | Some interval \<Rightarrow> Http_report (fst (runHTTPBenchmark http (fl_token fl) (fl_room fl) start_time (fl_duration fl) ts s)))
      else (case ensureSetup http (fl_token fl) (fl_user fl) (fl_pass fl) (fl_auto_room fl) (fl_room fl) s of
              (Inl e, s) \<Rightarrow> Setup_failed e
            | (Inr token, s) \<Rightarrow>
                (case load token s of
                   (ph, t0, t1) \<Rightarrow> Ws_report (runWSBenchmark fo srt (fl_track fl) (fl_connections fl) config t0 t1 ph))))"

text \<open>
  Corollary (the HTTP load needs a token). With \<open>-http-only\<close> and without \<open>-token\<close> no token is asked for: on a server that
  creates nothing for a request without one, every request is an error.
\<close>

theorem http_only_needs_token:
  assumes "fl_http_only fl" and "fl_token fl = ''''" and "fl_http_qps fl \<noteq> 0"
    and "\<And>c s. hc_authorization c = '''' \<Longrightarrow> map_option ha_status (fst (http c s)) \<noteq> Some 201"
  shows "\<exists>n. bench_main fo srt http fl start_time ts load config s = Http_report n \<and> hn_ok n = 0 \<and> hn_err n = hn_sent n"
proof -
  have step: "hn_ok (fst (sendHTTP http '''' room b ns)) = hn_ok (fst ns)" for room b ns
    using assms(4) [of "http_post (''/api/room/'' @ room @ ''/danmaku'') b ''''" "snd ns"]
    by (auto simp: sendHTTP_def Let_def http_post_def split: prod.split)
  have ok: "hn_ok (fst (fold (sendHTTP http '''' room) bs ns)) = hn_ok (fst ns)" for room bs ns
    by (induction bs arbitrary: ns) (simp_all add: step)
  define n where "n = fst (runHTTPBenchmark http '''' (fl_room fl) start_time (fl_duration fl) ts s)"
  have "hn_ok n = 0" by (simp add: n_def runHTTPBenchmark_def ok)
  moreover have "hn_sent n = hn_ok n + hn_err n"
    using http_counts_add_up [of "(\<lparr>hn_sent = 0, hn_ok = 0, hn_err = 0\<rparr>, s)", OF _ refl] by (simp add: n_def runHTTPBenchmark_def)
  ultimately show ?thesis using assms(1-3) by (simp add: bench_main_def http_interval_def n_def)
qed

section \<open>The results file\<close>

text \<open>\<open>%v\<close> of a duration, and \<open>%.2f\<close> and \<open>%.4f\<close>.\<close>

record 'f formats =
  ff_duration :: "duration \<Rightarrow> string"
  ff_2 :: "'f \<Rightarrow> string"
  ff_4 :: "'f \<Rightarrow> string"

definition stats_line :: "'f formats \<Rightarrow> string \<Rightarrow> 'f stats \<Rightarrow> string" where
  "stats_line ff ts st =
     ''['' @ ts @ ''] '' @ st_config st @ '' | steady='' @ ff_duration ff (st_steady st) @
     '' conns='' @ Sprintf_d (st_conn_success st) @ '' sent='' @ Sprintf_d (st_sent st) @
     '' recv='' @ Sprintf_d (st_delivered st) @ '' expected='' @ Sprintf_d (st_expected st) @
     '' loss='' @ ff_4 ff (st_loss st) @ ''% p50='' @ ff_2 ff (st_p50 st) @ '' p95='' @ ff_2 ff (st_p95 st) @
     '' p99='' @ ff_2 ff (st_p99 st) @ '' drain='' @ Sprintf_d (st_drain st) @ '' errs='' @ Sprintf_d (st_errors st) @ [CHR 0x0A]"

text \<open>
  The file is its text. \<open>opened\<close>: whether it could be opened, which creates it; \<open>written\<close>: how many bytes were written when the
  write failed.
\<close>

definition saveStats :: "'f formats \<Rightarrow> string \<Rightarrow> bool \<Rightarrow> nat option \<Rightarrow> 'f stats \<Rightarrow> string option \<Rightarrow> string option" where
  "saveStats ff ts opened written st file =
     (if \<not> opened then file
      else (let old = (case file of None \<Rightarrow> '''' | Some t \<Rightarrow> t); line = stats_line ff ts st in
            Some (old @ (case written of None \<Rightarrow> line | Some n \<Rightarrow> take n line))))"

text \<open>Earlier results are never lost.\<close>

lemma saveStats_appends: "prefix old (case saveStats ff ts opened written st (Some old) of Some t \<Rightarrow> t | None \<Rightarrow> '''')"
  by (simp add: saveStats_def Let_def)

end
