(* ===== verification/DemoSetup.thy ===== *)
theory DemoSetup
  imports EndToEnd
begin

text \<open>
  \<open>scripts/demo_setup.go\<close>: the program that prepares a demonstration, call by call over an HTTP client, and the
  same program run against the modelled server.
\<close>

section \<open>The program\<close>

text \<open>
  A POST request and its answer: the status and the text of the body, or the error of \<open>NewRequest\<close>, \<open>Do\<close> or \<open>ReadAll\<close>. A payload is
  the \<open>map[string]string\<close> that is marshalled.
\<close>

record post_call =
  pc_url :: string
  pc_json :: bool
  pc_authorization :: string
  pc_payload :: "(string \<times> string) list option"

type_synonym 's post_client = "post_call \<Rightarrow> 's \<Rightarrow> (go_error + nat \<times> string) \<times> 's"

text \<open>\<open>target\<close> is how \<open>json.Unmarshal\<close> fills the target, \<open>None\<close> for a nil target.\<close>

definition postJSON :: "'s post_client \<Rightarrow> string \<Rightarrow> string \<Rightarrow> (string \<times> string) list option
  \<Rightarrow> (string \<Rightarrow> 'a \<Rightarrow> go_error + 'a) option \<Rightarrow> 'a \<Rightarrow> 's \<Rightarrow> (go_error + 'a) \<times> 's" where
  "postJSON http url token payload target a s =
     (case http \<lparr>pc_url = url, pc_json = (payload \<noteq> None),
             pc_authorization = (if token \<noteq> '''' then ''Bearer '' @ token else ''''), pc_payload = payload\<rparr> s of
        (Inl e, s) \<Rightarrow> (Inl e, s)
      | (Inr (status, body), s) \<Rightarrow>
          if status < 200 \<or> 300 \<le> status
          then (Inl (ErrNew (''POST '' @ url @ '': HTTP '' @ Sprintf_d (int status) @ '': '' @ TrimSpace body)), s)
          else (case target of
                  None \<Rightarrow> (Inr a, s)
                | Some unmarshal \<Rightarrow> if body \<noteq> '''' then (unmarshal body a, s) else (Inr a, s)))"

definition auth_payload :: "string \<Rightarrow> string \<Rightarrow> (string \<times> string) list" where
  "auth_payload username password = [(''username'', username), (''password'', password), (''nickname'', username)]"

definition registerOrLogin :: "'s post_client \<Rightarrow> (string \<Rightarrow> string \<Rightarrow> go_error + string) \<Rightarrow> string \<Rightarrow> string \<Rightarrow> string
  \<Rightarrow> 's \<Rightarrow> (go_error + string) \<times> 's" where
  "registerOrLogin http dec_token base username password s =
     (case postJSON http (base @ ''/api/auth/register'') '''' (Some (auth_payload username password)) (Some dec_token) '''' s of
        (Inr token, s) \<Rightarrow> (Inr token, s)
      | (Inl e, s) \<Rightarrow>
          if \<not> Contains (error_text e) ''409'' then (Inl e, s)
          else postJSON http (base @ ''/api/auth/login'') '''' (Some (auth_payload username password)) (Some dec_token) '''' s)"

definition createRoom :: "'s post_client \<Rightarrow> (string \<Rightarrow> string \<Rightarrow> go_error + string) \<Rightarrow> string \<Rightarrow> string \<Rightarrow> string
  \<Rightarrow> 's \<Rightarrow> (go_error + string) \<times> 's" where
  "createRoom http dec_id base token title s =
     (case postJSON http (base @ ''/api/rooms'') token (Some [(''title'', title)]) (Some dec_id) '''' s of
        (Inl e, s) \<Rightarrow> (Inl e, s)
      | (Inr room, s) \<Rightarrow> if room = '''' then (Inl (ErrNew ''create room: empty room ID''), s) else (Inr room, s))"

definition trim_slashes :: "string \<Rightarrow> string" where
  "trim_slashes s = rev (dropWhile (\<lambda>c. c = CHR ''/'') (rev s))"

definition replace_first :: "string \<Rightarrow> string \<Rightarrow> string \<Rightarrow> string" where
  "replace_first s old new = (case Cut s old of None \<Rightarrow> s | Some (before, after) \<Rightarrow> before @ new @ after)"

record demo =
  dm_host :: "string \<times> string"
  dm_viewer :: "string \<times> string"
  dm_room_url :: string
  dm_grafana :: string

text \<open>\<open>main\<close>: what it prints at the end, or the error \<open>must\<close> panics with.\<close>

definition demo_setup :: "'s post_client \<Rightarrow> (string \<Rightarrow> string \<Rightarrow> go_error + string) \<Rightarrow> (string \<Rightarrow> string \<Rightarrow> go_error + string)
  \<Rightarrow> string \<Rightarrow> string \<times> string \<Rightarrow> string \<times> string \<Rightarrow> string \<Rightarrow> 's \<Rightarrow> (go_error + demo) \<times> 's" where
  "demo_setup http dec_token dec_id addr host viewer title s =
     (let base = trim_slashes addr in
      case registerOrLogin http dec_token base (fst host) (snd host) s of
        (Inl e, s) \<Rightarrow> (Inl e, s)
      | (Inr host_token, s) \<Rightarrow>
          (case registerOrLogin http dec_token base (fst viewer) (snd viewer) s of
             (Inl e, s) \<Rightarrow> (Inl e, s)
           | (Inr viewer_token, s) \<Rightarrow>
               (case createRoom http dec_id base host_token title s of
                  (Inl e, s) \<Rightarrow> (Inl e, s)
                | (Inr room, s) \<Rightarrow>
                    (case postJSON http (base @ ''/api/rooms/'' @ room @ ''/start'') host_token None None () s of
                       (Inl e, s) \<Rightarrow> (Inl e, s)
                     | (Inr u, s) \<Rightarrow>
                         (Inr \<lparr>dm_host = host, dm_viewer = viewer, dm_room_url = base @ ''/room?room_id='' @ room,
                               dm_grafana = replace_first base '':8080'' '':3000''\<rparr>, s)))))"

text \<open>
  Corollary (any failure looks like a conflict). Where the address of the server contains the digits 409, every refused
  registration is taken for a name in use, and the program goes on to log in.
\<close>

theorem conflict_by_address:
  assumes "Contains base ''409''" and "http \<lparr>pc_url = base @ ''/api/auth/register'', pc_json = True, pc_authorization = '''',
      pc_payload = Some (auth_payload username password)\<rparr> s = (Inr (status, body), s')" and "300 \<le> status"
  shows "registerOrLogin http dec_token base username password s =
    postJSON http (base @ ''/api/auth/login'') '''' (Some (auth_payload username password)) (Some dec_token) '''' s'"
proof -
  obtain pre post where b: "base = pre @ ''409'' @ post" using assms(1) by (auto simp: Contains_sublist sublist_def)
  have "Contains (''POST '' @ (base @ ''/api/auth/register'') @ rest) ''409''" for rest
    unfolding Contains_sublist sublist_def b
    by (rule exI [of _ "''POST '' @ pre"], rule exI [of _ "post @ ''/api/auth/register'' @ rest"]) simp
  then show ?thesis using assms(2,3) by (simp add: registerOrLogin_def postJSON_def)
qed

section \<open>The server\<close>

text \<open>
  A client in front of the modelled server: the router's table, and that Gin answers a panic with 500. \<open>text\<close> is the JSON text
  of a body, \<open>fresh w\<close> the identifier the next \<open>uuid.New\<close> gives and \<open>clk\<close>, \<open>now\<close> the clock.
\<close>

type_synonym ('u, 'd, 'p, 'a, 'm, 'r) answered = "(http_reply \<times> ('u, 'd, 'p, 'a, 'm, 'r) dm_world) option"

definition answer :: "(json_body \<Rightarrow> string) \<Rightarrow> ('u, 'd, 'p, 'a, 'm, 'r) dm_world \<Rightarrow> ('u, 'd, 'p, 'a, 'm, 'r) answered
  \<Rightarrow> (go_error + nat \<times> string) \<times> ('u, 'd, 'p, 'a, 'm, 'r) dm_world" where
  "answer text w r = (case r of None \<Rightarrow> (Inr (500, ''''), w) | Some ((status, body), w) \<Rightarrow> (Inr (status, text body), w))"

definition one_segment :: "string \<Rightarrow> bool" where
  "one_segment s \<longleftrightarrow> s \<noteq> '''' \<and> CHR ''/'' \<notin> set s"

record ('u, 'd, 'p, 'a, 'm, 'r) surroundings =
  su_text :: "json_body \<Rightarrow> string"
  su_fresh :: "('u, 'd, 'p, 'a, 'm, 'r) dm_world \<Rightarrow> string"
  su_clk :: "('u, 'd, 'p, 'a, 'm, 'r) dm_world \<Rightarrow> nat \<Rightarrow> time"

definition serves :: "('u, 'd, 'p, 'a, 'm, 'r) dm_world post_client \<Rightarrow> ('u, 'd, 'p, 'a, 'm, 'r) app
  \<Rightarrow> ('u, 'd, 'p, 'a, 'm, 'r) surroundings \<Rightarrow> string \<Rightarrow> bool" where
  "serves http ap su base \<longleftrightarrow>
     (\<forall>n p k w. http \<lparr>pc_url = base @ ''/api/auth/register'', pc_json = True, pc_authorization = '''',
          pc_payload = Some [(''username'', n), (''password'', p), (''nickname'', k)]\<rparr> w =
        answer (su_text su) w (Auth_Register ap (\<lambda>i. su_fresh su w) (su_clk su w)
          (Inr \<lparr>rg_username = n, rg_password = p, rg_nickname = k\<rparr>) no_context w)) \<and>
     (\<forall>n p k w. http \<lparr>pc_url = base @ ''/api/auth/login'', pc_json = True, pc_authorization = '''',
          pc_payload = Some [(''username'', n), (''password'', p), (''nickname'', k)]\<rparr> w =
        answer (su_text su) w (Auth_Login ap (su_clk su w) (Inr \<lparr>lg_username = n, lg_password = p\<rparr>) no_context w)) \<and>
     (\<forall>token title w. http \<lparr>pc_url = base @ ''/api/rooms'', pc_json = True, pc_authorization = ''Bearer '' @ token,
          pc_payload = Some [(''title'', title)]\<rparr> w =
        answer (su_text su) w (user_request ap (\<lambda>i. su_fresh su w) (su_clk su w) (su_clk su w 0) (bearer token '''')
          (POST_room (Inr title)) w)) \<and>
     (\<forall>token room w. one_segment room \<longrightarrow> http \<lparr>pc_url = base @ ''/api/rooms/'' @ room @ ''/start'', pc_json = False,
          pc_authorization = ''Bearer '' @ token, pc_payload = None\<rparr> w =
        answer (su_text su) w (user_request ap (\<lambda>i. su_fresh su w) (su_clk su w) (su_clk su w 0) (bearer token room) POST_start w))"

text \<open>The members \<open>token\<close> and \<open>id\<close> are read back from the text of a body.\<close>

definition reads_back :: "(json_body \<Rightarrow> string) \<Rightarrow> (string \<Rightarrow> string \<Rightarrow> go_error + string) \<Rightarrow> (string \<Rightarrow> string \<Rightarrow> go_error + string) \<Rightarrow> bool" where
  "reads_back text dec_token dec_id \<longleftrightarrow>
     (\<forall>t u. text (J_auth t u) \<noteq> '''' \<and> dec_token (text (J_auth t u)) '''' = Inr t) \<and>
     (\<forall>r. text (J_room r) \<noteq> '''' \<and> dec_id (text (J_room r)) '''' = Inr (rs_id r))"

section \<open>Accounts\<close>

definition unused :: "(string \<rightharpoonup> user) \<Rightarrow> string \<Rightarrow> bool" where
  "unused us n \<longleftrightarrow> (\<forall>v \<in> ran us. u_username v \<noteq> n)"

definition account :: "bcrypt_lib \<Rightarrow> (string \<rightharpoonup> user) \<Rightarrow> string \<times> string \<Rightarrow> bool" where
  "account bc us a \<longleftrightarrow> (\<exists>u. us (u_id u) = Some u \<and> u_username u = fst a \<and> u_id u \<noteq> '''' \<and> is_ascii (u_id u) \<and>
     bc_compare bc (u_password_hash u) (snd a) = None)"

text \<open>A name and a password that can be registered.\<close>

definition registrable :: "bcrypt_lib \<Rightarrow> string \<times> string \<Rightarrow> bool" where
  "registrable bc a \<longleftrightarrow> TrimSpace (fst a) = fst a \<and> validateUsername (fst a) = None \<and> 6 \<le> length (snd a) \<and>
     length (snd a) \<le> 72 \<and> (\<exists>h. bc_generate bc (snd a) = Inr h)"

definition demo_ready :: "bcrypt_lib \<Rightarrow> (string \<times> string) set \<Rightarrow> (user_mem, 'd, 'p, 'a, 'm, 'r) dm_world \<Rightarrow> bool" where
  "demo_ready bc accounts w \<longleftrightarrow> users_good (mw_users (dw_mod w)) \<and>
     (\<forall>a \<in> accounts. unused (user_map (mw_users (dw_mod w))) (fst a) \<or> account bc (user_map (mw_users (dw_mod w))) a)"

lemma unused_upd: "unused us n \<Longrightarrow> u_username u \<noteq> n \<Longrightarrow> unused (us(i \<mapsto> u)) n"
  by (auto simp: unused_def ran_def)

lemma account_mono: "account bc us a \<Longrightarrow> us \<subseteq>\<^sub>m us' \<Longrightarrow> account bc us' a"
  unfolding account_def map_le_def by (metis domI)

text \<open>
  What the properties take for granted: the server runs over the memory stores, with libraries that keep their contracts;
  identifiers are new, of ASCII characters without a slash, and all calls fall into the life of a token.
\<close>

definition demo_server :: "(user_mem, 'd, 'p, 'a, 'm, room_mem) dm_world post_client \<Rightarrow> (string \<Rightarrow> string \<Rightarrow> go_error + string)
  \<Rightarrow> (string \<Rightarrow> string \<Rightarrow> go_error + string) \<Rightarrow> (user_mem, 'd, 'p, 'a, 'm, room_mem) app
  \<Rightarrow> (user_mem, 'd, 'p, 'a, 'm, room_mem) surroundings \<Rightarrow> (room_mem \<Rightarrow> string list) \<Rightarrow> string \<Rightarrow> bool" where
  "demo_server http dec_token dec_id ap su rord base \<longleftrightarrow>
     serves http ap su base \<and> reads_back (su_text su) dec_token dec_id \<and>
     ap_users ap = mem_uo \<and> ap_rooms ap = memory_room_ops rord \<and> jwt_spec (ap_jwt ap) \<and> bcrypt_spec (ap_bcrypt ap) \<and>
     (\<forall>k c. jl_sign (ap_jwt ap) k c \<noteq> Inr '''') \<and>
     (\<forall>w. users_good (mw_users (dw_mod w)) \<longrightarrow>
        one_segment (su_fresh su w) \<and> is_ascii (su_fresh su w) \<and> user_map (mw_users (dw_mod w)) (su_fresh su w) = None) \<and>
     (\<forall>w w'. su_clk su w' 0 < numeric_date (su_clk su w 0 + i64 (au_expiry_hours (ap_auth ap) * Hour)))"

lemma post_accepted:
  assumes "http \<lparr>pc_url = url, pc_json = (payload \<noteq> None), pc_authorization = (if token \<noteq> '''' then ''Bearer '' @ token else ''''),
      pc_payload = payload\<rparr> s = (Inr (status, body), s')"
    and "200 \<le> status" and "status < 300"
  shows "postJSON http url token payload target a s =
    (case target of None \<Rightarrow> (Inr a, s') | Some unmarshal \<Rightarrow> if body \<noteq> '''' then (unmarshal body a, s') else (Inr a, s'))"
  using assms by (auto simp: postJSON_def)

lemma token_good:
  assumes "demo_server http dec_token dec_id ap su rord base"
    and "generateToken (ap_jwt ap) (ap_auth ap) (su_clk su w 0) u = Inr t" and "is_ascii (u_id u)"
  shows "good_token ap (su_clk su w' 0) t (u_id u)" and "t \<noteq> ''''"
proof -
  show "t \<noteq> ''''" using assms(1,2) by (auto simp: demo_server_def generateToken_def split: sum.splits)
  moreover have "ValidateToken (ap_jwt ap) (ap_auth ap) (su_clk su w' 0) t = Inr (carried_actor u)"
    using generateToken_valid(1) [OF _ assms(2), of "su_clk su w' 0"] assms(1) by (simp add: demo_server_def)
  ultimately show "good_token ap (su_clk su w' 0) t (u_id u)" using assms(3) by (simp add: good_token_def carried_actor_def json_string_ascii)
qed

lemma register_new:
  assumes "demo_server http dec_token dec_id ap su rord base" and "registrable (ap_bcrypt ap) (n, p)"
    and "users_good (mw_users (dw_mod w))" and "unused (user_map (mw_users (dw_mod w))) n"
  obtains t s' u where "registerOrLogin http dec_token base n p w = (Inr t, put_users (s', mw_audit (dw_mod w)) w)"
    and "\<forall>w'. good_token ap (su_clk su w' 0) t (u_id u)" and "users_good s'"
    and "user_map s' = (user_map (mw_users (dw_mod w)))(u_id u \<mapsto> u)" and "user_map (mw_users (dw_mod w)) (u_id u) = None"
    and "account (ap_bcrypt ap) (user_map s') (n, p)" and "u_username u = n" and "u_id u \<noteq> ''''"
proof -
  let ?s = "mw_users (dw_mod w)" and ?id = "su_fresh su w"
  note D = assms(1) [unfolded demo_server_def]
  from assms(2) obtain h where h: "bc_generate (ap_bcrypt ap) p = Inr h" and n: "TrimSpace n = n" "validateUsername n = None"
    and l: "6 \<le> length p" "length p \<le> 72" by (auto simp: registrable_def)
  have id: "user_map ?s ?id = None" "?id \<noteq> ''''" "is_ascii ?id" using D assms(3) by (simp_all add: one_segment_def)
  have v: "validateUsername (TrimSpace n) = None" "\<forall>v \<in> ran (user_map ?s). u_username v \<noteq> TrimSpace n"
    using n assms(4) by (simp_all add: unused_def)
  have jl: "jwt_spec (ap_jwt ap)" using D by simp
  from register_succeeds [OF assms(3) id(1) jl v(1) l h v(2), of "ap_auth ap" "su_clk su w 0" n] obtain u t s' where
    reg: "AuthService.Register mem_uo (ap_jwt ap) (ap_bcrypt ap) (ap_auth ap) ?id (su_clk su w 0) n p n ?s = (Inr (u, t), s')"
    and s': "user_map s' = (user_map ?s)(?id \<mapsto> u)" and u: "u_id u = ?id"
    and tok: "generateToken (ap_jwt ap) (ap_auth ap) (su_clk su w 0) u = Inr t" by blast
  from Register_mem(1,7) [OF assms(3) id(1) reg] obtain h' where g: "users_good s'" and h': "bc_generate (ap_bcrypt ap) p = Inr h'"
    and new: "u = new_user ?id (TrimSpace n) h' (nickname_of (TrimSpace n) n)" by blast
  have name: "u_username u = n" "bc_compare (ap_bcrypt ap) (u_password_hash u) p = None"
    using D h' by (simp_all add: new n new_user_def bcrypt_spec_def)
  have "http \<lparr>pc_url = base @ ''/api/auth/register'', pc_json = True, pc_authorization = '''', pc_payload = Some (auth_payload n p)\<rparr> w =
      (Inr (201, su_text su (J_auth t u)), put_users (s', mw_audit (dw_mod w)) w)"
    using D by (simp add: serves_def auth_payload_def answer_def Auth_Register_def reg Let_def)
  then have r: "registerOrLogin http dec_token base n p w = (Inr t, put_users (s', mw_audit (dw_mod w)) w)"
    using D by (simp add: registerOrLogin_def postJSON_def reads_back_def)
  have a: "account (ap_bcrypt ap) (user_map s') (n, p)"
    unfolding account_def s' using u name id(2,3) by (intro exI [of _ u]) simp
  have "\<forall>w'. good_token ap (su_clk su w' 0) t (u_id u)" using token_good(1) [OF assms(1) tok] u id(3) by simp
  from that [OF r this g] s' u id a name(1) show ?thesis by simp
qed

lemma login_known:
  assumes "demo_server http dec_token dec_id ap su rord base" and "registrable (ap_bcrypt ap) (n, p)"
    and "users_good (mw_users (dw_mod w))" and "account (ap_bcrypt ap) (user_map (mw_users (dw_mod w))) (n, p)"
  obtains t and u :: user where "registerOrLogin http dec_token base n p w = (Inr t, w)"
    and "\<forall>w'. good_token ap (su_clk su w' 0) t (u_id u)" and "u_id u \<noteq> ''''"
    and "user_map (mw_users (dw_mod w)) (u_id u) = Some u" and "u_username u = n"
proof -
  let ?s = "mw_users (dw_mod w)"
  note D = assms(1) [unfolded demo_server_def]
  from assms(2) obtain h where h: "bc_generate (ap_bcrypt ap) p = Inr h" and n: "TrimSpace n = n" "validateUsername n = None"
    and l: "6 \<le> length p" "length p \<le> 72" by (auto simp: registrable_def)
  from assms(4) obtain u where u: "user_map ?s (u_id u) = Some u" "u_username u = n" "u_id u \<noteq> ''''"
    "bc_compare (ap_bcrypt ap) (u_password_hash u) p = None" and ascii: "is_ascii (u_id u)" by (auto simp: account_def)
  have f: "FindByUsername n ?s = Inr (Some u)"
    using FindByUsername_iff [of ?s n u] assms(3) u(1,2) by (simp add: users_good_def)
  then have "um_users ?s n \<noteq> None" by (auto simp: FindByUsername_def deref_def split: option.splits)
  then have reg: "AuthService.Register mem_uo (ap_jwt ap) (ap_bcrypt ap) (ap_auth ap) i c n p n ?s = (Inl ErrUsernameTaken, ?s)" for i c
    using n l h by (simp add: AuthService.Register_def memory_user_ops_def UserStore.Create_def new_user_def Let_def)
  obtain t where tok: "generateToken (ap_jwt ap) (ap_auth ap) (su_clk su w 0) u = Inr t"
    using generateToken_total D by blast
  have log: "Login mem_uo (ap_jwt ap) (ap_bcrypt ap) (ap_auth ap) (su_clk su w 0) n p ?s = Inr (u, t)"
    using f n(1) u(4) tok by (simp add: Login_def memory_user_ops_def)
  have same: "put_users (?s, mw_audit (dw_mod w)) w = w" by (simp add: put_users_def)
  have r: "http \<lparr>pc_url = base @ ''/api/auth/register'', pc_json = True, pc_authorization = '''', pc_payload = Some (auth_payload n p)\<rparr> w =
      (Inr (409, su_text su (J_error (error_text ErrUsernameTaken))), w)"
    using D by (simp add: serves_def auth_payload_def answer_def Auth_Register_def reg same Let_def)
  have g: "http \<lparr>pc_url = base @ ''/api/auth/login'', pc_json = True, pc_authorization = '''', pc_payload = Some (auth_payload n p)\<rparr> w =
      (Inr (200, su_text su (J_auth t u)), w)"
    using D by (simp add: serves_def auth_payload_def answer_def Auth_Login_def log)
  have "Contains (''POST '' @ (base @ ''/api/auth/register'') @ '': HTTP '' @ Sprintf_d 409 @ y) ''409''" for y
  proof -
    have "Sprintf_d 409 = ''409''" by (simp add: Sprintf_d_def digits_of.simps digit_def char_of_def bit_0)
    then show ?thesis unfolding Contains_sublist sublist_def
      by (intro exI [of _ "''POST '' @ (base @ ''/api/auth/register'') @ '': HTTP ''"] exI [of _ y]) simp
  qed
  then have "registerOrLogin http dec_token base n p w = (Inr t, w)"
    using D r g by (simp add: registerOrLogin_def postJSON_def reads_back_def)
  moreover have "\<forall>w'. good_token ap (su_clk su w' 0) t (u_id u)" using token_good(1) [OF assms(1) tok ascii] by blast
  ultimately show ?thesis by (rule that [OF _ _ u(3,1,2)])
qed

text \<open>
  Both ways to an account at once: \<open>t\<close> is a token of the user \<open>uid\<close>, who bears the name; nothing else changes.
\<close>

definition joins :: "(user_mem, 'd, 'p, 'a, 'm, room_mem) dm_world post_client \<Rightarrow> (string \<Rightarrow> string \<Rightarrow> go_error + string)
  \<Rightarrow> (user_mem, 'd, 'p, 'a, 'm, room_mem) app \<Rightarrow> (user_mem, 'd, 'p, 'a, 'm, room_mem) surroundings \<Rightarrow> string \<Rightarrow> string \<times> string
  \<Rightarrow> (user_mem, 'd, 'p, 'a, 'm, room_mem) dm_world \<Rightarrow> string \<Rightarrow> string \<Rightarrow> (user_mem, 'd, 'p, 'a, 'm, room_mem) dm_world \<Rightarrow> bool" where
  "joins http dec_token ap su base a w t uid w' \<longleftrightarrow>
     registerOrLogin http dec_token base (fst a) (snd a) w = (Inr t, w') \<and>
     (\<forall>v. good_token ap (su_clk su v 0) t uid) \<and> uid \<noteq> '''' \<and>
     (\<exists>u. user_map (mw_users (dw_mod w')) uid = Some u \<and> u_username u = fst a) \<and>
     account (ap_bcrypt ap) (user_map (mw_users (dw_mod w'))) a \<and>
     user_map (mw_users (dw_mod w)) \<subseteq>\<^sub>m user_map (mw_users (dw_mod w'))"

lemma joins_new:
  assumes "demo_server http dec_token dec_id ap su rord base" and "registrable (ap_bcrypt ap) a"
    and "demo_ready (ap_bcrypt ap) accounts w" and "a \<in> accounts" and "\<forall>b \<in> accounts. fst b = fst a \<longrightarrow> b = a"
    and "unused (user_map (mw_users (dw_mod w))) (fst a)"
  shows "\<exists>t uid w'. joins http dec_token ap su base a w t uid w' \<and> demo_ready (ap_bcrypt ap) accounts w'"
proof -
  let ?us = "user_map (mw_users (dw_mod w))"
  have a: "registrable (ap_bcrypt ap) (fst a, snd a)" and g: "users_good (mw_users (dw_mod w))"
    using assms(2,3) by (simp_all add: demo_ready_def)
  from register_new [OF assms(1) a g assms(6)] obtain t s' u where
    r: "registerOrLogin http dec_token base (fst a) (snd a) w = (Inr t, put_users (s', mw_audit (dw_mod w)) w)"
    and t: "\<forall>w'. good_token ap (su_clk su w' 0) t (u_id u)" and s: "users_good s'" "user_map s' = ?us(u_id u \<mapsto> u)" "?us (u_id u) = None"
    and acc: "account (ap_bcrypt ap) (user_map s') (fst a, snd a)" and u: "u_username u = fst a" "u_id u \<noteq> ''''" .
  let ?w = "put_users (s', mw_audit (dw_mod w)) w"
  have us [simp]: "mw_users (dw_mod ?w) = s'" by (simp add: put_users_def)
  have le: "?us \<subseteq>\<^sub>m user_map s'" unfolding s(2) using s(3) by (auto simp: map_le_def)
  have "unused (user_map s') (fst b) \<or> account (ap_bcrypt ap) (user_map s') b" if "b \<in> accounts" for b
  proof (cases "fst b = fst a")
    case True
    then show ?thesis using assms(5) that acc by auto
  next
    case False
    then have "unused ?us (fst b) \<Longrightarrow> unused (user_map s') (fst b)"
      unfolding s(2) using u(1) by (intro unused_upd) simp_all
    moreover have "account (ap_bcrypt ap) ?us b \<Longrightarrow> account (ap_bcrypt ap) (user_map s') b"
      by (rule account_mono [OF _ le])
    ultimately show ?thesis using assms(3) that unfolding demo_ready_def by blast
  qed
  then have "demo_ready (ap_bcrypt ap) accounts ?w" using s(1) by (simp add: demo_ready_def)
  moreover have "joins http dec_token ap su base a w t (u_id u) ?w"
    using r t u acc le s(2) by (simp add: joins_def)
  ultimately show ?thesis by blast
qed

lemma joins_ready:
  assumes "demo_server http dec_token dec_id ap su rord base" and "registrable (ap_bcrypt ap) a"
    and "demo_ready (ap_bcrypt ap) accounts w" and "a \<in> accounts" and "\<forall>b \<in> accounts. fst b = fst a \<longrightarrow> b = a"
  shows "\<exists>t uid w'. joins http dec_token ap su base a w t uid w' \<and> demo_ready (ap_bcrypt ap) accounts w'"
proof (cases "unused (user_map (mw_users (dw_mod w))) (fst a)")
  case True
  then show ?thesis by (rule joins_new [OF assms])
next
  case False
  then have acc: "account (ap_bcrypt ap) (user_map (mw_users (dw_mod w))) (fst a, snd a)"
    and a: "registrable (ap_bcrypt ap) (fst a, snd a)" and g: "users_good (mw_users (dw_mod w))"
    using assms(2-4) by (auto simp: demo_ready_def)
  from login_known [OF assms(1) a g acc] obtain t and u :: user where
    "registerOrLogin http dec_token base (fst a) (snd a) w = (Inr t, w)"
    "\<forall>w'. good_token ap (su_clk su w' 0) t (u_id u)" "u_id u \<noteq> ''''"
    "user_map (mw_users (dw_mod w)) (u_id u) = Some u" "u_username u = fst a" .
  then have "joins http dec_token ap su base a w t (u_id u) w" using acc by (simp add: joins_def)
  then show ?thesis using assms(3) by blast
qed

lemma create_room_demo:
  assumes "demo_server http dec_token dec_id ap su rord base" and "good_token ap (su_clk su w 0) t uid" and "uid \<noteq> ''''"
    and "users_good (mw_users (dw_mod w))" and "title \<noteq> ''''" and "length (runes title) \<le> 100"
  obtains r where "createRoom http dec_id base t title w =
      (Inr (r_id r), put_rooms ((dw_rooms w)\<lparr>rm_rooms := (rm_rooms (dw_rooms w))(r_id r \<mapsto> r)\<rparr>) w)"
    and "one_segment (r_id r)" and "r_owner_id r = uid" and "r_status r = RoomStatusPending"
proof -
  note D = assms(1) [unfolded demo_server_def]
  have rooms: "ap_rooms ap = memory_room_ops rord" using D by simp
  from create_room_request [OF assms(2,3) rooms assms(5,6), of "\<lambda>i. su_fresh su w" "su_clk su w" "''''" w] obtain r where
    r: "user_request ap (\<lambda>i. su_fresh su w) (su_clk su w) (su_clk su w 0) (bearer t '''') (POST_room (Inr title)) w =
      Some ((201, J_room (toRoomResponse (ap_format ap) r)), put_rooms ((dw_rooms w)\<lparr>rm_rooms := (rm_rooms (dw_rooms w))(su_fresh su w \<mapsto> r)\<rparr>) w)"
    and s: "r_id r = su_fresh su w" "r_owner_id r = uid" "r_status r = RoomStatusPending" by blast
  have "t \<noteq> ''''" using assms(2) by (simp add: good_token_def)
  moreover have "one_segment (su_fresh su w)" using D assms(4) by simp
  ultimately show ?thesis using that [of r] r s D
    by (simp add: createRoom_def postJSON_def serves_def answer_def reads_back_def toRoomResponse_def one_segment_def)
qed

lemma start_room_demo:
  assumes "demo_server http dec_token dec_id ap su rord base" and "good_token ap (su_clk su w 0) t uid" and "uid \<noteq> ''''"
    and "one_segment room" and "rm_rooms (dw_rooms w) room = Some r" and "r_owner_id r = uid" and "r_status r = RoomStatusPending"
  shows "postJSON http (base @ ''/api/rooms/'' @ room @ ''/start'') t None None () w =
    (Inr (), put_rooms ((dw_rooms w)\<lparr>rm_rooms := (rm_rooms (dw_rooms w))
        (room \<mapsto> room_moved (su_clk su w 0) RoomStatusLive (su_clk su w 0) r)\<rparr>) w)"
proof -
  note D = assms(1) [unfolded demo_server_def]
  have "ap_rooms ap = memory_room_ops rord" "room \<noteq> ''''" using D assms(4) by (simp_all add: one_segment_def)
  note s = start_room_request [OF assms(2,3) this assms(5-7), of "\<lambda>i. su_fresh su w" "su_clk su w"]
  have "t \<noteq> ''''" using assms(2) by (simp add: good_token_def)
  with D assms(4) s show ?thesis by (simp add: postJSON_def serves_def answer_def)
qed

lemma demo_run:
  assumes "demo_server http dec_token dec_id ap su rord (trim_slashes addr)" and "registrable (ap_bcrypt ap) host"
    and "registrable (ap_bcrypt ap) viewer" and "fst host \<noteq> fst viewer" and "title \<noteq> ''''" and "length (runes title) \<le> 100"
    and "demo_ready (ap_bcrypt ap) {host, viewer} w"
  shows "\<exists>room q u w'. demo_setup http dec_token dec_id addr host viewer title w =
      (Inr \<lparr>dm_host = host, dm_viewer = viewer, dm_room_url = trim_slashes addr @ ''/room?room_id='' @ room,
         dm_grafana = replace_first (trim_slashes addr) '':8080'' '':3000''\<rparr>, w') \<and>
    rm_rooms (dw_rooms w') room = Some q \<and> r_status q = RoomStatusLive \<and>
    user_map (mw_users (dw_mod w')) (r_owner_id q) = Some u \<and> u_username u = fst host \<and>
    (\<forall>a \<in> {host, viewer}. account (ap_bcrypt ap) (user_map (mw_users (dw_mod w'))) a) \<and>
    demo_ready (ap_bcrypt ap) {host, viewer} w'"
proof -
  let ?base = "trim_slashes addr" and ?acc = "{host, viewer}"
  have apart: "\<forall>b \<in> ?acc. fst b = fst host \<longrightarrow> b = host" "\<forall>b \<in> ?acc. fst b = fst viewer \<longrightarrow> b = viewer"
    using assms(4) by auto
  from joins_ready [OF assms(1,2,7) _ apart(1)] obtain t uid w1 where
    j1: "joins http dec_token ap su ?base host w t uid w1" and r1: "demo_ready (ap_bcrypt ap) ?acc w1" by blast
  from joins_ready [OF assms(1,3) r1 _ apart(2)] obtain t2 uid2 w2 where
    j2: "joins http dec_token ap su ?base viewer w1 t2 uid2 w2" and r2: "demo_ready (ap_bcrypt ap) ?acc w2" by blast
  have tok: "good_token ap (su_clk su v 0) t uid" for v using j1 by (simp add: joins_def)
  have uid: "uid \<noteq> ''''" and g2: "users_good (mw_users (dw_mod w2))" using j1 r2 by (simp_all add: joins_def demo_ready_def)
  from create_room_demo [OF assms(1) tok uid g2 assms(5,6)] obtain r where
    c: "createRoom http dec_id ?base t title w2 =
      (Inr (r_id r), put_rooms ((dw_rooms w2)\<lparr>rm_rooms := (rm_rooms (dw_rooms w2))(r_id r \<mapsto> r)\<rparr>) w2)"
    and seg: "one_segment (r_id r)" and own: "r_owner_id r = uid" and pend: "r_status r = RoomStatusPending" .
  let ?w3 = "put_rooms ((dw_rooms w2)\<lparr>rm_rooms := (rm_rooms (dw_rooms w2))(r_id r \<mapsto> r)\<rparr>) w2"
  have at: "rm_rooms (dw_rooms ?w3) (r_id r) = Some r" by (simp add: put_rooms_def)
  let ?q = "room_moved (su_clk su ?w3 0) RoomStatusLive (su_clk su ?w3 0) r"
  let ?w4 = "put_rooms ((dw_rooms ?w3)\<lparr>rm_rooms := (rm_rooms (dw_rooms ?w3))(r_id r \<mapsto> ?q)\<rparr>) ?w3"
  note st = start_room_demo [OF assms(1) tok uid seg at own pend]
  have run: "demo_setup http dec_token dec_id addr host viewer title w =
      (Inr \<lparr>dm_host = host, dm_viewer = viewer, dm_room_url = ?base @ ''/room?room_id='' @ r_id r,
         dm_grafana = replace_first ?base '':8080'' '':3000''\<rparr>, ?w4)"
    using j1 j2 c st by (simp add: demo_setup_def joins_def Let_def)
  have users: "mw_users (dw_mod ?w4) = mw_users (dw_mod w2)" by (simp add: put_rooms_def)
  have live: "rm_rooms (dw_rooms ?w4) (r_id r) = Some ?q" "r_status ?q = RoomStatusLive" "r_owner_id ?q = uid"
    using own by (simp_all add: put_rooms_def room_moved_def Let_def)
  have le: "user_map (mw_users (dw_mod w1)) \<subseteq>\<^sub>m user_map (mw_users (dw_mod w2))" using j2 by (simp add: joins_def)
  obtain u where u: "user_map (mw_users (dw_mod w1)) uid = Some u" "u_username u = fst host" using j1 by (auto simp: joins_def)
  then have u2: "user_map (mw_users (dw_mod w2)) uid = Some u" using le by (metis domI map_le_def)
  have accs: "account (ap_bcrypt ap) (user_map (mw_users (dw_mod w2))) host" "account (ap_bcrypt ap) (user_map (mw_users (dw_mod w2))) viewer"
    using account_mono [OF _ le, of "ap_bcrypt ap" host] j1 j2 by (simp_all add: joins_def)
  have ready: "demo_ready (ap_bcrypt ap) ?acc ?w4" using r2 users by (simp add: demo_ready_def)
  show ?thesis
    by (intro exI conjI, rule run, rule live, rule live) (use u2 u(2) accs ready users live(3) in simp_all)
qed


section \<open>Properties\<close>

text \<open>
  Property C29 (the demonstration can be prepared again and again). Against a server over the memory stores, whose two accounts are
  each either unused or registered with the given password, every run of the program succeeds, the first and any later one: it
  ends with a live room that belongs to the host's account, and both accounts exist with their passwords.
\<close>

theorem demo_repeatable:
  assumes "demo_server http dec_token dec_id ap su rord (trim_slashes addr)" and "registrable (ap_bcrypt ap) host"
    and "registrable (ap_bcrypt ap) viewer" and "fst host \<noteq> fst viewer" and "title \<noteq> ''''" and "length (runes title) \<le> 100"
    and "demo_ready (ap_bcrypt ap) {host, viewer} w"
    and "v = ((\<lambda>w. snd (demo_setup http dec_token dec_id addr host viewer title w)) ^^ k) w"
  shows "\<exists>room q u v'. demo_setup http dec_token dec_id addr host viewer title v =
      (Inr \<lparr>dm_host = host, dm_viewer = viewer, dm_room_url = trim_slashes addr @ ''/room?room_id='' @ room,
         dm_grafana = replace_first (trim_slashes addr) '':8080'' '':3000''\<rparr>, v') \<and>
    rm_rooms (dw_rooms v') room = Some q \<and> r_status q = RoomStatusLive \<and>
    user_map (mw_users (dw_mod v')) (r_owner_id q) = Some u \<and> u_username u = fst host \<and>
    (\<forall>a \<in> {host, viewer}. account (ap_bcrypt ap) (user_map (mw_users (dw_mod v'))) a)"
proof -
  note run = demo_run [OF assms(1-6)]
  have "demo_ready (ap_bcrypt ap) {host, viewer} (((\<lambda>w. snd (demo_setup http dec_token dec_id addr host viewer title w)) ^^ k) w)"
  proof (induction k)
    case (Suc k)
    from run [OF this] show ?case by auto
  qed (simp add: assms(7))
  from run [OF this] show ?thesis unfolding assms(8) by blast
qed


section \<open>Witness\<close>

text \<open>The server of the defaults behind a router, over empty stores.\<close>

definition plain_text :: "json_body \<Rightarrow> string" where
  "plain_text b = (case b of J_auth t u \<Rightarrow> CHR ''t'' # t | J_room r \<Rightarrow> CHR ''r'' # rs_id r | _ \<Rightarrow> ''e'')"

definition plain_dec :: "string \<Rightarrow> string \<Rightarrow> go_error + string" where
  "plain_dec s a = Inr (tl s)"

definition quiet_surroundings :: "(user_mem, 'd, 'p, 'a, 'm, 'r) surroundings" where
  "quiet_surroundings = \<lparr>su_text = plain_text,
     su_fresh = (\<lambda>w. replicate (Suc (sum length (dom (user_map (mw_users (dw_mod w)))))) CHR ''u''), su_clk = (\<lambda>w i. 0)\<rparr>"

definition router :: "(user_mem, 'd, 'p, 'a, 'm, 'r) app \<Rightarrow> (user_mem, 'd, 'p, 'a, 'm, 'r) surroundings \<Rightarrow> string
  \<Rightarrow> (user_mem, 'd, 'p, 'a, 'm, 'r) dm_world post_client" where
  "router ap su base c w =
     (case pc_payload c of
        Some [(k1, n), (k2, p), (k3, k)] \<Rightarrow>
          if pc_url c = base @ ''/api/auth/register''
          then answer (su_text su) w (Auth_Register ap (\<lambda>i. su_fresh su w) (su_clk su w)
            (Inr \<lparr>rg_username = n, rg_password = p, rg_nickname = k\<rparr>) no_context w)
          else answer (su_text su) w (Auth_Login ap (su_clk su w) (Inr \<lparr>lg_username = n, lg_password = p\<rparr>) no_context w)
      | Some [(k1, title)] \<Rightarrow> answer (su_text su) w (user_request ap (\<lambda>i. su_fresh su w) (su_clk su w) (su_clk su w 0)
          (bearer (drop 7 (pc_authorization c)) '''') (POST_room (Inr title)) w)
      | None \<Rightarrow> answer (su_text su) w (user_request ap (\<lambda>i. su_fresh su w) (su_clk su w) (su_clk su w 0)
          (bearer (drop 7 (pc_authorization c)) (takeWhile (\<lambda>x. x \<noteq> CHR ''/'') (drop (length base + 11) (pc_url c)))) POST_start w)
      | _ \<Rightarrow> (Inr (404, ''''), w))"

lemma router_serves: "serves (router ap su base) ap su base"
proof -
  have "takeWhile (\<lambda>x. x \<noteq> CHR ''/'') (room @ ''/start'') = room" if "one_segment room" for room
    using that by (auto simp: one_segment_def takeWhile_append)
  then show ?thesis by (simp add: serves_def router_def)
qed

lemma fresh_is_new:
  assumes "users_good (mw_users (dw_mod w))"
  shows "user_map (mw_users (dw_mod w)) (su_fresh quiet_surroundings w) = None"
proof (rule ccontr)
  let ?us = "user_map (mw_users (dw_mod w))" and ?i = "su_fresh quiet_surroundings w"
  assume "?us ?i \<noteq> None"
  then have "?i \<in> dom ?us" by (simp add: domIff)
  then have "length ?i \<le> sum length (dom ?us)" using assms by (intro member_le_sum) (simp_all add: users_good_def)
  then show False by (simp add: quiet_surroundings_def)
qed

theorem demo_repeatable_witness:
  "\<exists>dp ms ap v d v'. start id calm (Inr (Default :: int config)) = Inr dp \<and>
    ap = wire_app (Default :: int config) dp (memory_store_ops insertion_sort) (memory_room_ops (\<lambda>s. [])) (\<lambda>dm. None) ms mem_list string_jwt
      plain_bcrypt (\<lambda>t. '''') \<and>
    v = snd (demo_setup (router ap quiet_surroundings ''http://h'') plain_dec plain_dec ''http://h/'' (''ann'', ''DemoPass123'')
      (''bob'', ''DemoPass123'') ''demo'' first_day) \<and>
    demo_setup (router ap quiet_surroundings ''http://h'') plain_dec plain_dec ''http://h/'' (''ann'', ''DemoPass123'')
      (''bob'', ''DemoPass123'') ''demo'' v = (Inr d, v')"
proof -
  obtain dp where dp: "start id calm (Inr (Default :: int config)) = Inr dp"
    using start_succeeds_iff [of id calm "Default :: int config"] by (auto simp: open_stores_def open_governance_def Default_def)
  define ms where "ms = mem_service insertion_sort insertion_sort (\<lambda>s. []) True (\<lambda>m. True) plain_tables None True True"
  define ap where "ap = wire_app (Default :: int config) dp (memory_store_ops insertion_sort) (memory_room_ops (\<lambda>s. [])) (\<lambda>dm. None) ms mem_list
      string_jwt plain_bcrypt (\<lambda>t. '''')"
  have ap: "ap_users ap = mem_uo" "ap_rooms ap = memory_room_ops (\<lambda>s. [])" "ap_jwt ap = string_jwt" "ap_bcrypt ap = plain_bcrypt"
    "ap_auth ap = NewAuthService '''' 72"
    by (simp_all add: ap_def wire_app_def ms_def mem_service_def start_auth [OF dp] Default_def)
  have base: "trim_slashes ''http://h/'' = ''http://h''" by (simp add: trim_slashes_def)
  have time: "0 < numeric_date (0 + i64 (au_expiry_hours (NewAuthService '''' 72) * Hour))"
    by (simp add: numeric_date_def NewAuthService_def i64_def)
  have srv: "demo_server (router ap quiet_surroundings ''http://h'') plain_dec plain_dec ap quiet_surroundings (\<lambda>s. []) (trim_slashes ''http://h/'')"
    unfolding demo_server_def base
    using router_serves string_jwt_spec plain_bcrypt_spec string_jwt_nonempty fresh_is_new time
    by (auto simp: ap reads_back_def plain_text_def plain_dec_def one_segment_def quiet_surroundings_def is_ascii_def byte_of_def list_all_iff)
  have names: "validateUsername ''ann'' = None" "validateUsername ''bob'' = None" "TrimSpace ''ann'' = ''ann''" "TrimSpace ''bob'' = ''bob''"
    by (simp_all add: validateUsername_def alnum_def runes_ascii TrimSpace_def segments_ascii is_ascii_def trim_segs_def is_space_def byte_of_def)
  have reg: "registrable (ap_bcrypt ap) (''ann'', ''DemoPass123'')" "registrable (ap_bcrypt ap) (''bob'', ''DemoPass123'')"
    using names by (simp_all add: registrable_def ap plain_bcrypt_def)
  have title: "length (runes ''demo'') \<le> 100" by (simp add: runes_ascii is_ascii_def byte_of_def)
  have ready: "demo_ready (ap_bcrypt ap) {(''ann'', ''DemoPass123''), (''bob'', ''DemoPass123'')} first_day"
    by (simp add: demo_ready_def unused_def first_day_def user_map_New users_good_New)
  let ?run = "demo_setup (router ap quiet_surroundings ''http://h'') plain_dec plain_dec ''http://h/'' (''ann'', ''DemoPass123'')
      (''bob'', ''DemoPass123'') ''demo''"
  have one: "snd (?run first_day) = ((\<lambda>w. snd (?run w)) ^^ 1) first_day" by (simp only: One_nat_def funpow.simps comp_def id_def)
  have apart: "fst (''ann'', ''DemoPass123'') \<noteq> fst (''bob'', ''DemoPass123'')" "''demo'' \<noteq> ''''" by simp_all
  from demo_repeatable [OF srv reg apart title ready one] show ?thesis
    by (elim exE conjE) (intro exI conjI, rule dp, rule ap_def, rule refl, assumption)
qed

end
