(* ===== verification/Integration.thy ===== *)
theory Integration
  imports Startup "HOL-Library.Sublist"
begin

text \<open>
  \<open>scripts/integration.go\<close>: the test of two instances behind a proxy. The network is a record of calls over a state
  that nobody sees; the loops that wait for a frame are partial functions, \<open>None\<close> when they never return.
\<close>

section \<open>The network\<close>

text \<open>What \<open>json\<close> makes of a text when the target is a \<open>map[string]interface{}\<close>.\<close>

datatype json = Js_string string | Js_object "string \<Rightarrow> json option" | Js_other

definition str_member :: "(string \<rightharpoonup> json) \<Rightarrow> string \<Rightarrow> string" where
  "str_member m k = (case m k of Some (Js_string s) \<Rightarrow> s | _ \<Rightarrow> '''')"

record web_answer =
  wa_status :: nat
  wa_body :: string

record web_post =
  wp_url :: string
  wp_json :: bool
  wp_bearer :: "string option"
  wp_body :: string

record ('c, 's) net =
  nt_get :: "string \<Rightarrow> 's \<Rightarrow> (go_error + web_answer) \<times> 's"
  nt_post :: "web_post \<Rightarrow> 's \<Rightarrow> (go_error + web_answer) \<times> 's"
  nt_dial :: "string \<Rightarrow> 's \<Rightarrow> (go_error + 'c) \<times> 's"
  nt_write :: "'c \<Rightarrow> string \<Rightarrow> 's \<Rightarrow> go_error option \<times> 's"
  nt_read :: "'c \<Rightarrow> time \<Rightarrow> 's \<Rightarrow> (go_error + string) \<times> 's"
  nt_close :: "'c \<Rightarrow> 's \<Rightarrow> 's"
  nt_now :: "'s \<Rightarrow> time \<times> 's"
  nt_sleep :: "duration \<Rightarrow> 's \<Rightarrow> 's"

text \<open>
  The libraries that read texts: an object (empty when the text is none), the frame with a cursor as type, id, content and
  timestamp, the history frame as type and contents, and \<open>url.QueryEscape\<close>.
\<close>

record text_lib =
  tl_object :: "string \<Rightarrow> (string \<rightharpoonup> json)"
  tl_cursor :: "string \<Rightarrow> (string \<times> string \<times> string \<times> string) option"
  tl_history :: "string \<Rightarrow> (string \<times> string list) option"
  tl_escape :: "string \<Rightarrow> string"

definition instanceA :: string where "instanceA = ''http://localhost:8081''"
definition instanceB :: string where "instanceB = ''http://localhost:8082''"
definition nginxEntry :: string where "nginxEntry = ''http://localhost:8080''"
definition wait_timeout :: duration where "wait_timeout = 5 * Second"

record test_setup =
  tu_token :: string
  tu_room :: string

section \<open>Checks over HTTP\<close>

definition checkHealth :: "('c, 's) net \<Rightarrow> string \<Rightarrow> 's \<Rightarrow> bool \<times> 's" where
  "checkHealth nt base s =
     (case nt_get nt (base @ ''/healthz'') s of
        (Inl e, s) \<Rightarrow> (False, s)
      | (Inr r, s) \<Rightarrow> (wa_status r = 200, s))"

definition checkReady :: "('c, 's) net \<Rightarrow> text_lib \<Rightarrow> string \<Rightarrow> 's \<Rightarrow> bool \<times> 's" where
  "checkReady nt lb base s =
     (case nt_get nt (base @ ''/readyz'') s of
        (Inl e, s) \<Rightarrow> (False, s)
      | (Inr r, s) \<Rightarrow>
          (let st = str_member (tl_object lb (wa_body r)) ''status'' in
           (\<not> (st \<noteq> ''ok'' \<and> st \<noteq> ''degraded''), s)))"

definition checkMetrics :: "('c, 's) net \<Rightarrow> string \<Rightarrow> 's \<Rightarrow> bool \<times> 's" where
  "checkMetrics nt base s =
     (case nt_get nt (base @ ''/metrics'') s of
        (Inl e, s) \<Rightarrow> (False, s)
      | (Inr r, s) \<Rightarrow> (Contains (wa_body r) ''danmakuflow_'', s))"

definition instance_id_of :: "('c, 's) net \<Rightarrow> text_lib \<Rightarrow> string \<Rightarrow> 's \<Rightarrow> string \<times> 's" where
  "instance_id_of nt lb u s =
     (case nt_get nt (u @ ''/healthz'') s of
        (Inl e, s) \<Rightarrow> ('''', s)
      | (Inr r, s) \<Rightarrow> (str_member (tl_object lb (wa_body r)) ''instance_id'', s))"

definition checkDifferentInstanceIDs :: "('c, 's) net \<Rightarrow> text_lib \<Rightarrow> 's \<Rightarrow> bool \<times> 's" where
  "checkDifferentInstanceIDs nt lb s =
     (let (a, s) = instance_id_of nt lb instanceA s;
          (b, s) = instance_id_of nt lb instanceB s
      in (\<not> (a = '''' \<or> b = '''' \<or> a = b), s))"

section \<open>Setting up\<close>

definition credentials_body :: string where
  "credentials_body = ''{\"username\":\"integration\",\"password\":\"intgpass123\"}''"

definition title_body :: "string \<Rightarrow> string" where
  "title_body title = ''{\"title\":\"'' @ title @ ''\"}''"

definition authPost :: "('c, 's) net \<Rightarrow> test_setup \<Rightarrow> string \<Rightarrow> string \<Rightarrow> 's \<Rightarrow> (go_error + web_answer) \<times> 's" where
  "authPost nt ts url body = nt_post nt \<lparr>wp_url = url, wp_json = True, wp_bearer = Some (tu_token ts), wp_body = body\<rparr>"

definition setup_token :: "('c, 's) net \<Rightarrow> text_lib \<Rightarrow> 's \<Rightarrow> (go_error + string) \<times> 's" where
  "setup_token nt lb s =
     (let post = (\<lambda>u. nt_post nt \<lparr>wp_url = instanceA @ u, wp_json = True, wp_bearer = None, wp_body = credentials_body\<rparr>);
          (r, s) = post ''/api/auth/register'' s;
          (r, s) = (case r of
             Inl e \<Rightarrow> (Inl (Errorf ''register: '' e ''''), s)
           | Inr a \<Rightarrow>
               if wa_status a = 409
               then (case post ''/api/auth/login'' s of
                       (Inl e, s) \<Rightarrow> (Inl (Errorf ''login: '' e ''''), s)
                     | (Inr a, s) \<Rightarrow> (Inr a, s))
               else (Inr a, s))
      in case r of
           Inl e \<Rightarrow> (Inl e, s)
         | Inr a \<Rightarrow>
             if wa_status a \<noteq> 200 \<and> wa_status a \<noteq> 201
             then (Inl (ErrNew (''auth failed: HTTP '' @ Sprintf_d (int (wa_status a)))), s)
             else (let token = str_member (tl_object lb (wa_body a)) ''token'' in
                   if token = '''' then (Inl (ErrNew ''no token in response''), s) else (Inr token, s)))"

definition setup_room :: "('c, 's) net \<Rightarrow> text_lib \<Rightarrow> string \<Rightarrow> 's \<Rightarrow> (go_error + string) \<times> 's" where
  "setup_room nt lb token s =
     (let (now, s) = nt_now nt s in
      case nt_post nt \<lparr>wp_url = instanceA @ ''/api/rooms'', wp_json = True, wp_bearer = Some token,
             wp_body = title_body (''room_'' @ Sprintf_d now)\<rparr> s of
        (Inl e, s) \<Rightarrow> (Inl (Errorf ''create room: '' e ''''), s)
      | (Inr a, s) \<Rightarrow>
          if wa_status a \<noteq> 201 then (Inl (ErrNew (''create room: HTTP '' @ Sprintf_d (int (wa_status a)))), s)
          else (let room = str_member (tl_object lb (wa_body a)) ''id'' in
                if room = '''' then (Inl (ErrNew ''no id in create response''), s)
                else case nt_post nt \<lparr>wp_url = instanceA @ ''/api/rooms/'' @ room @ ''/start'', wp_json = False,
                       wp_bearer = Some token, wp_body = ''''\<rparr> s of
                  (Inl e, s) \<Rightarrow> (Inl (Errorf ''start room: '' e ''''), s)
                | (Inr a, s) \<Rightarrow>
                    if wa_status a \<noteq> 200 then (Inl (ErrNew (''start room: HTTP '' @ Sprintf_d (int (wa_status a)))), s)
                    else (Inr room, s)))"

definition ensureSetup :: "('c, 's) net \<Rightarrow> text_lib \<Rightarrow> 's \<Rightarrow> (go_error + test_setup) \<times> 's" where
  "ensureSetup nt lb s =
     (case setup_token nt lb s of
        (Inl e, s) \<Rightarrow> (Inl e, s)
      | (Inr token, s) \<Rightarrow>
          (case setup_room nt lb token s of
             (Inl e, s) \<Rightarrow> (Inl e, s)
           | (Inr room, s) \<Rightarrow> (Inr \<lparr>tu_token = token, tu_room = room\<rparr>, s)))"

section \<open>Checks over WebSocket\<close>

definition ws_base :: "string \<Rightarrow> string" where
  "ws_base base = ''ws'' @ (if HasPrefix base ''http'' then drop 4 base else base)"

definition ws_url :: "text_lib \<Rightarrow> test_setup option \<Rightarrow> string \<Rightarrow> string \<Rightarrow> string" where
  "ws_url lb ts base room =
     (let u = ws_base base @ ''/ws?room_id='' @ room in
      case ts of None \<Rightarrow> u | Some t \<Rightarrow> if tu_token t \<noteq> '''' then u @ ''&token='' @ tl_escape lb (tu_token t) else u)"

definition dialWS :: "('c, 's) net \<Rightarrow> text_lib \<Rightarrow> test_setup \<Rightarrow> string \<Rightarrow> string \<Rightarrow> 's \<Rightarrow> (go_error + 'c) \<times> 's" where
  "dialWS nt lb ts base room = nt_dial nt (ws_url lb (Some ts) base room)"

definition danmaku_text :: "string \<Rightarrow> string \<Rightarrow> string" where
  "danmaku_text content request_id =
     ''{\"type\":\"danmaku\",\"payload\":{\"content\":\"'' @ content @ ''\",\"request_id\":\"'' @ request_id @ ''\"}}''"

text \<open>The content of a broadcast: the members \<open>type\<close> and \<open>payload\<close> of the frame.\<close>

definition broadcast_content :: "(string \<rightharpoonup> json) \<Rightarrow> string option" where
  "broadcast_content m =
     (if str_member m ''type'' = ''broadcast''
      then case m ''payload'' of Some (Js_object pl) \<Rightarrow> Some (str_member pl ''content'') | _ \<Rightarrow> None
      else None)"

text \<open>The loop of three of the checks: whether a broadcast with the content was read before the deadline.\<close>

partial_function (option) await_broadcast :: "('c, 's) net \<Rightarrow> text_lib \<Rightarrow> 'c \<Rightarrow> time \<Rightarrow> string \<Rightarrow> 's \<Rightarrow> (bool \<times> 's) option" where
  "await_broadcast nt lb c dl msg s =
     (case nt_now nt s of (now, s) \<Rightarrow>
        if \<not> now < dl then Some (False, s)
        else case nt_read nt c dl s of
          (Inl e, s) \<Rightarrow> Some (False, s)
        | (Inr data, s) \<Rightarrow>
            if broadcast_content (tl_object lb data) = Some msg then Some (True, s) else await_broadcast nt lb c dl msg s)"

text \<open>The cursor of the message that was sent: its identifier and its timestamp.\<close>

partial_function (option) await_cursor :: "('c, 's) net \<Rightarrow> text_lib \<Rightarrow> 'c \<Rightarrow> time \<Rightarrow> string \<Rightarrow> 's \<Rightarrow> ((string \<times> string) \<times> 's) option" where
  "await_cursor nt lb c dl msg s =
     (case nt_now nt s of (now, s) \<Rightarrow>
        if \<not> now < dl then Some (('''', ''''), s)
        else case nt_read nt c dl s of
          (Inl e, s) \<Rightarrow> Some (('''', ''''), s)
        | (Inr data, s) \<Rightarrow>
            (case tl_cursor lb data of
               Some (typ, mid, content, stamp) \<Rightarrow>
                 if typ = ''broadcast'' \<and> content = msg then Some ((mid, stamp), s) else await_cursor nt lb c dl msg s
             | None \<Rightarrow> await_cursor nt lb c dl msg s))"

partial_function (option) await_history :: "('c, 's) net \<Rightarrow> text_lib \<Rightarrow> 'c \<Rightarrow> time \<Rightarrow> string \<Rightarrow> 's \<Rightarrow> (bool \<times> 's) option" where
  "await_history nt lb c dl msg s =
     (case nt_read nt c dl s of
        (Inl e, s) \<Rightarrow> Some (False, s)
      | (Inr data, s) \<Rightarrow>
          (case tl_history lb data of
             Some (typ, contents) \<Rightarrow>
               if typ = ''history'' \<and> msg \<in> set contents then Some (True, s) else await_history nt lb c dl msg s
           | None \<Rightarrow> await_history nt lb c dl msg s))"

definition close_after :: "('c, 's) net \<Rightarrow> 'c list \<Rightarrow> ('a \<times> 's) option \<Rightarrow> ('a \<times> 's) option" where
  "close_after nt cs = map_option (\<lambda>(r, s). (r, fold (nt_close nt) cs s))"

definition testCrossInstanceDelivery :: "('c, 's) net \<Rightarrow> text_lib \<Rightarrow> test_setup \<Rightarrow> 's \<Rightarrow> (bool \<times> 's) option" where
  "testCrossInstanceDelivery nt lb ts s =
     (case dialWS nt lb ts instanceA (tu_room ts) s of
        (Inl e, s) \<Rightarrow> Some (False, s)
      | (Inr wa, s) \<Rightarrow> close_after nt [wa]
          (case dialWS nt lb ts instanceB (tu_room ts) s of
             (Inl e, s) \<Rightarrow> Some (False, s)
           | (Inr wb, s) \<Rightarrow> close_after nt [wb]
               (let s = nt_sleep nt Second s;
                    (now, s) = nt_now nt s;
                    msg = ''cross_'' @ Sprintf_d now in
                case nt_write nt wa (danmaku_text msg ''x1'') s of
                  (Some e, s) \<Rightarrow> Some (False, s)
                | (None, s) \<Rightarrow> (let (now, s) = nt_now nt s in await_broadcast nt lb wb (now + wait_timeout) msg s))))"

text \<open>The second room of the isolation check: created and started, or \<open>None\<close>.\<close>

definition iso_room :: "('c, 's) net \<Rightarrow> text_lib \<Rightarrow> test_setup \<Rightarrow> 's \<Rightarrow> string option \<times> 's" where
  "iso_room nt lb ts s =
     (case authPost nt ts (instanceA @ ''/api/rooms'') (title_body (tu_room ts @ ''_iso'')) s of
        (Inl e, s) \<Rightarrow> (None, s)
      | (Inr a, s) \<Rightarrow>
          if wa_status a \<noteq> 201 then (None, s)
          else (let other = str_member (tl_object lb (wa_body a)) ''id'' in
                if other = '''' then (None, s)
                else case authPost nt ts (instanceA @ ''/api/rooms/'' @ other @ ''/start'') '''' s of
                  (Inl e, s) \<Rightarrow> (None, s)
                | (Inr a, s) \<Rightarrow> if wa_status a \<noteq> 200 then (None, s) else (Some other, s)))"

definition testRoomIsolation :: "('c, 's) net \<Rightarrow> text_lib \<Rightarrow> test_setup \<Rightarrow> 's \<Rightarrow> (bool \<times> 's) option" where
  "testRoomIsolation nt lb ts s =
     (case iso_room nt lb ts s of
        (None, s) \<Rightarrow> Some (False, s)
      | (Some other, s) \<Rightarrow>
          (case dialWS nt lb ts instanceA (tu_room ts) s of
             (Inl e, s) \<Rightarrow> Some (False, s)
           | (Inr wa, s) \<Rightarrow> close_after nt [wa]
               (case dialWS nt lb ts instanceB other s of
                  (Inl e, s) \<Rightarrow> Some (False, s)
                | (Inr wb, s) \<Rightarrow> close_after nt [wb]
                    (let s = nt_sleep nt (500 * Millisecond) s;
                         (now, s) = nt_now nt s;
                         msg = ''iso_'' @ Sprintf_d now;
                         (e, s) = nt_write nt wa (danmaku_text msg ''iso1'') s;
                         (now, s) = nt_now nt s
                     in map_option (\<lambda>(heard, s). (\<not> heard, s))
                          (await_broadcast nt lb wb (now + 1500 * Millisecond) msg s)))))"

definition testNginxWebSocket :: "('c, 's) net \<Rightarrow> text_lib \<Rightarrow> test_setup \<Rightarrow> 's \<Rightarrow> (bool \<times> 's) option" where
  "testNginxWebSocket nt lb ts s =
     (case dialWS nt lb ts nginxEntry (tu_room ts) s of
        (Inl e, s) \<Rightarrow> Some (False, s)
      | (Inr w, s) \<Rightarrow> close_after nt [w]
          (case nt_write nt w (danmaku_text ''nginx_test'' ''n1'') s of
             (Some e, s) \<Rightarrow> Some (False, s)
           | (None, s) \<Rightarrow> (let (now, s) = nt_now nt s in await_broadcast nt lb w (now + wait_timeout) ''nginx_test'' s)))"

definition reconnect_url :: "text_lib \<Rightarrow> test_setup \<Rightarrow> string \<Rightarrow> string \<Rightarrow> string" where
  "reconnect_url lb ts last_time last_id =
     ws_base instanceA @ ''/ws?room_id='' @ tl_escape lb (tu_room ts) @ ''&token='' @ tl_escape lb (tu_token ts) @
       ''&since_time='' @ tl_escape lb last_time @ ''&last_message_id='' @ tl_escape lb last_id"

text \<open>The two halves of the reconnect check: a message whose cursor is noted, and one that is missed and then asked for.\<close>

definition note_cursor :: "('c, 's) net \<Rightarrow> text_lib \<Rightarrow> 'c \<Rightarrow> 's \<Rightarrow> ((string \<times> string) \<times> 's) option" where
  "note_cursor nt lb w s =
     (let (now, s) = nt_now nt s;
          first = ''cursor_'' @ Sprintf_d now in
      case nt_write nt w (danmaku_text first ''rh1'') s of
        (Some e, s) \<Rightarrow> Some (('''', ''''), s)
      | (None, s) \<Rightarrow> (let (now, s) = nt_now nt s in await_cursor nt lb w (now + wait_timeout) first s))"

definition catch_up :: "('c, 's) net \<Rightarrow> text_lib \<Rightarrow> test_setup \<Rightarrow> string \<Rightarrow> string \<Rightarrow> 's \<Rightarrow> (bool \<times> 's) option" where
  "catch_up nt lb ts last_id last_time s =
     (let (now, s) = nt_now nt s;
          missing = ''missing_'' @ Sprintf_d now in
      case authPost nt ts (instanceB @ ''/api/room/'' @ tu_room ts @ ''/danmaku'') (''{\"content\":\"'' @ missing @ ''\"}'') s of
        (Inl e, s) \<Rightarrow> Some (False, s)
      | (Inr a, s) \<Rightarrow>
          if wa_status a \<noteq> 201 then Some (False, s)
          else (let s = nt_sleep nt Second s in
                case nt_dial nt (reconnect_url lb ts last_time last_id) s of
                  (Inl e, s) \<Rightarrow> Some (False, s)
                | (Inr rw, s) \<Rightarrow> close_after nt [rw]
                    (let (now, s) = nt_now nt s in await_history nt lb rw (now + wait_timeout) missing s)))"

definition testReconnectHistory :: "('c, 's) net \<Rightarrow> text_lib \<Rightarrow> test_setup \<Rightarrow> 's \<Rightarrow> (bool \<times> 's) option" where
  "testReconnectHistory nt lb ts s =
     (case dialWS nt lb ts instanceA (tu_room ts) s of
        (Inl e, s) \<Rightarrow> Some (False, s)
      | (Inr w, s) \<Rightarrow>
          (case close_after nt [w] (note_cursor nt lb w s) of
             None \<Rightarrow> None
           | Some ((last_id, last_time), s) \<Rightarrow>
               if last_id = '''' \<or> last_time = '''' then Some (False, s) else catch_up nt lb ts last_id last_time s))"

section \<open>The program\<close>

text \<open>A list of checks, all of which are run: whether all passed.\<close>

fun run_checks :: "('s \<Rightarrow> (bool \<times> 's) option) list \<Rightarrow> 's \<Rightarrow> (bool \<times> 's) option" where
  "run_checks [] s = Some (True, s)"
| "run_checks (f # fs) s =
     (case f s of
        None \<Rightarrow> None
      | Some (ok, s) \<Rightarrow> map_option (\<lambda>(rest, s). (ok \<and> rest, s)) (run_checks fs s))"

definition http_checks :: "('c, 's) net \<Rightarrow> text_lib \<Rightarrow> ('s \<Rightarrow> bool \<times> 's) list" where
  "http_checks nt lb =
     [checkHealth nt instanceA, checkHealth nt instanceB, checkHealth nt nginxEntry,
      checkReady nt lb instanceA, checkReady nt lb instanceB,
      checkMetrics nt instanceA, checkMetrics nt instanceB,
      checkDifferentInstanceIDs nt lb]"

definition ws_checks_of :: "('c, 's) net \<Rightarrow> text_lib \<Rightarrow> test_setup \<Rightarrow> ('s \<Rightarrow> (bool \<times> 's) option) list" where
  "ws_checks_of nt lb ts =
     [testCrossInstanceDelivery nt lb ts, testRoomIsolation nt lb ts, testNginxWebSocket nt lb ts, testReconnectHistory nt lb ts]"

text \<open>\<open>main\<close>: the exit code.\<close>

definition integration :: "('c, 's) net \<Rightarrow> text_lib \<Rightarrow> 's \<Rightarrow> (nat \<times> 's) option" where
  "integration nt lb s =
     (case run_checks (map (\<lambda>f s. Some (f s)) (http_checks nt lb)) s of
        None \<Rightarrow> None
      | Some (ok, s) \<Rightarrow>
          (case ensureSetup nt lb s of
             (Inl e, s) \<Rightarrow> Some (1, s)
           | (Inr ts, s) \<Rightarrow> map_option (\<lambda>(rest, s). (if ok \<and> rest then 0 else 1, s)) (run_checks (ws_checks_of nt lb ts) s)))"

declare await_broadcast.simps [code] await_cursor.simps [code] await_history.simps [code]

section \<open>The program ends\<close>

text \<open>
  From no state can a connection be read successfully for ever before one deadline: the frames that arrive until a
  deadline are finitely many.
\<close>

definition reads_end :: "('c, 's) net \<Rightarrow> bool" where
  "reads_end nt \<longleftrightarrow> (\<forall>c dl. wf {(s', s). \<exists>data s1. s1 \<in> {s, snd (nt_now nt s)} \<and> nt_read nt c dl s1 = (Inr data, s')})"

lemma reads_end_induct:
  assumes "reads_end nt"
    and "\<And>s. (\<And>data s1 s'. s1 \<in> {s, snd (nt_now nt s)} \<Longrightarrow> nt_read nt c dl s1 = (Inr data, s') \<Longrightarrow> P s') \<Longrightarrow> P s"
  shows "P s"
proof -
  have "wf {(s', s). \<exists>data s1. s1 \<in> {s, snd (nt_now nt s)} \<and> nt_read nt c dl s1 = (Inr data, s')}"
    using assms(1) by (simp only: reads_end_def)
  then show ?thesis
  proof (induction s rule: wf_induct_rule)
    case (less s)
    show ?case by (rule assms(2)) (use less in blast)
  qed
qed

lemma waits_return:
  assumes "reads_end nt"
  shows "await_broadcast nt lb c dl msg s \<noteq> None"
    and "await_cursor nt lb c dl msg s \<noteq> None"
    and "await_history nt lb c dl msg s \<noteq> None"
proof -
  note [simp del] = not_None_eq
  show "await_broadcast nt lb c dl msg s \<noteq> None"
  proof (induction s rule: reads_end_induct [OF assms, where c = c and dl = dl])
    case (1 s)
    show ?case by (subst await_broadcast.simps) (use 1 [OF insertI2, OF singletonI] in \<open>auto split: prod.split sum.split\<close>)
  qed
  show "await_cursor nt lb c dl msg s \<noteq> None"
  proof (induction s rule: reads_end_induct [OF assms, where c = c and dl = dl])
    case (1 s)
    show ?case by (subst await_cursor.simps) (use 1 [OF insertI2, OF singletonI] in \<open>auto split: prod.split sum.split option.split\<close>)
  qed
  show "await_history nt lb c dl msg s \<noteq> None"
  proof (induction s rule: reads_end_induct [OF assms, where c = c and dl = dl])
    case (1 s)
    show ?case by (subst await_history.simps) (use 1 [OF insertI1] in \<open>auto split: prod.split sum.split option.split\<close>)
  qed
qed

lemma close_after_None [simp]: "close_after nt cs x = None \<longleftrightarrow> x = None"
  by (simp add: close_after_def)

lemma run_checks_returns: "(\<And>f s. f \<in> set fs \<Longrightarrow> f s \<noteq> None) \<Longrightarrow> run_checks fs s \<noteq> None"
  by (induction fs arbitrary: s) (auto simp del: not_None_eq split: prod.split option.split)

lemma ws_checks_return:
  assumes "reads_end nt" and "f \<in> set (ws_checks_of nt lb ts)"
  shows "f s \<noteq> None"
proof -
  note w = waits_return [OF assms(1)] and [simp del] = not_None_eq
  have "testCrossInstanceDelivery nt lb ts s \<noteq> None"
    using w(1) by (auto simp: testCrossInstanceDelivery_def Let_def split: prod.split sum.split option.split)
  moreover have "testRoomIsolation nt lb ts s \<noteq> None"
    using w(1) by (auto simp: testRoomIsolation_def Let_def split: prod.split sum.split option.split)
  moreover have "testNginxWebSocket nt lb ts s \<noteq> None"
    using w(1) by (auto simp: testNginxWebSocket_def Let_def split: prod.split sum.split option.split)
  moreover have "testReconnectHistory nt lb ts s \<noteq> None"
  proof -
    have n: "note_cursor nt lb c s \<noteq> None" for c s
      using w(2) by (auto simp: note_cursor_def Let_def split: prod.split option.split)
    have k: "catch_up nt lb ts i t s \<noteq> None" for i t s
      using w(3) by (auto simp: catch_up_def Let_def split: prod.split sum.split)
    have "close_after nt [c] (note_cursor nt lb c s) \<noteq> None" for c s using n by simp
    then show ?thesis
      using k by (auto simp del: close_after_None simp: testReconnectHistory_def split: prod.split sum.split option.split)
  qed
  ultimately show ?thesis using assms(2) by (auto simp: ws_checks_of_def)
qed

section \<open>What a run has seen\<close>

text \<open>The network with a journal of the calls and their answers.\<close>

datatype 'c net_event =
    Got string "go_error + web_answer"
  | Posted web_post "go_error + web_answer"
  | Dialled string "go_error + 'c"
  | Wrote 'c string "go_error option"
  | Read 'c time "go_error + string"

definition noting :: "('r \<Rightarrow> 'c net_event) \<Rightarrow> ('s \<Rightarrow> 'r \<times> 's) \<Rightarrow> 's \<times> 'c net_event list \<Rightarrow> 'r \<times> 's \<times> 'c net_event list" where
  "noting ev f st = (case f (fst st) of (r, s) \<Rightarrow> (r, s, snd st @ [ev r]))"

definition journal :: "('c, 's) net \<Rightarrow> ('c, 's \<times> 'c net_event list) net" where
  "journal nt = \<lparr>nt_get = (\<lambda>u. noting (Got u) (nt_get nt u)), nt_post = (\<lambda>p. noting (Posted p) (nt_post nt p)),
     nt_dial = (\<lambda>u. noting (Dialled u) (nt_dial nt u)), nt_write = (\<lambda>c t. noting (Wrote c t) (nt_write nt c t)),
     nt_read = (\<lambda>c dl. noting (Read c dl) (nt_read nt c dl)), nt_close = (\<lambda>c. apfst (nt_close nt c)),
     nt_now = (\<lambda>st. case nt_now nt (fst st) of (now, s) \<Rightarrow> (now, s, snd st)), nt_sleep = (\<lambda>d. apfst (nt_sleep nt d))\<rparr>"

lemma journal_calls:
  "nt_get (journal nt) u st = (r, st') \<longleftrightarrow> (\<exists>s. nt_get nt u (fst st) = (r, s) \<and> st' = (s, snd st @ [Got u r]))"
  "nt_post (journal nt) p st = (r, st') \<longleftrightarrow> (\<exists>s. nt_post nt p (fst st) = (r, s) \<and> st' = (s, snd st @ [Posted p r]))"
  "nt_dial (journal nt) u st = (d, st') \<longleftrightarrow> (\<exists>s. nt_dial nt u (fst st) = (d, s) \<and> st' = (s, snd st @ [Dialled u d]))"
  "nt_write (journal nt) c text st = (w, st') \<longleftrightarrow> (\<exists>s. nt_write nt c text (fst st) = (w, s) \<and> st' = (s, snd st @ [Wrote c text w]))"
  "nt_read (journal nt) c dl st = (x, st') \<longleftrightarrow> (\<exists>s. nt_read nt c dl (fst st) = (x, s) \<and> st' = (s, snd st @ [Read c dl x]))"
  "nt_now (journal nt) st = (now, st') \<longleftrightarrow> (\<exists>s. nt_now nt (fst st) = (now, s) \<and> st' = (s, snd st))"
  "nt_sleep (journal nt) t st = (nt_sleep nt t (fst st), snd st)"
  by (cases st; auto simp: journal_def noting_def split: prod.splits)+

lemma journal_close: "close_after (journal nt) cs x = Some (r, st') \<longleftrightarrow>
    (\<exists>st. x = Some (r, st) \<and> st' = (fold (nt_close nt) cs (fst st), snd st))"
proof -
  have "fold (nt_close (journal nt)) cs st = (fold (nt_close nt) cs (fst st), snd st)" for st
    by (induction cs arbitrary: st) (simp_all add: journal_def)
  then show ?thesis by (auto simp: close_after_def)
qed

lemma reads_end_journal:
  assumes "reads_end nt"
  shows "reads_end (journal nt)"
proof -
  have "{(s', s). \<exists>data s1. s1 \<in> {s, snd (nt_now (journal nt) s)} \<and> nt_read (journal nt) c dl s1 = (Inr data, s')}
    \<subseteq> inv_image {(s', s). \<exists>data s1. s1 \<in> {s, snd (nt_now nt s)} \<and> nt_read nt c dl s1 = (Inr data, s')} fst" for c dl
    by (auto simp: journal_calls inv_image_def) (auto simp: journal_def split: prod.splits)
  then show ?thesis using assms unfolding reads_end_def by (meson wf_inv_image wf_subset)
qed

text \<open>What each wait has read, told from the part of the journal it adds.\<close>

definition heard :: "text_lib \<Rightarrow> 'c \<Rightarrow> string \<Rightarrow> 'c net_event list \<Rightarrow> bool" where
  "heard lb c msg j \<longleftrightarrow> (\<exists>dl data. Read c dl (Inr data) \<in> set j \<and> broadcast_content (tl_object lb data) = Some msg)"

definition cursor_read :: "text_lib \<Rightarrow> 'c \<Rightarrow> string \<Rightarrow> string \<Rightarrow> string \<Rightarrow> 'c net_event list \<Rightarrow> bool" where
  "cursor_read lb c msg i t j \<longleftrightarrow> (\<exists>dl data. Read c dl (Inr data) \<in> set j \<and> tl_cursor lb data = Some (''broadcast'', i, msg, t))"

definition history_read :: "text_lib \<Rightarrow> 'c \<Rightarrow> string \<Rightarrow> 'c net_event list \<Rightarrow> bool" where
  "history_read lb c msg j \<longleftrightarrow> (\<exists>dl data contents. Read c dl (Inr data) \<in> set j \<and>
     tl_history lb data = Some (''history'', contents) \<and> msg \<in> set contents)"

lemma read_Cons [simp]:
  "heard lb c msg (Read c dl (Inr data) # j) \<longleftrightarrow> broadcast_content (tl_object lb data) = Some msg \<or> heard lb c msg j"
  "heard lb c msg (Read c dl (Inl e) # j) \<longleftrightarrow> heard lb c msg j"
  "cursor_read lb c msg i t (Read c dl (Inr data) # j) \<longleftrightarrow>
     tl_cursor lb data = Some (''broadcast'', i, msg, t) \<or> cursor_read lb c msg i t j"
  "history_read lb c msg (Read c dl (Inr data) # j) \<longleftrightarrow>
     (\<exists>contents. tl_history lb data = Some (''history'', contents) \<and> msg \<in> set contents) \<or> history_read lb c msg j"
  "\<not> heard lb c msg []"
  by (auto simp: heard_def cursor_read_def history_read_def)

lemma await_broadcast_journal:
  assumes "await_broadcast nt' lb c dl msg st = Some (ok, st')" and "nt' = journal nt"
  shows "\<exists>k. snd st' = snd st @ k \<and> ok = heard lb c msg k"
  using assms
proof (induction nt' lb c dl msg st x\<equiv>"(ok, st')" rule: await_broadcast.raw_induct [rotated, consumes 1, case_names step])
  case (step rec nt' lb c dl msg st)
  from step(2) show ?case
    by (auto simp: step(3) journal_calls split: prod.splits if_splits sum.splits)
      (auto dest!: step(1) [OF _ refl])
qed

lemma await_cursor_journal:
  assumes "await_cursor nt' lb c dl msg st = Some ((i, t), st')" and "nt' = journal nt"
  shows "\<exists>k. snd st' = snd st @ k \<and> (i \<noteq> '''' \<longrightarrow> cursor_read lb c msg i t k)"
  using assms
proof (induction nt' lb c dl msg st x\<equiv>"((i, t), st')" rule: await_cursor.raw_induct [rotated, consumes 1, case_names step])
  case (step rec nt' lb c dl msg st)
  from step(2) show ?case
    by (auto simp: step(3) journal_calls split: prod.splits if_splits sum.splits option.splits)
      (auto dest!: step(1) [OF _ refl])
qed

lemma await_history_journal:
  assumes "await_history nt' lb c dl msg st = Some (ok, st')" and "nt' = journal nt"
  shows "\<exists>k. snd st' = snd st @ k \<and> (ok \<longrightarrow> history_read lb c msg k)"
  using assms
proof (induction nt' lb c dl msg st x\<equiv>"(ok, st')" rule: await_history.raw_induct [rotated, consumes 1, case_names step])
  case (step rec nt' lb c dl msg st)
  from step(2) show ?case
    by (auto simp: step(3) journal_calls split: prod.splits if_splits sum.splits option.splits)
      (auto dest!: step(1) [OF _ refl])
qed

text \<open>What the part of the journal of each check shows when the check has passed.\<close>

definition crossed :: "text_lib \<Rightarrow> test_setup \<Rightarrow> 'c net_event list \<Rightarrow> bool" where
  "crossed lb ts j \<longleftrightarrow> (\<exists>a b msg k.
     j = [Dialled (ws_url lb (Some ts) instanceA (tu_room ts)) (Inr a), Dialled (ws_url lb (Some ts) instanceB (tu_room ts)) (Inr b),
          Wrote a (danmaku_text msg ''x1'') None] @ k \<and> heard lb b msg k)"

definition isolated :: "text_lib \<Rightarrow> test_setup \<Rightarrow> 'c net_event list \<Rightarrow> bool" where
  "isolated lb ts j \<longleftrightarrow> (\<exists>p r p' r' other a b msg e k.
     j = [Posted p (Inr r), Posted p' (Inr r'), Dialled (ws_url lb (Some ts) instanceA (tu_room ts)) (Inr a),
          Dialled (ws_url lb (Some ts) instanceB other) (Inr b), Wrote a (danmaku_text msg ''iso1'') e] @ k \<and>
     wa_status r = 201 \<and> other = str_member (tl_object lb (wa_body r)) ''id'' \<and> other \<noteq> '''' \<and> wa_status r' = 200 \<and>
     \<not> heard lb b msg k)"

definition proxied :: "text_lib \<Rightarrow> test_setup \<Rightarrow> 'c net_event list \<Rightarrow> bool" where
  "proxied lb ts j \<longleftrightarrow> (\<exists>c k.
     j = [Dialled (ws_url lb (Some ts) nginxEntry (tu_room ts)) (Inr c), Wrote c (danmaku_text ''nginx_test'' ''n1'') None] @ k \<and>
     heard lb c ''nginx_test'' k)"

definition caught_up :: "text_lib \<Rightarrow> test_setup \<Rightarrow> 'c net_event list \<Rightarrow> bool" where
  "caught_up lb ts j \<longleftrightarrow> (\<exists>c first i t k p r c' missing k'.
     j = [Dialled (ws_url lb (Some ts) instanceA (tu_room ts)) (Inr c), Wrote c (danmaku_text first ''rh1'') None] @ k @
         [Posted p (Inr r), Dialled (reconnect_url lb ts t i) (Inr c')] @ k' \<and>
     i \<noteq> '''' \<and> t \<noteq> '''' \<and> cursor_read lb c first i t k \<and>
     wp_url p = instanceB @ ''/api/room/'' @ tu_room ts @ ''/danmaku'' \<and> wp_body p = ''{\"content\":\"'' @ missing @ ''\"}'' \<and>
     wa_status r = 201 \<and> history_read lb c' missing k')"

definition healthy :: "text_lib \<Rightarrow> 'c net_event list \<Rightarrow> bool" where
  "healthy lb j \<longleftrightarrow> (\<exists>ha hb hn ra rb ma mb ia ib.
     j = [Got (instanceA @ ''/healthz'') (Inr ha), Got (instanceB @ ''/healthz'') (Inr hb), Got (nginxEntry @ ''/healthz'') (Inr hn),
          Got (instanceA @ ''/readyz'') (Inr ra), Got (instanceB @ ''/readyz'') (Inr rb),
          Got (instanceA @ ''/metrics'') (Inr ma), Got (instanceB @ ''/metrics'') (Inr mb),
          Got (instanceA @ ''/healthz'') (Inr ia), Got (instanceB @ ''/healthz'') (Inr ib)] \<and>
     (\<forall>r \<in> {ha, hb, hn}. wa_status r = 200) \<and>
     (\<forall>r \<in> {ra, rb}. str_member (tl_object lb (wa_body r)) ''status'' \<in> {''ok'', ''degraded''}) \<and>
     (\<forall>r \<in> {ma, mb}. Contains (wa_body r) ''danmakuflow_'') \<and>
     (let name = (\<lambda>r. str_member (tl_object lb (wa_body r)) ''instance_id'') in
      name ia \<noteq> '''' \<and> name ib \<noteq> '''' \<and> name ia \<noteq> name ib))"

lemma cross_journal:
  "testCrossInstanceDelivery (journal nt) lb ts st = Some (ok, st') \<Longrightarrow>
     \<exists>k. snd st' = snd st @ k \<and> (ok \<longrightarrow> crossed lb ts k)"
  by (auto simp: testCrossInstanceDelivery_def journal_close dialWS_def journal_calls crossed_def Let_def
      split: prod.splits sum.splits option.splits dest!: await_broadcast_journal [OF _ refl])

lemma iso_room_journal:
  "iso_room (journal nt) lb ts st = (r, st') \<Longrightarrow>
     \<exists>k. snd st' = snd st @ k \<and> (\<forall>other. r = Some other \<longrightarrow> (\<exists>p a p' a'. k = [Posted p (Inr a), Posted p' (Inr a')] \<and>
       wa_status a = 201 \<and> other = str_member (tl_object lb (wa_body a)) ''id'' \<and> other \<noteq> '''' \<and> wa_status a' = 200))"
  by (auto simp: iso_room_def authPost_def journal_calls Let_def split: prod.splits sum.splits if_splits)

lemma isolation_journal:
  "testRoomIsolation (journal nt) lb ts st = Some (ok, st') \<Longrightarrow> \<exists>k. snd st' = snd st @ k \<and> (ok \<longrightarrow> isolated lb ts k)"
  by (auto simp: testRoomIsolation_def journal_close dialWS_def journal_calls isolated_def Let_def
      split: prod.splits sum.splits option.splits dest!: iso_room_journal await_broadcast_journal [OF _ refl]) blast

lemma nginx_journal:
  "testNginxWebSocket (journal nt) lb ts st = Some (ok, st') \<Longrightarrow> \<exists>k. snd st' = snd st @ k \<and> (ok \<longrightarrow> proxied lb ts k)"
  by (auto simp: testNginxWebSocket_def journal_close dialWS_def journal_calls proxied_def Let_def
      split: prod.splits sum.splits option.splits dest!: await_broadcast_journal [OF _ refl])

lemma note_cursor_journal:
  "note_cursor (journal nt) lb c st = Some ((i, t), st') \<Longrightarrow>
     \<exists>k. snd st' = snd st @ k \<and> (i \<noteq> '''' \<longrightarrow> (\<exists>first k'. k = Wrote c (danmaku_text first ''rh1'') None # k' \<and> cursor_read lb c first i t k'))"
  by (auto simp: note_cursor_def journal_calls Let_def split: prod.splits option.splits dest!: await_cursor_journal [OF _ refl])

lemma catch_up_journal:
  "catch_up (journal nt) lb ts i t st = Some (ok, st') \<Longrightarrow>
     \<exists>k. snd st' = snd st @ k \<and> (ok \<longrightarrow> (\<exists>p r c missing k'. k = Posted p (Inr r) # Dialled (reconnect_url lb ts t i) (Inr c) # k' \<and>
       wp_url p = instanceB @ ''/api/room/'' @ tu_room ts @ ''/danmaku'' \<and> wp_body p = ''{\"content\":\"'' @ missing @ ''\"}'' \<and>
       wa_status r = 201 \<and> history_read lb c missing k'))"
  by (auto simp: catch_up_def authPost_def journal_close journal_calls Let_def
      split: prod.splits sum.splits if_splits dest!: await_history_journal [OF _ refl])

lemma reconnect_journal:
  assumes "testReconnectHistory (journal nt) lb ts st = Some (ok, st')"
  shows "\<exists>k. snd st' = snd st @ k \<and> (ok \<longrightarrow> caught_up lb ts k)"
  using assms
  by (auto simp: testReconnectHistory_def journal_close dialWS_def journal_calls
      split: prod.splits sum.splits option.splits if_splits
      dest!: note_cursor_journal catch_up_journal) (fastforce simp: caught_up_def)+

lemma setup_token_journal:
  "setup_token (journal nt) lb st = (r, st') \<Longrightarrow> \<exists>k. snd st' = snd st @ k \<and> (\<forall>t. r = Inr t \<longrightarrow> t \<noteq> '''')"
  by (auto simp: setup_token_def journal_calls Let_def split: prod.splits sum.splits if_splits)

lemma setup_room_journal:
  "setup_room (journal nt) lb token st = (r, st') \<Longrightarrow> \<exists>k. snd st' = snd st @ k \<and> (\<forall>t. r = Inr t \<longrightarrow> t \<noteq> '''')"
  by (auto simp: setup_room_def journal_calls Let_def split: prod.splits sum.splits if_splits)

lemma setup_journal:
  "ensureSetup (journal nt) lb st = (r, st') \<Longrightarrow>
     \<exists>k. snd st' = snd st @ k \<and> (\<forall>ts. r = Inr ts \<longrightarrow> tu_token ts \<noteq> '''' \<and> tu_room ts \<noteq> '''')"
  by (auto simp: ensureSetup_def split: prod.splits sum.splits dest!: setup_token_journal setup_room_journal)

text \<open>A check that adds to the journal what satisfies \<open>P\<close> if it passes.\<close>

definition leaves :: "('s \<times> 'c net_event list \<Rightarrow> (bool \<times> 's \<times> 'c net_event list) option) \<Rightarrow> ('c net_event list \<Rightarrow> bool) \<Rightarrow> bool" where
  "leaves f P \<longleftrightarrow> (\<forall>st ok st'. f st = Some (ok, st') \<longrightarrow> (\<exists>k. snd st' = snd st @ k \<and> (ok \<longrightarrow> P k)))"

lemma run_checks_journal:
  assumes "list_all2 leaves fs Ps" and "run_checks fs st = Some (ok, st')"
  shows "\<exists>ks. snd st' = snd st @ concat ks \<and> (ok \<longrightarrow> list_all2 (\<lambda>P k. P k) Ps ks)"
  using assms
proof (induction arbitrary: st ok st')
  case Nil
  then show ?case by (auto intro: exI [of _ "[]"])
next
  case (Cons f fs P Ps)
  then obtain a st1 b where f: "f st = Some (a, st1)" and r: "run_checks fs st1 = Some (b, st')" and ok: "ok = (a \<and> b)"
    by (auto split: option.splits prod.splits)
  obtain k where "snd st1 = snd st @ k" "a \<longrightarrow> P k" using Cons.hyps(1) f unfolding leaves_def by blast
  moreover obtain ks where "snd st' = snd st1 @ concat ks" "b \<longrightarrow> list_all2 (\<lambda>P k. P k) Ps ks" using Cons.IH [OF r] by blast
  ultimately show ?case using ok by (intro exI [of _ "k # ks"]) simp
qed

lemma http_journal:
  assumes "run_checks (map (\<lambda>f s. Some (f s)) (http_checks (journal nt) lb)) st = Some (ok, st')"
  shows "\<exists>k. snd st' = snd st @ k \<and> (ok \<longrightarrow> healthy lb k)"
proof -
  let ?name = "\<lambda>r. str_member (tl_object lb (wa_body r)) ''instance_id''"
  have health: "leaves (\<lambda>s. Some (checkHealth (journal nt) b s)) (\<lambda>k. \<exists>r. k = [Got (b @ ''/healthz'') (Inr r)] \<and> wa_status r = 200)" for b
    by (auto simp: leaves_def checkHealth_def journal_calls split: prod.splits sum.splits)
  have ready: "leaves (\<lambda>s. Some (checkReady (journal nt) lb b s))
      (\<lambda>k. \<exists>r. k = [Got (b @ ''/readyz'') (Inr r)] \<and> str_member (tl_object lb (wa_body r)) ''status'' \<in> {''ok'', ''degraded''})" for b
    by (auto simp: leaves_def checkReady_def journal_calls Let_def split: prod.splits sum.splits)
  have metrics: "leaves (\<lambda>s. Some (checkMetrics (journal nt) b s))
      (\<lambda>k. \<exists>r. k = [Got (b @ ''/metrics'') (Inr r)] \<and> Contains (wa_body r) ''danmakuflow_'')" for b
    by (auto simp: leaves_def checkMetrics_def journal_calls split: prod.splits sum.splits)
  have differ: "leaves (\<lambda>s. Some (checkDifferentInstanceIDs (journal nt) lb s))
      (\<lambda>k. \<exists>r r'. k = [Got (instanceA @ ''/healthz'') (Inr r), Got (instanceB @ ''/healthz'') (Inr r')] \<and>
         ?name r \<noteq> '''' \<and> ?name r' \<noteq> '''' \<and> ?name r \<noteq> ?name r')"
    by (auto simp: leaves_def checkDifferentInstanceIDs_def instance_id_of_def journal_calls Let_def split: prod.splits sum.splits)
  let ?Ps = "(map (\<lambda>b k. \<exists>r. k = [Got (b @ ''/healthz'') (Inr r)] \<and> wa_status r = 200) [instanceA, instanceB, nginxEntry] @
     map (\<lambda>b k. \<exists>r. k = [Got (b @ ''/readyz'') (Inr r)] \<and> str_member (tl_object lb (wa_body r)) ''status'' \<in> {''ok'', ''degraded''})
       [instanceA, instanceB] @
     map (\<lambda>b k. \<exists>r. k = [Got (b @ ''/metrics'') (Inr r)] \<and> Contains (wa_body r) ''danmakuflow_'') [instanceA, instanceB] @
     [\<lambda>k. \<exists>r r'. k = [Got (instanceA @ ''/healthz'') (Inr r), Got (instanceB @ ''/healthz'') (Inr r')] \<and>
         ?name r \<noteq> '''' \<and> ?name r' \<noteq> '''' \<and> ?name r \<noteq> ?name r'])"
  from health [of instanceA] health [of instanceB] health [of nginxEntry] ready [of instanceA] ready [of instanceB]
    metrics [of instanceA] metrics [of instanceB] differ
  have "list_all2 leaves (map (\<lambda>f s. Some (f s)) (http_checks (journal nt) lb))
    ?Ps"
    unfolding http_checks_def by (simp only: list.map append.simps list_all2_Cons list_all2_Nil simp_thms)
  from run_checks_journal [OF this assms] obtain ks where j: "snd st' = snd st @ concat ks"
    and p: "ok \<longrightarrow> list_all2 (\<lambda>P k. P k) ?Ps ks" by blast
  show ?thesis
  proof (cases ok)
    case True
    with p j show ?thesis
      unfolding healthy_def list.map append.simps list_all2_Cons1 list_all2_Nil Let_def by (elim impE exE conjE) simp_all
  qed (use j in blast)
qed

lemma ws_journal:
  assumes "run_checks (ws_checks_of (journal nt) lb ts) st = Some (ok, st')"
  shows "\<exists>k1 k2 k3 k4. snd st' = snd st @ k1 @ k2 @ k3 @ k4 \<and>
    (ok \<longrightarrow> crossed lb ts k1 \<and> isolated lb ts k2 \<and> proxied lb ts k3 \<and> caught_up lb ts k4)"
proof -
  have "list_all2 leaves (ws_checks_of (journal nt) lb ts) [crossed lb ts, isolated lb ts, proxied lb ts, caught_up lb ts]"
    unfolding ws_checks_of_def leaves_def list_all2_Cons list_all2_Nil
    by (blast intro: cross_journal isolation_journal nginx_journal reconnect_journal)
  from run_checks_journal [OF this assms] obtain ks where j: "snd st' = snd st @ concat ks"
    and p: "ok \<longrightarrow> list_all2 (\<lambda>P k. P k) [crossed lb ts, isolated lb ts, proxied lb ts, caught_up lb ts] ks" by blast
  show ?thesis
  proof (cases ok)
    case True
    with p j show ?thesis by (auto simp: list_all2_Cons1) blast
  next
    case False
    with j show ?thesis by (intro exI [of _ "concat ks"] exI [of _ "[]"]) simp
  qed
qed

text \<open>
  Corollary (what the integration test shows). Over any network on which no connection delivers frames for ever, the
  program ends with exit code 0 or 1; it ends with 0 only when it saw both instances healthy, ready and with different
  names, a danmaku written to one read by a client of the other and one read through the proxy, no message of
  one room read in the other, and the danmaku missed by a client in the history it got after the cursor it had read.
\<close>

theorem integration_shows:
  assumes "reads_end nt"
  shows "\<exists>code s j. integration (journal nt) lb (s0, []) = Some (code, s, j) \<and> (code = 0 \<or> code = 1) \<and>
    (code = 0 \<longrightarrow> (\<exists>ts k k' k1 k2 k3 k4. j = k @ k' @ k1 @ k2 @ k3 @ k4 \<and> tu_token ts \<noteq> '''' \<and> tu_room ts \<noteq> '''' \<and>
       healthy lb k \<and> crossed lb ts k1 \<and> isolated lb ts k2 \<and> proxied lb ts k3 \<and> caught_up lb ts k4))"
proof -
  let ?nt = "journal nt"
  have "run_checks (map (\<lambda>f s. Some (f s)) (http_checks ?nt lb)) (s0, []) \<noteq> None"
    by (rule run_checks_returns) (auto simp del: not_None_eq)
  then obtain ok st where h: "run_checks (map (\<lambda>f s. Some (f s)) (http_checks ?nt lb)) (s0, []) = Some (ok, st)" by auto
  obtain r st2 where e: "ensureSetup ?nt lb st = (r, st2)" by (cases "ensureSetup ?nt lb st")
  obtain k k' where j: "snd st2 = k @ k'" and k: "ok \<longrightarrow> healthy lb k"
    and r: "\<forall>ts. r = Inr ts \<longrightarrow> tu_token ts \<noteq> '''' \<and> tu_room ts \<noteq> ''''"
    using http_journal [OF h] setup_journal [OF e] by auto
  show ?thesis
  proof (cases r)
    case (Inl err)
    then show ?thesis using h e by (cases st2) (simp add: integration_def)
  next
    case (Inr ts)
    have "run_checks (ws_checks_of ?nt lb ts) st2 \<noteq> None"
      by (rule run_checks_returns) (rule ws_checks_return [OF reads_end_journal [OF assms]])
    then obtain rest st3 where w: "run_checks (ws_checks_of ?nt lb ts) st2 = Some (rest, st3)" by auto
    from ws_journal [OF w] obtain k1 k2 k3 k4 where j3: "snd st3 = k @ k' @ k1 @ k2 @ k3 @ k4"
      and "rest \<longrightarrow> crossed lb ts k1 \<and> isolated lb ts k2 \<and> proxied lb ts k3 \<and> caught_up lb ts k4" using j by auto
    moreover have "integration ?nt lb (s0, []) = Some (if ok \<and> rest then 0 else 1, fst st3, snd st3)"
      using h e w Inr by (simp add: integration_def)
    ultimately show ?thesis using k r Inr by (cases "ok \<and> rest") (simp, blast, simp)
  qed
qed

text \<open>
  Corollary (isolation of nothing). The check of the isolation passes also when the message was not written and the client
  of the other room is cut off before it reads a frame.
\<close>

theorem isolation_of_nothing:
  assumes "iso_room nt lb ts s = (Some other, s1)" and "dialWS nt lb ts instanceA (tu_room ts) s1 = (Inr a, s2)"
    and "dialWS nt lb ts instanceB other s2 = (Inr b, s3)" and "\<And>text s. fst (nt_write nt a text s) = Some e"
    and "\<And>dl s. \<exists>e' s'. nt_read nt b dl s = (Inl e', s')"
  shows "\<exists>s'. testRoomIsolation nt lb ts s = Some (True, s')"
proof -
  have "\<exists>s'. await_broadcast nt lb b dl msg s = Some (False, s')" for dl msg s
  proof (cases "nt_now nt s")
    case (Pair now s1)
    moreover obtain e' s' where "nt_read nt b dl s1 = (Inl e', s')" using assms(5) by blast
    ultimately show ?thesis by (subst await_broadcast.simps) simp
  qed
  then show ?thesis using assms(1-3)
    by (auto simp: testRoomIsolation_def close_after_def Let_def split: prod.split) (metis fst_conv)
qed

text \<open>Against the modelled server the ready check passes exactly when a configured database answers in time.\<close>

lemma ready_check_of_server:
  assumes "nt_get nt (base @ ''/readyz'') s = (Inr a, s')"
    and "str_member (tl_object lb (wa_body a)) ''status'' = fst (snd (ready dp mysql redis kafka))"
  shows "fst (checkReady nt lb base s) \<longleftrightarrow> (dp_mysql dp \<longrightarrow> mysql = Up)"
  using assms
  by (cases mysql) (auto simp: checkReady_def ready_def Readyz_def degrade_def Let_def)

text \<open>A network that answers as a working pair of servers would, its frames prepared, at the instant 0.\<close>

definition good_net :: "(string, (go_error + string) list) net" where
  "good_net = \<lparr>nt_get = (\<lambda>u s. (Inr \<lparr>wa_status = 200, wa_body = u @ ''danmakuflow_''\<rparr>, s)),
     nt_post = (\<lambda>p s. (Inr \<lparr>wa_status = (if wp_body p = '''' then 200 else 201), wa_body = ''r1''\<rparr>, s)),
     nt_dial = (\<lambda>u s. (Inr u, s)), nt_write = (\<lambda>c t s. (None, s)),
     nt_read = (\<lambda>c dl s. case s of [] \<Rightarrow> (Inl (ErrNew ''timeout''), []) | x # xs \<Rightarrow> (x, xs)),
     nt_close = (\<lambda>c s. s), nt_now = (\<lambda>s. (0, s)), nt_sleep = (\<lambda>d s. s)\<rparr>"

definition good_texts :: text_lib where
  "good_texts = \<lparr>tl_object = (\<lambda>t k. Some (if k = ''payload'' then Js_object (\<lambda>k. Some (Js_string t))
       else Js_string (if k = ''type'' then ''broadcast'' else if k = ''status'' then ''ok'' else t))),
     tl_cursor = (\<lambda>t. Some (''broadcast'', ''i'', t, ''t'')), tl_history = (\<lambda>t. Some (''history'', [t])), tl_escape = (\<lambda>t. t)\<rparr>"

definition good_frames :: "(go_error + string) list" where
  "good_frames = [Inr ''cross_0'', Inl (ErrNew ''timeout''), Inr ''nginx_test'', Inr ''cursor_0'', Inr ''missing_0'']"

lemma good_net_reads_end: "reads_end good_net"
proof -
  have "{(s', s). \<exists>data s1. s1 \<in> {s, snd (nt_now good_net s)} \<and> nt_read good_net c dl s1 = (Inr data, s')} \<subseteq> measure length" for c dl
    by (auto simp: good_net_def split: list.split_asm)
  then show ?thesis unfolding reads_end_def by (meson wf_measure wf_subset)
qed

theorem integration_shows_witness:
  "\<exists>s j ts k k' k1 k2 k3 k4. integration (journal good_net) good_texts (good_frames, []) = Some (0, s, j) \<and>
    j = k @ k' @ k1 @ k2 @ k3 @ k4 \<and> crossed good_texts ts k1 \<and> caught_up good_texts ts k4"
proof -
  have "map_option fst (integration (journal good_net) good_texts (good_frames, [])) = Some 0"
    by code_simp
  with integration_shows [OF good_net_reads_end, of good_texts good_frames] show ?thesis by auto blast
qed

end
