(* ===== verification/Spec2Isabelle.thy ===== *)
theory Spec2Isabelle
  imports Prelude GoText Entities Interfaces DanmakuStore UserStore RoomStore GovernanceStores
    RoomService AdminService AuthService AhoCorasick ContentFilter Moderation RateLimiter
    DanmakuService Sending ShutdownProtocol Hub WsHandler Kafka GoNumbers Handlers Routes Pubsub
    Config Startup MySQLStores MySQLLaws Columns Metrics Tracker Benchmark Pumps EndToEnd Subscription
    KafkaClient Opening Health RouteTable BenchRun DemoSetup Integration
begin

text \<open>
  DanmakuFlow: a server for live comments (danmaku) on streaming rooms, in Go.

  Parts and their interaction. A danmaku arrives over HTTP (\<open>handler\<close>) or over a room's WebSocket
  (\<open>websocket\<close>) at the danmaku service (\<open>service/danmaku.go\<close>). The service checks the room's status,
  the request, the rate of the user and the verdict of the moderation service
  (\<open>service/moderation.go\<close>: bans, mutes, the blocklist), writes the danmaku to the store, a buffer
  that a consumer drains into the store, or Kafka, and hands it to the hub, which sends it to the
  room's clients and over Redis to the other instances. Moderators review flagged danmaku,
  resolve reports, mute and ban (\<open>service/moderation.go\<close>, \<open>service/admin.go\<close>); owners open and close
  rooms (\<open>service/room.go\<close>); users register and log in (\<open>service/auth.go\<close>). The stores
  (\<open>store/*.go\<close>) have a memory and a MySQL implementation behind the same interfaces.

  Theories.
  \<^item> \<open>Prelude\<close>: time and 64 bit arithmetic, sorting, iteration over maps, the collections of facts.
  \<^item> \<open>GoText\<close>: Go strings as bytes, UTF-8 decoding and encoding, \<open>TrimSpace\<close>, \<open>Cut\<close> and the like.
  \<^item> \<open>Entities\<close>: package \<open>model\<close>, the errors of all packages with \<open>errors.Is\<close>, the messages.
  \<^item> \<open>Interfaces\<close>: the store interfaces as records of functions, one locale of laws for each.
  \<^item> \<open>DanmakuStore\<close>, \<open>UserStore\<close>, \<open>RoomStore\<close>, \<open>GovernanceStores\<close>: the memory stores, method by
    method, and the interpretations of the locales of \<open>Interfaces\<close> on them.
  \<^item> \<open>RoomService\<close>: \<open>service/room.go\<close>, and its calls interleaved at their check and their update.
  \<^item> \<open>AdminService\<close>, \<open>AuthService\<close>: \<open>service/admin.go\<close>, \<open>service/auth.go\<close>.
  \<^item> \<open>AhoCorasick\<close>, \<open>ContentFilter\<close>, \<open>Moderation\<close>: \<open>service/moderation.go\<close>: the automaton against the
    naive scan, the blocklist and the content check, then reviews, reports, mutes and bans.
  \<^item> \<open>RateLimiter\<close>, \<open>DanmakuService\<close>, \<open>Sending\<close>: \<open>service/danmaku.go\<close>, lines 22 to 383 and 443 to
    593, sequentially: one call at a time over a world that contains the stores.
  \<^item> \<open>ShutdownProtocol\<close>: the same file as concurrent goroutines, for the order in which requests
    and \<open>Shutdown\<close> use the counter, the flag, the channel and the producer; every write may fail.
  \<^item> \<open>Hub\<close>: \<open>websocket/hub.go\<close>, \<open>client.go\<close> and the connection's setup in \<open>handler.go\<close>: quotas, rooms,
    clients and broadcasts as events (\<open>hub_exec\<close>) in any order. \<open>WsHandler\<close>: the handshake's guards, the
    answer to a sent danmaku and the replay of the history after a reconnect.
  \<^item> \<open>Kafka\<close>: \<open>service/kafka.go\<close> from the event of a danmaku to the row the consumer writes, with the
    table as a partial map keyed by what the collation makes of the identifier. \<open>KafkaClient\<close>: the settings of its clients, the loop \<open>Start\<close>, and consumers
    that are stopped and started again.
  \<^item> \<open>Pubsub\<close>: \<open>redisclient/pubsub.go\<close> and the hub's two Redis loops: several hubs and the channels of Redis between them as the
    step relation \<open>cluster_step\<close>, and the delays between two subscriptions. \<open>Subscription\<close>: the loop that keeps one
    instance subscribed, as \<open>sub_step\<close>.
  \<^item> \<open>Handlers\<close>, \<open>Routes\<close>: \<open>handler/*.go\<close>: the middleware, one function from request to reply for each
    endpoint, the routes with the middleware each passes. \<open>RouteTable\<close>: the table that \<open>main.go\<close> registers, and Gin's check for
    conflicts. \<open>Health\<close>: \<open>Healthz\<close>, the pings behind \<open>Readyz\<close>, the gauges. \<open>GoNumbers\<close>: \<open>strconv\<close> and \<open>%d\<close>.
  \<^item> \<open>Pumps\<close>: the two goroutines of a connection (\<open>websocket/client.go\<close>) as the step relation \<open>pump_step\<close>.
  \<^item> \<open>MySQLStores\<close>: \<open>store/*mysql.go\<close>: every method as the GORM query it builds, run by a server whose calls
    are the record \<open>gorm\<close>; the predicates \<open>find_spec\<close>, \<open>first_spec\<close>, \<open>count_spec\<close>, \<open>updates_spec\<close>, \<open>create_spec\<close> and
    \<open>delete_spec\<close> say what such a server does with a query. \<open>MySQLLaws\<close>: the stores over such a server
    against the memory stores, and the state machine of rooms when calls fail that have been carried out. \<open>Opening\<close>: the connection, its pool and the migrations of the six
    tables as calls, and as the steps (\<open>open_step\<close>) of several instances that start at one database.
  \<^item> \<open>Columns\<close>: the values a danmaku can have, against the columns of its table.
  \<^item> \<open>Config\<close>: \<open>config/config.go\<close>. \<open>Startup\<close>: \<open>main.go\<close>: what start-up decides from the configuration and the
    answers of the outside world (\<open>outside\<close>), the services it wires, the order of the shutdown.
  \<^item> \<open>EndToEnd\<close>: the services wired together as in \<open>main.go\<close>, and one person's requests in a row, from the
    registration to the danmaku that is listed.
  \<^item> \<open>Metrics\<close>: \<open>metrics/metrics.go\<close> and the middleware that counts requests.
  \<^item> \<open>Tracker\<close>, \<open>Benchmark\<close>, \<open>BenchRun\<close>: \<open>cmd/benchmark\<close>: the statistics of a load test, the turns of its bots, and whole runs.
  \<^item> \<open>DemoSetup\<close>, \<open>Integration\<close>: the programs in \<open>scripts\<close> over an HTTP and a WebSocket client; the first also against the
    modelled server.

  Correspondence. A Go struct is a record, a pointer that may be nil an option, a map a function
  to options or an association list where its size matters; an error is a value of \<open>go_error\<close>, a
  result with an error a sum; a panic is \<open>None\<close>. A method that locks a store is one step. Identifiers
  (\<open>uuid.New\<close>) and instants (\<open>time.Now\<close>) are arguments. The order in which Go ranges over a map, the
  order \<open>sort.Slice\<close> leaves equal elements in and the libraries for JWT, bcrypt, Unicode tables, JSON
  and Kafka are parameters; what is used of the libraries is a named predicate (\<open>jwt_spec\<close>,
  \<open>bcrypt_spec\<close>, \<open>sort_slice_spec\<close>, \<open>any_order\<close>, \<open>mysql_insert\<close>, \<open>refuses_misfits\<close>,
  \<open>must_register_spec\<close>, and \<open>ceil_exact\<close> for \<open>float64\<close>). Marshalled messages are the values that are
  marshalled. Logging and the updates of metrics are left out. Loops are structural recursion, functions
  with a measure, or \<open>partial_function\<close>s that are proved to return; \<open>match_within\<close> bounds the fail pointers that
  one match may follow, and the number of runes is proved to be enough.

  Lemma groups. Each store theory shows the laws of its interface; the services' lemmas are
  proved in the locales, so that they hold over any store that keeps the laws and may fail at
  any call, and their properties instantiate them on the memory stores. The step relations
  (\<open>user_reach\<close>, \<open>room_step\<close>, \<open>mod_step\<close>, \<open>dm_step\<close>, \<open>proto_step\<close>,
  \<open>hub_exec\<close>, \<open>cluster_step\<close>, \<open>sub_step\<close>, \<open>pump_step\<close>, \<open>open_step\<close>) carry the invariants.

  Not modelled: GORM, MySQL, Redis, Kafka, Gin and the WebSocket library themselves, the construction of the Redis client,
  the answers of the profiler and of static files, the listening and the signal in \<open>main.go\<close>, and what the
  programs that drive a server print.
\<close>

end
